(* ===== verification/Prelude.thy ===== *)
theory Prelude
  imports Main "HOL-Library.Char_ord" "HOL-Library.List_Lexorder" "HOL-Library.Sublist"
    "HOL-Library.Multiset" "HOL-Library.Word"
begin

text \<open>
  Shared vocabulary of the development: the model of Rust's \<open>str\<close>/\<open>String\<close> operations the
  code uses, the types and abbreviations that name its machine integers, results and orderings,
  and the generic lemmas on lists and maps the components share.

  A Rust \<open>String\<close> is the list of its Unicode scalar values. HOL's \<open>char\<close> holds the first
  256 of them (U+0000 to U+00FF); every operation below is defined by code point, so lengths are
  what \<open>chars().count()\<close> counts, and a byte count (\<open>str::len\<close>) is \<open>utf8_len\<close>.
\<close>

section \<open>Collections of facts\<close>

named_theorems str_defs \<open>definitions of the string operations, for evaluation\<close>
named_theorems inv_intros \<open>preservation lemmas of the component invariants\<close>
named_theorems effect_simps \<open>what an operation writes, field by field\<close>

section \<open>Machine integers, orderings\<close>

type_synonym u64 = "64 word"
type_synonym u32 = "32 word"

datatype ordering = Less | Equal | Greater

text \<open>\<open>Ordering::then_with\<close> and \<open>Ord::cmp\<close>.\<close>

definition then_with :: "ordering \<Rightarrow> ordering \<Rightarrow> ordering" where
  "then_with a b = (case a of Equal \<Rightarrow> b | _ \<Rightarrow> a)"

definition cmp :: "'a::linorder \<Rightarrow> 'a \<Rightarrow> ordering" where
  "cmp x y = (if x < y then Less else if x = y then Equal else Greater)"

text \<open>
  \<open>Iterator::max_by\<close>: a fold that keeps the later element unless the earlier one compares
  \<open>Greater\<close>, so among equal maxima the last one is returned.
\<close>

fun max_by_from :: "('a \<Rightarrow> 'a \<Rightarrow> ordering) \<Rightarrow> 'a \<Rightarrow> 'a list \<Rightarrow> 'a" where
  "max_by_from f acc [] = acc"
| "max_by_from f acc (x # xs) =
     max_by_from f (case f acc x of Greater \<Rightarrow> acc | _ \<Rightarrow> x) xs"

definition max_by :: "('a \<Rightarrow> 'a \<Rightarrow> ordering) \<Rightarrow> 'a list \<Rightarrow> 'a option" where
  "max_by f xs = (case xs of [] \<Rightarrow> None | x # xs' \<Rightarrow> Some (max_by_from f x xs'))"

lemma max_by_from_in: "max_by_from f acc xs \<in> set (acc # xs)"
proof (induction xs arbitrary: acc)
  case Nil
  then show ?case by simp
next
  case (Cons x xs)
  have "max_by_from f (case f acc x of Greater \<Rightarrow> acc | _ \<Rightarrow> x) xs
      \<in> set ((case f acc x of Greater \<Rightarrow> acc | _ \<Rightarrow> x) # xs)"
    by (rule Cons.IH)
  then show ?case by (auto split: ordering.splits)
qed

lemma max_by_None [simp]: "max_by f xs = None \<longleftrightarrow> xs = []"
  by (simp add: max_by_def split: list.splits)

lemma max_by_Nil [simp]: "max_by f [] = None"
  by (simp add: max_by_def)

lemma max_by_in: "max_by f xs = Some m \<Longrightarrow> m \<in> set xs"
  using max_by_from_in by (fastforce simp: max_by_def split: list.splits)

text \<open>
  The contract of a comparison function, as \<open>Ord\<close> states it: reflexive, antisymmetric in
  its two directions, transitive. Under it \<open>max_by\<close> returns an upper bound of the list, and
  any two orders of the same elements give equivalent results.
\<close>

locale comparator =
  fixes f :: "'a \<Rightarrow> 'a \<Rightarrow> ordering"
  assumes refl: "f x x = Equal"
    and flip: "f x y = Greater \<longleftrightarrow> f y x = Less"
    and trans: "f x y \<noteq> Greater \<Longrightarrow> f y z \<noteq> Greater \<Longrightarrow> f x z \<noteq> Greater"
begin

lemma max_by_from_upper: "\<forall>x \<in> set (acc # xs). f x (max_by_from f acc xs) \<noteq> Greater"
proof (induction xs arbitrary: acc)
  case Nil
  then show ?case by (simp add: refl)
next
  case (Cons x xs)
  let ?acc = "case f acc x of Greater \<Rightarrow> acc | _ \<Rightarrow> x"
  have IH: "\<forall>y \<in> set (?acc # xs). f y (max_by_from f ?acc xs) \<noteq> Greater"
    by (rule Cons.IH)
  have "f acc ?acc \<noteq> Greater \<and> f x ?acc \<noteq> Greater"
    using flip [of acc x] flip [of x acc] by (simp add: refl split: ordering.splits)
  moreover have "f ?acc (max_by_from f ?acc xs) \<noteq> Greater"
    using IH by simp
  ultimately have "f acc (max_by_from f ?acc xs) \<noteq> Greater"
    and "f x (max_by_from f ?acc xs) \<noteq> Greater"
    using trans [of acc ?acc] trans [of x ?acc] by blast+
  with IH show ?case by simp
qed

lemma max_by_upper: "max_by f xs = Some m \<Longrightarrow> x \<in> set xs \<Longrightarrow> f x m \<noteq> Greater"
  using max_by_from_upper by (auto simp: max_by_def split: list.splits)

lemma max_by_perm:
  assumes "set xs = set ys" and "max_by f xs = Some m" and "max_by f ys = Some m'"
  shows "f m m' = Equal"
proof -
  have "m \<in> set ys" and "m' \<in> set xs"
    using max_by_in [OF assms(2)] max_by_in [OF assms(3)] assms(1) by simp_all
  have "f m m' \<noteq> Greater" and "f m' m \<noteq> Greater"
    using max_by_upper [OF assms(3) \<open>m \<in> set ys\<close>] max_by_upper [OF assms(2) \<open>m' \<in> set xs\<close>]
    by simp_all
  moreover have "f m m' \<noteq> Less"
    using flip [of m' m] \<open>f m' m \<noteq> Greater\<close> by simp
  ultimately show ?thesis by (cases "f m m'") auto
qed

lemma less_then_le: "f x y = Less \<Longrightarrow> f y z \<noteq> Greater \<Longrightarrow> f x z = Less"
  using trans [of x y z] trans [of y z x] flip [of y x] flip [of z x]
  by (cases "f x z"; cases "f z x") auto

lemma le_then_less: "f x y \<noteq> Greater \<Longrightarrow> f y z = Less \<Longrightarrow> f x z = Less"
  using trans [of x y z] trans [of z x y] flip [of z y] flip [of z x]
  by (cases "f x z"; cases "f z x") auto

end

lemma comparator_cmp: "comparator (\<lambda>x y. cmp (k x) (k y :: 'k::linorder))"
  by unfold_locales (auto simp: cmp_def split: if_splits)

lemma comparator_cmp_rev: "comparator (\<lambda>x y. cmp (k y) (k x :: 'k::linorder))"
  by unfold_locales (auto simp: cmp_def split: if_splits)

lemma comparator_then_with:
  assumes "comparator f" and "comparator g"
  shows "comparator (\<lambda>x y. then_with (f x y) (g x y))"
proof (rule comparator.intro)
  fix x y z
  show "then_with (f x x) (g x x) = Equal"
    by (simp add: then_with_def comparator.refl [OF assms(1)] comparator.refl [OF assms(2)])
  show "then_with (f x y) (g x y) = Greater \<longleftrightarrow> then_with (f y x) (g y x) = Less"
    using comparator.flip [OF assms(1), of x y] comparator.flip [OF assms(1), of y x]
      comparator.flip [OF assms(2), of x y]
    by (cases "f x y"; cases "f y x") (simp_all add: then_with_def)
  assume "then_with (f x y) (g x y) \<noteq> Greater" and "then_with (f y z) (g y z) \<noteq> Greater"
  then have le: "f x y \<noteq> Greater" "f y z \<noteq> Greater"
    and eq: "f x y = Equal \<Longrightarrow> g x y \<noteq> Greater" "f y z = Equal \<Longrightarrow> g y z \<noteq> Greater"
    by (auto simp: then_with_def split: ordering.splits)
  show "then_with (f x z) (g x z) \<noteq> Greater"
  proof (cases "f x y = Equal \<and> f y z = Equal")
    case True
    with le eq comparator.trans [OF assms(1)] comparator.trans [OF assms(2)]
    have "f x z \<noteq> Greater" and "g x z \<noteq> Greater" by blast+
    then show ?thesis by (auto simp: then_with_def split: ordering.splits)
  next
    case False
    with le have "f x y = Less \<or> f y z = Less" by (metis ordering.exhaust)
    then have "f x z = Less"
      using le comparator.less_then_le [OF assms(1)] comparator.le_then_less [OF assms(1)] by blast
    then show ?thesis by (simp add: then_with_def)
  qed
qed

section \<open>Characters and strings\<close>

definition code :: "char \<Rightarrow> nat" where
  "code c = of_char c"

definition ascii_lower :: "char \<Rightarrow> char" where
  "ascii_lower c = (let n = code c in if 65 \<le> n \<and> n \<le> 90 then char_of (n + 32) else c)"

definition to_ascii_lowercase :: "string \<Rightarrow> string" where
  "to_ascii_lowercase s = map ascii_lower s"

text \<open>\<open>char::is_whitespace\<close> on the code points a \<open>char\<close> holds.\<close>

definition is_ws :: "char \<Rightarrow> bool" where
  "is_ws c = (let n = code c in (9 \<le> n \<and> n \<le> 13) \<or> n = 32 \<or> n = 133 \<or> n = 160)"

definition starts_with :: "string \<Rightarrow> string \<Rightarrow> bool" where
  "starts_with s p = prefix p s"

fun str_contains :: "string \<Rightarrow> string \<Rightarrow> bool" where
  "str_contains [] n = (n = [])"
| "str_contains (c # h) n = (prefix n (c # h) \<or> str_contains h n)"

definition contains_any :: "string \<Rightarrow> string list \<Rightarrow> bool" where
  "contains_any s ps = list_ex (str_contains s) ps"

definition trim_start :: "string \<Rightarrow> string" where
  "trim_start s = dropWhile is_ws s"

definition trim_end :: "string \<Rightarrow> string" where
  "trim_end s = rev (dropWhile is_ws (rev s))"

definition trim :: "string \<Rightarrow> string" where
  "trim s = trim_end (trim_start s)"

definition strip_prefix :: "string \<Rightarrow> string \<Rightarrow> string option" where
  "strip_prefix s p = (if prefix p s then Some (drop (length p) s) else None)"

text \<open>\<open>str::split_once\<close>: the text before and after the first occurrence of the delimiter.\<close>

fun split_once :: "string \<Rightarrow> string \<Rightarrow> (string \<times> string) option" where
  "split_once [] d = (if d = [] then Some ([], []) else None)"
| "split_once (c # s) d =
     (if prefix d (c # s) then Some ([], drop (length d) (c # s))
      else map_option (\<lambda>(a, b). (c # a, b)) (split_once s d))"

text \<open>\<open>str::split\<close> at a character.\<close>

fun split_char :: "char \<Rightarrow> string \<Rightarrow> string list" where
  "split_char d [] = [[]]"
| "split_char d (c # s) =
     (if c = d then [] # split_char d s
      else case split_char d s of x # xs \<Rightarrow> (c # x) # xs | [] \<Rightarrow> [[c]])"

text \<open>\<open>str::split_whitespace\<close>: the maximal runs of non-whitespace characters.\<close>

fun split_ws_acc :: "string \<Rightarrow> string \<Rightarrow> string list" where
  "split_ws_acc acc [] = (if acc = [] then [] else [rev acc])"
| "split_ws_acc acc (c # s) =
     (if is_ws c then (if acc = [] then [] else [rev acc]) @ split_ws_acc [] s
      else split_ws_acc (c # acc) s)"

definition split_whitespace :: "string \<Rightarrow> string list" where
  "split_whitespace s = split_ws_acc [] s"

text \<open>\<open>str::lines\<close>: lines end at a newline, which is dropped with a carriage return before it;
  a last line without one is kept, an empty last one is not.\<close>

definition strip_cr :: "string \<Rightarrow> string" where
  "strip_cr l = (if l \<noteq> [] \<and> last l = CHR 0x0D then butlast l else l)"

fun lines_acc :: "string \<Rightarrow> string \<Rightarrow> string list" where
  "lines_acc acc [] = (if acc = [] then [] else [rev acc])"
| "lines_acc acc (c # s) =
     (if c = CHR ''\<newline>'' then strip_cr (rev acc) # lines_acc [] s else lines_acc (c # acc) s)"

definition str_lines :: "string \<Rightarrow> string list" where
  "str_lines s = lines_acc [] s"

fun join :: "string \<Rightarrow> string list \<Rightarrow> string" where
  "join sep [] = []"
| "join sep [x] = x"
| "join sep (x # y # ys) = x @ sep @ join sep (y # ys)"

definition replace_char :: "char \<Rightarrow> string \<Rightarrow> string \<Rightarrow> string" where
  "replace_char c r s = concat (map (\<lambda>x. if x = c then r else [x]) s)"

text \<open>A preview of at most \<open>n\<close> characters, with an ellipsis when characters were cut.\<close>

definition ellipsis :: string where
  "ellipsis = ''...''"

definition newline :: string where
  "newline = [CHR ''\<newline>'']"

text \<open>Bytes of the UTF-8 encoding.\<close>

definition utf8_width :: "char \<Rightarrow> nat" where
  "utf8_width c = (if code c < 128 then 1 else 2)"

definition utf8_len :: "string \<Rightarrow> nat" where
  "utf8_len s = sum_list (map utf8_width s)"

text \<open>Decimal output of an unsigned integer and of a signed one; \<open>str::parse\<close> of an
  unsigned integer below a bound.\<close>

fun dec_of_nat :: "nat \<Rightarrow> string" where
  "dec_of_nat n =
     (if n < 10 then [char_of (48 + n)] else dec_of_nat (n div 10) @ [char_of (48 + n mod 10)])"

declare dec_of_nat.simps [simp del]

definition dec_of_int :: "int \<Rightarrow> string" where
  "dec_of_int i = (if i < 0 then ''-'' @ dec_of_nat (nat (- i)) else dec_of_nat (nat i))"

definition is_digit :: "char \<Rightarrow> bool" where
  "is_digit c = (48 \<le> code c \<and> code c \<le> 57)"

definition digits_value :: "string \<Rightarrow> nat" where
  "digits_value s = foldl (\<lambda>n c. 10 * n + (code c - 48)) 0 s"

definition parse_digits :: "string \<Rightarrow> nat option" where
  "parse_digits s = (if s \<noteq> [] \<and> list_all is_digit s then Some (digits_value s) else None)"

text \<open>Being a \<open>u64\<close>; decided on binary integers.\<close>

definition fits_u64 :: "nat \<Rightarrow> bool" where
  fits_u64_def [simp]: "fits_u64 n \<longleftrightarrow> n < 2 ^ 64"

lemma fits_u64_int [code]: "fits_u64 n \<longleftrightarrow> int n < 18446744073709551616"
  by simp

text \<open>\<open>parse::<usize>\<close> (and \<open>u64\<close>): an optional plus sign, then digits, below \<open>2^64\<close>.\<close>

definition parse_u64 :: "string \<Rightarrow> nat option" where
  "parse_u64 s =
     (case parse_digits (case s of c # t \<Rightarrow> if c = CHR ''+'' then t else s | [] \<Rightarrow> s) of
        None \<Rightarrow> None | Some n \<Rightarrow> if fits_u64 n then Some n else None)"

text \<open>\<open>parse::<i32>\<close>.\<close>

definition parse_i32 :: "string \<Rightarrow> int option" where
  "parse_i32 s =
     (case s of
        [] \<Rightarrow> None
      | c # t \<Rightarrow>
          (case parse_digits (if c = CHR ''+'' \<or> c = CHR ''-'' then t else s) of
             None \<Rightarrow> None
           | Some n \<Rightarrow>
               (let v = (if c = CHR ''-'' then - int n else int n)
                in if - (2 ^ 31) \<le> v \<and> v < 2 ^ 31 then Some v else None)))"

declare ascii_lower_def [str_defs] to_ascii_lowercase_def [str_defs] is_ws_def [str_defs]
  starts_with_def [str_defs] contains_any_def [str_defs] trim_start_def [str_defs]
  trim_end_def [str_defs] trim_def [str_defs] strip_prefix_def [str_defs]
  split_whitespace_def [str_defs] str_lines_def [str_defs] replace_char_def [str_defs]
  code_def [str_defs]

section \<open>Environment and hexadecimal digits\<close>

type_synonym environment = "string \<Rightarrow> string option"

text \<open>A variable that is set and not blank.\<close>

definition env_text :: "environment \<Rightarrow> string \<Rightarrow> string option" where
  "env_text env k = (case env k of Some v \<Rightarrow> if trim v = [] then None else Some v | None \<Rightarrow> None)"

definition hex_digit :: "nat \<Rightarrow> char" where
  "hex_digit n = ''0123456789abcdef'' ! n"

section \<open>Ordered sets, JSON values\<close>

text \<open>A \<open>BTreeSet\<close> collected into a vector: the elements once each, in ascending order.\<close>

definition btree_set :: "'a::linorder list \<Rightarrow> 'a list" where
  "btree_set xs = sort (remdups xs)"

lemma set_btree_set [simp]: "set (btree_set xs) = set xs"
  by (simp add: btree_set_def)

lemma sorted_btree_set [simp]: "sorted (btree_set xs)" "distinct (btree_set xs)"
  by (simp_all add: btree_set_def)

lemma btree_set_cong: "set xs = set ys \<Longrightarrow> btree_set xs = btree_set ys"
  unfolding btree_set_def by (metis distinct_remdups distinct_sort set_remdups set_sort
      sorted_distinct_set_unique sorted_sort)

text \<open>The values of \<open>serde_json\<close>; an object is its list of entries in the order it iterates. Parsing
  and printing them is the library's and is a parameter wherever the code calls it.\<close>

datatype json_number = PosInt nat | NegInt int | Float string

datatype json =
  JNull | JBool bool | JNumber json_number | JString string | JArray "json list"
| JObject "(string \<times> json) list"

definition as_str :: "json \<Rightarrow> string option" where
  "as_str v = (case v of JString s \<Rightarrow> Some s | _ \<Rightarrow> None)"

definition as_bool :: "json \<Rightarrow> bool option" where
  "as_bool v = (case v of JBool b \<Rightarrow> Some b | _ \<Rightarrow> None)"

definition as_u64 :: "json \<Rightarrow> nat option" where
  "as_u64 v = (case v of JNumber (PosInt n) \<Rightarrow> Some n | _ \<Rightarrow> None)"

definition json_get :: "json \<Rightarrow> string \<Rightarrow> json option" where
  "json_get v k = (case v of JObject kvs \<Rightarrow> map_of kvs k | _ \<Rightarrow> None)"

text \<open>A \<open>HashMap<String, String>\<close> is its list of entries in iteration order, with distinct keys.\<close>

type_synonym str_map = "(string \<times> string) list"

section \<open>Lemmas on strings\<close>

lemma str_contains_iff: "str_contains h n \<longleftrightarrow> (\<exists>a b. h = a @ n @ b)"
proof (induction h)
  case Nil
  then show ?case by auto
next
  case (Cons c h)
  have "(\<exists>a b. c # h = a @ n @ b) \<longleftrightarrow> prefix n (c # h) \<or> (\<exists>a b. h = a @ n @ b)"
    unfolding prefix_def by (metis append_Cons append_Nil list.inject neq_Nil_conv)
  with Cons.IH show ?case by simp
qed

lemma str_containsI: "h = a @ n @ b \<Longrightarrow> str_contains h n"
  by (auto simp: str_contains_iff)

lemma str_contains_append: "str_contains h n \<Longrightarrow> str_contains (a @ h @ b) n"
  by (metis append.assoc str_contains_iff)

lemma to_ascii_lowercase_append [simp]:
  "to_ascii_lowercase (a @ b) = to_ascii_lowercase a @ to_ascii_lowercase b"
  by (simp add: to_ascii_lowercase_def)

lemma join_append:
  "xs \<noteq> [] \<Longrightarrow> ys \<noteq> [] \<Longrightarrow> join sep (xs @ ys) = join sep xs @ sep @ join sep ys"
proof (induction sep xs rule: join.induct)
  case (2 sep x)
  then show ?case by (cases ys) auto
qed auto

lemma join_Cons: "join sep (x # xs) = x @ (if xs = [] then [] else sep @ join sep xs)"
  by (cases xs) auto

lemma lowercase_join:
  "to_ascii_lowercase (join sep xs)
   = join (to_ascii_lowercase sep) (map to_ascii_lowercase xs)"
  by (induction sep xs rule: join.induct) (auto simp: to_ascii_lowercase_def)

lemma join_contains: "mid \<noteq> [] \<Longrightarrow> str_contains (join sep (pre @ mid @ post)) (join sep mid)"
proof (induction pre)
  case Nil
  have self: "str_contains (join sep mid @ b) (join sep mid)" for b
    by (rule str_containsI [of _ "[]" _ b]) simp
  show ?case
  proof (cases "post = []")
    case True
    with self [of "[]"] show ?thesis by simp
  next
    case False
    have "join sep ([] @ mid @ post) = join sep mid @ sep @ join sep post"
      unfolding append_Nil by (rule join_append [OF Nil False])
    then show ?thesis using self [of "sep @ join sep post"] by simp
  qed
next
  case (Cons x pre)
  then have "str_contains ((x @ sep) @ join sep (pre @ mid @ post) @ []) (join sep mid)"
    by (intro str_contains_append) simp
  with Cons.prems show ?case by (simp add: join_Cons)
qed

text \<open>Splitting at whitespace yields nonempty tokens free of it, and joining them with single spaces
  is a normal form.\<close>

lemma split_ws_acc_tokens:
  "\<forall>c \<in> set acc. \<not> is_ws c \<Longrightarrow> t \<in> set (split_ws_acc acc s) \<Longrightarrow> t \<noteq> [] \<and> (\<forall>c \<in> set t. \<not> is_ws c)"
proof (induction s arbitrary: acc)
  case Nil
  then show ?case by (simp split: if_splits)
next
  case (Cons c s)
  show ?case
  proof (cases "is_ws c")
    case True
    with Cons.prems consider "t = rev acc" "acc \<noteq> []" | "t \<in> set (split_ws_acc [] s)"
      by (auto split: if_splits)
    then show ?thesis
    proof cases
      case 1
      with Cons.prems(1) show ?thesis by simp
    next
      case 2
      with Cons.IH [of "[]"] show ?thesis by simp
    qed
  next
    case False
    with Cons.prems Cons.IH [of "c # acc"] show ?thesis by simp
  qed
qed

lemma split_whitespace_tokens:
  "t \<in> set (split_whitespace s) \<Longrightarrow> t \<noteq> [] \<and> (\<forall>c \<in> set t. \<not> is_ws c)"
  unfolding split_whitespace_def by (rule split_ws_acc_tokens [of "[]"]) simp_all

lemma split_ws_acc_token:
  "\<forall>c \<in> set t. \<not> is_ws c \<Longrightarrow> split_ws_acc acc (t @ s) = split_ws_acc (rev t @ acc) s"
  by (induction t arbitrary: acc) auto

lemma split_whitespace_join:
  assumes "\<forall>t \<in> set ts. t \<noteq> [] \<and> (\<forall>c \<in> set t. \<not> is_ws c)"
  shows "split_whitespace (join '' '' ts) = ts"
proof -
  have space: "is_ws (CHR '' '')" by code_simp
  have "split_ws_acc [] (join '' '' ts) = ts"
    using assms
  proof (induction ts)
    case Nil
    then show ?case by simp
  next
    case (Cons t ts)
    then have t: "\<forall>c \<in> set t. \<not> is_ws c" "t \<noteq> []" and IH: "split_ws_acc [] (join '' '' ts) = ts"
      by auto
    show ?case
    proof (cases "ts = []")
      case True
      then show ?thesis using split_ws_acc_token [OF t(1), of "[]" "[]"] t(2) by simp
    next
      case False
      then show ?thesis
        using split_ws_acc_token [OF t(1), of "[]" "CHR '' '' # join '' '' ts"] t(2) IH space
        by (simp add: join_Cons)
    qed
  qed
  then show ?thesis by (simp add: split_whitespace_def)
qed

section \<open>Lines and delimiters\<close>

definition single_line :: "string \<Rightarrow> bool" where
  "single_line l \<longleftrightarrow> CHR ''\<newline>'' \<notin> set l \<and> (l = [] \<or> last l \<noteq> CHR 0x0D)"

lemma strip_cr_single [simp]: "single_line l \<Longrightarrow> strip_cr l = l"
  by (auto simp: strip_cr_def single_line_def)

lemma single_line_append [simp]:
  "CHR ''\<newline>'' \<notin> set p \<Longrightarrow> p \<noteq> [] \<Longrightarrow> last p \<noteq> CHR 0x0D \<Longrightarrow> single_line v \<Longrightarrow> single_line (p @ v)"
  by (cases "v = []") (auto simp: single_line_def)

lemma lines_acc_line:
  "CHR ''\<newline>'' \<notin> set l \<Longrightarrow> lines_acc acc (l @ s) = lines_acc (rev l @ acc) s"
  by (induction l arbitrary: acc) auto

lemma str_lines_join:
  assumes "\<forall>l \<in> set ls. single_line l" and "ls \<noteq> []" and "last ls \<noteq> []"
  shows "str_lines (join newline ls) = ls"
proof -
  have "lines_acc [] (join newline ls) = ls"
    using assms
  proof (induction ls)
    case Nil
    then show ?case by simp
  next
    case (Cons l ls)
    have l: "CHR ''\<newline>'' \<notin> set l" "strip_cr l = l" using Cons.prems(1) by (auto simp: single_line_def)
    show ?case
    proof (cases "ls = []")
      case True
      with Cons.prems l lines_acc_line [OF l(1), of "[]" "[]"] show ?thesis by simp
    next
      case False
      then have "lines_acc [] (join newline ls) = ls" using Cons by auto
      then show ?thesis
        using False l lines_acc_line [OF l(1), of "[]" "newline @ join newline ls"]
        by (simp add: join_Cons newline_def)
    qed
  qed
  then show ?thesis by (simp add: str_lines_def)
qed

text \<open>The delimiter splits where it first occurs.\<close>

lemma split_once_first:
  "d \<noteq> [] \<Longrightarrow> \<not> str_contains (a @ butlast d) d \<Longrightarrow> split_once (a @ d @ b) d = Some (a, b)"
proof (induction a)
  case Nil
  then show ?case by (cases d) (auto simp: prefix_def)
next
  case (Cons c a)
  from Cons.prems have no: "\<not> prefix d (c # a @ butlast d)" "\<not> str_contains (a @ butlast d) d" by auto
  have "\<not> prefix d (c # a @ d @ b)"
  proof
    assume p: "prefix d (c # a @ d @ b)"
    have "c # a @ d @ b = (c # a @ butlast d) @ last d # b" using Cons.prems(1) by simp
    moreover have "length d \<le> length (c # a @ butlast d)" using Cons.prems(1) by simp
    ultimately have "prefix d (c # a @ butlast d)"
      using p by (metis prefix_length_prefix prefixI)
    with no show False by simp
  qed
  moreover have "split_once (a @ d @ b) d = Some (a, b)" using Cons no(2) by simp
  ultimately show ?case by simp
qed

lemma split_once_skip:
  assumes "CHR ''\<newline>'' \<notin> set l"
  shows "split_once (l @ s) (newline @ x) = map_option (\<lambda>(a, b). (l @ a, b)) (split_once s (newline @ x))"
  using assms
proof (induction l)
  case Nil
  then show ?case by (simp add: option.map_ident case_prod_beta)
next
  case (Cons c l)
  then show ?case by (auto simp: newline_def option.map_comp case_prod_beta comp_def)
qed

lemma takeWhile_line:
  "CHR ''\<newline>'' \<notin> set m \<Longrightarrow> takeWhile (\<lambda>c. c \<noteq> CHR ''\<newline>'') (m @ newline @ u) = m"
  by (induction m) (auto simp: newline_def)

text \<open>A delimiter line splits a text of lines at the first line equal to it after the first.\<close>

lemma split_once_line:
  assumes "\<forall>l \<in> set ls. CHR ''\<newline>'' \<notin> set l" and "ls \<noteq> []" and "x \<notin> set (tl ls)"
    and "CHR ''\<newline>'' \<notin> set x"
  shows "split_once (join newline ls @ newline @ x @ newline @ rest) (newline @ x @ newline)
      = Some (join newline ls, rest)"
  using assms
proof (induction ls)
  case Nil
  then show ?case by simp
next
  case (Cons l ls)
  have l: "CHR ''\<newline>'' \<notin> set l" using Cons.prems by simp
  show ?case
  proof (cases ls)
    case Nil
    have "split_once (newline @ x @ newline @ rest) (newline @ x @ newline) = Some ([], rest)"
      by (simp add: newline_def prefix_def)
    then show ?thesis using Nil split_once_skip [OF l] by simp
  next
    case (Cons m ms)
    let ?t = "join newline ls @ newline @ x @ newline @ rest"
    have m: "CHR ''\<newline>'' \<notin> set m" "m \<noteq> x" using Cons.prems Cons by auto
    obtain u where u: "?t = m @ newline @ u" by (cases ms) (auto simp: Cons)
    have "\<not> prefix (x @ newline) (m @ newline @ u)"
    proof
      assume "prefix (x @ newline) (m @ newline @ u)"
      then obtain z where "m @ newline @ u = x @ newline @ z" by (auto simp: prefix_def)
      then have "m = x"
        using takeWhile_line [OF m(1), of u] takeWhile_line [OF Cons.prems(4), of z] by simp
      with m(2) show False by simp
    qed
    then have np: "\<not> prefix (newline @ x @ newline) (CHR ''\<newline>'' # ?t)"
      unfolding u by (simp add: newline_def)
    have "split_once ?t (newline @ x @ newline) = Some (join newline ls, rest)"
      by (rule Cons.IH) (use Cons.prems Cons in auto)
    with np have "split_once (newline @ ?t) (newline @ x @ newline) = Some (newline @ join newline ls, rest)"
      by (simp add: newline_def)
    then show ?thesis
      using split_once_skip [OF l, of "newline @ ?t" "x @ newline"] Cons by (simp add: join_Cons)
  qed
qed

section \<open>Decimal round trip\<close>

lemma code_digit: "n < (10::nat) \<Longrightarrow> code (char_of (48 + n)) = 48 + n"
  by (simp add: code_def)

lemma is_digit_digit [simp]: "n < (10::nat) \<Longrightarrow> is_digit (char_of (48 + n))"
  by (simp add: is_digit_def code_digit)

lemma digits_value_snoc: "digits_value (s @ [c]) = 10 * digits_value s + (code c - 48)"
  by (simp add: digits_value_def)

lemma dec_of_nat_digits: "dec_of_nat n \<noteq> [] \<and> list_all is_digit (dec_of_nat n) \<and> digits_value (dec_of_nat n) = n"
proof (induction n rule: dec_of_nat.induct)
  case (1 n)
  show ?case
  proof (cases "n < 10")
    case True
    then show ?thesis
      by (subst (1 2 3) dec_of_nat.simps) (simp add: digits_value_def code_digit)
  next
    case False
    with 1 show ?thesis
      by (subst (1 2 3) dec_of_nat.simps) (simp add: digits_value_snoc code_digit)
  qed
qed

lemma parse_digits_dec [simp]: "parse_digits (dec_of_nat n) = Some n"
  using dec_of_nat_digits [of n] by (simp add: parse_digits_def)

lemma dec_of_nat_hd: "\<exists>c t. dec_of_nat n = c # t \<and> is_digit c"
  using dec_of_nat_digits [of n] by (cases "dec_of_nat n") auto

lemma parse_i32_dec_of_int:
  assumes "- (2 ^ 31) \<le> i" and "i < 2 ^ 31"
  shows "parse_i32 (dec_of_int i) = Some i"
proof (cases "i < 0")
  case True
  with assms show ?thesis by (simp add: parse_i32_def dec_of_int_def Let_def)
next
  case False
  obtain c t where ct: "dec_of_nat (nat i) = c # t" "is_digit c" using dec_of_nat_hd by blast
  then have "c \<noteq> CHR ''+''" "c \<noteq> CHR ''-''" by (auto simp: is_digit_def code_def)
  moreover have "parse_digits (c # t) = Some (nat i)" using ct(1) parse_digits_dec [of "nat i"] by simp
  ultimately show ?thesis using assms False ct(1) by (simp add: parse_i32_def dec_of_int_def Let_def)
qed

lemma dec_of_nat_no_newline: "CHR ''\<newline>'' \<notin> set (dec_of_nat n)"
  using dec_of_nat_digits [of n] by (auto simp: list_all_iff is_digit_def code_def)

lemma single_line_dec_of_int [simp]: "single_line (dec_of_int i)" "dec_of_int i \<noteq> []"
proof -
  have "last (dec_of_nat n) \<noteq> CHR 0x0D \<and> dec_of_nat n \<noteq> []" for n
  proof -
    have "is_digit (last (dec_of_nat n))"
      using dec_of_nat_digits [of n] by (simp add: list_all_iff)
    then show ?thesis using dec_of_nat_digits [of n] by (auto simp: is_digit_def code_def)
  qed
  then show "single_line (dec_of_int i)" "dec_of_int i \<noteq> []"
    using dec_of_nat_no_newline by (auto simp: single_line_def dec_of_int_def)
qed

section \<open>Previews\<close>

text \<open>The truncation several modules write out for themselves: the first \<open>n\<close> characters and an
  ellipsis.\<close>

definition cut_preview :: "string \<Rightarrow> nat \<Rightarrow> string" where
  "cut_preview s n = (if length s \<le> n then s else take n s @ ellipsis)"

definition escape_newlines :: "string \<Rightarrow> string" where
  "escape_newlines s = replace_char (CHR 0x0D) [CHR 0x5C, CHR ''r''] (replace_char (CHR ''\<newline>'') [CHR 0x5C, CHR ''n''] s)"

lemma length_cut_preview: "length (cut_preview s n) \<le> n + 3"
  by (simp add: cut_preview_def ellipsis_def)


section \<open>Queues of bounded length\<close>

text \<open>Several components keep the last few entries of what they are given. Their contract: pushing
  appends, then drops from the front down to the capacity.\<close>

definition last_n :: "nat \<Rightarrow> 'a list \<Rightarrow> 'a list" where
  "last_n n xs = drop (length xs - n) xs"

lemma length_last_n [simp]: "length (last_n n xs) = min n (length xs)"
  by (simp add: last_n_def min_def)

lemma last_n_all: "length xs \<le> n \<Longrightarrow> last_n n xs = xs"
  by (simp add: last_n_def)

lemma last_n_append: "last_n n (last_n n xs @ ys) = last_n n (xs @ ys)"
  by (cases "length xs \<le> n") (auto simp: last_n_def add.commute)

lemma last_n_suffix: "suffix (last_n n xs) xs"
  by (simp add: last_n_def suffix_drop)

lemma set_last_n: "set (last_n n xs) \<subseteq> set xs"
  by (simp add: last_n_def set_drop_subset)

locale bounded_queue =
  fixes push :: "'a \<Rightarrow> 'q \<Rightarrow> 'q" and items :: "'q \<Rightarrow> 'a list" and ok :: "'q \<Rightarrow> bool" and cap :: nat
  assumes ok_length: "ok q \<Longrightarrow> length (items q) \<le> cap"
    and push_ok: "ok q \<Longrightarrow> ok (push x q)"
    and push_items: "ok q \<Longrightarrow> items (push x q) = last_n cap (items q @ [x])"
begin

lemma fold_ok: "ok q \<Longrightarrow> ok (fold push xs q)"
  by (induction xs arbitrary: q) (simp_all add: push_ok)

lemma fold_items: "ok q \<Longrightarrow> items (fold push xs q) = last_n cap (items q @ xs)"
proof (induction xs arbitrary: q)
  case Nil
  then show ?case using ok_length by (simp add: last_n_all)
next
  case (Cons x xs)
  have "items (fold push (x # xs) q) = last_n cap (last_n cap (items q @ [x]) @ xs)"
    using Cons.IH [of "push x q"] Cons.prems by (simp add: push_ok push_items)
  then show ?case by (simp add: last_n_append)
qed

lemma fold_bounded: "ok q \<Longrightarrow> length (items (fold push xs q)) \<le> cap"
  using ok_length fold_ok by blast

lemma newest_kept: "ok q \<Longrightarrow> 0 < cap \<Longrightarrow> items (push x q) \<noteq> [] \<and> last (items (push x q)) = x"
  by (simp add: push_items last_n_def)

end

end
