(* ===== verification/Protocol.thy ===== *)
theory Protocol
  imports Prelude
begin

text \<open>
  The wire vocabulary of \<open>openjax-protocol/src/lib.rs\<close>: operations submitted to an agent and the
  events it emits. Identifiers and counters are natural numbers. The \<open>f64\<close> ratio of
  \<open>ContextUsageUpdated\<close> is kept as the pair of integers it is the quotient of.
\<close>

section \<open>Agents and operations\<close>

datatype thread_id = ThreadId nat

text \<open>\<open>ThreadId::new\<close> draws from a process-wide counter, which is passed along.\<close>

definition thread_id_new :: "nat \<Rightarrow> thread_id \<times> nat" where
  "thread_id_new counter = (ThreadId counter, Suc counter)"

datatype agent_source = Root | SubAgent thread_id int

definition PROTOCOL_MAX_AGENT_DEPTH :: int where
  "PROTOCOL_MAX_AGENT_DEPTH = 1"

datatype op =
  UserTurn string
| SpawnAgent string agent_source
| SendToAgent thread_id string
| InterruptAgent thread_id
| ResumeAgent string agent_source
| Shutdown

section \<open>Events\<close>

record shell_metadata =
  sm_result_class :: string
  sm_backend :: string
  sm_exit_code :: int
  sm_policy_decision :: string
  sm_runtime_allowed :: bool
  sm_degrade_reason :: "string option"
  sm_runtime_deny_reason :: "string option"

datatype approval_kind = Normal | Escalation

datatype stream_source = ModelLive | Synthetic | Replay | UnknownSource

text \<open>A \<open>BTreeMap\<close> of arguments is its list of entries in key order.\<close>

record tool_call_proposal =
  tp_tool_call_id :: string
  tp_tool_name :: string
  tp_arguments :: "(string \<times> string) list"
  tp_depends_on :: "string list"
  tp_concurrency_group :: "string option"

datatype agent_status =
  PendingInit | Running | CompletedStatus "string option" | Errored string | Interrupted
| ShutdownStatus | NotFound

record approval_request_event =
  ar_turn_id :: nat
  ar_request_id :: string
  ar_target :: string
  ar_reason :: string
  ar_policy_version :: "u64 option"
  ar_matched_rule_id :: "string option"
  ar_tool_name :: "string option"
  ar_command_preview :: "string option"
  ar_risk_tags :: "string list"
  ar_sandbox_backend :: "string option"
  ar_degrade_reason :: "string option"
  ar_approval_kind :: "approval_kind option"

text \<open>
  Arguments in the order of the source's fields; a \<open>display_name\<close> comes where the source has it.
\<close>

datatype event =
  TurnStarted nat
| ToolCallStarted nat string string "string option" "string option"
| ToolCallCompleted nat string string bool string "shell_metadata option" "string option"
| ToolCallArgsDelta nat string string string "string option"
| ToolCallReady nat string string "string option" "string option"
| ToolCallProgress nat string string string "string option"
| ToolCallFailed nat string string string string bool "string option"
| AssistantMessage nat string
| ResponseStarted nat stream_source
| ResponseTextDelta nat string stream_source
| ReasoningDelta nat string stream_source
| ToolCallsProposed nat "tool_call_proposal list"
| ToolBatchCompleted nat nat nat nat
| ResponseResumed nat stream_source
| ResponseCompleted nat string stream_source
| LoopWarning nat string nat
| ResponseError nat string string bool
| ApprovalRequested approval_request_event
| ApprovalResolved nat string bool
| ContextUsageUpdated nat nat nat "nat \<times> nat"
| AgentSpawned "thread_id option" thread_id
| AgentStatusChanged thread_id agent_status
| ContextCompacted nat nat nat string
| TurnCompleted nat
| ShutdownComplete

text \<open>The turn an event belongs to, when it names one.\<close>

fun event_turn :: "event \<Rightarrow> nat option" where
  "event_turn (TurnStarted t) = Some t"
| "event_turn (ToolCallStarted t _ _ _ _) = Some t"
| "event_turn (ToolCallCompleted t _ _ _ _ _ _) = Some t"
| "event_turn (ToolCallArgsDelta t _ _ _ _) = Some t"
| "event_turn (ToolCallReady t _ _ _ _) = Some t"
| "event_turn (ToolCallProgress t _ _ _ _) = Some t"
| "event_turn (ToolCallFailed t _ _ _ _ _ _) = Some t"
| "event_turn (AssistantMessage t _) = Some t"
| "event_turn (ResponseStarted t _) = Some t"
| "event_turn (ResponseTextDelta t _ _) = Some t"
| "event_turn (ReasoningDelta t _ _) = Some t"
| "event_turn (ToolCallsProposed t _) = Some t"
| "event_turn (ToolBatchCompleted t _ _ _) = Some t"
| "event_turn (ResponseResumed t _) = Some t"
| "event_turn (ResponseCompleted t _ _) = Some t"
| "event_turn (LoopWarning t _ _) = Some t"
| "event_turn (ResponseError t _ _ _) = Some t"
| "event_turn (ApprovalRequested r) = Some (ar_turn_id r)"
| "event_turn (ApprovalResolved t _ _) = Some t"
| "event_turn (ContextUsageUpdated t _ _ _) = Some t"
| "event_turn (AgentSpawned _ _) = None"
| "event_turn (AgentStatusChanged _ _) = None"
| "event_turn (ContextCompacted t _ _ _) = Some t"
| "event_turn (TurnCompleted t) = Some t"
| "event_turn ShutdownComplete = None"

end
