(* ===== verification/LoopDetector.thy ===== *)
theory LoopDetector
  imports Prelude
begin

text \<open>
  The loop detector of \<open>openjax-core/src/agent/loop_detector.rs\<close>: a window of the last sixteen tool
  calls, a warning at the fifth identical call in a row and a halt when the warned call comes again.
  A call is the pair of its tool name and the string its arguments serialise to.
\<close>

section \<open>State and operations\<close>

datatype loop_signal = NoSignal | Warned | Halt

type_synonym call_key = "string \<times> string"

record loop_detector =
  ld_window :: "call_key list"
  ld_state :: loop_signal
  ld_warned_tool :: "call_key option"
  ld_window_capacity :: nat
  ld_warn_threshold :: nat

definition ld_new :: loop_detector where
  "ld_new = \<lparr>ld_window = [], ld_state = NoSignal, ld_warned_tool = None,
             ld_window_capacity = 16, ld_warn_threshold = 5\<rparr>"

definition ld_push :: "call_key \<Rightarrow> loop_detector \<Rightarrow> loop_detector" where
  "ld_push key d =
     (let w = ld_window d @ [key]
      in d\<lparr>ld_window := (if length w > ld_window_capacity d then tl w else w)\<rparr>)"

definition consecutive_count :: "call_key \<Rightarrow> call_key list \<Rightarrow> nat" where
  "consecutive_count key w = length (takeWhile (\<lambda>k. k = key) (rev w))"

definition ld_observe :: "call_key \<Rightarrow> loop_detector \<Rightarrow> loop_signal \<times> loop_detector" where
  "ld_observe key d =
     (let d' = ld_push key d
      in if consecutive_count key (ld_window d') \<ge> ld_warn_threshold d'
         then (Warned, d'\<lparr>ld_state := Warned, ld_warned_tool := Some key\<rparr>)
         else (NoSignal, d'))"

definition check_and_advance :: "string \<Rightarrow> string \<Rightarrow> loop_detector \<Rightarrow> loop_signal \<times> loop_detector" where
  "check_and_advance tool_name args_hash d =
     (let key = (tool_name, args_hash)
      in if ld_state d = Warned then
           if Some key = ld_warned_tool d then (Halt, d\<lparr>ld_state := Halt\<rparr>)
           else ld_observe key (d\<lparr>ld_state := NoSignal, ld_warned_tool := None\<rparr>)
         else ld_observe key d)"

text \<open>The recovery text is a fixed Chinese sentence of the source, passed in as \<open>text\<close>.\<close>

definition recovery_prompt :: "string \<Rightarrow> loop_detector \<Rightarrow> string option" where
  "recovery_prompt text d = (if ld_state d = Warned then Some text else None)"

definition ld_reset :: "loop_detector \<Rightarrow> loop_detector" where
  "ld_reset d = d\<lparr>ld_window := [], ld_state := NoSignal, ld_warned_tool := None\<rparr>"

fun ld_run :: "call_key list \<Rightarrow> loop_detector \<Rightarrow> loop_signal list \<times> loop_detector" where
  "ld_run [] d = ([], d)"
| "ld_run (k # ks) d =
     (let (s, d') = check_and_advance (fst k) (snd k) d; (ss, d'') = ld_run ks d' in (s # ss, d''))"

section \<open>Invariant\<close>

text \<open>The window never exceeds its capacity, the thresholds stay as constructed, and a warned tool
  is remembered exactly while the detector has warned.\<close>

definition ld_inv :: "loop_detector \<Rightarrow> bool" where
  "ld_inv d \<longleftrightarrow> ld_window_capacity d = 16 \<and> ld_warn_threshold d = 5
     \<and> length (ld_window d) \<le> 16
     \<and> (ld_state d = NoSignal \<longrightarrow> ld_warned_tool d = None)
     \<and> (ld_state d = Warned \<longrightarrow> (\<exists>k. ld_warned_tool d = Some k
          \<and> 5 \<le> consecutive_count k (ld_window d)))"

lemma consecutive_count_le [simp]: "consecutive_count k w \<le> length w"
  unfolding consecutive_count_def by (metis length_rev length_takeWhile_le)

lemma consecutive_count_Nil [simp]: "consecutive_count k [] = 0"
  by (simp add: consecutive_count_def)

lemma consecutive_count_snoc [simp]:
  "consecutive_count k (w @ [x]) = (if x = k then Suc (consecutive_count k w) else 0)"
  by (simp add: consecutive_count_def)

lemma ld_inv_new [inv_intros]: "ld_inv ld_new"
  by (simp add: ld_inv_def ld_new_def)

lemma ld_inv_reset [inv_intros]: "ld_inv d \<Longrightarrow> ld_inv (ld_reset d)"
  by (simp add: ld_inv_def ld_reset_def)

text \<open>The window is a bounded queue.\<close>

interpretation window_queue: bounded_queue ld_push ld_window
    "\<lambda>d. ld_window_capacity d = 16 \<and> length (ld_window d) \<le> 16" 16
proof unfold_locales
  fix d :: loop_detector and x
  assume ok: "ld_window_capacity d = 16 \<and> length (ld_window d) \<le> 16"
  show "length (ld_window d) \<le> 16" using ok by simp
  show "ld_window_capacity (ld_push x d) = 16 \<and> length (ld_window (ld_push x d)) \<le> 16"
    using ok by (auto simp: ld_push_def Let_def)
  show "ld_window (ld_push x d) = last_n 16 (ld_window d @ [x])"
    using ok by (cases "length (ld_window d) = 16") (auto simp: ld_push_def Let_def last_n_def drop_Suc tl_append split: list.split)
qed

text \<open>Dropping the oldest call of a full window cannot reach a run of at most fifteen at its end.\<close>

lemma consecutive_count_replicate:
  "w = pre @ replicate n k \<Longrightarrow> pre = [] \<or> last pre \<noteq> k \<Longrightarrow> consecutive_count k w = n"
proof -
  assume w: "w = pre @ replicate n k" and pre: "pre = [] \<or> last pre \<noteq> k"
  have "takeWhile (\<lambda>x. x = k) (rev pre) = []"
    using pre by (cases pre rule: rev_cases) auto
  then show ?thesis
    unfolding consecutive_count_def w by (simp add: takeWhile_append)
qed

lemma window_split:
  obtains pre where "w = pre @ replicate (consecutive_count k w) k" "pre = [] \<or> last pre \<noteq> k"
proof -
  let ?n = "consecutive_count k w"
  have "rev w = takeWhile (\<lambda>x. x = k) (rev w) @ dropWhile (\<lambda>x. x = k) (rev w)" by simp
  moreover have "takeWhile (\<lambda>x. x = k) (rev w) = replicate ?n k"
    unfolding consecutive_count_def
    by (metis (mono_tags, lifting) replicate_eqI set_takeWhileD)
  ultimately have "w = rev (dropWhile (\<lambda>x. x = k) (rev w)) @ replicate ?n k"
    by (metis rev_append rev_replicate rev_rev_ident)
  moreover have "rev (dropWhile (\<lambda>x. x = k) (rev w)) = []
      \<or> last (rev (dropWhile (\<lambda>x. x = k) (rev w))) \<noteq> k"
    using hd_dropWhile [of "\<lambda>x. x = k" "rev w"] by (auto simp: last_rev)
  ultimately show ?thesis by (rule that)
qed

lemma ld_observe_inv:
  assumes "ld_inv d" and "ld_state d \<noteq> Warned"
  shows "ld_inv (snd (ld_observe key d))"
proof -
  have len: "length (ld_window (ld_push key d)) \<le> 16"
    using assms(1) by (auto simp: ld_inv_def ld_push_def Let_def)
  then show ?thesis
    using assms by (cases key) (auto simp: ld_inv_def ld_observe_def Let_def ld_push_def)
qed

lemma check_and_advance_inv [inv_intros]:
  assumes "ld_inv d"
  shows "ld_inv (snd (check_and_advance t h d))"
proof (cases "ld_state d = Warned")
  case True
  have "ld_inv (d\<lparr>ld_state := NoSignal, ld_warned_tool := None\<rparr>)"
    using assms by (simp add: ld_inv_def)
  moreover have "ld_inv (d\<lparr>ld_state := Halt\<rparr>)"
    using assms True by (simp add: ld_inv_def)
  ultimately show ?thesis
    using True ld_observe_inv [of "d\<lparr>ld_state := NoSignal, ld_warned_tool := None\<rparr>"]
    by (auto simp: check_and_advance_def Let_def)
next
  case False
  with assms show ?thesis by (simp add: check_and_advance_def ld_observe_inv Let_def)
qed

section \<open>The detector against the whole history of calls\<close>

lemma ld_run_append:
  "ld_run (ks @ ks') d =
     (let (ss, d') = ld_run ks d; (ss', d'') = ld_run ks' d' in (ss @ ss', d''))"
  by (induction ks arbitrary: d) (auto simp: case_prod_beta Let_def)

lemma ld_run_inv: "ld_inv d \<Longrightarrow> ld_inv (snd (ld_run ks d))"
proof (induction ks arbitrary: d)
  case Nil
  then show ?case by simp
next
  case (Cons k ks)
  have "ld_inv (snd (check_and_advance (fst k) (snd k) d))"
    using Cons.prems by (rule check_and_advance_inv)
  then show ?case using Cons.IH by (simp add: case_prod_beta Let_def)
qed

lemma length_ld_run [simp]: "length (fst (ld_run ks d)) = length ks"
  by (induction ks arbitrary: d) (auto simp: case_prod_beta Let_def)

text \<open>The window never claims a longer run than the history has.\<close>

definition window_sound :: "call_key list \<Rightarrow> loop_detector \<Rightarrow> bool" where
  "window_sound h d \<longleftrightarrow> (\<forall>k. consecutive_count k (ld_window d) \<le> consecutive_count k h)"

lemma consecutive_count_Cons_le: "consecutive_count k xs \<le> consecutive_count k (x # xs)"
proof (induction xs rule: rev_induct)
  case (snoc y xs)
  then show ?case using consecutive_count_snoc [of k "x # xs" y] by simp
qed simp

lemma consecutive_count_tl: "consecutive_count k (tl w) \<le> consecutive_count k w"
  by (cases w) (simp_all add: consecutive_count_Cons_le)

lemma window_sound_push:
  assumes "window_sound h d"
  shows "window_sound (h @ [key]) (ld_push key d)"
proof -
  have "consecutive_count k (ld_window (ld_push key d))
      \<le> consecutive_count k (ld_window d @ [key])" for k
    using consecutive_count_tl [of k "ld_window d @ [key]"]
    by (simp add: ld_push_def Let_def del: consecutive_count_snoc)
  moreover have "consecutive_count k (ld_window d @ [key]) \<le> consecutive_count k (h @ [key])" for k
    using assms [unfolded window_sound_def, rule_format, of k] by simp
  ultimately show ?thesis unfolding window_sound_def using le_trans by blast
qed

text \<open>A run of one call at the end leaves no run of another.\<close>

lemma consecutive_count_other: "0 < consecutive_count k w \<Longrightarrow> k' \<noteq> k \<Longrightarrow> consecutive_count k' w = 0"
  by (cases w rule: rev_cases) (auto split: if_splits)

lemma window_sound_observe:
  assumes "window_sound h d"
  shows "window_sound (h @ [key]) (snd (ld_observe key d))"
  using window_sound_push [OF assms, of key]
  by (auto simp: ld_observe_def Let_def window_sound_def)

lemma window_sound_check:
  assumes "ld_inv d" and "window_sound h d"
  shows "window_sound (h @ [(t, a)]) (snd (check_and_advance t a d))"
proof (cases "ld_state d = Warned \<and> Some (t, a) = ld_warned_tool d")
  case True
  then have five: "5 \<le> consecutive_count (t, a) (ld_window d)"
    using assms(1) by (auto simp: ld_inv_def)
  have "consecutive_count k (ld_window d) \<le> consecutive_count k (h @ [(t, a)])" for k
    using assms(2) five consecutive_count_other [of "(t, a)" "ld_window d" k]
    by (cases "k = (t, a)") (auto simp: window_sound_def intro: le_SucI)
  then show ?thesis
    using True by (simp add: check_and_advance_def Let_def window_sound_def)
next
  case False
  then show ?thesis
    using window_sound_observe [of h "d\<lparr>ld_state := NoSignal, ld_warned_tool := None\<rparr>" "(t, a)"]
      window_sound_observe [of h d "(t, a)"] assms(2)
    by (auto simp: check_and_advance_def Let_def window_sound_def)
qed

lemma ld_run_sound:
  assumes "ld_inv d" and "window_sound h d"
  shows "window_sound (h @ ks) (snd (ld_run ks d))"
  using assms
proof (induction ks arbitrary: d h)
  case Nil
  then show ?case by simp
next
  case (Cons k ks)
  let ?d = "snd (check_and_advance (fst k) (snd k) d)"
  have "ld_inv ?d" and "window_sound (h @ [k]) ?d"
    using Cons.prems check_and_advance_inv [OF Cons.prems(1)] window_sound_check [OF Cons.prems, of "fst k" "snd k"]
    by simp_all
  from Cons.IH [OF this] show ?case by (simp add: case_prod_beta Let_def)
qed

lemma run_warns_or_counts:
  assumes "ld_inv d" and "ld_state d \<noteq> Warned" and "n \<le> consecutive_count k (ld_window d)" and "n < 5"
  shows "ld_warned_tool (snd (check_and_advance (fst k) (snd k) d)) = Some k
      \<and> ld_state (snd (check_and_advance (fst k) (snd k) d)) = Warned
    \<or> ld_state (snd (check_and_advance (fst k) (snd k) d)) \<noteq> Warned
      \<and> Suc n \<le> consecutive_count k (ld_window (snd (check_and_advance (fst k) (snd k) d)))"
proof -
  obtain pre where pre: "ld_window d = pre @ replicate n k"
    by (metis append.assoc assms(3) le_add_diff_inverse2 replicate_add window_split)
  have len: "length (ld_window d) \<le> 16" and cap: "ld_window_capacity d = 16"
    using assms(1) by (auto simp: ld_inv_def)
  have "ld_window (ld_push k d) = (if 16 \<le> length (ld_window d) then tl pre else pre) @ replicate (Suc n) k"
    using pre len cap assms(4)
    by (cases pre) (auto simp: ld_push_def Let_def replicate_append_same)
  then have "Suc n \<le> consecutive_count k (ld_window (ld_push k d))"
    by (auto simp: consecutive_count_def takeWhile_append)
  then show ?thesis
    using assms(2) by (cases k) (auto simp: check_and_advance_def ld_observe_def ld_push_def Let_def)
qed

lemma warned_halts:
  "ld_state d = Warned \<Longrightarrow> ld_warned_tool d = Some k \<Longrightarrow> fst (check_and_advance (fst k) (snd k) d) = Halt"
  by (simp add: check_and_advance_def)

lemma run_halts:
  assumes "ld_inv d" and "ld_state d \<noteq> Warned" and "n \<le> consecutive_count k (ld_window d)" and "n < 5"
  shows "Halt \<in> set (fst (ld_run (replicate (6 - n) k) d))"
  using assms
proof (induction "4 - n" arbitrary: n d)
  case 0
  let ?d = "snd (check_and_advance (fst k) (snd k) d)"
  have n: "n = 4" using 0 by simp
  have inv: "ld_inv ?d" by (rule check_and_advance_inv [OF 0(2)])
  have "ld_state ?d = Warned \<and> ld_warned_tool ?d = Some k"
  proof (rule ccontr)
    assume no: "\<not> ?thesis"
    then have "ld_state ?d \<noteq> Warned" and "5 \<le> consecutive_count k (ld_window ?d)"
      using run_warns_or_counts [OF 0(2-5)] n by auto
    then show False
      using 0(2,3) by (auto simp: check_and_advance_def ld_observe_def Let_def ld_inv_def ld_push_def
          split: if_splits)
  qed
  then have "fst (check_and_advance (fst k) (snd k) ?d) = Halt" by (simp add: warned_halts)
  moreover have "replicate (6 - n) k = [k, k]" by (simp add: n numeral_2_eq_2)
  ultimately show ?case by (simp add: case_prod_beta Let_def)
next
  case (Suc m)
  let ?d = "snd (check_and_advance (fst k) (snd k) d)"
  have inv: "ld_inv ?d" by (rule check_and_advance_inv [OF Suc(3)])
  have rep: "replicate (6 - n) k = k # replicate (6 - Suc n) k"
    and rep': "replicate (6 - Suc n) k = k # replicate (4 - n) k"
    using Suc(6) by (simp_all flip: replicate_Suc add: Suc_diff_le)
  from run_warns_or_counts [OF Suc(3-6)] show ?case
  proof
    assume "ld_warned_tool ?d = Some k \<and> ld_state ?d = Warned"
    then have "fst (check_and_advance (fst k) (snd k) ?d) = Halt" by (simp add: warned_halts)
    then show ?thesis unfolding rep rep' by (simp add: case_prod_beta Let_def)
  next
    assume step: "ld_state ?d \<noteq> Warned \<and> Suc n \<le> consecutive_count k (ld_window ?d)"
    have "Halt \<in> set (fst (ld_run (replicate (6 - Suc n) k) ?d))"
      using Suc(2) step inv by (intro Suc(1)) auto
    then show ?thesis unfolding rep by (simp add: case_prod_beta Let_def)
  qed
qed

section \<open>Properties\<close>

text \<open>C6: a warning is never raised without five identical calls in a row at the end of the turn's
  history, and a halt never without six.\<close>

theorem loop_signals_sound:
  assumes "d = snd (ld_run ks ld_new)"
  shows "(fst (check_and_advance t a d) = Warned \<longrightarrow> 5 \<le> consecutive_count (t, a) (ks @ [(t, a)]))
    \<and> (fst (check_and_advance t a d) = Halt \<longrightarrow> 6 \<le> consecutive_count (t, a) (ks @ [(t, a)]))"
proof -
  have inv: "ld_inv d" and sound: "window_sound ks d"
    using assms ld_run_inv [OF ld_inv_new] ld_run_sound [OF ld_inv_new, of "[]" ks]
    by (simp_all add: window_sound_def ld_new_def consecutive_count_def)
  have push: "consecutive_count (t, a) (ld_window (ld_push (t, a) d'))
      \<le> consecutive_count (t, a) (ks @ [(t, a)])" if "ld_window d' = ld_window d" for d'
  proof -
    have "window_sound ks d'" using sound that by (simp add: window_sound_def)
    then show ?thesis using window_sound_push unfolding window_sound_def by blast
  qed
  have thr: "ld_warn_threshold (ld_push k d') = ld_warn_threshold d'" for k d'
    by (simp add: ld_push_def Let_def)
  have warn: "5 \<le> consecutive_count (t, a) (ks @ [(t, a)])"
    if "fst (ld_observe (t, a) d') = Warned" "ld_window d' = ld_window d" "ld_warn_threshold d' = 5" for d'
    using that push [OF that(2)] by (auto simp: ld_observe_def Let_def thr split: if_splits)
  have no_halt: "fst (ld_observe k d') \<noteq> Halt" for k d'
    by (simp add: ld_observe_def Let_def)
  have halt: "6 \<le> consecutive_count (t, a) (ks @ [(t, a)])"
    if "ld_state d = Warned" "Some (t, a) = ld_warned_tool d"
  proof -
    have "5 \<le> consecutive_count (t, a) (ld_window d)"
      using that inv by (auto simp: ld_inv_def)
    then show ?thesis using sound by (auto simp: window_sound_def intro: le_trans)
  qed
  show ?thesis
    using inv warn [of d] warn [of "d\<lparr>ld_state := NoSignal, ld_warned_tool := None\<rparr>"] halt no_halt
    by (auto simp: check_and_advance_def Let_def ld_inv_def split: if_splits)
qed

theorem loop_signals_sound_witness:
  "6 \<le> consecutive_count (''Read'', ''h'') (replicate 5 (''Read'', ''h'') @ [(''Read'', ''h'')])"
proof -
  have "fst (check_and_advance ''Read'' ''h''
      (snd (ld_run (replicate 5 (''Read'', ''h'')) ld_new))) = Halt"
    by code_simp
  then show ?thesis using loop_signals_sound [OF HOL.refl, of "''Read''" "''h''"] by blast
qed

text \<open>detection is live: from any state the detector can reach, six identical calls in a row raise
  a halt.\<close>

theorem six_identical_calls_halt:
  "Halt \<in> set (fst (ld_run (replicate 6 k) (snd (ld_run ks ld_new))))"
proof -
  let ?d = "snd (ld_run ks ld_new)"
  have inv: "ld_inv ?d" by (rule ld_run_inv [OF ld_inv_new])
  show ?thesis
  proof (cases "ld_state ?d = Warned")
    case False
    with run_halts [OF inv, of 0 k] show ?thesis by simp
  next
    case True
    show ?thesis
    proof (cases "ld_warned_tool ?d = Some k")
      case True
      with \<open>ld_state ?d = Warned\<close> have "fst (check_and_advance (fst k) (snd k) ?d) = Halt"
        by (simp add: warned_halts)
      then show ?thesis by (simp add: numeral_eq_Suc case_prod_beta Let_def)
    next
      case other: False
      let ?d' = "?d\<lparr>ld_state := NoSignal, ld_warned_tool := None\<rparr>"
      have "ld_inv ?d'" using inv by (simp add: ld_inv_def)
      then have "Halt \<in> set (fst (ld_run (replicate 6 k) ?d'))"
        using run_halts [of ?d' 0 k] by simp
      moreover have "check_and_advance (fst k) (snd k) ?d' = check_and_advance (fst k) (snd k) ?d"
        using True other by (simp add: check_and_advance_def Let_def)
      ultimately show ?thesis by (simp add: numeral_eq_Suc case_prod_beta Let_def)
    qed
  qed
qed

end
