(* ===== verification/History.thy ===== *)
theory History
  imports Protocol LoopDetector
begin

text \<open>
  The state of an agent (\<open>openjax-core/src/lib.rs\<close>), the operations on its conversation history and
  on the record of recent tool calls (\<open>agent/state.rs\<close>), and the compression of the history
  (\<open>agent/context_compressor.rs\<close>). The model call that writes a summary is a function over a world
  \<open>'w\<close>: it gets the rendered turns and their number and returns the summary, or nothing when the
  call fails; the fixed instructions around the rendered turns are part of it.
\<close>

section \<open>State\<close>

record turn_record =
  tr_user_input :: string
  tr_tool_traces :: "string list"
  tr_assistant_output :: string

datatype history_item = Turn turn_record | Summary string

record tool_call_key =
  ck_name :: string
  ck_args :: string

record tool_call_record =
  cr_key :: tool_call_key
  cr_ok :: bool
  cr_epoch :: u64
  cr_output :: string

record agent =
  ag_next_turn_id :: nat
  ag_history :: "history_item list"
  ag_thread_id :: thread_id
  ag_parent_thread_id :: "thread_id option"
  ag_depth :: int
  ag_max_tool_calls :: nat
  ag_max_planner_rounds :: nat
  ag_max_diff_chars :: nat
  ag_loop_detector :: loop_detector
  ag_recent :: "tool_call_record list"
  ag_state_epoch :: u64
  ag_context_window_size :: nat
  ag_last_input_tokens :: "nat option"

definition MAX_CONVERSATION_HISTORY_TURNS :: nat where
  "MAX_CONVERSATION_HISTORY_TURNS = 100"

section \<open>Duplicate detection\<close>

definition should_skip_duplicate_detection :: "string \<Rightarrow> bool" where
  "should_skip_duplicate_detection n \<longleftrightarrow>
     n \<in> {''Read'', ''list_dir'', ''grep_files'', ''process_snapshot'', ''system_load'', ''disk_usage''}"

text \<open>\<open>stable_args_json\<close> orders the entries by key before it prints them; \<open>js\<close> is the JSON printer.\<close>

definition stable_args_json :: "(str_map \<Rightarrow> string) \<Rightarrow> str_map \<Rightarrow> string" where
  "stable_args_json js args = js (sort_key fst args)"

definition call_key_of :: "(str_map \<Rightarrow> string) \<Rightarrow> string \<Rightarrow> str_map \<Rightarrow> tool_call_key" where
  "call_key_of js tool_name args = \<lparr>ck_name = tool_name, ck_args = stable_args_json js args\<rparr>"

definition is_duplicate_tool_call :: "(str_map \<Rightarrow> string) \<Rightarrow> string \<Rightarrow> str_map \<Rightarrow> agent \<Rightarrow> bool" where
  "is_duplicate_tool_call js tool_name args a =
     (if should_skip_duplicate_detection tool_name then False
      else list_ex (\<lambda>r. cr_key r = call_key_of js tool_name args \<and> cr_ok r \<and> cr_epoch r = ag_state_epoch a)
             (ag_recent a))"

text \<open>The \<open>while\<close> loop that removes the first record.\<close>

fun trim_front :: "nat \<Rightarrow> 'a list \<Rightarrow> 'a list" where
  "trim_front n [] = []"
| "trim_front n (x # xs) = (if length (x # xs) > n then trim_front n xs else x # xs)"

definition record_tool_call ::
  "(str_map \<Rightarrow> string) \<Rightarrow> string \<Rightarrow> str_map \<Rightarrow> bool \<Rightarrow> string \<Rightarrow> agent \<Rightarrow> agent" where
  "record_tool_call js tool_name args ok output a =
     a\<lparr>ag_recent := trim_front 16 (ag_recent a @
         [\<lparr>cr_key = call_key_of js tool_name args, cr_ok = ok, cr_epoch = ag_state_epoch a, cr_output = output\<rparr>])\<rparr>"

section \<open>History\<close>

fun is_turn :: "history_item \<Rightarrow> bool" where
  "is_turn (Turn _) = True" | "is_turn (Summary _) = False"

definition turn_count :: "history_item list \<Rightarrow> nat" where
  "turn_count h = length (filter is_turn h)"

text \<open>\<open>retain\<close> with its counter: the first \<open>n\<close> turns go, summaries stay.\<close>

fun drop_turns :: "nat \<Rightarrow> history_item list \<Rightarrow> history_item list" where
  "drop_turns n [] = []"
| "drop_turns n (h # hs) =
     (if n > 0 \<and> is_turn h then drop_turns (n - 1) hs else h # drop_turns n hs)"

definition push_turn :: "turn_record \<Rightarrow> history_item list \<Rightarrow> history_item list" where
  "push_turn r h =
     (let h' = h @ [Turn r]; n = turn_count h'
      in if n > MAX_CONVERSATION_HISTORY_TURNS then drop_turns (n - MAX_CONVERSATION_HISTORY_TURNS) h' else h')"

definition commit_turn :: "string \<Rightarrow> string list \<Rightarrow> string \<Rightarrow> agent \<Rightarrow> agent" where
  "commit_turn user_input tool_traces assistant_output a =
     a\<lparr>ag_history := push_turn \<lparr>tr_user_input = user_input, tr_tool_traces = tool_traces,
         tr_assistant_output = assistant_output\<rparr> (ag_history a)\<rparr>"

section \<open>Compression\<close>

definition turn_indices :: "history_item list \<Rightarrow> nat list" where
  "turn_indices h = filter (\<lambda>i. is_turn (h ! i)) [0..<length h]"

definition split_for_compression ::
  "history_item list \<Rightarrow> (history_item list \<times> history_item list) option" where
  "split_for_compression h =
     (let is = turn_indices h
      in if length is \<le> 4 then None
         else let cutoff = is ! (length is - 3) in Some (take cutoff h, drop cutoff h))"

definition format_item :: "history_item \<Rightarrow> string" where
  "format_item i =
     (case i of
        Turn r \<Rightarrow> ''User: '' @ tr_user_input r @ newline
          @ (if tr_tool_traces r = [] then []
             else ''Tools:'' @ newline @ concat (map (\<lambda>t. ''  - '' @ t @ newline) (tr_tool_traces r)))
          @ ''Assistant: '' @ tr_assistant_output r @ newline @ newline
      | Summary s \<Rightarrow> ''[PREVIOUS SUMMARY]'' @ newline @ s @ newline @ newline)"

definition format_for_prompt :: "history_item list \<Rightarrow> string" where
  "format_for_prompt items = concat (map format_item items)"

type_synonym 'w summariser = "string \<Rightarrow> nat \<Rightarrow> 'w \<Rightarrow> string option \<times> 'w"

definition try_compact ::
  "'w summariser \<Rightarrow> history_item list \<Rightarrow> 'w \<Rightarrow> history_item list option \<times> 'w" where
  "try_compact summarise h w =
     (case split_for_compression h of
        None \<Rightarrow> (None, w)
      | Some (old, recent) \<Rightarrow>
          if turn_count old = 0 then (None, w)
          else (case summarise (format_for_prompt old) (turn_count old) w of
                  (None, w') \<Rightarrow> (None, w')
                | (Some s, w') \<Rightarrow> (Some (Summary s # recent), w')))"

fun summary_preview :: "history_item list \<Rightarrow> string" where
  "summary_preview [] = []"
| "summary_preview (Summary s # h) = take 120 s"
| "summary_preview (Turn r # h) = summary_preview h"

text \<open>The operations on the agent return the events they push.\<close>

definition do_compact :: "'w summariser \<Rightarrow> nat \<Rightarrow> agent \<Rightarrow> 'w \<Rightarrow> agent \<times> event list \<times> 'w" where
  "do_compact summarise turn_id a w =
     (case try_compact summarise (ag_history a) w of
        (None, w') \<Rightarrow> (a, [], w')
      | (Some h, w') \<Rightarrow>
          (a\<lparr>ag_history := h, ag_last_input_tokens := None\<rparr>,
           [ContextCompacted turn_id (turn_count (ag_history a) - turn_count h) (turn_count h)
              (summary_preview h)], w'))"

text \<open>Sizes are in bytes of UTF-8. The \<open>f64\<close> computations are exact below \<open>2 ^ 50\<close>:
  \<open>chars / 3.5\<close> truncated is \<open>2 * chars div 7\<close>, and the quotient of two such integers is below
  \<open>0.75\<close> just when four times one is below three times the other.\<close>

definition item_bytes :: "history_item \<Rightarrow> nat" where
  "item_bytes i =
     (case i of
        Turn r \<Rightarrow> utf8_len (tr_user_input r) + utf8_len (tr_assistant_output r)
                  + sum_list (map utf8_len (tr_tool_traces r))
      | Summary s \<Rightarrow> utf8_len s)"

definition token_estimate :: "agent \<Rightarrow> nat" where
  "token_estimate a =
     (case ag_last_input_tokens a of
        Some t \<Rightarrow> t
      | None \<Rightarrow> 2 * sum_list (map item_bytes (ag_history a)) div 7)"

definition check_and_auto_compact ::
  "'w summariser \<Rightarrow> nat \<Rightarrow> agent \<Rightarrow> 'w \<Rightarrow> agent \<times> event list \<times> 'w" where
  "check_and_auto_compact summarise turn_id a w =
     (if ag_context_window_size a = 0 then (a, [], w)
      else let t = token_estimate a; size = ag_context_window_size a;
               usage = ContextUsageUpdated turn_id t size (t, size)
           in if 4 * t < 3 * size then (a, [usage], w)
              else let (a', evs, w') = do_compact summarise turn_id a w in (a', usage # evs, w'))"


section \<open>Lemmas on the queues\<close>

lemma trim_front_last_n: "trim_front n xs = last_n n xs"
  by (induction xs) (auto simp: last_n_def Suc_diff_le)

text \<open>The turns of a history, and how the operations act on them.\<close>

fun turns_of :: "history_item list \<Rightarrow> turn_record list" where
  "turns_of [] = []"
| "turns_of (Turn r # h) = r # turns_of h"
| "turns_of (Summary s # h) = turns_of h"

lemma turns_of_append [simp]: "turns_of (g @ h) = turns_of g @ turns_of h"
  by (induction g rule: turns_of.induct) simp_all

lemma turn_count_turns_of: "turn_count h = length (turns_of h)"
  by (induction h rule: turns_of.induct) (simp_all add: turn_count_def)

lemma turns_of_drop_turns: "turns_of (drop_turns n h) = drop n (turns_of h)"
  by (induction h arbitrary: n rule: turns_of.induct) (auto simp: drop_Cons' split: nat.splits)

lemma turns_of_push_turn: "turns_of (push_turn r h) = last_n 100 (turns_of h @ [r])"
  by (auto simp: push_turn_def Let_def turn_count_turns_of turns_of_drop_turns last_n_def
      MAX_CONVERSATION_HISTORY_TURNS_def)

text \<open>Both the turns of the history and the record of recent calls are bounded queues.\<close>

interpretation history_queue: bounded_queue push_turn turns_of "\<lambda>h. length (turns_of h) \<le> 100" 100
  by unfold_locales (simp_all add: turns_of_push_turn)

definition push_record :: "tool_call_record \<Rightarrow> tool_call_record list \<Rightarrow> tool_call_record list" where
  "push_record r rs = trim_front 16 (rs @ [r])"

interpretation recent_queue: bounded_queue push_record "\<lambda>rs. rs" "\<lambda>rs. length rs \<le> 16" 16
  by unfold_locales (simp_all add: push_record_def trim_front_last_n)

lemma record_tool_call_push:
  "ag_recent (record_tool_call js n args ok out a)
   = push_record \<lparr>cr_key = call_key_of js n args, cr_ok = ok, cr_epoch = ag_state_epoch a, cr_output = out\<rparr>
       (ag_recent a)"
  "ag_state_epoch (record_tool_call js n args ok out a) = ag_state_epoch a"
  by (simp_all add: record_tool_call_def push_record_def)

section \<open>The shape of a history\<close>

text \<open>At most one summary, and it comes first.\<close>

definition history_shape :: "history_item list \<Rightarrow> bool" where
  "history_shape h \<longleftrightarrow>
     (\<exists>ss. length ss \<le> 1 \<and> h = map Summary ss @ map Turn (turns_of h)) \<and> length (turns_of h) \<le> 100"

lemma turns_of_map [simp]: "turns_of (map Turn ts) = ts" "turns_of (map Summary ss) = []"
  by (induction ts) (simp_all, induction ss, simp_all)

lemma drop_turns_shape: "drop_turns n (map Summary ss @ map Turn ts) = map Summary ss @ map Turn (drop n ts)"
proof -
  have "drop_turns n (map Turn ts) = map Turn (drop n ts)"
    by (induction ts arbitrary: n) (auto simp: drop_Cons' split: nat.splits)
  then show ?thesis by (induction ss) simp_all
qed

lemma push_turn_shape: "push_turn r (map Summary ss @ map Turn ts) = map Summary ss @ map Turn (last_n 100 (ts @ [r]))"
proof -
  have e: "(map Summary ss @ map Turn ts) @ [Turn r] = map Summary ss @ map Turn (ts @ [r])" by simp
  have n: "turn_count (map Summary ss @ map Turn (ts @ [r])) = length (ts @ [r])"
    by (simp add: turn_count_turns_of del: map_append)
  show ?thesis
    unfolding push_turn_def Let_def e n drop_turns_shape last_n_def MAX_CONVERSATION_HISTORY_TURNS_def
    by (cases "100 < length (ts @ [r])") (simp_all del: map_append length_append)
qed

lemma turn_indices_shape:
  "turn_indices (map Summary ss @ map Turn ts) = [length ss..<length ss + length ts]"
proof -
  let ?h = "map Summary ss @ map Turn ts"
  have "[0..<length ?h] = [0..<length ss] @ [length ss..<length ss + length ts]"
    using upt_add_eq_append [of 0 "length ss" "length ts"] by simp
  moreover have "filter (\<lambda>i. is_turn (?h ! i)) [0..<length ss] = []"
    by (auto simp: filter_empty_conv nth_append)
  moreover have "filter (\<lambda>i. is_turn (?h ! i)) [length ss..<length ss + length ts]
      = [length ss..<length ss + length ts]"
    by (auto simp: filter_id_conv nth_append)
  ultimately show ?thesis by (simp add: turn_indices_def)
qed

lemma split_shape:
  "split_for_compression (map Summary ss @ map Turn ts) =
     (if length ts \<le> 4 then None
      else Some (map Summary ss @ map Turn (take (length ts - 3) ts), map Turn (last_n 3 ts)))"
  by (simp add: split_for_compression_def turn_indices_shape Let_def take_map drop_map last_n_def)


section \<open>Runs of history operations\<close>

datatype history_op = OpCommit turn_record | OpUsage nat | OpCompact nat | OpAutoCompact nat

definition history_step ::
  "'w summariser \<Rightarrow> history_op \<Rightarrow> agent \<times> 'w \<Rightarrow> agent \<times> 'w" where
  "history_step summarise oper s =
     (case oper of
        OpCommit r \<Rightarrow> (commit_turn (tr_user_input r) (tr_tool_traces r) (tr_assistant_output r) (fst s), snd s)
      | OpUsage t \<Rightarrow> ((fst s)\<lparr>ag_last_input_tokens := Some t\<rparr>, snd s)
      | OpCompact tid \<Rightarrow> (let (a, _, w) = do_compact summarise tid (fst s) (snd s) in (a, w))
      | OpAutoCompact tid \<Rightarrow> (let (a, _, w) = check_and_auto_compact summarise tid (fst s) (snd s) in (a, w)))"

fun committed :: "history_op list \<Rightarrow> turn_record list" where
  "committed [] = []"
| "committed (OpCommit r # ops) = r # committed ops"
| "committed (_ # ops) = committed ops"

lemma committed_append [simp]: "committed (xs @ ys) = committed xs @ committed ys"
  by (induction xs rule: committed.induct) simp_all

text \<open>What a history keeps of the turns committed so far.\<close>

definition keeps :: "turn_record list \<Rightarrow> history_item list \<Rightarrow> bool" where
  "keeps c h \<longleftrightarrow> history_shape h \<and> suffix (turns_of h) c \<and> min 3 (length c) \<le> length (turns_of h)"

lemma keepsI:
  assumes "length ss \<le> 1" "length ts \<le> 100" "suffix ts c" "min 3 (length c) \<le> length ts"
  shows "keeps c (map Summary ss @ map Turn ts)"
  using assms by (auto simp: keeps_def history_shape_def)

lemma keepsE:
  assumes "keeps c h"
  obtains ss ts where "h = map Summary ss @ map Turn ts" "length ss \<le> 1" "length ts \<le> 100"
    "suffix ts c" "min 3 (length c) \<le> length ts"
  using assms by (auto simp: keeps_def history_shape_def)

lemma suffix_last_n: "suffix ts c \<Longrightarrow> suffix (last_n n ts) c"
  using last_n_suffix suffix_order.trans by blast

lemma keeps_commit:
  assumes "keeps c h" shows "keeps (c @ [r]) (push_turn r h)"
proof -
  obtain ss ts where h: "h = map Summary ss @ map Turn ts" "length ss \<le> 1" "length ts \<le> 100"
    "suffix ts c" "min 3 (length c) \<le> length ts" using assms by (rule keepsE)
  have "suffix (last_n 100 (ts @ [r])) (c @ [r])" by (rule suffix_last_n) (use h(4) in simp)
  then show ?thesis
    unfolding h(1) push_turn_shape by (rule keepsI [rotated 2]) (use h in auto)
qed

lemma try_compact_shape:
  "try_compact summarise (map Summary ss @ map Turn ts) w =
     (if length ts \<le> 4 then (None, w)
      else case summarise (format_for_prompt (map Summary ss @ map Turn (take (length ts - 3) ts)))
                  (length ts - 3) w of
             (None, w') \<Rightarrow> (None, w')
           | (Some s, w') \<Rightarrow> (Some (Summary s # map Turn (last_n 3 ts)), w'))"
  by (simp add: try_compact_def split_shape turn_count_turns_of)

lemma keeps_compact:
  assumes "keeps c (ag_history a)" "do_compact summarise tid a w = (a', evs, w')"
  shows "keeps c (ag_history a')"
proof -
  obtain ss ts where h: "ag_history a = map Summary ss @ map Turn ts" "length ss \<le> 1" "length ts \<le> 100"
    "suffix ts c" "min 3 (length c) \<le> length ts" using assms(1) by (rule keepsE)
  consider "ag_history a' = ag_history a"
    | s where "ag_history a' = map Summary [s] @ map Turn (last_n 3 ts)" "4 < length ts"
    using assms(2) h(1)
    by (auto simp: do_compact_def try_compact_shape split: prod.splits option.splits if_splits)
  then show ?thesis
  proof cases
    case 1
    then show ?thesis using assms(1) by simp
  next
    case (2 s)
    show ?thesis unfolding 2(1) by (rule keepsI) (use h 2 in \<open>auto intro: suffix_last_n\<close>)
  qed
qed

lemma keeps_step:
  assumes "keeps c (ag_history (fst s))"
  shows "keeps (c @ committed [oper]) (ag_history (fst (history_step summarise oper s)))"
proof (cases oper)
  case (OpCommit r)
  then show ?thesis using keeps_commit [OF assms, of r] by (cases r) (simp add: history_step_def commit_turn_def)
next
  case (OpUsage t)
  then show ?thesis using assms by (simp add: history_step_def)
next
  case (OpCompact tid)
  then show ?thesis using keeps_compact [OF assms, of summarise tid "snd s"]
    by (auto simp: history_step_def split: prod.split)
next
  case (OpAutoCompact tid)
  then show ?thesis using assms keeps_compact [OF assms, of summarise tid "snd s"]
    by (auto simp: history_step_def check_and_auto_compact_def Let_def split: prod.splits)
qed

lemma keeps_run:
  "keeps c (ag_history (fst s)) \<Longrightarrow>
     keeps (c @ committed ops) (ag_history (fst (fold (history_step summarise) ops s)))"
proof (induction ops arbitrary: c s)
  case (Cons oper ops)
  show ?case
    using Cons.IH [OF keeps_step [OF Cons.prems]] committed_append [of "[oper]" ops] by simp
qed simp

definition example_agent :: agent where
  "example_agent = \<lparr>ag_next_turn_id = 1, ag_history = [], ag_thread_id = ThreadId 0, ag_parent_thread_id = None,
     ag_depth = 0, ag_max_tool_calls = 300, ag_max_planner_rounds = 300, ag_max_diff_chars = 4000,
     ag_loop_detector = ld_new, ag_recent = [], ag_state_epoch = 0, ag_context_window_size = 8,
     ag_last_input_tokens = None\<rparr>"

definition example_turn_record :: "string \<Rightarrow> turn_record" where
  "example_turn_record s = \<lparr>tr_user_input = s, tr_tool_traces = [], tr_assistant_output = s\<rparr>"

definition example_summariser :: "unit summariser" where
  "example_summariser text n w = (Some ''sum'', w)"

section \<open>Properties\<close>

text \<open>C8: however turns are committed and the history compacted, by hand or automatically, and whether
  or not the model call succeeds, the history is at most one summary followed by at most 100 turns;
  these are the latest turns committed, in order, and the last three are always among them.\<close>

theorem history_keeps_latest:
  assumes "ag_history a = []"
  shows "let h = ag_history (fst (fold (history_step summarise) ops (a, w)))
         in (\<exists>ss. length ss \<le> 1 \<and> h = map Summary ss @ map Turn (turns_of h))
            \<and> length (turns_of h) \<le> 100
            \<and> suffix (turns_of h) (committed ops)
            \<and> min 3 (length (committed ops)) \<le> length (turns_of h)"
  using keeps_run [of "[]" "(a, w)" ops summarise] assms
  by (simp add: keeps_def history_shape_def Let_def)

theorem history_keeps_latest_witness:
  "suffix (turns_of (ag_history (fst (fold (history_step example_summariser)
      [OpCommit (example_turn_record ''a''), OpCompact 0] (example_agent, ())))))
    [example_turn_record ''a'']"
  using history_keeps_latest [of example_agent example_summariser
      "[OpCommit (example_turn_record ''a''), OpCompact 0]" "()"]
  by (simp add: example_agent_def Let_def)

text \<open>automatic compaction. Below three quarters of a known context window nothing changes but the
  usage report; from there on, a history of more than four turns whose summary the model returns
  becomes that summary and the last three turns, the report says how many turns went and stayed,
  and the token count is forgotten.\<close>

theorem auto_compact_effect:
  assumes h: "ag_history a = map Summary ss @ map Turn ts" and window: "0 < ag_context_window_size a"
    and answer: "summarise (format_for_prompt (map Summary ss @ map Turn (take (length ts - 3) ts)))
       (length ts - 3) w = (Some s, w')"
  shows "check_and_auto_compact summarise tid a w =
    (if 4 * token_estimate a < 3 * ag_context_window_size a \<or> length ts \<le> 4
     then (a, [ContextUsageUpdated tid (token_estimate a) (ag_context_window_size a)
                 (token_estimate a, ag_context_window_size a)], w)
     else (a\<lparr>ag_history := Summary s # map Turn (last_n 3 ts), ag_last_input_tokens := None\<rparr>,
           [ContextUsageUpdated tid (token_estimate a) (ag_context_window_size a)
              (token_estimate a, ag_context_window_size a),
            ContextCompacted tid (length ts - 3) 3 (take 120 s)], w'))"
  using window
  by (auto simp: check_and_auto_compact_def do_compact_def h try_compact_shape answer Let_def
      turn_count_turns_of)

theorem auto_compact_effect_witness:
  "check_and_auto_compact example_summariser 5
     (example_agent\<lparr>ag_history := map Turn (map example_turn_record [''a'', ''b'', ''c'', ''d'', ''e'']),
                    ag_last_input_tokens := Some 6\<rparr>) ()
   = (example_agent\<lparr>ag_history := Summary ''sum'' # map Turn (map example_turn_record [''c'', ''d'', ''e'']),
                    ag_last_input_tokens := None\<rparr>,
      [ContextUsageUpdated 5 6 8 (6, 8), ContextCompacted 5 2 3 ''sum''], ())"
  using auto_compact_effect [of "example_agent\<lparr>ag_history := map Turn (map example_turn_record
        [''a'', ''b'', ''c'', ''d'', ''e'']), ag_last_input_tokens := Some 6\<rparr>" "[]"
      "map example_turn_record [''a'', ''b'', ''c'', ''d'', ''e'']" example_summariser "()" "''sum''" "()" 5]
  by (simp add: example_agent_def example_summariser_def token_estimate_def last_n_def)


section \<open>Duplicate detection: the epoch counter against its specification\<close>

text \<open>A mutating tool moves the epoch on, saturating; \<open>AgentLoop\<close> calls it after such a tool.\<close>

definition saturating_incr :: "u64 \<Rightarrow> u64" where
  "saturating_incr e = (if e = - 1 then e else e + 1)"

definition bump_epoch :: "agent \<Rightarrow> agent" where
  "bump_epoch a = a\<lparr>ag_state_epoch := saturating_incr (ag_state_epoch a)\<rparr>"

datatype call_op = Mutation | Call string str_map bool string

definition call_step :: "(str_map \<Rightarrow> string) \<Rightarrow> call_op \<Rightarrow> agent \<Rightarrow> agent" where
  "call_step js oper a =
     (case oper of Mutation \<Rightarrow> bump_epoch a | Call n args ok out \<Rightarrow> record_tool_call js n args ok out a)"

text \<open>The specification has no counter: each of the last 16 calls carries a flag that says whether no
  mutation came after it.\<close>

type_synonym spec_calls = "(tool_call_key \<times> bool \<times> bool) list"

definition spec_step :: "(str_map \<Rightarrow> string) \<Rightarrow> call_op \<Rightarrow> spec_calls \<Rightarrow> spec_calls" where
  "spec_step js oper cs =
     (case oper of
        Mutation \<Rightarrow> map (\<lambda>(k, ok, _). (k, ok, False)) cs
      | Call n args ok _ \<Rightarrow> last_n 16 (cs @ [(call_key_of js n args, ok, True)]))"

definition spec_duplicate :: "(str_map \<Rightarrow> string) \<Rightarrow> string \<Rightarrow> str_map \<Rightarrow> spec_calls \<Rightarrow> bool" where
  "spec_duplicate js n args cs \<longleftrightarrow>
     \<not> should_skip_duplicate_detection n \<and> (call_key_of js n args, True, True) \<in> set cs"

definition abs_calls :: "agent \<Rightarrow> spec_calls" where
  "abs_calls a = map (\<lambda>r. (cr_key r, cr_ok r, cr_epoch r = ag_state_epoch a)) (ag_recent a)"

definition epochs_below :: "nat \<Rightarrow> agent \<Rightarrow> bool" where
  "epochs_below n a \<longleftrightarrow> unat (ag_state_epoch a) \<le> n \<and> (\<forall>r \<in> set (ag_recent a). cr_epoch r \<le> ag_state_epoch a)"

lemma saturating_incr_small:
  "unat e < 2 ^ 64 - 1 \<Longrightarrow> unat (saturating_incr e) = unat e + 1"
proof -
  assume u: "unat e < 2 ^ 64 - 1"
  then have "e \<noteq> - 1"
  proof (rule contrapos_pn)
    show "\<not> unat e < 2 ^ 64 - 1" if "e = - 1"
      unfolding that by (simp add: unsigned_minus_1_eq_mask mask_eq_exp_minus_1)
  qed
  moreover from u have "unat (e + 1) = unat e + 1"
    by (subst unat_add_lem [THEN iffD1]) simp_all
  ultimately show ?thesis by (simp add: saturating_incr_def)
qed

lemma map_last_n: "map f (last_n n xs) = last_n n (map f xs)"
  by (simp add: last_n_def drop_map)

lemma call_step_refines:
  assumes "epochs_below n a" "n < 2 ^ 64 - 1"
  shows "abs_calls (call_step js oper a) = spec_step js oper (abs_calls a)
    \<and> epochs_below (Suc n) (call_step js oper a)"
proof (cases oper)
  case Mutation
  have u: "unat (saturating_incr (ag_state_epoch a)) = unat (ag_state_epoch a) + 1"
    using assms by (intro saturating_incr_small) (simp add: epochs_below_def)
  have less: "cr_epoch r < saturating_incr (ag_state_epoch a)" if "r \<in> set (ag_recent a)" for r
    using assms(1) that u unfolding word_less_nat_alt epochs_below_def
    by (auto simp: word_le_nat_alt)
  have "cr_epoch r \<noteq> saturating_incr (ag_state_epoch a)" if "r \<in> set (ag_recent a)" for r
    using less [OF that] by simp
  then show ?thesis using assms(1) u less
    by (auto simp: Mutation call_step_def bump_epoch_def abs_calls_def spec_step_def epochs_below_def
        intro: less_imp_le)
next
  case (Call m args ok out)
  have "set (ag_recent (record_tool_call js m args ok out a))
      \<subseteq> insert \<lparr>cr_key = call_key_of js m args, cr_ok = ok, cr_epoch = ag_state_epoch a, cr_output = out\<rparr>
          (set (ag_recent a))"
    using set_last_n by (fastforce simp: record_tool_call_push push_record_def trim_front_last_n)
  then show ?thesis using assms(1)
    by (auto simp: Call call_step_def abs_calls_def spec_step_def record_tool_call_push push_record_def
        trim_front_last_n map_last_n epochs_below_def)
qed

lemma calls_refine:
  "epochs_below n a \<Longrightarrow> n + length ops < 2 ^ 64 \<Longrightarrow>
     abs_calls (fold (call_step js) ops a) = fold (spec_step js) ops (abs_calls a)"
proof (induction ops arbitrary: n a)
  case (Cons oper ops)
  have "abs_calls (call_step js oper a) = spec_step js oper (abs_calls a)"
    "epochs_below (Suc n) (call_step js oper a)"
    using call_step_refines [OF Cons.prems(1), of js oper] Cons.prems(2) by simp_all
  then show ?case using Cons.IH [of "Suc n" "call_step js oper a"] Cons.prems(2) by simp
qed simp

lemma is_duplicate_abs: "is_duplicate_tool_call js n args a \<longleftrightarrow> spec_duplicate js n args (abs_calls a)"
  by (force simp: is_duplicate_tool_call_def spec_duplicate_def abs_calls_def list_ex_iff)

text \<open>C9: within a turn, which starts with no recorded call, the epoch counter and the bounded record
  implement the intended rule: a call is a duplicate just when its tool takes part in duplicate
  detection and the same call is among the last 16, succeeded, and no mutation came after it.\<close>

theorem duplicate_detection_refines:
  assumes "ag_recent a = []" "ag_state_epoch a = 0" "length ops < 2 ^ 64"
  shows "is_duplicate_tool_call js n args (fold (call_step js) ops a)
    \<longleftrightarrow> spec_duplicate js n args (fold (spec_step js) ops [])"
proof -
  have "epochs_below 0 a" using assms by (simp add: epochs_below_def)
  from calls_refine [OF this, of ops js] assms show ?thesis
    by (simp add: is_duplicate_abs abs_calls_def [of a])
qed

theorem duplicate_detection_refines_witness:
  "is_duplicate_tool_call (\<lambda>m. concat (map snd m)) ''shell'' [(''cmd'', ''ls'')]
     (fold (call_step (\<lambda>m. concat (map snd m))) [Call ''shell'' [(''cmd'', ''ls'')] True ''ok''] example_agent)"
proof -
  let ?js = "\<lambda>m :: str_map. concat (map snd m)"
  have "spec_duplicate ?js ''shell'' [(''cmd'', ''ls'')]
      (fold (spec_step ?js) [Call ''shell'' [(''cmd'', ''ls'')] True ''ok''] [])"
    by (simp add: spec_duplicate_def spec_step_def should_skip_duplicate_detection_def last_n_def)
  then show ?thesis
    using duplicate_detection_refines [of example_agent
        "[Call ''shell'' [(''cmd'', ''ls'')] True ''ok'']" ?js "''shell''" "[(''cmd'', ''ls'')]"]
    by (simp add: example_agent_def)
qed

text \<open>the key of a call does not depend on the iteration order of its argument map: two listings of
  the same map give the same key.\<close>

theorem stable_args_json_order:
  assumes "distinct (map fst args)" "distinct (map fst args')" "set args = set args'"
  shows "stable_args_json js args = stable_args_json js args'"
proof -
  have "mset args = mset args'"
    using assms by (auto simp: set_eq_iff_mset_eq_distinct [symmetric] distinct_map)
  then have "sort_key fst args = sort_key fst args'"
    using assms(1) by (intro sort_key_inj_key_eq) (auto simp: distinct_map)
  then show ?thesis by (simp add: stable_args_json_def)
qed

theorem stable_args_json_order_witness:
  "stable_args_json (\<lambda>m. concat (map snd m)) [(''a'', ''1''), (''b'', ''2'')]
   = stable_args_json (\<lambda>m. concat (map snd m)) [(''b'', ''2''), (''a'', ''1'')]"
  by (rule stable_args_json_order) auto

end
