(* ===== verification/Conversation.thy ===== *)
theory Conversation
  imports History
begin

text \<open>
  The messages exchanged with the model (\<open>openjax-core/src/model/types.rs\<close>), the text the planner
  puts into them (\<open>agent/prompt.rs\<close>), the phase of a turn (\<open>agent/turn_engine.rs\<close>) and the two
  producers of response events (\<open>streaming/orchestrator.rs\<close>, \<open>streaming/helpers.rs\<close>).
\<close>

section \<open>Messages\<close>

datatype user_block = UText string | UToolResult string string bool

datatype assistant_block = AReasoning string | AText string | AToolUse string string json

datatype message = User "user_block list" | Assistant "assistant_block list"

datatype stop_reason = EndTurn | ToolUseStop | MaxTokens | OtherStop string

definition from_api_str :: "string \<Rightarrow> stop_reason" where
  "from_api_str s =
     (if s = ''end_turn'' \<or> s = ''stop'' then EndTurn
      else if s = ''tool_use'' \<or> s = ''tool_calls'' then ToolUseStop
      else if s = ''max_tokens'' \<or> s = ''length'' then MaxTokens
      else OtherStop s)"

record model_usage =
  mu_input_tokens :: "nat option"
  mu_output_tokens :: "nat option"
  mu_total_tokens :: "nat option"

record model_response =
  mr_content :: "assistant_block list"
  mr_reasoning :: "string option"
  mr_usage :: "model_usage option"
  mr_stop_reason :: "stop_reason option"

datatype stream_delta =
  DText string | DReasoning string | DToolUseStart string string | DToolArgsDelta string string
| DToolUseEnd string

definition assistant_history_blocks :: "model_response \<Rightarrow> assistant_block list" where
  "assistant_history_blocks r =
     (case mr_reasoning r of
        Some s \<Rightarrow> if s \<noteq> [] then [AReasoning s] else []
      | None \<Rightarrow> []) @ mr_content r"

definition response_text :: "model_response \<Rightarrow> string" where
  "response_text r = concat (map (\<lambda>b. case b of AText s \<Rightarrow> s | _ \<Rightarrow> []) (mr_content r))"

fun tool_uses :: "assistant_block list \<Rightarrow> (string \<times> string \<times> json) list" where
  "tool_uses [] = []"
| "tool_uses (AToolUse i n v # bs) = (i, n, v) # tool_uses bs"
| "tool_uses (AReasoning _ # bs) = tool_uses bs"
| "tool_uses (AText _ # bs) = tool_uses bs"

definition has_tool_use :: "model_response \<Rightarrow> bool" where
  "has_tool_use r = list_ex (\<lambda>b. case b of AToolUse _ _ _ \<Rightarrow> True | _ \<Rightarrow> False) (mr_content r)"

text \<open>The text of the last user message that has a text block, as the echo client reads it.\<close>

fun first_text :: "user_block list \<Rightarrow> string option" where
  "first_text [] = None"
| "first_text (UText s # bs) = Some s"
| "first_text (UToolResult _ _ _ # bs) = first_text bs"

fun user_text_rev :: "message list \<Rightarrow> string" where
  "user_text_rev [] = []"
| "user_text_rev (User bs # ms) = (case first_text bs of Some s \<Rightarrow> s | None \<Rightarrow> user_text_rev ms)"
| "user_text_rev (Assistant _ # ms) = user_text_rev ms"

definition user_text :: "message list \<Rightarrow> string" where
  "user_text ms = user_text_rev (rev ms)"

section \<open>Prompt text\<close>

definition MAX_TOOL_OUTPUT_CHARS_FOR_PROMPT :: nat where
  "MAX_TOOL_OUTPUT_CHARS_FOR_PROMPT = 4000"

definition truncate_for_prompt :: "string \<Rightarrow> nat \<Rightarrow> string" where
  "truncate_for_prompt text max_chars =
     (let limit = max 256 (min max_chars MAX_TOOL_OUTPUT_CHARS_FOR_PROMPT)
      in if length text \<le> limit then text else take limit text @ ellipsis)"

definition summarize_user_input :: "string \<Rightarrow> nat \<Rightarrow> string \<times> bool" where
  "summarize_user_input input limit =
     (let normalized = escape_newlines input
      in if length normalized \<le> limit then (normalized, False)
         else (take limit normalized @ ellipsis, True))"

text \<open>One entry of the prior conversation; only turns are numbered.\<close>

fun render_history :: "nat \<Rightarrow> history_item list \<Rightarrow> string list" where
  "render_history n [] = []"
| "render_history n (Turn r # h) =
     (''[Turn '' @ dec_of_nat (n + 1) @ '']'' @ newline @ ''User: '' @ tr_user_input r
      @ (if tr_tool_traces r = [] then []
         else newline @ ''Tools:'' @ newline @ ''  '' @ join (newline @ ''  '') (tr_tool_traces r))
      @ newline @ ''Assistant: '' @ tr_assistant_output r) # render_history (n + 1) h"
| "render_history n (Summary s # h) = s # render_history n h"

definition input_text :: "string \<Rightarrow> string option \<Rightarrow> string" where
  "input_text user_input recovery =
     user_input @ (case recovery of Some r \<Rightarrow> newline @ newline @ r | None \<Rightarrow> [])"

definition build_turn_messages :: "string \<Rightarrow> history_item list \<Rightarrow> string option \<Rightarrow> message list" where
  "build_turn_messages user_input history recovery =
     (if history = [] then []
      else [User [UText (''<prior_conversation>'' @ newline
              @ join (newline @ newline) (render_history 0 history)
              @ newline @ ''</prior_conversation>'')]])
     @ [User [UText (input_text user_input recovery)]]"

text \<open>The search from the back for a text block, and its replacement.\<close>

fun replace_first_text :: "string \<Rightarrow> user_block list \<Rightarrow> user_block list option" where
  "replace_first_text t [] = None"
| "replace_first_text t (UText _ # bs) = Some (UText t # bs)"
| "replace_first_text t (UToolResult i c e # bs) = map_option (\<lambda>bs'. UToolResult i c e # bs') (replace_first_text t bs)"

fun replace_in_rev :: "string \<Rightarrow> message list \<Rightarrow> message list" where
  "replace_in_rev t [] = []"
| "replace_in_rev t (User bs # ms) =
     (case replace_first_text t bs of Some bs' \<Rightarrow> User bs' # ms | None \<Rightarrow> User bs # replace_in_rev t ms)"
| "replace_in_rev t (Assistant bs # ms) = Assistant bs # replace_in_rev t ms"

definition refresh_loop_recovery_in_messages :: "message list \<Rightarrow> string \<Rightarrow> string option \<Rightarrow> message list" where
  "refresh_loop_recovery_in_messages ms user_input recovery =
     rev (replace_in_rev (input_text user_input recovery) (rev ms))"

section \<open>The phase of a turn\<close>

datatype turn_phase = Planning | StreamingText | ToolBatchRunning | StreamingResumed | PhaseCompleted | PhaseFailed

section \<open>Response events\<close>

record response_stream =
  rs_turn_id :: nat
  rs_source :: stream_source
  rs_started :: bool
  rs_accumulated :: string

definition response_stream_new :: "nat \<Rightarrow> stream_source \<Rightarrow> response_stream" where
  "response_stream_new turn_id source =
     \<lparr>rs_turn_id = turn_id, rs_source = source, rs_started = False, rs_accumulated = []\<rparr>"

definition on_delta :: "string \<Rightarrow> response_stream \<Rightarrow> event list \<times> response_stream" where
  "on_delta delta r =
     (if delta = [] then ([], r)
      else ((if rs_started r then [] else [ResponseStarted (rs_turn_id r) (rs_source r)])
              @ [ResponseTextDelta (rs_turn_id r) delta (rs_source r)],
            r\<lparr>rs_started := True, rs_accumulated := rs_accumulated r @ delta\<rparr>))"

definition emit_completed :: "string \<Rightarrow> response_stream \<Rightarrow> string \<times> event" where
  "emit_completed content r =
     (let resolved = (if rs_accumulated r = [] then content
                      else if content = [] \<or> content = rs_accumulated r then rs_accumulated r
                      else content)
      in (resolved, ResponseCompleted (rs_turn_id r) resolved (rs_source r)))"

definition emit_error :: "string \<Rightarrow> string \<Rightarrow> bool \<Rightarrow> response_stream \<Rightarrow> event" where
  "emit_error error_code message retryable r = ResponseError (rs_turn_id r) error_code message retryable"

text \<open>The loop over the characters, with the chunk it is filling.\<close>

fun synthetic_chunks :: "nat \<Rightarrow> string \<Rightarrow> string \<Rightarrow> string list" where
  "synthetic_chunks chunk_chars chunk [] = (if chunk = [] then [] else [chunk])"
| "synthetic_chunks chunk_chars chunk (c # cs) =
     (let chunk' = chunk @ [c]
      in if length chunk' \<ge> chunk_chars then chunk' # synthetic_chunks chunk_chars [] cs
         else synthetic_chunks chunk_chars chunk' cs)"

definition SYNTHETIC_ASSISTANT_DELTA_CHUNK_CHARS :: nat where
  "SYNTHETIC_ASSISTANT_DELTA_CHUNK_CHARS = 24"

definition emit_synthetic_response_deltas :: "nat \<Rightarrow> string \<Rightarrow> nat \<Rightarrow> event list" where
  "emit_synthetic_response_deltas turn_id message chunk_chars =
     (if message = [] then []
      else map (\<lambda>c. ResponseTextDelta turn_id c Synthetic) (synthetic_chunks chunk_chars [] message))"

section \<open>Lemmas\<close>

lemma has_tool_use_iff: "has_tool_use r \<longleftrightarrow> tool_uses (mr_content r) \<noteq> []"
proof -
  have "list_ex (\<lambda>b. case b of AToolUse _ _ _ \<Rightarrow> True | _ \<Rightarrow> False) bs \<longleftrightarrow> tool_uses bs \<noteq> []" for bs
    by (induction bs rule: tool_uses.induct) simp_all
  then show ?thesis by (simp add: has_tool_use_def)
qed

lemma tool_uses_append [simp]: "tool_uses (xs @ ys) = tool_uses xs @ tool_uses ys"
  by (induction xs rule: tool_uses.induct) simp_all

lemma tool_uses_history [simp]: "tool_uses (assistant_history_blocks r) = tool_uses (mr_content r)"
  by (simp add: assistant_history_blocks_def split: option.split)

lemma truncate_for_prompt_length: "length (truncate_for_prompt text n) \<le> 4003"
  by (auto simp: truncate_for_prompt_def Let_def ellipsis_def MAX_TOOL_OUTPUT_CHARS_FOR_PROMPT_def)

lemma synthetic_chunks_concat: "concat (synthetic_chunks chunk_chars chunk cs) = chunk @ cs"
  by (induction chunk_chars chunk cs rule: synthetic_chunks.induct) (auto simp: Let_def)

lemma synthetic_chunks_bounds:
  "length chunk < chunk_chars \<Longrightarrow> c \<in> set (synthetic_chunks chunk_chars chunk cs) \<Longrightarrow> c \<noteq> [] \<and> length c \<le> chunk_chars"
  by (induction chunk_chars chunk cs rule: synthetic_chunks.induct) (auto simp: Let_def split: if_splits)

text \<open>The text carried by a sequence of events.\<close>

definition delta_text :: "event list \<Rightarrow> string" where
  "delta_text evs = concat (map (\<lambda>e. case e of ResponseTextDelta _ s _ \<Rightarrow> s | _ \<Rightarrow> []) evs)"

lemma delta_text_append [simp]: "delta_text (xs @ ys) = delta_text xs @ delta_text ys"
  by (simp add: delta_text_def)

text \<open>A chain of deltas through the orchestrator.\<close>

fun on_deltas :: "string list \<Rightarrow> response_stream \<Rightarrow> event list \<times> response_stream" where
  "on_deltas [] r = ([], r)"
| "on_deltas (d # ds) r =
     (let (evs, r') = on_delta d r; (evs', r'') = on_deltas ds r' in (evs @ evs', r''))"

lemma on_deltas_invariant:
  "on_deltas ds r = (evs, r') \<Longrightarrow> rs_started r = (rs_accumulated r \<noteq> []) \<Longrightarrow>
     rs_accumulated r' = rs_accumulated r @ concat ds \<and> delta_text evs = concat ds
     \<and> rs_started r' = (rs_accumulated r' \<noteq> []) \<and> rs_turn_id r' = rs_turn_id r \<and> rs_source r' = rs_source r
     \<and> length (filter (\<lambda>e. case e of ResponseStarted _ _ \<Rightarrow> True | _ \<Rightarrow> False) evs)
         = of_bool (\<not> rs_started r \<and> concat ds \<noteq> [])"
proof (induction ds arbitrary: r evs r')
  case (Cons d ds)
  obtain e1 r1 where 1: "on_delta d r = (e1, r1)" by fastforce
  obtain e2 r2 where 2: "on_deltas ds r1 = (e2, r2)" by fastforce
  have r1: "rs_accumulated r1 = rs_accumulated r @ d" "delta_text e1 = d"
    "rs_started r1 = (rs_accumulated r1 \<noteq> [])" "rs_turn_id r1 = rs_turn_id r" "rs_source r1 = rs_source r"
    "length (filter (\<lambda>e. case e of ResponseStarted _ _ \<Rightarrow> True | _ \<Rightarrow> False) e1) = of_bool (\<not> rs_started r \<and> d \<noteq> [])"
    using 1 Cons.prems(2) by (auto simp: on_delta_def delta_text_def split: if_splits)
  show ?case using Cons.IH [OF 2 r1(3)] r1 Cons.prems 1 2 by (auto simp: Let_def)
qed (simp add: delta_text_def)

lemma refresh_idempotent:
  "refresh_loop_recovery_in_messages (refresh_loop_recovery_in_messages ms u a) u b
   = refresh_loop_recovery_in_messages ms u b"
proof -
  have blocks: "replace_first_text t (the (replace_first_text s bs)) = replace_first_text t bs"
    if "replace_first_text s bs \<noteq> None" for s t bs
    using that by (induction s bs rule: replace_first_text.induct) (auto simp: option.map_sel)
  have none: "(replace_first_text s bs = None) = (replace_first_text t bs = None)" for s t bs
    by (induction s bs rule: replace_first_text.induct) auto
  have "replace_in_rev t (replace_in_rev s ms) = replace_in_rev t ms" for s t ms
  proof (induction s ms rule: replace_in_rev.induct)
    case (2 s bs ms)
    show ?case
    proof (cases "replace_first_text s bs")
      case None
      then show ?thesis using 2 none [of s bs t] by simp
    next
      case (Some bs')
      then show ?thesis using blocks [of s bs t] none [of s bs t] by (auto split: option.split)
    qed
  qed simp_all
  then show ?thesis by (simp add: refresh_loop_recovery_in_messages_def)
qed

section \<open>Properties\<close>

text \<open>C17: the response a stream of text deltas produces: the deltas sent concatenate to the text
  streamed, the response is started once, just when there is text, and completing the response
  with empty content yields the text streamed.\<close>

theorem response_stream_faithful:
  assumes "on_deltas ds (response_stream_new t src) = (evs, r)"
  shows "delta_text evs = concat ds
    \<and> length (filter (\<lambda>e. case e of ResponseStarted _ _ \<Rightarrow> True | _ \<Rightarrow> False) evs) = of_bool (concat ds \<noteq> [])
    \<and> emit_completed [] r = (concat ds, ResponseCompleted t (concat ds) src)"
  using on_deltas_invariant [OF assms] by (auto simp: response_stream_new_def emit_completed_def Let_def)

theorem response_stream_faithful_witness:
  "delta_text [ResponseStarted 1 ModelLive, ResponseTextDelta 1 ''ab'' ModelLive] = ''ab''"
  using response_stream_faithful [of "[''ab'', '''']" 1 ModelLive
      "[ResponseStarted 1 ModelLive, ResponseTextDelta 1 ''ab'' ModelLive]"
      "\<lparr>rs_turn_id = 1, rs_source = ModelLive, rs_started = True, rs_accumulated = ''ab''\<rparr>"]
  by (simp add: on_delta_def response_stream_new_def)

text \<open>the synthetic deltas of a message concatenate to it, and none is empty or longer than the
  chunk size.\<close>

theorem synthetic_deltas_faithful:
  "delta_text (emit_synthetic_response_deltas t message 24) = message
   \<and> list_all (\<lambda>e. \<exists>c. e = ResponseTextDelta t c Synthetic \<and> c \<noteq> [] \<and> length c \<le> 24)
       (emit_synthetic_response_deltas t message 24)"
  using synthetic_chunks_bounds [of "[]" 24 _ message]
  by (auto simp: emit_synthetic_response_deltas_def delta_text_def comp_def synthetic_chunks_concat list_all_iff)

end
