(* ===== verification/PolicyCenter.thy ===== *)
theory PolicyCenter
  imports Prelude
begin

text \<open>
  The policy centre, \<open>openjax-policy/src\<close>: rules and their matching (\<open>schema.rs\<close>), the decision
  engine (\<open>engine.rs\<close>), the store with its built-in rule (\<open>store.rs\<close>), session overlays
  (\<open>overlay.rs\<close>) and the versioned runtime with its snapshot handles (\<open>runtime.rs\<close>).
  A \<open>BTreeMap\<close> is a map; the runtime's lock makes each operation one step on the snapshot.
\<close>

section \<open>Schema\<close>

datatype decision_kind = Allow | Ask | Escalate | Deny

definition conservative_rank :: "decision_kind \<Rightarrow> nat" where
  "conservative_rank k = (case k of Allow \<Rightarrow> 0 | Ask \<Rightarrow> 1 | Escalate \<Rightarrow> 2 | Deny \<Rightarrow> 3)"

definition kind_as_str :: "decision_kind \<Rightarrow> string" where
  "kind_as_str k =
     (case k of Allow \<Rightarrow> ''allow'' | Ask \<Rightarrow> ''ask'' | Escalate \<Rightarrow> ''escalate'' | Deny \<Rightarrow> ''deny'')"

record policy_input =
  in_tool_name :: string
  in_action :: string
  in_session_id :: "string option"
  in_actor :: "string option"
  in_resource :: "string option"
  in_capabilities :: "string list"
  in_risk_tags :: "string list"
  in_policy_version :: u64

record policy_rule =
  rule_id :: string
  rule_decision :: decision_kind
  rule_priority :: int
  rule_tool_name :: "string option"
  rule_action :: "string option"
  rule_session_id :: "string option"
  rule_actor :: "string option"
  rule_resource :: "string option"
  rule_capabilities_all :: "string list"
  rule_risk_tags_all :: "string list"
  rule_reason :: string

record policy_decision =
  dec_kind :: decision_kind
  dec_matched_rule_id :: "string option"
  dec_policy_version :: u64
  dec_reason :: string

definition contains_all :: "string list \<Rightarrow> string list \<Rightarrow> bool" where
  "contains_all source required = list_all (\<lambda>e. list_ex (\<lambda>a. a = e) source) required"

definition matches_required_value :: "string option \<Rightarrow> string option \<Rightarrow> bool" where
  "matches_required_value required actual =
     (case required of None \<Rightarrow> True | Some e \<Rightarrow> actual = Some e)"

definition unique_count :: "string list \<Rightarrow> nat" where
  "unique_count values = length (remdups values)"

definition rule_matches :: "policy_rule \<Rightarrow> policy_input \<Rightarrow> bool" where
  "rule_matches r i \<longleftrightarrow>
     matches_required_value (rule_tool_name r) (Some (in_tool_name i))
     \<and> matches_required_value (rule_action r) (Some (in_action i))
     \<and> matches_required_value (rule_session_id r) (in_session_id i)
     \<and> matches_required_value (rule_actor r) (in_actor i)
     \<and> matches_required_value (rule_resource r) (in_resource i)
     \<and> contains_all (in_capabilities i) (rule_capabilities_all r)
     \<and> contains_all (in_risk_tags i) (rule_risk_tags_all r)"

definition specificity :: "policy_rule \<Rightarrow> nat" where
  "specificity r =
     of_bool (rule_tool_name r \<noteq> None) + of_bool (rule_action r \<noteq> None)
     + of_bool (rule_session_id r \<noteq> None) + of_bool (rule_actor r \<noteq> None)
     + of_bool (rule_resource r \<noteq> None)
     + unique_count (rule_capabilities_all r) + unique_count (rule_risk_tags_all r)"

definition decision_ask :: "string \<Rightarrow> u64 \<Rightarrow> string \<Rightarrow> policy_decision" where
  "decision_ask rid v reason =
     \<lparr>dec_kind = Ask, dec_matched_rule_id = Some rid, dec_policy_version = v, dec_reason = reason\<rparr>"

definition decision_ask_unmatched :: "u64 \<Rightarrow> string \<Rightarrow> policy_decision" where
  "decision_ask_unmatched v reason =
     \<lparr>dec_kind = Ask, dec_matched_rule_id = None, dec_policy_version = v, dec_reason = reason\<rparr>"

record policy_audit_record =
  audit_policy_version :: u64
  audit_matched_rule_id :: "string option"
  audit_decision :: decision_kind
  audit_reason :: string

definition audit_of_decision :: "policy_decision \<Rightarrow> policy_audit_record" where
  "audit_of_decision d =
     \<lparr>audit_policy_version = dec_policy_version d, audit_matched_rule_id = dec_matched_rule_id d,
      audit_decision = dec_kind d, audit_reason = dec_reason d\<rparr>"

lemma matches_required_value_simps [simp]:
  "matches_required_value None a"
  "matches_required_value (Some e) a \<longleftrightarrow> a = Some e"
  by (simp_all add: matches_required_value_def)

lemma contains_all_iff: "contains_all source required \<longleftrightarrow> set required \<subseteq> set source"
  by (auto simp: contains_all_def list_all_iff list_ex_iff)

section \<open>Engine\<close>

definition compare_rule_precedence :: "policy_rule \<Rightarrow> policy_rule \<Rightarrow> ordering" where
  "compare_rule_precedence l r =
     then_with (then_with (then_with
       (cmp (rule_priority l) (rule_priority r))
       (cmp (specificity l) (specificity r)))
       (cmp (conservative_rank (rule_decision l)) (conservative_rank (rule_decision r))))
       (cmp (rule_id r) (rule_id l))"

definition no_match_reason :: string where
  "no_match_reason = ''no matching rule; default decision applied''"

definition decide :: "policy_input \<Rightarrow> policy_rule list \<Rightarrow> decision_kind \<Rightarrow> policy_decision" where
  "decide i rules dflt =
     (case max_by compare_rule_precedence (filter (\<lambda>r. rule_matches r i) rules) of
        Some r \<Rightarrow> \<lparr>dec_kind = rule_decision r, dec_matched_rule_id = Some (rule_id r),
                   dec_policy_version = in_policy_version i, dec_reason = rule_reason r\<rparr>
      | None \<Rightarrow> \<lparr>dec_kind = dflt, dec_matched_rule_id = None,
                 dec_policy_version = in_policy_version i, dec_reason = no_match_reason\<rparr>)"

text \<open>The precedence order of the rules satisfies the contract of a comparison.\<close>

interpretation precedence: comparator compare_rule_precedence
  unfolding compare_rule_precedence_def [abs_def]
  by (intro comparator_then_with comparator_cmp comparator_cmp_rev)

definition decision_of_rule :: "u64 \<Rightarrow> policy_rule \<Rightarrow> policy_decision" where
  "decision_of_rule v r =
     \<lparr>dec_kind = rule_decision r, dec_matched_rule_id = Some (rule_id r),
      dec_policy_version = v, dec_reason = rule_reason r\<rparr>"

lemma decide_cases:
  obtains (matched) r where "max_by compare_rule_precedence (filter (\<lambda>r. rule_matches r i) rules) = Some r"
      "r \<in> set rules" "rule_matches r i"
      "decide i rules dflt = decision_of_rule (in_policy_version i) r"
  | (unmatched) "\<forall>r \<in> set rules. \<not> rule_matches r i"
      "decide i rules dflt = \<lparr>dec_kind = dflt, dec_matched_rule_id = None,
         dec_policy_version = in_policy_version i, dec_reason = no_match_reason\<rparr>"
proof (cases "max_by compare_rule_precedence (filter (\<lambda>r. rule_matches r i) rules)")
  case None
  then show ?thesis by (intro unmatched) (auto simp: decide_def filter_empty_conv)
next
  case (Some r)
  then have "r \<in> set (filter (\<lambda>r. rule_matches r i) rules)" by (rule max_by_in)
  with Some show ?thesis by (intro matched [of r]) (auto simp: decide_def decision_of_rule_def)
qed

text \<open>What the comparison ranks: equal rank forces equal decision and equal id.\<close>

lemma conservative_rank_inj [simp]: "conservative_rank a = conservative_rank b \<longleftrightarrow> a = b"
  by (auto simp: conservative_rank_def split: decision_kind.splits)

lemma compare_Equal:
  "compare_rule_precedence l r = Equal \<longleftrightarrow>
     rule_priority l = rule_priority r \<and> specificity l = specificity r
     \<and> rule_decision l = rule_decision r \<and> rule_id l = rule_id r"
  by (auto simp: compare_rule_precedence_def then_with_def cmp_def split: if_splits)

lemma compare_not_Greater:
  "compare_rule_precedence l r \<noteq> Greater \<Longrightarrow>
     rule_priority l < rule_priority r
     \<or> (rule_priority l = rule_priority r \<and>
         (specificity l < specificity r
          \<or> (specificity l = specificity r \<and>
              (conservative_rank (rule_decision l) < conservative_rank (rule_decision r)
               \<or> (rule_decision l = rule_decision r \<and> rule_id r \<le> rule_id l)))))"
  by (auto simp: compare_rule_precedence_def then_with_def cmp_def split: if_splits)

section \<open>Store, overlays and the versioned runtime\<close>

record policy_store =
  store_default :: decision_kind
  store_rules :: "policy_rule list"

definition system_destructive :: policy_rule where
  "system_destructive =
     \<lparr>rule_id = ''system:destructive_escalate'', rule_decision = Escalate, rule_priority = 1000,
      rule_tool_name = None, rule_action = None, rule_session_id = None, rule_actor = None,
      rule_resource = None, rule_capabilities_all = [], rule_risk_tags_all = [''destructive''],
      rule_reason = ''destructive commands always require escalation approval''\<rparr>"

definition store_new :: "decision_kind \<Rightarrow> policy_rule list \<Rightarrow> policy_store" where
  "store_new d rules = \<lparr>store_default = d, store_rules = rules @ [system_destructive]\<rparr>"

text \<open>A \<open>SessionOverlay\<close> is its rule list, the overlay map is keyed by session id.\<close>

record session_overlay =
  overlay_rules :: "policy_rule list"

definition overlay_new :: "policy_rule list \<Rightarrow> session_overlay" where
  "overlay_new rules = \<lparr>overlay_rules = rules\<rparr>"

record policy_snapshot =
  snap_version :: u64
  snap_store :: policy_store
  snap_overlays :: "string \<rightharpoonup> session_overlay"

definition runtime_new :: "policy_store \<Rightarrow> policy_snapshot" where
  "runtime_new st = \<lparr>snap_version = 1, snap_store = st, snap_overlays = Map.empty\<rparr>"

text \<open>\<open>swap_snapshot\<close> runs the update under the write lock and returns the new version.\<close>

definition swap_snapshot ::
  "(policy_snapshot \<Rightarrow> policy_snapshot) \<Rightarrow> policy_snapshot \<Rightarrow> u64 \<times> policy_snapshot" where
  "swap_snapshot upd s = (let s' = upd s in (snap_version s', s'))"

definition publish :: "policy_store \<Rightarrow> policy_snapshot \<Rightarrow> u64 \<times> policy_snapshot" where
  "publish st = swap_snapshot (\<lambda>s. s\<lparr>snap_version := snap_version s + 1, snap_store := st\<rparr>)"

definition set_session_overlay ::
  "string \<Rightarrow> session_overlay \<Rightarrow> policy_snapshot \<Rightarrow> u64 \<times> policy_snapshot" where
  "set_session_overlay sid ov = swap_snapshot
     (\<lambda>s. s\<lparr>snap_version := snap_version s + 1, snap_overlays := (snap_overlays s)(sid \<mapsto> ov)\<rparr>)"

definition clear_session_overlay :: "string \<Rightarrow> policy_snapshot \<Rightarrow> u64 \<times> policy_snapshot" where
  "clear_session_overlay sid = swap_snapshot
     (\<lambda>s. s\<lparr>snap_version := snap_version s + 1, snap_overlays := (snap_overlays s)(sid := None)\<rparr>)"

text \<open>A handle is the snapshot it was taken from; its operations read only that.\<close>

type_synonym policy_handle = policy_snapshot

definition runtime_handle :: "policy_snapshot \<Rightarrow> policy_handle" where
  "runtime_handle s = s"

definition with_snapshot_version :: "policy_handle \<Rightarrow> policy_input \<Rightarrow> policy_input" where
  "with_snapshot_version h i = i\<lparr>in_policy_version := snap_version h\<rparr>"

definition handle_decide :: "policy_handle \<Rightarrow> policy_input \<Rightarrow> policy_decision" where
  "handle_decide h i =
     (let i' = with_snapshot_version h i;
          base = decide i' (store_rules (snap_store h)) (store_default (snap_store h))
      in case Option.bind (in_session_id i') (snap_overlays h) of
           None \<Rightarrow> base
         | Some ov \<Rightarrow>
             (let od = decide i' (overlay_rules ov) (store_default (snap_store h))
              in if dec_matched_rule_id od \<noteq> None then od else base))"

text \<open>The mutating operations as one type, so that any interleaving is a list of them.\<close>

datatype runtime_op =
  Publish policy_store
| SetOverlay string session_overlay
| ClearOverlay string

definition runtime_step :: "runtime_op \<Rightarrow> policy_snapshot \<Rightarrow> u64 \<times> policy_snapshot" where
  "runtime_step oper s =
     (case oper of Publish st \<Rightarrow> publish st s
      | SetOverlay sid ov \<Rightarrow> set_session_overlay sid ov s
      | ClearOverlay sid \<Rightarrow> clear_session_overlay sid s)"

fun runtime_run :: "runtime_op list \<Rightarrow> policy_snapshot \<Rightarrow> u64 list \<times> policy_snapshot" where
  "runtime_run [] s = ([], s)"
| "runtime_run (oper # ops) s =
     (let (v, s') = runtime_step oper s; (vs, s'') = runtime_run ops s' in (v # vs, s''))"

lemmas runtime_op_defs = publish_def set_session_overlay_def clear_session_overlay_def
  swap_snapshot_def

section \<open>Lemmas on decisions and snapshots\<close>

lemma rule_matches_version [simp]: "rule_matches r (i\<lparr>in_policy_version := v\<rparr>) = rule_matches r i"
  by (simp add: rule_matches_def)

lemma decide_version:
  "decide (i\<lparr>in_policy_version := v\<rparr>) rules d = (decide i rules d)\<lparr>dec_policy_version := v\<rparr>"
  by (simp add: decide_def split: option.splits)

lemma matched_iff: "dec_matched_rule_id (decide i rules d) \<noteq> None \<longleftrightarrow> (\<exists>r \<in> set rules. rule_matches r i)"
  by (cases rule: decide_cases [of i rules d]) (auto simp: decision_of_rule_def)

lemma handle_decide_simps:
  "handle_decide h i =
     (let base = (decide i (store_rules (snap_store h)) (store_default (snap_store h)))
                   \<lparr>dec_policy_version := snap_version h\<rparr>
      in case Option.bind (in_session_id i) (snap_overlays h) of
           None \<Rightarrow> base
         | Some ov \<Rightarrow>
             if \<exists>r \<in> set (overlay_rules ov). rule_matches r i
             then (decide i (overlay_rules ov) (store_default (snap_store h)))
                    \<lparr>dec_policy_version := snap_version h\<rparr>
             else base)"
  by (simp add: handle_decide_def with_snapshot_version_def decide_version matched_iff Let_def
      del: not_None_eq split: option.splits)

lemma system_rule_matches: "rule_matches system_destructive i \<longleftrightarrow> ''destructive'' \<in> set (in_risk_tags i)"
  by (auto simp: rule_matches_def system_destructive_def contains_all_iff)

section \<open>Example data for the witnesses\<close>

definition example_input :: policy_input where
  "example_input =
     \<lparr>in_tool_name = ''shell'', in_action = ''exec'', in_session_id = Some ''s1'',
      in_actor = Some ''user'', in_resource = None, in_capabilities = [''process_exec''],
      in_risk_tags = [], in_policy_version = 1\<rparr>"

definition destructive_input :: policy_input where
  "destructive_input = example_input\<lparr>in_session_id := None, in_risk_tags := [''destructive'']\<rparr>"

definition rule_allow_ls :: policy_rule where
  "rule_allow_ls =
     \<lparr>rule_id = ''allow_ls'', rule_decision = Allow, rule_priority = 10, rule_tool_name = None,
      rule_action = None, rule_session_id = None, rule_actor = None, rule_resource = None,
      rule_capabilities_all = [], rule_risk_tags_all = [], rule_reason = ''ok''\<rparr>"

definition rule_deny_shell :: policy_rule where
  "rule_deny_shell = rule_allow_ls\<lparr>rule_id := ''deny_shell'', rule_decision := Deny\<rparr>"

section \<open>Properties\<close>

text \<open>C4: the decision of the engine comes from a rule of the list that matches the input, and no
  matching rule precedes it: not in priority, not in specificity at equal priority, not in how
  conservative its decision is at equal specificity, and not by a smaller id after that.\<close>

theorem decide_selects_maximal:
  assumes "dec_matched_rule_id (decide i rules d) = Some rid"
  shows "\<exists>r \<in> set rules. rule_matches r i \<and> rule_id r = rid
    \<and> decide i rules d = decision_of_rule (in_policy_version i) r
    \<and> (\<forall>q \<in> set rules. rule_matches q i \<longrightarrow>
         rule_priority q < rule_priority r
         \<or> (rule_priority q = rule_priority r \<and>
             (specificity q < specificity r
              \<or> (specificity q = specificity r \<and>
                  (conservative_rank (rule_decision q) < conservative_rank (rule_decision r)
                   \<or> (rule_decision q = rule_decision r \<and> rid \<le> rule_id q))))))"
proof (cases rule: decide_cases [of i rules d])
  case (matched r)
  have "compare_rule_precedence q r \<noteq> Greater" if "q \<in> set rules" "rule_matches q i" for q
    using precedence.max_by_upper [OF matched(1), of q] that by simp
  with matched assms show ?thesis
    by (intro bexI [of _ r]) (auto simp: decision_of_rule_def dest!: compare_not_Greater)
next
  case unmatched
  with assms show ?thesis by simp
qed

theorem decide_selects_maximal_witness:
  "\<exists>r \<in> set [rule_allow_ls, rule_deny_shell]. rule_matches r example_input \<and> rule_id r = ''deny_shell''
     \<and> conservative_rank (rule_decision rule_allow_ls) < conservative_rank (rule_decision r)"
proof -
  have d: "dec_matched_rule_id (decide example_input [rule_allow_ls, rule_deny_shell] Ask) = Some ''deny_shell''"
    by code_simp
  have "conservative_rank (rule_decision rule_allow_ls) < conservative_rank (rule_decision rule_deny_shell)"
    by code_simp
  moreover have "rule_id rule_allow_ls \<noteq> ''deny_shell''" by code_simp
  ultimately show ?thesis using decide_selects_maximal [OF d] by auto
qed

text \<open>the kind, the matched id and the version of a decision depend on the set of rules only, not
  on their order or repetition; when ids identify rules, the whole decision does.\<close>

theorem decide_order_independent:
  assumes "set rules = set rules'"
  shows "dec_kind (decide i rules d) = dec_kind (decide i rules' d)
    \<and> dec_matched_rule_id (decide i rules d) = dec_matched_rule_id (decide i rules' d)
    \<and> (inj_on rule_id (set rules) \<longrightarrow> decide i rules d = decide i rules' d)"
proof -
  have eq: "set (filter (\<lambda>r. rule_matches r i) rules) = set (filter (\<lambda>r. rule_matches r i) rules')"
    using assms by simp
  show ?thesis
  proof (cases rule: decide_cases [of i rules d])
    case m: (matched r)
    show ?thesis
    proof (cases rule: decide_cases [of i rules' d])
      case m': (matched r')
      have "compare_rule_precedence r r' = Equal"
        by (rule precedence.max_by_perm [OF eq m(1) m'(1)])
      then have "rule_decision r = rule_decision r'" "rule_id r = rule_id r'"
        by (simp_all add: compare_Equal)
      moreover have "inj_on rule_id (set rules) \<Longrightarrow> r = r'"
        using m m' assms \<open>rule_id r = rule_id r'\<close> by (auto dest: inj_onD)
      ultimately show ?thesis using m(4) m'(4) by (auto simp: decision_of_rule_def)
    next
      case unmatched
      with m assms show ?thesis by simp
    qed
  next
    case unmatched
    then show ?thesis
    proof (cases rule: decide_cases [of i rules' d])
      case (matched r')
      with unmatched assms show ?thesis by simp
    qed simp
  qed
qed

theorem decide_order_independent_witness:
  "dec_kind (decide example_input [rule_allow_ls, rule_deny_shell] Ask)
   = dec_kind (decide example_input [rule_deny_shell, rule_allow_ls] Ask)"
  using decide_order_independent [of "[rule_allow_ls, rule_deny_shell]"
      "[rule_deny_shell, rule_allow_ls]" example_input Ask] by auto

text \<open>C5: in the store every runtime is built with, an input tagged \<open>destructive\<close> that no overlay
  rule of its session decides is escalated by the built-in rule, whatever the default and the
  other rules, as long as those of them that match the input have a priority below 1000.\<close>

theorem destructive_escalates:
  assumes low: "\<forall>r \<in> set rules. rule_matches r i \<longrightarrow> rule_priority r < 1000"
    and tag: "''destructive'' \<in> set (in_risk_tags i)"
    and store: "snap_store h = store_new d rules"
    and overlay: "\<forall>ov. Option.bind (in_session_id i) (snap_overlays h) = Some ov \<longrightarrow>
                  (\<forall>r \<in> set (overlay_rules ov). \<not> rule_matches r i)"
  shows "dec_kind (handle_decide h i) = Escalate
    \<and> dec_matched_rule_id (handle_decide h i) = Some (rule_id system_destructive)"
proof -
  have "decide i (rules @ [system_destructive]) d
      = decision_of_rule (in_policy_version i) system_destructive"
  proof (cases rule: decide_cases [of i "rules @ [system_destructive]" d])
    case (matched r)
    have "compare_rule_precedence system_destructive r \<noteq> Greater"
      by (rule precedence.max_by_upper [OF matched(1)]) (simp add: system_rule_matches tag)
    then have "1000 \<le> rule_priority r"
      by (auto simp: system_destructive_def dest!: compare_not_Greater)
    with low matched(2,3) have "r = system_destructive" by fastforce
    with matched show ?thesis by simp
  next
    case unmatched
    then show ?thesis by (simp add: system_rule_matches tag)
  qed
  with store overlay show ?thesis
    by (auto simp: handle_decide_simps store_new_def decision_of_rule_def Let_def
        system_destructive_def split: option.splits)
qed

theorem destructive_escalates_witness:
  "dec_kind (handle_decide (runtime_new (store_new Allow [rule_allow_ls])) destructive_input) = Escalate"
  using destructive_escalates [of "[rule_allow_ls]" destructive_input
      "runtime_new (store_new Allow [rule_allow_ls])" Allow]
  by (auto simp: rule_allow_ls_def destructive_input_def runtime_new_def)

text \<open>the built-in rule is not the highest: one matching rule of priority above 1000 suffices for
  a decision that is not the built-in escalation, so an input tagged \<open>destructive\<close> is allowed
  outright when the rules above it allow.\<close>

theorem destructive_overridable:
  assumes "r \<in> set rules" and "rule_matches r i" and "1000 < rule_priority r"
    and "\<forall>q \<in> set rules. 1000 < rule_priority q \<longrightarrow> rule_decision q = Allow"
  shows "dec_kind (decide i (store_rules (store_new d rules)) d) = Allow"
proof (cases rule: decide_cases [of i "store_rules (store_new d rules)" d])
  case (matched q)
  have "compare_rule_precedence r q \<noteq> Greater"
    by (rule precedence.max_by_upper [OF matched(1)]) (simp add: assms store_new_def)
  then have "1000 < rule_priority q"
    using assms(3) by (auto dest!: compare_not_Greater)
  with matched(2,4) assms(4) show ?thesis
    by (auto simp: store_new_def system_destructive_def decision_of_rule_def)
next
  case unmatched
  with assms(1,2) show ?thesis by (simp add: store_new_def)
qed

theorem destructive_overridable_witness:
  "dec_kind (decide destructive_input (store_rules (store_new Deny [rule_allow_ls\<lparr>rule_priority := 1001\<rparr>])) Deny) = Allow"
  using destructive_overridable [of "rule_allow_ls\<lparr>rule_priority := 1001\<rparr>"
      "[rule_allow_ls\<lparr>rule_priority := 1001\<rparr>]" destructive_input Deny]
  by (simp add: rule_allow_ls_def destructive_input_def rule_matches_def contains_all_iff)

text \<open>an overlay set for one session changes no other session's decision but its version stamp,
  and clearing it gives the session back the store's own decision.\<close>

theorem overlay_isolation:
  assumes "in_session_id i \<noteq> Some sid"
  shows "handle_decide (snd (set_session_overlay sid ov s)) i
      = (handle_decide s i)\<lparr>dec_policy_version := snap_version s + 1\<rparr>
    \<and> handle_decide (snd (clear_session_overlay sid (snd (set_session_overlay sid ov s))))
        (i\<lparr>in_session_id := Some sid\<rparr>)
      = handle_decide (s\<lparr>snap_version := snap_version s + 2, snap_overlays := Map.empty\<rparr>)
        (i\<lparr>in_session_id := Some sid\<rparr>)"
proof -
  have "Option.bind (in_session_id i) ((snap_overlays s)(sid \<mapsto> ov))
      = Option.bind (in_session_id i) (snap_overlays s)"
    using assms by (cases "in_session_id i") auto
  then show ?thesis
    by (auto simp: handle_decide_simps runtime_op_defs Let_def split: option.splits)
qed

theorem overlay_isolation_witness:
  "handle_decide (snd (set_session_overlay ''s2'' (overlay_new [rule_deny_shell])
       (runtime_new (store_new Ask [])))) example_input
   = (handle_decide (runtime_new (store_new Ask [])) example_input)\<lparr>dec_policy_version := 2\<rparr>"
  using overlay_isolation [of example_input "''s2''" "overlay_new [rule_deny_shell]"
      "runtime_new (store_new Ask [])"]
  by (simp add: example_input_def runtime_new_def)

text \<open>whatever operations run and in whatever order, each one returns the version after the one
  before, so versions identify snapshots until the 64-bit counter wraps.\<close>

theorem runtime_versions_count:
  assumes "unat (snap_version s) + length ops < 2 ^ 64"
  shows "map unat (fst (runtime_run ops s))
      = [Suc (unat (snap_version s)) ..< Suc (unat (snap_version s) + length ops)]
    \<and> unat (snap_version (snd (runtime_run ops s))) = unat (snap_version s) + length ops"
  using assms
proof (induction ops arbitrary: s)
  case Nil
  then show ?case by simp
next
  case (Cons oper ops)
  obtain s' where s': "runtime_step oper s = (snap_version s + 1, s')"
    "snap_version s' = snap_version s + 1"
    by (cases oper) (auto simp: runtime_step_def runtime_op_defs Let_def)
  have v: "unat (snap_version s + 1) = Suc (unat (snap_version s))"
    using Cons.prems by (simp add: unat_word_ariths)
  from Cons.prems have "map unat (fst (runtime_run ops s'))
      = [Suc (Suc (unat (snap_version s))) ..< Suc (Suc (unat (snap_version s)) + length ops)]
    \<and> unat (snap_version (snd (runtime_run ops s'))) = Suc (unat (snap_version s)) + length ops"
    using Cons.IH [of s'] by (simp add: s'(2) v)
  then show ?case
    by (simp add: s' v case_prod_beta upt_conv_Cons del: upt_Suc)
qed

theorem runtime_versions_count_witness:
  "map unat (fst (runtime_run [ClearOverlay ''a'', ClearOverlay ''b''] (runtime_new (store_new Ask []))))
   = [2, 3]"
  using runtime_versions_count [of "runtime_new (store_new Ask [])" "[ClearOverlay ''a'', ClearOverlay ''b'']"]
  by (simp add: runtime_new_def upt_rec)

end
