(* ===== verification/ShellRisk.thy ===== *)
theory ShellRisk
  imports PolicyCenter
begin

text \<open>
  What the sandbox reads off a shell command: risk tags and capabilities
  (\<open>openjax-core/src/sandbox/policy.rs\<close>), the command class (\<open>classifier.rs\<close>) and the class of its
  result (\<open>result.rs\<close>, \<open>types.rs\<close>, and \<open>evaluate_runtime_status\<close> of \<open>mod.rs\<close>).
\<close>

section \<open>Backends, capabilities, traces\<close>

datatype sandbox_policy = PolicyNone | ReadOnly | WorkspaceWrite | DangerFullAccess

definition sandbox_policy_as_str :: "sandbox_policy \<Rightarrow> string" where
  "sandbox_policy_as_str p =
     (case p of PolicyNone \<Rightarrow> ''none'' | ReadOnly \<Rightarrow> ''read_only''
      | WorkspaceWrite \<Rightarrow> ''workspace_write'' | DangerFullAccess \<Rightarrow> ''danger_full_access'')"

datatype sandbox_backend = LinuxNative | MacosSeatbelt | NoneEscalated

definition backend_as_str :: "sandbox_backend \<Rightarrow> string" where
  "backend_as_str b =
     (case b of LinuxNative \<Rightarrow> ''linux_native'' | MacosSeatbelt \<Rightarrow> ''macos_seatbelt''
      | NoneEscalated \<Rightarrow> ''none_escalated'')"

text \<open>The operating system the code is compiled for (\<open>cfg(target_os)\<close>).\<close>

datatype target_os = Linux | Macos | OtherOs

definition preferred_backend :: "target_os \<Rightarrow> sandbox_policy \<Rightarrow> sandbox_backend option" where
  "preferred_backend os p =
     (case p of
        DangerFullAccess \<Rightarrow> Some NoneEscalated
      | PolicyNone \<Rightarrow> Some NoneEscalated
      | _ \<Rightarrow> Some (case os of Linux \<Rightarrow> LinuxNative | Macos \<Rightarrow> MacosSeatbelt
                                | OtherOs \<Rightarrow> NoneEscalated))"

datatype sandbox_capability = FsRead | FsWrite | ProcessExec | Network | EnvRead | EnvWrite

definition capability_as_str :: "sandbox_capability \<Rightarrow> string" where
  "capability_as_str c =
     (case c of FsRead \<Rightarrow> ''fs_read'' | FsWrite \<Rightarrow> ''fs_write'' | ProcessExec \<Rightarrow> ''process_exec''
      | Network \<Rightarrow> ''network'' | EnvRead \<Rightarrow> ''env_read'' | EnvWrite \<Rightarrow> ''env_write'')"

text \<open>The derived \<open>Ord\<close> orders the capabilities as they are declared.\<close>

definition capability_rank :: "sandbox_capability \<Rightarrow> nat" where
  "capability_rank c =
     (case c of FsRead \<Rightarrow> 0 | FsWrite \<Rightarrow> 1 | ProcessExec \<Rightarrow> 2 | Network \<Rightarrow> 3 | EnvRead \<Rightarrow> 4
      | EnvWrite \<Rightarrow> 5)"

lemma capability_rank_inj [simp]: "capability_rank a = capability_rank b \<longleftrightarrow> a = b"
  by (cases a; cases b) (simp_all add: capability_rank_def)

instantiation sandbox_capability :: linorder
begin

definition less_eq_sandbox_capability :: "sandbox_capability \<Rightarrow> sandbox_capability \<Rightarrow> bool" where
  "less_eq_sandbox_capability a b \<longleftrightarrow> capability_rank a \<le> capability_rank b"

definition less_sandbox_capability :: "sandbox_capability \<Rightarrow> sandbox_capability \<Rightarrow> bool" where
  "less_sandbox_capability a b \<longleftrightarrow> capability_rank a < capability_rank b"

instance
  by standard (auto simp: less_eq_sandbox_capability_def less_sandbox_capability_def)

end

datatype trace_decision = TraceAllow | AskApproval | AskEscalation | TraceDeny

record approval_context =
  ac_tool_name :: string
  ac_raw_command :: "string option"
  ac_normalized_command :: "string option"
  ac_command_preview :: "string option"
  ac_risk_tags :: "string list"
  ac_reason :: string
  ac_sandbox_backend :: "sandbox_backend option"
  ac_degrade_reason :: "string option"
  ac_fallback_plan :: "string option"

record policy_trace =
  pt_decision :: trace_decision
  pt_reason :: string
  pt_risk_tags :: "string list"
  pt_capabilities :: "sandbox_capability list"

record policy_outcome =
  po_trace :: policy_trace
  po_approval_context :: "approval_context option"

definition evaluate_tool_invocation_policy :: "bool \<Rightarrow> policy_outcome" where
  "evaluate_tool_invocation_policy is_mutating =
     \<lparr>po_trace =
        \<lparr>pt_decision = (if is_mutating then AskApproval else TraceAllow),
         pt_reason = (if is_mutating then ''mutating tool requires approval'' else ''allowed by default''),
         pt_risk_tags = [], pt_capabilities = []\<rparr>,
      po_approval_context = None\<rparr>"

section \<open>Capabilities and risk tags of a command\<close>

definition write_tokens :: "string list" where
  "write_tokens =
     [''>'', ''>>'', ''tee '', ''touch '', ''mkdir '', ''rmdir '', ''rm '', ''mv '', ''cp '',
      ''chmod '', ''chown '', ''sed -i'', ''perl -i'', ''truncate '', ''git add '', ''git commit'',
      ''git merge'', ''git rebase'', ''git cherry-pick'', ''git tag -a'', ''git reset --hard'',
      ''git clean -fd'']"

definition network_tokens :: "string list" where
  "network_tokens =
     [''curl '', ''wget '', ''ssh '', ''scp '', ''nc '', ''nmap '', ''ping '', ''dig '', ''nslookup '']"

definition read_tokens :: "string list" where
  "read_tokens =
     [''cat '', ''ls '', ''rg '', ''grep '', ''find '', ''head '', ''tail '', ''wc '', ''sed '',
      ''awk '', ''stat '', ''uname '', ''which '', ''printf '']"

definition starts_with_env_assignment :: "string \<Rightarrow> bool" where
  "starts_with_env_assignment command =
     (case split_once command '' '' of
        None \<Rightarrow> False
      | Some (left, _) \<Rightarrow> str_contains left ''='' \<and> \<not> starts_with left ''./'' \<and> \<not> starts_with left ''/'')"

definition detect_capabilities :: "string \<Rightarrow> sandbox_capability list" where
  "detect_capabilities command =
     (let lower = to_ascii_lowercase command
      in btree_set
          ([ProcessExec]
           @ (if str_contains lower ''$'' \<or> str_contains lower '' env'' \<or> starts_with lower ''env ''
              then [EnvRead] else [])
           @ (if contains_any lower write_tokens then [FsWrite] else [])
           @ (if contains_any lower network_tokens then [Network] else [])
           @ (if contains_any lower read_tokens then [FsRead] else [])
           @ (if str_contains lower ''export '' \<or> starts_with_env_assignment command
              then [EnvWrite] else [])))"

definition destructive_patterns :: "string list" where
  "destructive_patterns = [''rm -rf /'', ''mkfs'', ''dd if='', '':(){:|:&};:'']"

definition extract_shell_risk_tags :: "string \<Rightarrow> bool \<Rightarrow> string list" where
  "extract_shell_risk_tags command require_escalated =
     (let lower = to_ascii_lowercase command; caps = detect_capabilities command
      in btree_set
          ((if contains_any lower destructive_patterns then [''destructive''] else [])
           @ (if require_escalated then [''require_escalated''] else [])
           @ (if str_contains lower ''sudo '' then [''privilege_escalation''] else [])
           @ (if Network \<in> set caps then [''network''] else [])
           @ (if FsWrite \<in> set caps \<or> EnvWrite \<in> set caps then [''write''] else [])))"

text \<open>\<open>serde_json::Value\<close> read as a flag.\<close>

definition parse_boolish :: "json \<Rightarrow> bool option" where
  "parse_boolish v =
     (case as_bool v of
        Some b \<Rightarrow> Some b
      | None \<Rightarrow>
          (case as_str v of
             None \<Rightarrow> None
           | Some s \<Rightarrow>
               (let l = to_ascii_lowercase s
                in if l \<in> {''true'', ''1'', ''yes''} then Some True
                   else if l \<in> {''false'', ''0'', ''no''} then Some False else None)))"

text \<open>The whitespace normalisation the orchestrator applies before it reads tags off a command.\<close>

definition normalize_command :: "string \<Rightarrow> string" where
  "normalize_command cmd = join '' '' (split_whitespace cmd)"

section \<open>Command and result classes\<close>

datatype command_class = General | ProcessObserve | NetworkHeavy | WriteHeavy

definition classify_command :: "string \<Rightarrow> command_class" where
  "classify_command command =
     (let n = to_ascii_lowercase (trim_start command)
      in if starts_with n ''ps '' \<or> starts_with n ''top '' \<or> starts_with n ''pgrep '' then ProcessObserve
         else if str_contains n ''curl '' \<or> str_contains n ''wget '' \<or> str_contains n ''ssh ''
         then NetworkHeavy
         else if str_contains n ''>'' \<or> str_contains n '' tee '' \<or> str_contains n '' rm ''
           \<or> starts_with n ''rm '' \<or> str_contains n '' mv '' \<or> str_contains n '' cp ''
         then WriteHeavy
         else General)"

datatype result_class = Success | PartialSuccess | Failure

definition result_class_as_str :: "result_class \<Rightarrow> string" where
  "result_class_as_str c =
     (case c of Success \<Rightarrow> ''success'' | PartialSuccess \<Rightarrow> ''partial_success'' | Failure \<Rightarrow> ''failure'')"

definition looks_like_fatal_stderr :: "string \<Rightarrow> bool" where
  "looks_like_fatal_stderr stderr =
     (stderr \<noteq> [] \<and>
      (let lower = to_ascii_lowercase stderr
       in str_contains lower ''operation not permitted''
          \<or> str_contains lower ''permission denied''
          \<or> str_contains lower ''command not found''
          \<or> str_contains lower ''illegal option''
          \<or> str_contains lower ''no such file or directory''))"

definition classify_shell_result :: "int \<Rightarrow> string \<Rightarrow> string \<Rightarrow> result_class" where
  "classify_shell_result exit_code stdout stderr =
     (let e = trim stderr; out = trim stdout
      in if exit_code = 0 then (if out = [] \<and> looks_like_fatal_stderr e then Failure else Success)
         else if exit_code = 141 \<and> out \<noteq> [] \<and> e = [] then PartialSuccess
         else Failure)"

text \<open>Whether the run counts as allowed by the runtime, and why not.\<close>

definition evaluate_runtime_status :: "int \<Rightarrow> string \<Rightarrow> bool \<times> string option" where
  "evaluate_runtime_status exit_code stderr =
     (if exit_code \<noteq> 0 then
        (let reason = trim stderr
         in (False, Some (if reason = []
               then ''command exited with non-zero status: '' @ dec_of_int exit_code else reason)))
      else if looks_like_fatal_stderr (trim stderr) then (False, Some (trim stderr))
      else (True, None))"

section \<open>Lemmas\<close>

lemma contains_anyI: "p \<in> set ps \<Longrightarrow> str_contains s p \<Longrightarrow> contains_any s ps"
  by (auto simp: contains_any_def list_ex_iff)

lemma normalize_idempotent [simp]: "normalize_command (normalize_command cmd) = normalize_command cmd"
proof -
  have "split_whitespace (normalize_command cmd) = split_whitespace cmd"
    unfolding normalize_command_def
    by (rule split_whitespace_join) (use split_whitespace_tokens in blast)
  then show ?thesis by (simp add: normalize_command_def)
qed

lemma set_risk_tags:
  "set (extract_shell_risk_tags cmd esc) =
     {t. t = ''destructive'' \<and> contains_any (to_ascii_lowercase cmd) destructive_patterns}
     \<union> {t. t = ''require_escalated'' \<and> esc}
     \<union> {t. t = ''privilege_escalation'' \<and> str_contains (to_ascii_lowercase cmd) ''sudo ''}
     \<union> {t. t = ''network'' \<and> Network \<in> set (detect_capabilities cmd)}
     \<union> {t. t = ''write'' \<and> (FsWrite \<in> set (detect_capabilities cmd)
                            \<or> EnvWrite \<in> set (detect_capabilities cmd))}"
  by (auto simp: extract_shell_risk_tags_def Let_def split: if_splits)

text \<open>A root-directory removal is tagged however its words are separated and capitalised.\<close>

lemma rm_rf_tagged:
  assumes "map to_ascii_lowercase (split_whitespace cmd) = pre @ [''rm'', ''-rf'', CHR ''/'' # p] @ post"
  shows "''destructive'' \<in> set (extract_shell_risk_tags (normalize_command cmd) esc)"
proof -
  have space: "to_ascii_lowercase '' '' = '' ''" by code_simp
  have "to_ascii_lowercase (normalize_command cmd)
      = join '' '' (pre @ [''rm'', ''-rf'', CHR ''/'' # p] @ post)"
    unfolding normalize_command_def lowercase_join assms space ..
  moreover have "str_contains (join '' '' (pre @ [''rm'', ''-rf'', CHR ''/'' # p] @ post))
      (join '' '' [''rm'', ''-rf'', CHR ''/'' # p])"
    by (rule join_contains) simp
  moreover have "join '' '' [''rm'', ''-rf'', CHR ''/'' # p] = ''rm -rf /'' @ p" by simp
  ultimately have "str_contains (to_ascii_lowercase (normalize_command cmd)) ''rm -rf /''"
    by (metis append.assoc str_contains_iff)
  then have "contains_any (to_ascii_lowercase (normalize_command cmd)) destructive_patterns"
    by (intro contains_anyI [of "''rm -rf /''"]) (simp_all add: destructive_patterns_def)
  then show ?thesis by (simp add: set_risk_tags)
qed

section \<open>Properties\<close>

text \<open>the tags of a command are a strictly ascending list over the five known tags, and asking for
  escalation adds its own tag and changes no other.\<close>

theorem risk_tags_wellformed:
  "sorted (extract_shell_risk_tags cmd esc) \<and> distinct (extract_shell_risk_tags cmd esc)
   \<and> set (extract_shell_risk_tags cmd esc)
       \<subseteq> {''destructive'', ''require_escalated'', ''privilege_escalation'', ''network'', ''write''}
   \<and> set (extract_shell_risk_tags cmd True)
       = insert ''require_escalated'' (set (extract_shell_risk_tags cmd False))"
proof (intro conjI)
  show "sorted (extract_shell_risk_tags cmd esc)" "distinct (extract_shell_risk_tags cmd esc)"
    by (simp_all add: extract_shell_risk_tags_def Let_def)
qed (auto simp: set_risk_tags)

text \<open>a result classed as a failure is never reported as allowed by the runtime, and a nonzero
  exit is always denied with a nonempty reason.\<close>

theorem failure_not_runtime_allowed:
  assumes "classify_shell_result ec out err = Failure \<or> ec \<noteq> 0"
  shows "\<exists>reason. evaluate_runtime_status ec err = (False, Some reason) \<and> reason \<noteq> []"
  using assms
  by (auto simp: classify_shell_result_def evaluate_runtime_status_def looks_like_fatal_stderr_def
      Let_def split: if_splits)

theorem failure_not_runtime_allowed_witness:
  "\<exists>reason. evaluate_runtime_status 141 '''' = (False, Some reason) \<and> reason \<noteq> []"
  using failure_not_runtime_allowed [of 141 "''x''" "''''"] by simp

end
