(* ===== verification/ToolContext.thy ===== *)
theory ToolContext
  imports ShellRisk Protocol
begin

text \<open>
  What a tool call carries through the tool layer: payloads, outputs, errors, invocations and their
  policy view (\<open>openjax-core/src/tools/context.rs\<close>, \<open>error.rs\<close>), and the registry that dispatches an
  invocation to its handler (\<open>registry.rs\<close>). Handlers are the code's trait objects: functions from an
  invocation and the outside world to a result, the events they send and the world after.
\<close>

section \<open>Payloads, outputs, errors\<close>

datatype tool_payload =
  PFunction string
| PCustom string
| PLocalShell string "string list"
| PMcp string string string

record policy_descriptor =
  pd_action :: string
  pd_capabilities :: "string list"
  pd_risk_tags :: "string list"

definition allow_rule_for_tool :: "policy_descriptor \<Rightarrow> string \<Rightarrow> policy_rule" where
  "allow_rule_for_tool d tool_name =
     \<lparr>rule_id = ''descriptor:'' @ tool_name @ '':'' @ pd_action d, rule_decision = Allow,
      rule_priority = 100, rule_tool_name = Some tool_name, rule_action = Some (pd_action d),
      rule_session_id = None, rule_actor = None, rule_resource = None,
      rule_capabilities_all = pd_capabilities d, rule_risk_tags_all = pd_risk_tags d,
      rule_reason = ''tool `'' @ tool_name @ ''` is declared in policy descriptor''\<rparr>"

datatype output_body = BodyText string | BodyJson json

record mcp_tool_result =
  mcp_content :: "json option"
  mcp_is_error :: "bool option"

datatype tool_output =
  OutFunction output_body "bool option"
| OutMcp "string + mcp_tool_result"

datatype function_call_error =
  RespondToModel string
| ToolNotFound string
| InvalidPayload string
| ApprovalRejected string
| ApprovalTimedOut string
| Internal string

definition error_display :: "function_call_error \<Rightarrow> string" where
  "error_display e =
     (case e of RespondToModel s \<Rightarrow> s
      | ToolNotFound s \<Rightarrow> ''Tool not found: '' @ s
      | InvalidPayload s \<Rightarrow> ''Invalid payload for tool '' @ s
      | ApprovalRejected s \<Rightarrow> ''Approval rejected: '' @ s
      | ApprovalTimedOut s \<Rightarrow> ''Approval timed out: '' @ s
      | Internal s \<Rightarrow> ''Internal error: '' @ s)"

section \<open>Invocations\<close>

datatype shell_type = Bash | Zsh | Sh | PowerShell

text \<open>\<open>tc_event_sink\<close> says whether a sink is attached; the policy runtime is its current snapshot.\<close>

record tool_turn_context =
  tc_turn_id :: nat
  tc_session_id :: "string option"
  tc_cwd :: string
  tc_sandbox_policy :: sandbox_policy
  tc_shell_type :: shell_type
  tc_event_sink :: bool
  tc_policy_runtime :: "policy_snapshot option"
  tc_windows_sandbox_level :: "string option"
  tc_prevent_shell_skill_trigger :: bool

record tool_invocation =
  ti_tool_name :: string
  ti_call_id :: string
  ti_payload :: tool_payload
  ti_turn :: tool_turn_context

definition tool_policy_descriptor :: "tool_invocation \<Rightarrow> policy_descriptor option" where
  "tool_policy_descriptor iv =
     (let n = ti_tool_name iv
      in if n \<in> {''Read'', ''list_dir'', ''grep_files''} then
           Some \<lparr>pd_action = ''read'', pd_capabilities = [''fs_read''], pd_risk_tags = []\<rparr>
         else if n = ''Edit'' then
           Some \<lparr>pd_action = ''write'', pd_capabilities = [''fs_write''], pd_risk_tags = [''mutating'']\<rparr>
         else if n \<in> {''process_snapshot'', ''system_load'', ''disk_usage''} then
           Some \<lparr>pd_action = ''observe'', pd_capabilities = [''process_exec''], pd_risk_tags = []\<rparr>
         else if n \<in> {''shell'', ''exec_command''} then
           Some \<lparr>pd_action = ''exec'', pd_capabilities = [''process_exec''], pd_risk_tags = []\<rparr>
         else None)"

definition policy_session :: "tool_turn_context \<Rightarrow> string option" where
  "policy_session t =
     (case tc_session_id t of Some s \<Rightarrow> Some s | None \<Rightarrow> Some (dec_of_nat (tc_turn_id t)))"

definition to_policy_center_input ::
  "tool_invocation \<Rightarrow> policy_descriptor option \<Rightarrow> u64 \<Rightarrow> policy_input" where
  "to_policy_center_input iv descriptor version =
     (let (action, caps, tags) =
        (case descriptor of
           Some d \<Rightarrow> (pd_action d, pd_capabilities d, pd_risk_tags d)
         | None \<Rightarrow> (''invoke'', [], [''unknown_tool_descriptor'']))
      in \<lparr>in_tool_name = ti_tool_name iv, in_action = action,
          in_session_id = policy_session (ti_turn iv), in_actor = Some ''user'',
          in_resource = Some (tc_cwd (ti_turn iv)), in_capabilities = caps,
          in_risk_tags = tags, in_policy_version = version\<rparr>)"

text \<open>The command of a shell call, read from its JSON arguments; \<open>from_str\<close> is the JSON parser.\<close>

definition extract_shell_command ::
  "(string \<Rightarrow> json option) \<Rightarrow> tool_invocation \<Rightarrow> (string \<times> bool) option" where
  "extract_shell_command from_str iv =
     (case ti_payload iv of
        PFunction arguments \<Rightarrow>
          Option.bind (from_str arguments) (\<lambda>j.
          Option.bind (Option.bind (json_get j ''cmd'') as_str) (\<lambda>cmd.
            Some (cmd, case Option.bind (json_get j ''require_escalated'') parse_boolish of
                         Some b \<Rightarrow> b | None \<Rightarrow> False)))
      | _ \<Rightarrow> None)"

section \<open>The registry\<close>

datatype tool_kind = KFunction | KMcp

type_synonym 'w handle =
  "tool_invocation \<Rightarrow> 'w \<Rightarrow> (function_call_error + tool_output) \<times> event list \<times> 'w"

record 'w handler =
  h_kind :: tool_kind
  h_handle :: "'w handle"

type_synonym 'w registry = "string \<rightharpoonup> 'w handler"

definition matches_kind :: "tool_kind \<Rightarrow> tool_payload \<Rightarrow> bool" where
  "matches_kind k p =
     (case (k, p) of (KFunction, PFunction _) \<Rightarrow> True | (KMcp, PMcp _ _ _) \<Rightarrow> True | _ \<Rightarrow> False)"

definition register :: "string \<Rightarrow> 'w handler \<Rightarrow> 'w registry \<Rightarrow> 'w registry" where
  "register name h reg = reg(name \<mapsto> h)"

definition dispatch :: "'w registry \<Rightarrow> 'w handle" where
  "dispatch reg iv w =
     (case reg (ti_tool_name iv) of
        None \<Rightarrow> (Inl (ToolNotFound (ti_tool_name iv)), [], w)
      | Some h \<Rightarrow>
          if \<not> matches_kind (h_kind h) (ti_payload iv)
          then (Inl (InvalidPayload (''tool '' @ ti_tool_name iv @ '' does not support payload type'')), [], w)
          else h_handle h iv w)"

end
