(* ===== verification/Orchestrator.thy ===== *)
theory Orchestrator
  imports ToolContext
begin

text \<open>
  The tool orchestrator, \<open>openjax-core/src/tools/orchestrator.rs\<close> with \<open>sandboxing.rs\<close>, \<open>events.rs\<close>
  and \<open>hooks.rs\<close>: every tool call passes the policy centre, asks for approval where the decision
  requires it, and only then reaches the registry. The clock, the source of request ids, the
  approval handler and the JSON parser are the fields of an environment over a world \<open>'w\<close>.
\<close>

section \<open>Hooks\<close>

record before_tool_use =
  bh_tool_name :: string
  bh_call_id :: string
  bh_tool_input :: tool_payload

record after_tool_use =
  ah_tool_name :: string
  ah_call_id :: string
  ah_tool_input :: tool_payload
  ah_executed :: bool
  ah_success :: bool
  ah_mutating :: bool
  ah_sandbox :: string
  ah_sandbox_policy :: string
  ah_output_preview :: "tool_output option"

datatype hook_event = BeforeToolUse before_tool_use | AfterToolUse after_tool_use

definition hook_tool_name :: "hook_event \<Rightarrow> string" where
  "hook_tool_name e = (case e of BeforeToolUse d \<Rightarrow> bh_tool_name d | AfterToolUse d \<Rightarrow> ah_tool_name d)"

definition hook_call_id :: "hook_event \<Rightarrow> string" where
  "hook_call_id e = (case e of BeforeToolUse d \<Rightarrow> bh_call_id d | AfterToolUse d \<Rightarrow> ah_call_id d)"

section \<open>Sandbox manager\<close>

definition requires_approval :: "sandbox_policy \<Rightarrow> bool \<Rightarrow> bool" where
  "requires_approval p require_escalated =
     (case p of PolicyNone \<Rightarrow> False | ReadOnly \<Rightarrow> False | WorkspaceWrite \<Rightarrow> require_escalated
      | DangerFullAccess \<Rightarrow> False)"

definition select_sandbox :: "sandbox_policy \<Rightarrow> sandbox_policy" where
  "select_sandbox p = p"

definition is_mutating_operation :: "string \<Rightarrow> bool" where
  "is_mutating_operation n \<longleftrightarrow> n \<in> {''shell'', ''exec_command'', ''Edit''}"

section \<open>Policy decision of an invocation\<close>

definition is_shell_like_tool :: "string \<Rightarrow> bool" where
  "is_shell_like_tool n \<longleftrightarrow> n = ''shell'' \<or> n = ''exec_command''"

definition truncate_preview :: "string \<Rightarrow> nat \<Rightarrow> string" where
  "truncate_preview text limit = (if length text \<le> limit then text else take limit text @ ellipsis)"

text \<open>The descriptor of a shell call is completed with the risk tags of its command.\<close>

definition add_tags :: "string list \<Rightarrow> string list \<Rightarrow> string list" where
  "add_tags tags new = foldl (\<lambda>ts t. if t \<in> set ts then ts else ts @ [t]) tags new"

definition risk_descriptor ::
  "(string \<Rightarrow> json option) \<Rightarrow> tool_invocation \<Rightarrow> policy_descriptor option" where
  "risk_descriptor from_str iv =
     (let d = tool_policy_descriptor iv
      in if is_shell_like_tool (ti_tool_name iv) then
           (case extract_shell_command from_str iv of
              None \<Rightarrow> d
            | Some (command, esc) \<Rightarrow>
                map_option (\<lambda>d. d\<lparr>pd_risk_tags := add_tags (pd_risk_tags d)
                    (extract_shell_risk_tags (normalize_command command) esc)\<rparr>) d)
         else d)"

definition evaluate_policy_center_decision ::
  "(string \<Rightarrow> json option) \<Rightarrow> tool_invocation \<Rightarrow> policy_decision" where
  "evaluate_policy_center_decision from_str iv =
     (let d = risk_descriptor from_str iv
      in case tc_policy_runtime (ti_turn iv) of
           Some runtime \<Rightarrow>
             (let h = runtime_handle runtime
              in handle_decide h (to_policy_center_input iv d (snap_version h)))
         | None \<Rightarrow>
             (let has_risk = (case d of Some d' \<Rightarrow> pd_risk_tags d' \<noteq> [] | None \<Rightarrow> True);
                  rules = (if has_risk then []
                           else case d of Some d' \<Rightarrow> [allow_rule_for_tool d' (ti_tool_name iv)] | None \<Rightarrow> []);
                  runtime = runtime_new (store_new Ask rules)
              in handle_decide (runtime_handle runtime)
                   (to_policy_center_input iv d (snap_version runtime))))"

section \<open>Approval\<close>

record approval_request =
  rq_request_id :: string
  rq_target :: string
  rq_reason :: string

text \<open>How the wait for the approval handler ends: its answer, its error, or the timeout.\<close>

datatype approval_answer = Answered bool | HandlerError string | TimedOut

record 'w orch_env =
  oe_uuid :: "'w \<Rightarrow> string \<times> 'w"
  oe_ask :: "approval_request \<Rightarrow> 'w \<Rightarrow> approval_answer \<times> 'w"
  oe_timeout_ms :: nat
  oe_from_str :: "string \<Rightarrow> json option"

definition shell_approval_context ::
  "(string \<Rightarrow> json option) \<Rightarrow> tool_invocation \<Rightarrow> policy_decision \<Rightarrow> approval_context option" where
  "shell_approval_context from_str iv d =
     (if is_shell_like_tool (ti_tool_name iv) then
        map_option (\<lambda>(cmd, esc).
          (let normalized = normalize_command cmd
           in \<lparr>ac_tool_name = ti_tool_name iv, ac_raw_command = Some cmd,
               ac_normalized_command = Some normalized,
               ac_command_preview = Some (truncate_preview normalized 160),
               ac_risk_tags = extract_shell_risk_tags normalized esc, ac_reason = dec_reason d,
               ac_sandbox_backend = None, ac_degrade_reason = None, ac_fallback_plan = None\<rparr>))
          (extract_shell_command from_str iv)
      else None)"

definition approval_target :: "tool_invocation \<Rightarrow> approval_context option \<Rightarrow> string" where
  "approval_target iv ctx =
     (case Option.bind ctx ac_raw_command of Some c \<Rightarrow> c | None \<Rightarrow> ti_tool_name iv)"

definition approval_reason :: "policy_decision \<Rightarrow> approval_context option \<Rightarrow> string" where
  "approval_reason d ctx = (case ctx of Some c \<Rightarrow> ac_reason c | None \<Rightarrow> dec_reason d)"

definition approval_kind_of :: "decision_kind \<Rightarrow> approval_kind option" where
  "approval_kind_of k = (case k of Ask \<Rightarrow> Some Normal | Escalate \<Rightarrow> Some Escalation | _ \<Rightarrow> None)"

definition approval_requested ::
  "tool_invocation \<Rightarrow> policy_decision \<Rightarrow> approval_context option \<Rightarrow> string \<Rightarrow> event" where
  "approval_requested iv d ctx request_id = ApprovalRequested
     \<lparr>ar_turn_id = tc_turn_id (ti_turn iv), ar_request_id = request_id,
      ar_target = approval_target iv ctx, ar_reason = approval_reason d ctx,
      ar_policy_version = Some (dec_policy_version d), ar_matched_rule_id = dec_matched_rule_id d,
      ar_tool_name = Some (ti_tool_name iv),
      ar_command_preview = Option.bind ctx ac_command_preview,
      ar_risk_tags = (case ctx of Some c \<Rightarrow> ac_risk_tags c | None \<Rightarrow> []),
      ar_sandbox_backend = map_option backend_as_str (Option.bind ctx ac_sandbox_backend),
      ar_degrade_reason = Option.bind ctx ac_degrade_reason,
      ar_approval_kind = approval_kind_of (dec_kind d)\<rparr>"

text \<open>\<open>sink.send\<close> when a sink is attached.\<close>

definition send :: "tool_invocation \<Rightarrow> event list \<Rightarrow> event list" where
  "send iv evs = (if tc_event_sink (ti_turn iv) then evs else [])"

definition timed_out_error :: "nat \<Rightarrow> string \<Rightarrow> function_call_error" where
  "timed_out_error ms request_id =
     ApprovalTimedOut (''approval request timed out after '' @ dec_of_nat ms @ ''ms ('' @ request_id @ '')'')"

text \<open>The approval exchange: the error that ends the call, if any, and the events sent.\<close>

definition request_tool_approval ::
  "'w orch_env \<Rightarrow> tool_invocation \<Rightarrow> policy_decision \<Rightarrow> 'w
     \<Rightarrow> function_call_error option \<times> event list \<times> 'w" where
  "request_tool_approval env iv d w =
     (let (request_id, w1) = oe_uuid env w;
          ctx = shell_approval_context (oe_from_str env) iv d;
          requested = approval_requested iv d ctx request_id;
          resolved = (\<lambda>b. ApprovalResolved (tc_turn_id (ti_turn iv)) request_id b);
          request = \<lparr>rq_request_id = request_id, rq_target = approval_target iv ctx,
                     rq_reason = approval_reason d ctx\<rparr>;
          (answer, w2) = oe_ask env request w1
      in case answer of
           HandlerError e \<Rightarrow> (Some (Internal e), send iv [requested], w2)
         | TimedOut \<Rightarrow> (Some (timed_out_error (oe_timeout_ms env) request_id),
                         send iv [requested, resolved False], w2)
         | Answered approved \<Rightarrow>
             ((if approved then None else Some (ApprovalRejected ''command rejected by user'')),
              send iv [requested, resolved approved], w2))"

section \<open>The orchestrator\<close>

text \<open>Its own state is the set of turns in which a mutating tool was approved.\<close>

type_synonym approved_turns = "nat list"

definition should_reuse_mutating_approval :: "approved_turns \<Rightarrow> tool_invocation \<Rightarrow> bool \<Rightarrow> bool" where
  "should_reuse_mutating_approval approved iv is_mutating =
     (if \<not> is_mutating \<or> is_shell_like_tool (ti_tool_name iv) then False
      else tc_turn_id (ti_turn iv) \<in> set approved)"

definition record_mutating_approval :: "tool_invocation \<Rightarrow> bool \<Rightarrow> approved_turns \<Rightarrow> approved_turns" where
  "record_mutating_approval iv is_mutating approved =
     (if \<not> is_mutating \<or> is_shell_like_tool (ti_tool_name iv) then approved
      else let a = List.insert (tc_turn_id (ti_turn iv)) approved
           in if length a > 256 then [] else a)"

record 'w run_result =
  rr_result :: "function_call_error + tool_output"
  rr_events :: "event list"
  rr_hooks :: "hook_event list"
  rr_approved :: approved_turns
  rr_world :: 'w

definition output_succeeded :: "function_call_error + tool_output \<Rightarrow> bool" where
  "output_succeeded r =
     (case r of
        Inr (OutFunction _ (Some True)) \<Rightarrow> True
      | Inr (OutFunction _ None) \<Rightarrow> True
      | Inr (OutMcp (Inr _)) \<Rightarrow> True
      | _ \<Rightarrow> False)"

definition before_hook :: "tool_invocation \<Rightarrow> hook_event" where
  "before_hook iv = BeforeToolUse
     \<lparr>bh_tool_name = ti_tool_name iv, bh_call_id = ti_call_id iv, bh_tool_input = ti_payload iv\<rparr>"

definition after_hook ::
  "tool_invocation \<Rightarrow> bool \<Rightarrow> function_call_error + tool_output \<Rightarrow> hook_event" where
  "after_hook iv is_mutating r = AfterToolUse
     \<lparr>ah_tool_name = ti_tool_name iv, ah_call_id = ti_call_id iv, ah_tool_input = ti_payload iv,
      ah_executed = output_succeeded r, ah_success = output_succeeded r, ah_mutating = is_mutating,
      ah_sandbox = sandbox_policy_as_str (select_sandbox (tc_sandbox_policy (ti_turn iv))),
      ah_sandbox_policy = sandbox_policy_as_str (tc_sandbox_policy (ti_turn iv)),
      ah_output_preview = (case r of Inr out \<Rightarrow> Some out | Inl _ \<Rightarrow> None)\<rparr>"

definition dispatch_with_hooks ::
  "'w registry \<Rightarrow> tool_invocation \<Rightarrow> bool \<Rightarrow> event list \<Rightarrow> approved_turns \<Rightarrow> 'w \<Rightarrow> 'w run_result" where
  "dispatch_with_hooks reg iv is_mutating evs approved w =
     (let (r, evs', w') = dispatch reg iv w
      in \<lparr>rr_result = r, rr_events = evs @ send iv evs',
          rr_hooks = [before_hook iv, after_hook iv is_mutating r],
          rr_approved = approved, rr_world = w'\<rparr>)"

definition run ::
  "'w orch_env \<Rightarrow> 'w registry \<Rightarrow> approved_turns \<Rightarrow> tool_invocation \<Rightarrow> 'w \<Rightarrow> 'w run_result" where
  "run env reg approved iv w =
     (let is_mutating = is_mutating_operation (ti_tool_name iv);
          d = evaluate_policy_center_decision (oe_from_str env) iv;
          reuse = should_reuse_mutating_approval approved iv is_mutating;
          fail = (\<lambda>e evs w'. \<lparr>rr_result = Inl e, rr_events = evs, rr_hooks = [before_hook iv],
                              rr_approved = approved, rr_world = w'\<rparr>)
      in if dec_kind d = Deny then fail (Internal (dec_reason d)) [] w
         else if dec_kind d \<in> {Ask, Escalate} \<and> \<not> reuse then
           (case request_tool_approval env iv d w of
              (Some e, evs, w') \<Rightarrow> fail e evs w'
            | (None, evs, w') \<Rightarrow>
                dispatch_with_hooks reg iv is_mutating evs
                  (record_mutating_approval iv is_mutating approved) w')
         else dispatch_with_hooks reg iv is_mutating [] approved w)"

text \<open>Whether a run reached the registry shows in its hooks.\<close>

definition dispatched :: "'w run_result \<Rightarrow> bool" where
  "dispatched r = list_ex (\<lambda>e. case e of AfterToolUse _ \<Rightarrow> True | _ \<Rightarrow> False) (rr_hooks r)"

text \<open>A sequence of calls through one orchestrator.\<close>

fun run_all ::
  "'w orch_env \<Rightarrow> 'w registry \<Rightarrow> approved_turns \<Rightarrow> tool_invocation list \<Rightarrow> 'w \<Rightarrow> 'w run_result list" where
  "run_all env reg approved [] w = []"
| "run_all env reg approved (iv # ivs) w =
     (let r = run env reg approved iv w in r # run_all env reg (rr_approved r) ivs (rr_world r))"

section \<open>Lemmas\<close>

lemma set_add_tags [simp]: "set (add_tags ts new) = set ts \<union> set new"
proof -
  have "set (foldl (\<lambda>ts t. if t \<in> set ts then ts else ts @ [t]) ts new) = set ts \<union> set new"
    by (induction new arbitrary: ts) auto
  then show ?thesis by (simp add: add_tags_def)
qed

text \<open>The answer the approval handler gives in the exchange for an invocation.\<close>

definition approval_answer_of ::
  "'w orch_env \<Rightarrow> tool_invocation \<Rightarrow> policy_decision \<Rightarrow> 'w \<Rightarrow> approval_answer" where
  "approval_answer_of env iv d w =
     (let (request_id, w1) = oe_uuid env w;
          ctx = shell_approval_context (oe_from_str env) iv d
      in fst (oe_ask env \<lparr>rq_request_id = request_id, rq_target = approval_target iv ctx,
                          rq_reason = approval_reason d ctx\<rparr> w1))"

definition requested_event :: "'w orch_env \<Rightarrow> tool_invocation \<Rightarrow> policy_decision \<Rightarrow> 'w \<Rightarrow> event" where
  "requested_event env iv d w =
     approval_requested iv d (shell_approval_context (oe_from_str env) iv d) (fst (oe_uuid env w))"

definition resolved_event :: "'w orch_env \<Rightarrow> tool_invocation \<Rightarrow> 'w \<Rightarrow> bool \<Rightarrow> event" where
  "resolved_event env iv w b = ApprovalResolved (tc_turn_id (ti_turn iv)) (fst (oe_uuid env w)) b"

lemma request_tool_approval_cases:
  obtains (granted) w' where "approval_answer_of env iv d w = Answered True"
      "request_tool_approval env iv d w = (None, send iv [requested_event env iv d w, resolved_event env iv w True], w')"
  | (refused) w' where "approval_answer_of env iv d w = Answered False"
      "request_tool_approval env iv d w = (Some (ApprovalRejected ''command rejected by user''),
         send iv [requested_event env iv d w, resolved_event env iv w False], w')"
  | (handler_error) e w' where "approval_answer_of env iv d w = HandlerError e"
      "request_tool_approval env iv d w = (Some (Internal e), send iv [requested_event env iv d w], w')"
  | (timed_out) w' where "approval_answer_of env iv d w = TimedOut"
      "request_tool_approval env iv d w = (Some (timed_out_error (oe_timeout_ms env) (fst (oe_uuid env w))),
         send iv [requested_event env iv d w, resolved_event env iv w False], w')"
proof -
  obtain rid w1 where u: "oe_uuid env w = (rid, w1)" by fastforce
  obtain a w2 where a: "oe_ask env \<lparr>rq_request_id = rid,
      rq_target = approval_target iv (shell_approval_context (oe_from_str env) iv d),
      rq_reason = approval_reason d (shell_approval_context (oe_from_str env) iv d)\<rparr> w1 = (a, w2)"
    by fastforce
  note defs = approval_answer_of_def request_tool_approval_def requested_event_def resolved_event_def
  show ?thesis
  proof (cases a)
    case (Answered b)
    then show ?thesis using granted [of w2] refused [of w2] by (cases b) (simp_all add: defs u a)
  next
    case (HandlerError e)
    then show ?thesis using handler_error [of e w2] by (simp add: defs u a)
  next
    case TimedOut
    then show ?thesis using timed_out [of w2] by (simp add: defs u a)
  qed
qed

lemma dispatched_dispatch [simp]:
  "dispatched (dispatch_with_hooks reg iv m evs approved w)"
  "rr_approved (dispatch_with_hooks reg iv m evs approved w) = approved"
  "\<exists>evs'. rr_events (dispatch_with_hooks reg iv m evs approved w) = evs @ send iv evs'"
  by (auto simp: dispatched_def dispatch_with_hooks_def case_prod_beta Let_def after_hook_def)

text \<open>The three ways a run goes: refused, waved through, or approved.\<close>

abbreviation decision_of :: "'w orch_env \<Rightarrow> tool_invocation \<Rightarrow> policy_decision" where
  "decision_of env iv \<equiv> evaluate_policy_center_decision (oe_from_str env) iv"

lemma run_cases:
  obtains (failed) e evs w' where
      "run env reg approved iv w = \<lparr>rr_result = Inl e, rr_events = evs, rr_hooks = [before_hook iv],
         rr_approved = approved, rr_world = w'\<rparr>"
      "dec_kind (decision_of env iv) = Deny \<and> evs = [] \<and> e = Internal (dec_reason (decision_of env iv))
       \<or> dec_kind (decision_of env iv) \<in> {Ask, Escalate}
         \<and> approval_answer_of env iv (decision_of env iv) w \<noteq> Answered True
         \<and> (evs = send iv [requested_event env iv (decision_of env iv) w, resolved_event env iv w False]
            \<or> (\<exists>m. approval_answer_of env iv (decision_of env iv) w = HandlerError m)
              \<and> evs = send iv [requested_event env iv (decision_of env iv) w])"
  | (free) "run env reg approved iv w
        = dispatch_with_hooks reg iv (is_mutating_operation (ti_tool_name iv)) [] approved w"
      "dec_kind (decision_of env iv) = Allow
       \<or> should_reuse_mutating_approval approved iv (is_mutating_operation (ti_tool_name iv))"
      "dec_kind (decision_of env iv) \<noteq> Deny"
  | (approved) w' where "run env reg approved iv w
        = dispatch_with_hooks reg iv (is_mutating_operation (ti_tool_name iv))
            (send iv [requested_event env iv (decision_of env iv) w, resolved_event env iv w True])
            (record_mutating_approval iv (is_mutating_operation (ti_tool_name iv)) approved) w'"
      "approval_answer_of env iv (decision_of env iv) w = Answered True"
      "dec_kind (decision_of env iv) \<in> {Ask, Escalate}"
proof -
  let ?d = "decision_of env iv"
  let ?m = "is_mutating_operation (ti_tool_name iv)"
  let ?reuse = "should_reuse_mutating_approval approved iv ?m"
  consider (deny) "dec_kind ?d = Deny" | (ask) "dec_kind ?d \<in> {Ask, Escalate}" "\<not> ?reuse"
    | (pass) "dec_kind ?d \<noteq> Deny" "\<not> (dec_kind ?d \<in> {Ask, Escalate} \<and> \<not> ?reuse)"
    by blast
  then show ?thesis
  proof cases
    case deny
    show ?thesis by (rule failed) (use deny in \<open>simp_all add: run_def Let_def\<close>)
  next
    case pass
    show ?thesis
      by (rule free) (use pass in \<open>auto simp: run_def Let_def intro: decision_kind.exhaust\<close>)
  next
    case ask
    then have nd: "dec_kind ?d \<noteq> Deny" by auto
    show ?thesis
    proof (cases rule: request_tool_approval_cases [of env iv ?d w])
      case (granted w')
      show ?thesis by (rule approved) (use granted ask nd in \<open>simp_all add: run_def Let_def\<close>)
    next
      case (refused w')
      show ?thesis by (rule failed) (use refused ask nd in \<open>simp_all add: run_def Let_def\<close>)
    next
      case (handler_error e w')
      have r: "run env reg approved iv w = \<lparr>rr_result = Inl (Internal e),
          rr_events = send iv [requested_event env iv ?d w], rr_hooks = [before_hook iv],
          rr_approved = approved, rr_world = w'\<rparr>"
        using handler_error ask nd by (simp add: run_def Let_def)
      show ?thesis by (rule failed [OF r]) (use handler_error ask in auto)
    next
      case (timed_out w')
      show ?thesis by (rule failed) (use timed_out ask nd in \<open>simp_all add: run_def Let_def\<close>)
    qed
  qed
qed

lemma failed_not_dispatched [simp]:
  "\<not> dispatched \<lparr>rr_result = r, rr_events = evs, rr_hooks = [before_hook iv], rr_approved = a, rr_world = w\<rparr>"
  by (simp add: dispatched_def before_hook_def)

lemma reuse_only_edit:
  "should_reuse_mutating_approval approved iv (is_mutating_operation (ti_tool_name iv)) \<Longrightarrow>
     ti_tool_name iv = ''Edit'' \<and> tc_turn_id (ti_turn iv) \<in> set approved"
  by (auto simp: should_reuse_mutating_approval_def is_mutating_operation_def is_shell_like_tool_def
      split: if_splits)


lemma failed_approved [simp]:
  "rr_approved (dispatch_with_hooks reg iv m evs (record_mutating_approval iv m' approved) w)
   = record_mutating_approval iv m' approved"
  by simp

lemma record_mutating_approval_in:
  "t \<in> set (record_mutating_approval iv m approved) \<Longrightarrow> t \<in> set approved \<or> t = tc_turn_id (ti_turn iv)"
  by (auto simp: record_mutating_approval_def Let_def split: if_splits)

text \<open>What the two built-in rules of the fallback decide.\<close>

lemma fallback_kind:
  assumes none: "tc_policy_runtime (ti_turn iv) = None"
  shows "dec_kind (evaluate_policy_center_decision fs iv) =
    (case risk_descriptor fs iv of
       None \<Rightarrow> Ask
     | Some d \<Rightarrow> if ''destructive'' \<in> set (pd_risk_tags d) then Escalate
                 else if pd_risk_tags d = [] then Allow else Ask)"
proof (cases "risk_descriptor fs iv")
  case None
  then show ?thesis
    by (simp add: evaluate_policy_center_decision_def none handle_decide_simps runtime_handle_def
        runtime_new_def store_new_def decide_def max_by_def system_rule_matches Let_def
        to_policy_center_input_def)
next
  case (Some d)
  have allow: "rule_matches (allow_rule_for_tool d (ti_tool_name iv)) (to_policy_center_input iv (Some d) v)"
    for v
    by (simp add: rule_matches_def allow_rule_for_tool_def to_policy_center_input_def contains_all_iff)
  have kind: "rule_decision (allow_rule_for_tool d n) = Allow" for n
    by (simp add: allow_rule_for_tool_def)
  have tags: "in_risk_tags (to_policy_center_input iv (Some d) v) = pd_risk_tags d" for v
    by (simp add: to_policy_center_input_def)
  have esc: "rule_decision system_destructive = Escalate" by (simp add: system_destructive_def)
  show ?thesis
    by (cases "pd_risk_tags d = []")
      (auto simp: evaluate_policy_center_decision_def none Some handle_decide_simps runtime_handle_def
        runtime_new_def store_new_def decide_def max_by_def system_rule_matches Let_def allow kind tags esc)
qed


lemma dispatched_iff:
  "dispatched (run env reg approved iv w) \<longleftrightarrow>
     dec_kind (decision_of env iv) \<noteq> Deny
     \<and> (dec_kind (decision_of env iv) = Allow
        \<or> should_reuse_mutating_approval approved iv (is_mutating_operation (ti_tool_name iv))
        \<or> approval_answer_of env iv (decision_of env iv) w = Answered True)"
proof (cases "dec_kind (decision_of env iv)
    \<in> {Ask, Escalate} \<and> \<not> should_reuse_mutating_approval approved iv (is_mutating_operation (ti_tool_name iv))")
  case True
  then show ?thesis
    by (cases rule: request_tool_approval_cases [of env iv "decision_of env iv" w])
      (auto simp: run_def Let_def)
next
  case False
  then show ?thesis
    by (cases "dec_kind (decision_of env iv)") (simp_all add: run_def Let_def)
qed

section \<open>Example data for the witnesses\<close>

definition example_turn :: tool_turn_context where
  "example_turn = \<lparr>tc_turn_id = 7, tc_session_id = None, tc_cwd = ''ws'', tc_sandbox_policy = WorkspaceWrite,
     tc_shell_type = Bash, tc_event_sink = True, tc_policy_runtime = None,
     tc_windows_sandbox_level = None, tc_prevent_shell_skill_trigger = False\<rparr>"

definition example_edit :: tool_invocation where
  "example_edit = \<lparr>ti_tool_name = ''Edit'', ti_call_id = ''c'', ti_payload = PFunction ''{}'', ti_turn = example_turn\<rparr>"

definition example_rm :: tool_invocation where
  "example_rm = example_edit\<lparr>ti_tool_name := ''shell''\<rparr>"

definition example_parser :: "string \<Rightarrow> json option" where
  "example_parser s = Some (JObject [(''cmd'', JString ''sudo rm -rf /tmp/x'')])"

definition example_env :: "approval_answer \<Rightarrow> unit orch_env" where
  "example_env a = \<lparr>oe_uuid = (\<lambda>w. (''r'', w)), oe_ask = (\<lambda>_ w. (a, w)), oe_timeout_ms = 100,
     oe_from_str = example_parser\<rparr>"

definition example_registry :: "unit registry" where
  "example_registry = [''Edit'' \<mapsto> \<lparr>h_kind = KFunction,
       h_handle = (\<lambda>_ w. (Inr (OutFunction (BodyText ''ok'') (Some True)), [], w))\<rparr>,
     ''shell'' \<mapsto> \<lparr>h_kind = KFunction,
       h_handle = (\<lambda>_ w. (Inr (OutFunction (BodyText ''gone'') (Some True)), [], w))\<rparr>]"

lemma example_answer [simp]: "approval_answer_of (example_env a) iv d w = a"
  by (simp add: approval_answer_of_def example_env_def)

section \<open>Properties\<close>

text \<open>C1: a tool call reaches its handler only with an authorisation: the policy did not deny it, and
  the policy allows it, or the user approved this very call, or the call is an \<open>Edit\<close> in a turn
  whose approval is remembered.\<close>

theorem dispatch_needs_authorisation:
  assumes "dispatched (run env reg approved iv w)"
  shows "dec_kind (evaluate_policy_center_decision (oe_from_str env) iv) \<noteq> Deny
    \<and> (dec_kind (evaluate_policy_center_decision (oe_from_str env) iv) = Allow
       \<or> approval_answer_of env iv (evaluate_policy_center_decision (oe_from_str env) iv) w = Answered True
       \<or> ti_tool_name iv = ''Edit'' \<and> tc_turn_id (ti_turn iv) \<in> set approved)"
proof (cases rule: run_cases [of env reg approved iv w])
  case (failed e evs w')
  with assms show ?thesis by simp
next
  case free
  then show ?thesis using reuse_only_edit [of approved iv] by auto
next
  case (approved w')
  then show ?thesis by auto
qed

theorem dispatch_needs_authorisation_witness:
  "approval_answer_of (example_env (Answered True)) example_edit
     (evaluate_policy_center_decision example_parser example_edit) () = Answered True"
proof -
  have "dec_kind (evaluate_policy_center_decision example_parser example_edit) = Ask"
    by (simp add: fallback_kind risk_descriptor_def example_edit_def example_turn_def
        is_shell_like_tool_def tool_policy_descriptor_def)
  then have kind: "dec_kind (decision_of (example_env (Answered True)) example_edit) = Ask"
    by (simp add: example_env_def)
  then have "dispatched (run (example_env (Answered True)) example_registry [] example_edit ())"
    by (simp add: dispatched_iff)
  from dispatch_needs_authorisation [OF this] kind show ?thesis by (simp add: example_env_def)
qed

text \<open>without a policy runtime the fallback store never denies: a call whose descriptor carries no
  risk tag is allowed, one tagged destructive escalates, and everything else is asked.\<close>

theorem fallback_decision:
  assumes "tc_policy_runtime (ti_turn iv) = None"
  shows "dec_kind (evaluate_policy_center_decision fs iv) \<noteq> Deny
    \<and> (dec_kind (evaluate_policy_center_decision fs iv) = Allow
         \<longleftrightarrow> (\<exists>d. risk_descriptor fs iv = Some d \<and> pd_risk_tags d = []))
    \<and> (dec_kind (evaluate_policy_center_decision fs iv) = Escalate
         \<longleftrightarrow> (\<exists>d. risk_descriptor fs iv = Some d \<and> ''destructive'' \<in> set (pd_risk_tags d)))"
  by (auto simp: fallback_kind [OF assms] split: option.splits if_splits)

theorem fallback_decision_witness:
  "dec_kind (evaluate_policy_center_decision example_parser example_rm) \<noteq> Deny"
  using fallback_decision [of example_rm example_parser]
  by (simp add: example_rm_def example_edit_def example_turn_def)

text \<open>C2: a shell call whose command has the words \<open>rm -rf /...\<close>, in any letter case and with any
  white space, is never run on the fallback policy without the user's answer to that call: an
  earlier approval in the same turn does not cover it.\<close>

theorem rm_rf_needs_approval:
  assumes none: "tc_policy_runtime (ti_turn iv) = None"
    and shell: "is_shell_like_tool (ti_tool_name iv)"
    and cmd: "extract_shell_command (oe_from_str env) iv = Some (cmd, esc)"
    and words: "map to_ascii_lowercase (split_whitespace cmd) = pre @ [''rm'', ''-rf'', CHR ''/'' # p] @ post"
    and run: "dispatched (run env reg approved iv w)"
  shows "approval_answer_of env iv (evaluate_policy_center_decision (oe_from_str env) iv) w = Answered True"
proof -
  obtain d where d: "tool_policy_descriptor iv = Some d"
    using shell by (auto simp: is_shell_like_tool_def tool_policy_descriptor_def)
  have "''destructive'' \<in> set (pd_risk_tags (d\<lparr>pd_risk_tags := add_tags (pd_risk_tags d)
      (extract_shell_risk_tags (normalize_command cmd) esc)\<rparr>))"
    using rm_rf_tagged [OF words] by simp
  then have kind: "dec_kind (evaluate_policy_center_decision (oe_from_str env) iv) = Escalate"
    using shell cmd d by (simp add: fallback_kind [OF none] risk_descriptor_def Let_def)
  have "ti_tool_name iv \<noteq> ''Edit''" using shell by (auto simp: is_shell_like_tool_def)
  then show ?thesis
    using kind run reuse_only_edit [of approved iv]
    by (cases rule: run_cases [of env reg approved iv w]) auto
qed

theorem rm_rf_needs_approval_witness:
  "approval_answer_of (example_env (Answered True)) example_rm
     (evaluate_policy_center_decision example_parser example_rm) () = Answered True"
proof -
  have "tc_policy_runtime (ti_turn example_rm) = None" "is_shell_like_tool (ti_tool_name example_rm)"
    "extract_shell_command (oe_from_str (example_env (Answered True))) example_rm
       = Some (''sudo rm -rf /tmp/x'', False)"
    "map to_ascii_lowercase (split_whitespace ''sudo rm -rf /tmp/x'')
       = [''sudo''] @ [''rm'', ''-rf'', CHR ''/'' # ''tmp/x''] @ []"
    "dispatched (run (example_env (Answered True)) example_registry [7] example_rm ())"
    subgoal by (simp add: example_rm_def example_edit_def example_turn_def)
    subgoal by (simp add: example_rm_def is_shell_like_tool_def)
    subgoal by (simp add: extract_shell_command_def example_env_def example_rm_def example_edit_def
        example_parser_def json_get_def as_str_def)
    subgoal by code_simp
    subgoal by (simp add: dispatched_iff fallback_kind example_rm_def example_edit_def example_turn_def
        split: option.split)
    done
  from rm_rf_needs_approval [OF this] show ?thesis by (simp add: example_env_def)
qed


text \<open>An approval shows in the events of the run that obtained it.\<close>

definition shows_approval :: "nat \<Rightarrow> 'w run_result \<Rightarrow> bool" where
  "shows_approval t r \<longleftrightarrow>
     (case rr_events r of
        ApprovalRequested _ # ApprovalResolved t' _ ok # _ \<Rightarrow> t' = t \<and> ok
      | _ \<Rightarrow> False)"

lemma approved_run_shows:
  assumes "tc_event_sink (ti_turn iv)"
    and "t \<in> set (rr_approved (run env reg approved iv w)) - set approved
         \<or> t = tc_turn_id (ti_turn iv) \<and> dispatched (run env reg approved iv w)
           \<and> dec_kind (decision_of env iv) \<noteq> Allow \<and> t \<notin> set approved"
  shows "t = tc_turn_id (ti_turn iv) \<and> shows_approval t (run env reg approved iv w)"
proof (cases rule: run_cases [of env reg approved iv w])
  case (failed e evs w')
  with assms show ?thesis by simp
next
  case free
  then show ?thesis using assms reuse_only_edit [of approved iv] by auto
next
  case (approved w')
  obtain evs' where ev: "rr_events (run env reg approved iv w)
      = send iv [requested_event env iv (decision_of env iv) w, resolved_event env iv w True] @ send iv evs'"
    using approved(1) dispatched_dispatch(3) [of reg iv _ _ _ w'] by metis
  have "t = tc_turn_id (ti_turn iv)"
    using assms(2) approved(1) record_mutating_approval_in [of t iv _ "approved"] by auto
  then show ?thesis
    using assms(1) by (simp add: ev send_def shows_approval_def requested_event_def
        approval_requested_def resolved_event_def)
qed

lemma run_all_provenance:
  assumes "\<forall>iv \<in> set ivs. tc_event_sink (ti_turn iv)" and "i < length ivs"
    and "dispatched (run_all env reg approved ivs w ! i)"
    and "dec_kind (decision_of env (ivs ! i)) \<noteq> Allow"
  shows "tc_turn_id (ti_turn (ivs ! i)) \<in> set approved
    \<or> (\<exists>j \<le> i. tc_turn_id (ti_turn (ivs ! j)) = tc_turn_id (ti_turn (ivs ! i))
              \<and> shows_approval (tc_turn_id (ti_turn (ivs ! i))) (run_all env reg approved ivs w ! j))"
  using assms
proof (induction ivs arbitrary: approved w i)
  case (Cons iv ivs)
  let ?r = "run env reg approved iv w"
  have sink: "tc_event_sink (ti_turn iv)" using Cons.prems(1) by simp
  show ?case
  proof (cases i)
    case 0
    then show ?thesis
      using Cons.prems approved_run_shows [OF sink, of "tc_turn_id (ti_turn iv)" env reg approved w]
      by (auto simp: Let_def)
  next
    case (Suc k)
    let ?t = "tc_turn_id (ti_turn (ivs ! k))"
    consider "?t \<in> set (rr_approved ?r)"
      | j where "j \<le> k" "tc_turn_id (ti_turn (ivs ! j)) = ?t"
          "shows_approval ?t (run_all env reg (rr_approved ?r) ivs (rr_world ?r) ! j)"
      using Cons.IH [of k "rr_approved ?r" "rr_world ?r"] Cons.prems Suc by (auto simp: Let_def)
    then show ?thesis
    proof cases
      case 1
      then show ?thesis
        using approved_run_shows [OF sink, of ?t env reg approved w]
        by (cases "?t \<in> set approved") (auto simp: Suc Let_def intro!: exI [of _ 0])
    next
      case (2 j)
      then show ?thesis by (auto simp: Suc Let_def intro!: exI [of _ "Suc j"])
    qed
  qed
qed simp

text \<open>over any sequence of calls through one orchestrator that starts with no remembered approval,
  every call that is dispatched without the policy allowing it stands under an approval the user
  gave in the same turn: one call of that turn, no later than it, shows the request and its
  positive answer. Approvals never leak from one turn into another.\<close>

theorem approvals_stay_in_turn:
  assumes "\<forall>iv \<in> set ivs. tc_event_sink (ti_turn iv)" and "i < length ivs"
    and "dispatched (run_all env reg [] ivs w ! i)"
    and "dec_kind (evaluate_policy_center_decision (oe_from_str env) (ivs ! i)) \<noteq> Allow"
  shows "\<exists>j \<le> i. tc_turn_id (ti_turn (ivs ! j)) = tc_turn_id (ti_turn (ivs ! i))
              \<and> shows_approval (tc_turn_id (ti_turn (ivs ! i))) (run_all env reg [] ivs w ! j)"
  using run_all_provenance [OF assms] by simp

theorem approvals_stay_in_turn_witness:
  "shows_approval 7 (run_all (example_env (Answered True)) example_registry [] [example_edit] () ! 0)"
proof -
  have kind: "dec_kind (decision_of (example_env (Answered True)) example_edit) = Ask"
    by (simp add: fallback_kind risk_descriptor_def example_edit_def example_turn_def
        is_shell_like_tool_def tool_policy_descriptor_def)
  have run: "dispatched (run_all (example_env (Answered True)) example_registry [] [example_edit] () ! 0)"
    using kind by (simp add: dispatched_iff Let_def)
  show ?thesis
    using approvals_stay_in_turn [of "[example_edit]" 0 "example_env (Answered True)" example_registry "()"]
      run kind by (simp add: example_edit_def example_turn_def)
qed

text \<open>C3: what a call that is not dispatched leaves behind. No approval is remembered. A call the policy denies
  fails with the reason of the decision and sends nothing. Every other one sent a request for approval, whose
  identifier is the one drawn for this exchange: it fails with the timeout or the rejection, and the very
  request is answered with no, or the approval handler itself failed, and then its error is the result and
  the request stays unanswered.\<close>

theorem refused_call_effects:
  assumes "\<not> dispatched (run env reg approved iv w)"
  shows "rr_approved (run env reg approved iv w) = approved
    \<and> (let d = evaluate_policy_center_decision (oe_from_str env) iv; rid = fst (oe_uuid env w);
            turn = tc_turn_id (ti_turn iv); r = run env reg approved iv w
        in if dec_kind d = Deny then rr_result r = Inl (Internal (dec_reason d)) \<and> rr_events r = []
           else \<exists>q. ar_request_id q = rid \<and> ar_turn_id q = turn
             \<and> (case approval_answer_of env iv d w of
                  HandlerError e \<Rightarrow> rr_result r = Inl (Internal e) \<and> rr_events r = send iv [ApprovalRequested q]
                | TimedOut \<Rightarrow> rr_result r = Inl (timed_out_error (oe_timeout_ms env) rid)
                    \<and> rr_events r = send iv [ApprovalRequested q, ApprovalResolved turn rid False]
                | Answered yes \<Rightarrow> \<not> yes \<and> rr_result r = Inl (ApprovalRejected ''command rejected by user'')
                    \<and> rr_events r = send iv [ApprovalRequested q, ApprovalResolved turn rid False]))"
proof (cases "dec_kind (decision_of env iv) = Deny")
  case True
  then show ?thesis by (simp add: run_def Let_def)
next
  case False
  let ?d = "decision_of env iv"
  have ask: "dec_kind ?d \<in> {Ask, Escalate}"
      "\<not> should_reuse_mutating_approval approved iv (is_mutating_operation (ti_tool_name iv))"
    using assms False by (auto simp: dispatched_iff intro: decision_kind.exhaust)
  obtain q where q: "requested_event env iv ?d w = ApprovalRequested q"
    "ar_request_id q = fst (oe_uuid env w)" "ar_turn_id q = tc_turn_id (ti_turn iv)"
    by (simp add: requested_event_def approval_requested_def)
  show ?thesis
    by (cases rule: request_tool_approval_cases [of env iv ?d w])
      (use False ask assms q in \<open>auto simp: run_def Let_def resolved_event_def dispatched_iff intro!: exI [of _ q]\<close>)
qed

theorem refused_call_effects_witness:
  "(let r = run (example_env TimedOut) example_registry [] example_edit ()
    in \<exists>q. rr_events r = [ApprovalRequested q, ApprovalResolved 7 ''r'' False] \<and> ar_request_id q = ''r'')"
proof -
  have kind: "dec_kind (decision_of (example_env TimedOut) example_edit) = Ask"
    by (simp add: fallback_kind risk_descriptor_def example_edit_def example_turn_def
        is_shell_like_tool_def tool_policy_descriptor_def)
  then have "\<not> dispatched (run (example_env TimedOut) example_registry [] example_edit ())"
    by (simp add: dispatched_iff should_reuse_mutating_approval_def)
  moreover have "fst (oe_uuid (example_env TimedOut) ()) = ''r''" "tc_turn_id (ti_turn example_edit) = 7"
    "send example_edit evs = evs" for evs
    by (simp_all add: example_env_def example_edit_def example_turn_def send_def)
  ultimately show ?thesis
    using refused_call_effects [of "example_env TimedOut" example_registry "[]" example_edit "()"] kind
    by (auto simp: Let_def)
qed

end
