(* ===== verification/ShellOutput.thy ===== *)
theory ShellOutput
  imports ShellRisk Protocol
begin

text \<open>
  The text a shell run is reported in: written at the end of \<open>execute_shell\<close>
  (\<open>openjax-core/src/sandbox/mod.rs\<close>) and read back by the tool router
  (\<open>openjax-core/src/tools/router_impl.rs\<close>), which recovers the metadata of the run from it.
\<close>

section \<open>Writing\<close>

definition trace_decision_debug :: "trace_decision \<Rightarrow> string" where
  "trace_decision_debug d =
     (case d of TraceAllow \<Rightarrow> ''Allow'' | AskApproval \<Rightarrow> ''AskApproval''
      | AskEscalation \<Rightarrow> ''AskEscalation'' | TraceDeny \<Rightarrow> ''Deny'')"

definition bool_display :: "bool \<Rightarrow> string" where
  "bool_display b = (if b then ''true'' else ''false'')"

definition opt_display :: "string option \<Rightarrow> string" where
  "opt_display o' = (case o' of Some s \<Rightarrow> s | None \<Rightarrow> ''none'')"

definition shell_model_content :: "int \<Rightarrow> string \<Rightarrow> string \<Rightarrow> string" where
  "shell_model_content ec out err =
     ''exit_code='' @ dec_of_int ec @ newline @ ''stdout:'' @ newline @ out
       @ newline @ ''stderr:'' @ newline @ err"

definition shell_display_output :: "string \<Rightarrow> shell_metadata \<Rightarrow> string \<Rightarrow> string \<Rightarrow> string" where
  "shell_display_output command md out err =
     ''result_class='' @ sm_result_class md @ newline
     @ ''command='' @ command @ newline
     @ ''backend='' @ sm_backend md @ newline
     @ ''policy_decision='' @ sm_policy_decision md @ newline
     @ ''runtime_allowed='' @ bool_display (sm_runtime_allowed md) @ newline
     @ ''degrade_reason='' @ opt_display (sm_degrade_reason md) @ newline
     @ ''runtime_deny_reason='' @ opt_display (sm_runtime_deny_reason md) @ newline
     @ shell_model_content (sm_exit_code md) out err"

section \<open>Reading\<close>

record shell_fields =
  sf_result_class :: "string option"
  sf_backend :: "string option"
  sf_exit_code :: "int option"
  sf_policy_decision :: "string option"
  sf_runtime_allowed :: "bool option"
  sf_degrade_reason :: "string option"
  sf_runtime_deny_reason :: "string option"

definition no_fields :: shell_fields where
  "no_fields = \<lparr>sf_result_class = None, sf_backend = None, sf_exit_code = None,
     sf_policy_decision = None, sf_runtime_allowed = None, sf_degrade_reason = None,
     sf_runtime_deny_reason = None\<rparr>"

definition parse_bool :: "string \<Rightarrow> bool option" where
  "parse_bool s = (if s = ''true'' then Some True else if s = ''false'' then Some False else None)"

definition optional_shell_field :: "string \<Rightarrow> string option" where
  "optional_shell_field v = (if v = [] \<or> v = ''none'' then None else Some v)"

definition header_line :: "shell_fields \<Rightarrow> string \<Rightarrow> shell_fields" where
  "header_line f l =
     (case strip_prefix l ''result_class='' of Some v \<Rightarrow> f\<lparr>sf_result_class := Some v\<rparr> | None \<Rightarrow>
     (case strip_prefix l ''backend='' of Some v \<Rightarrow> f\<lparr>sf_backend := Some v\<rparr> | None \<Rightarrow>
     (case strip_prefix l ''exit_code='' of Some v \<Rightarrow> f\<lparr>sf_exit_code := parse_i32 v\<rparr> | None \<Rightarrow>
     (case strip_prefix l ''policy_decision='' of Some v \<Rightarrow> f\<lparr>sf_policy_decision := Some v\<rparr> | None \<Rightarrow>
     (case strip_prefix l ''runtime_allowed='' of Some v \<Rightarrow> f\<lparr>sf_runtime_allowed := parse_bool v\<rparr> | None \<Rightarrow>
     (case strip_prefix l ''degrade_reason='' of Some v \<Rightarrow> f\<lparr>sf_degrade_reason := optional_shell_field v\<rparr> | None \<Rightarrow>
     (case strip_prefix l ''runtime_deny_reason='' of
        Some v \<Rightarrow> f\<lparr>sf_runtime_deny_reason := optional_shell_field v\<rparr> | None \<Rightarrow> f)))))))"

definition build_shell_model_content :: "int \<Rightarrow> string \<Rightarrow> string \<Rightarrow> string" where
  "build_shell_model_content ec out err =
     ''exit_code='' @ dec_of_int ec @ newline @ ''stdout:'' @ newline @ out
     @ (if err \<noteq> [] then newline @ ''stderr:'' @ newline @ err else [])"

definition finish_fields :: "shell_fields \<Rightarrow> shell_metadata option" where
  "finish_fields f =
     (case (sf_exit_code f, sf_result_class f, sf_backend f, sf_policy_decision f, sf_runtime_allowed f) of
        (Some ec, Some c, Some b, Some p, Some a) \<Rightarrow>
          Some \<lparr>sm_result_class = c, sm_backend = b, sm_exit_code = ec, sm_policy_decision = p,
                sm_runtime_allowed = a, sm_degrade_reason = sf_degrade_reason f,
                sm_runtime_deny_reason = sf_runtime_deny_reason f\<rparr>
      | _ \<Rightarrow> None)"

definition parse_shell_display_output :: "string \<Rightarrow> (string \<times> shell_metadata) option" where
  "parse_shell_display_output text =
     (case split_once text (newline @ ''stdout:'' @ newline) of
        None \<Rightarrow> None
      | Some (header, body) \<Rightarrow>
          (case split_once body (newline @ ''stderr:'' @ newline) of
             None \<Rightarrow> None
           | Some (out, err) \<Rightarrow>
               map_option (\<lambda>md. (build_shell_model_content (sm_exit_code md) out err, md))
                 (finish_fields (foldl header_line no_fields (str_lines header)))))"

definition is_shell_tool :: "string \<Rightarrow> bool" where
  "is_shell_tool name \<longleftrightarrow> name = ''shell'' \<or> name = ''exec_command''"

definition normalize_tool_output ::
  "string \<Rightarrow> string \<Rightarrow> string \<times> string \<times> shell_metadata option" where
  "normalize_tool_output tool_name display_output =
     (if is_shell_tool tool_name then
        (case parse_shell_display_output display_output of
           Some (mc, md) \<Rightarrow> (mc, display_output, Some md)
         | None \<Rightarrow> (display_output, display_output, None))
      else (display_output, display_output, None))"

section \<open>Reading a header of single lines\<close>

lemma parse_lines:
  assumes ls: "\<forall>l \<in> set ls. single_line l" "ls \<noteq> []" "last ls \<noteq> []" "''stdout:'' \<notin> set (tl ls)"
    and out: "\<not> str_contains (out @ newline @ ''stderr:'') (newline @ ''stderr:'' @ newline)"
  shows "parse_shell_display_output
      (join newline ls @ newline @ ''stdout:'' @ newline @ out @ newline @ ''stderr:'' @ newline @ err)
    = map_option (\<lambda>md. (build_shell_model_content (sm_exit_code md) out err, md))
        (finish_fields (foldl header_line no_fields ls))"
proof -
  have nl: "\<forall>l \<in> set ls. CHR ''\<newline>'' \<notin> set l" using ls(1) by (auto simp: single_line_def)
  have "split_once (join newline ls @ newline @ ''stdout:'' @ newline @ out @ newline @ ''stderr:'' @ newline @ err)
      (newline @ ''stdout:'' @ newline) = Some (join newline ls, out @ newline @ ''stderr:'' @ newline @ err)"
    by (rule split_once_line [OF nl ls(2,4)]) simp
  moreover have "split_once (out @ (newline @ ''stderr:'' @ newline) @ err) (newline @ ''stderr:'' @ newline)
      = Some (out, err)"
    by (rule split_once_first) (use out in \<open>simp_all add: newline_def\<close>)
  ultimately show ?thesis
    by (simp add: parse_shell_display_output_def str_lines_join [OF ls(1-3)])
qed

definition header_lines :: "string \<Rightarrow> shell_metadata \<Rightarrow> string list" where
  "header_lines command md =
     [''result_class='' @ sm_result_class md, ''command='' @ command, ''backend='' @ sm_backend md,
      ''policy_decision='' @ sm_policy_decision md,
      ''runtime_allowed='' @ bool_display (sm_runtime_allowed md),
      ''degrade_reason='' @ opt_display (sm_degrade_reason md),
      ''runtime_deny_reason='' @ opt_display (sm_runtime_deny_reason md),
      ''exit_code='' @ dec_of_int (sm_exit_code md)]"

lemma display_as_lines:
  "shell_display_output command md out err
   = join newline (header_lines command md) @ newline @ ''stdout:'' @ newline @ out
     @ newline @ ''stderr:'' @ newline @ err"
  by (simp add: shell_display_output_def shell_model_content_def header_lines_def)

text \<open>The metadata \<open>execute_shell\<close> produces: fields on single lines, an exit code of 32 bits, reasons
  that are neither empty nor the word that stands for absence.\<close>

definition plain_reason :: "string option \<Rightarrow> bool" where
  "plain_reason r \<longleftrightarrow> (\<forall>s. r = Some s \<longrightarrow> single_line s \<and> s \<noteq> [] \<and> s \<noteq> ''none'')"

definition plain_metadata :: "shell_metadata \<Rightarrow> bool" where
  "plain_metadata md \<longleftrightarrow> single_line (sm_result_class md) \<and> single_line (sm_backend md)
     \<and> single_line (sm_policy_decision md) \<and> - (2 ^ 31) \<le> sm_exit_code md \<and> sm_exit_code md < 2 ^ 31
     \<and> plain_reason (sm_degrade_reason md) \<and> plain_reason (sm_runtime_deny_reason md)"

lemma opt_display_single [simp]: "plain_reason r \<Longrightarrow> single_line (opt_display r)"
  by (cases r) (auto simp: plain_reason_def opt_display_def single_line_def)

lemma optional_shell_field_display [simp]: "plain_reason r \<Longrightarrow> optional_shell_field (opt_display r) = r"
  by (cases r) (auto simp: plain_reason_def opt_display_def optional_shell_field_def)

lemma bool_display_facts [simp]: "single_line (bool_display b)" "parse_bool (bool_display b) = Some b"
  by (auto simp: bool_display_def parse_bool_def single_line_def)

lemma header_line_simps [simp]:
  "header_line f (''result_class='' @ v) = f\<lparr>sf_result_class := Some v\<rparr>"
  "header_line f (''command='' @ v) = f"
  "header_line f (''backend='' @ v) = f\<lparr>sf_backend := Some v\<rparr>"
  "header_line f (''policy_decision='' @ v) = f\<lparr>sf_policy_decision := Some v\<rparr>"
  "header_line f (''runtime_allowed='' @ v) = f\<lparr>sf_runtime_allowed := parse_bool v\<rparr>"
  "header_line f (''degrade_reason='' @ v) = f\<lparr>sf_degrade_reason := optional_shell_field v\<rparr>"
  "header_line f (''runtime_deny_reason='' @ v) = f\<lparr>sf_runtime_deny_reason := optional_shell_field v\<rparr>"
  "header_line f (''exit_code='' @ v) = f\<lparr>sf_exit_code := parse_i32 v\<rparr>"
  by (simp_all add: header_line_def strip_prefix_def)

lemma header_lines_single:
  "plain_metadata md \<Longrightarrow> single_line command \<Longrightarrow> \<forall>l \<in> set (header_lines command md). single_line l"
  unfolding header_lines_def plain_metadata_def
  by (auto simp del: append_Cons append_Nil intro!: single_line_append)

section \<open>Properties\<close>


definition example_metadata :: shell_metadata where
  "example_metadata = \<lparr>sm_result_class = ''success'', sm_backend = ''linux_native'', sm_exit_code = 0,
     sm_policy_decision = ''Allow'', sm_runtime_allowed = True, sm_degrade_reason = None,
     sm_runtime_deny_reason = None\<rparr>"


text \<open>a failed command can choose the result class it is recorded under: when the second line of
  its error text assigns the field, that value is what the router reports, for any true class.\<close>

theorem result_class_spoofed:
  assumes md: "plain_metadata (md\<lparr>sm_runtime_deny_reason := None\<rparr>)" and cmd: "single_line command"
    and deny: "sm_runtime_deny_reason md = Some (first @ newline @ ''result_class='' @ forged)"
    and "single_line first" and "single_line forged"
    and out: "\<not> str_contains (out @ newline @ ''stderr:'') (newline @ ''stderr:'' @ newline)"
  shows "map_option sm_result_class
      (snd (snd (normalize_tool_output ''shell'' (shell_display_output command md out err)))) = Some forged"
proof -
  let ?ls = "[''result_class='' @ sm_result_class md, ''command='' @ command, ''backend='' @ sm_backend md,
      ''policy_decision='' @ sm_policy_decision md,
      ''runtime_allowed='' @ bool_display (sm_runtime_allowed md),
      ''degrade_reason='' @ opt_display (sm_degrade_reason md),
      ''runtime_deny_reason='' @ first, ''result_class='' @ forged,
      ''exit_code='' @ dec_of_int (sm_exit_code md)]"
  have lines: "shell_display_output command md out err = join newline ?ls @ newline @ ''stdout:'' @ newline
      @ out @ newline @ ''stderr:'' @ newline @ err"
    by (simp add: shell_display_output_def shell_model_content_def deny opt_display_def)
  have single: "\<forall>l \<in> set ?ls. single_line l"
    using assms unfolding plain_metadata_def
    by (auto simp del: append_Cons append_Nil intro!: single_line_append)
  have "parse_shell_display_output (shell_display_output command md out err)
      = map_option (\<lambda>md. (build_shell_model_content (sm_exit_code md) out err, md))
          (finish_fields (foldl header_line no_fields ?ls))"
    unfolding lines by (rule parse_lines [OF single _ _ _ out]) simp_all
  also have "map_option sm_result_class (finish_fields (foldl header_line no_fields ?ls)) = Some forged"
    using md unfolding plain_metadata_def
    by (simp del: append_Cons append_Nil add: parse_i32_dec_of_int finish_fields_def no_fields_def)
  ultimately show ?thesis
    by (auto simp: normalize_tool_output_def is_shell_tool_def)
qed

theorem result_class_spoofed_witness:
  "map_option sm_result_class (snd (snd (normalize_tool_output ''shell'' (shell_display_output ''false''
     (example_metadata\<lparr>sm_result_class := ''failure'', sm_exit_code := 1, sm_runtime_allowed := False,
        sm_runtime_deny_reason := Some (''oops'' @ newline @ ''result_class='' @ ''success'')\<rparr>)
     [] (''oops'' @ newline @ ''result_class='' @ ''success''))))) = Some ''success''"
  by (rule result_class_spoofed [where first = "''oops''"])
    (simp_all add: plain_metadata_def example_metadata_def plain_reason_def single_line_def newline_def)

end
