(* ===== verification/ToolRouter.thy ===== *)
theory ToolRouter
  imports Orchestrator ShellOutput "HOL-Library.AList"
begin

text \<open>
  The tool router: the \<open>tool:name key=value\<close> command syntax (\<open>openjax-core/src/tools/router.rs\<close>),
  the invocation built for a call (\<open>tools/tool_builder.rs\<close>) and its execution through the
  orchestrator (\<open>tools/router_impl.rs\<close>). The parser of the source walks an index through the
  string; here it hands on the rest of the string.
\<close>

section \<open>The command syntax\<close>

record tool_call =
  call_name :: string
  call_args :: str_map

definition skip_spaces :: "string \<Rightarrow> string" where
  "skip_spaces s = dropWhile is_ws s"

definition parse_name :: "string \<Rightarrow> (string \<times> string) option" where
  "parse_name rest =
     (let s = skip_spaces rest; name = takeWhile (\<lambda>c. \<not> is_ws c) s
      in if name = [] then None else Some (name, dropWhile (\<lambda>c. \<not> is_ws c) s))"

definition parse_unquoted_value :: "string \<Rightarrow> string \<times> string" where
  "parse_unquoted_value s = (takeWhile (\<lambda>c. \<not> is_ws c) s, dropWhile (\<lambda>c. \<not> is_ws c) s)"

text \<open>The loop of \<open>parse_quoted_value\<close> after the opening quote, with the text read so far.\<close>

fun parse_quoted :: "char \<Rightarrow> string \<Rightarrow> string \<Rightarrow> (string \<times> string) option" where
  "parse_quoted q out [] = None"
| "parse_quoted q out [c] =
     (if c = CHR 0x5C then None else if c = q then Some (out, []) else None)"
| "parse_quoted q out (c # d # s) =
     (if c = CHR 0x5C then
        (if d = q \<or> d = CHR 0x5C then parse_quoted q (out @ [d]) s
         else parse_quoted q (out @ [CHR 0x5C]) (d # s))
      else if c = q then Some (out, d # s)
      else parse_quoted q (out @ [c]) (d # s))"

definition key_char :: "char \<Rightarrow> bool" where
  "key_char c \<longleftrightarrow> \<not> (c = CHR ''='' \<or> is_ws c)"

text \<open>One round of the argument loop: it stops with a result, or goes on with less input.\<close>

datatype arg_round = ArgStop "str_map option" | ArgNext string str_map

definition parse_arg :: "string \<Rightarrow> str_map \<Rightarrow> arg_round" where
  "parse_arg rest args =
     (let s = skip_spaces rest
      in if s = [] then ArgStop (Some args)
         else let key = takeWhile key_char s; s1 = dropWhile key_char s
              in if key = [] then ArgStop None
                 else let s2 = skip_spaces s1
                      in if s2 = [] \<or> hd s2 \<noteq> CHR ''='' then ArgNext (dropWhile (\<lambda>c. \<not> is_ws c) s2) args
                         else let s3 = skip_spaces (tl s2)
                              in if s3 = [] then ArgStop (Some (AList.update key [] args))
                                 else if hd s3 = CHR 0x27 \<or> hd s3 = CHR 0x22 then
                                   (case parse_quoted (hd s3) [] (tl s3) of
                                      None \<Rightarrow> ArgStop None
                                    | Some (v, s4) \<Rightarrow> ArgNext s4 (AList.update key v args))
                                 else let (v, s4) = parse_unquoted_value s3
                                      in ArgNext s4 (AList.update key v args))"

lemma parse_quoted_shorter: "parse_quoted q out s = Some (v, s') \<Longrightarrow> length s' < length s"
  by (induction q out s rule: parse_quoted.induct) (auto split: if_splits)

lemma parse_arg_shorter: "parse_arg rest args = ArgNext rest' args' \<Longrightarrow> length rest' < length rest"
proof -
  assume nxt: "parse_arg rest args = ArgNext rest' args'"
  let ?s = "skip_spaces rest" and ?s1 = "dropWhile key_char (skip_spaces rest)"
  have le: "length (dropWhile P s) \<le> length s" for P and s :: string by (rule length_dropWhile_le)
  have s: "length ?s \<le> length rest" by (simp add: skip_spaces_def le)
  have key: "takeWhile key_char ?s \<noteq> []" using nxt by (auto simp: parse_arg_def Let_def split: if_splits)
  then have "length ?s1 < length ?s"
    by (metis append_self_conv2 length_append length_greater_0_conv less_add_same_cancel2
        takeWhile_dropWhile_id)
  moreover have "length (skip_spaces ?s1) \<le> length ?s1" by (simp add: skip_spaces_def le)
  moreover have "length rest' \<le> length (skip_spaces ?s1)"
  proof -
    let ?s2 = "skip_spaces ?s1"
    have "length (skip_spaces (tl ?s2)) \<le> length (tl ?s2)"
      unfolding skip_spaces_def [of "tl _"] by (rule le)
    then have s3: "length (skip_spaces (tl ?s2)) \<le> length ?s2" by (metis length_tl diff_le_self le_trans)
    show ?thesis
      using nxt s3 le [of "\<lambda>c. \<not> is_ws c" ?s2] le [of "\<lambda>c. \<not> is_ws c" "skip_spaces (tl ?s2)"]
      by (fastforce simp: parse_arg_def Let_def parse_unquoted_value_def dest: parse_quoted_shorter
          split: if_splits option.splits)
  qed
  ultimately show ?thesis using s by simp
qed

function parse_args :: "string \<Rightarrow> str_map \<Rightarrow> str_map option" where
  "parse_args rest args =
     (case parse_arg rest args of ArgStop r \<Rightarrow> r | ArgNext rest' args' \<Rightarrow> parse_args rest' args')"
  by pat_completeness auto
termination by (relation "measure (\<lambda>(rest, args). length rest)") (auto simp: parse_arg_shorter)

declare parse_args.simps [simp del]

definition parse_tool_call :: "string \<Rightarrow> tool_call option" where
  "parse_tool_call input =
     (let input' = trim input
      in if \<not> starts_with input' ''tool:'' then None
         else let rest = trim (drop 5 input')
              in if rest = [] then None
                 else case parse_name rest of
                        None \<Rightarrow> None
                      | Some (name, s) \<Rightarrow>
                          map_option (\<lambda>args. \<lparr>call_name = name, call_args = args\<rparr>) (parse_args s []))"


section \<open>Execution\<close>

datatype sandbox_mode = ModeWorkspaceWrite | ModeDangerFullAccess

definition sandbox_mode_as_str :: "sandbox_mode \<Rightarrow> string" where
  "sandbox_mode_as_str m =
     (case m of ModeWorkspaceWrite \<Rightarrow> ''workspace_write'' | ModeDangerFullAccess \<Rightarrow> ''danger_full_access'')"

text \<open>\<open>var\<close> is the value of \<open>OPENJAX_SANDBOX_MODE\<close>, when it is set.\<close>

definition sandbox_mode_from_env :: "string option \<Rightarrow> sandbox_mode" where
  "sandbox_mode_from_env var =
     (if var = Some ''danger_full_access'' then ModeDangerFullAccess else ModeWorkspaceWrite)"

definition TOOLS_MAX_AGENT_DEPTH :: int where
  "TOOLS_MAX_AGENT_DEPTH = 10"

record tool_exec_outcome =
  eo_model_content :: string
  eo_display_output :: string
  eo_shell_metadata :: "shell_metadata option"
  eo_success :: bool

text \<open>The router with what an agent passes along on every call: its configuration, working directory,
  policy session and policy runtime. The three printers are those of \<open>serde_json\<close>.\<close>

record 'w router =
  ro_env :: "'w orch_env"
  ro_registry :: "'w registry"
  ro_sandbox_mode :: sandbox_mode
  ro_shell_type :: shell_type
  ro_prevent_shell_skill_trigger :: bool
  ro_cwd :: string
  ro_session_id :: "string option"
  ro_policy_runtime :: "policy_snapshot option"
  ro_js_map :: "str_map \<Rightarrow> string"
  ro_js :: "json \<Rightarrow> string"
  ro_js_mcp :: "mcp_tool_result \<Rightarrow> string"

definition mode_policy :: "sandbox_mode \<Rightarrow> sandbox_policy" where
  "mode_policy m = (case m of ModeWorkspaceWrite \<Rightarrow> WorkspaceWrite | ModeDangerFullAccess \<Rightarrow> DangerFullAccess)"

definition create_tool_invocation :: "'w router \<Rightarrow> nat \<Rightarrow> string \<Rightarrow> tool_call \<Rightarrow> tool_invocation" where
  "create_tool_invocation ro turn_id call_id c =
     \<lparr>ti_tool_name = call_name c, ti_call_id = call_id,
      ti_payload = PFunction (ro_js_map ro (call_args c)),
      ti_turn = \<lparr>tc_turn_id = turn_id, tc_session_id = ro_session_id ro, tc_cwd = ro_cwd ro,
        tc_sandbox_policy = mode_policy (ro_sandbox_mode ro), tc_shell_type = ro_shell_type ro,
        tc_event_sink = True, tc_policy_runtime = ro_policy_runtime ro, tc_windows_sandbox_level = None,
        tc_prevent_shell_skill_trigger = ro_prevent_shell_skill_trigger ro\<rparr>\<rparr>"

definition outcome_of :: "string \<Rightarrow> string \<Rightarrow> bool \<Rightarrow> tool_exec_outcome" where
  "outcome_of name text ok =
     (let (mc, disp, md) = normalize_tool_output name text
      in \<lparr>eo_model_content = mc, eo_display_output = disp, eo_shell_metadata = md, eo_success = ok\<rparr>)"

definition exec_result :: "'w router \<Rightarrow> string \<Rightarrow> function_call_error + tool_output \<Rightarrow> string + tool_exec_outcome" where
  "exec_result ro name r =
     (case r of
        Inl e \<Rightarrow> Inl (''error: '' @ error_display e)
      | Inr (OutFunction body ok) \<Rightarrow>
          Inr (outcome_of name (case body of BodyText t \<Rightarrow> t | BodyJson j \<Rightarrow> ro_js ro j)
                 (case ok of Some b \<Rightarrow> b | None \<Rightarrow> True))
      | Inr (OutMcp (Inr m)) \<Rightarrow> Inr (outcome_of name (ro_js_mcp ro m) True)
      | Inr (OutMcp (Inl e)) \<Rightarrow> Inl (''error: '' @ e))"

text \<open>\<open>ToolRouter::execute\<close>: the outcome, the events of the call in the order they arrive, the
  orchestrator's approvals and the world after it.\<close>

definition router_execute ::
  "'w router \<Rightarrow> nat \<Rightarrow> string \<Rightarrow> tool_call \<Rightarrow> approved_turns \<times> 'w
     \<Rightarrow> (string + tool_exec_outcome) \<times> event list \<times> approved_turns \<times> 'w" where
  "router_execute ro turn_id call_id c s =
     (let r = run (ro_env ro) (ro_registry ro) (fst s) (create_tool_invocation ro turn_id call_id c) (snd s)
      in (exec_result ro (call_name c) (rr_result r), rr_events r, rr_approved r, rr_world r))"

section \<open>Printing a call\<close>

definition quote_value :: "string \<Rightarrow> string" where
  "quote_value v = [CHR 0x27] @ concat (map (\<lambda>c. if c = CHR 0x27 \<or> c = CHR 0x5C then [CHR 0x5C, c] else [c]) v)
     @ [CHR 0x27]"

definition format_arg :: "string \<times> string \<Rightarrow> string" where
  "format_arg kv = '' '' @ fst kv @ ''='' @ quote_value (snd kv)"

definition format_tool_call :: "tool_call \<Rightarrow> string" where
  "format_tool_call c = ''tool:'' @ call_name c @ concat (map format_arg (call_args c))"

text \<open>Names are words; keys are words without an equals sign, and distinct.\<close>

definition printable_call :: "tool_call \<Rightarrow> bool" where
  "printable_call c \<longleftrightarrow>
     call_name c \<noteq> [] \<and> list_all (\<lambda>x. \<not> is_ws x) (call_name c)
     \<and> distinct (map fst (call_args c))
     \<and> list_all (\<lambda>(k, v). k \<noteq> [] \<and> list_all key_char k) (call_args c)"

lemma ws_facts [simp]:
  "is_ws CHR '' ''" "\<not> is_ws CHR 0x27" "\<not> is_ws CHR ''=''" "\<not> is_ws CHR ''t''" "\<not> key_char CHR ''=''"
  "CHR ''='' \<noteq> CHR 0x27" "CHR '' '' \<noteq> CHR ''=''"
  by code_simp+

lemma parse_quoted_plain:
  "c \<noteq> CHR 0x5C \<Longrightarrow> parse_quoted q out (c # s) = (if c = q then Some (out, s) else parse_quoted q (out @ [c]) s)"
  by (cases s) simp_all

lemma parse_quoted_value:
  "parse_quoted CHR 0x27 out
     (concat (map (\<lambda>c. if c = CHR 0x27 \<or> c = CHR 0x5C then [CHR 0x5C, c] else [c]) v) @ CHR 0x27 # s)
   = Some (out @ v, s)"
proof (induction v arbitrary: out)
  case Nil
  show ?case by (simp add: parse_quoted_plain)
next
  case (Cons c v)
  then show ?case by (simp add: parse_quoted_plain)
qed

lemma parse_arg_format:
  assumes "k \<noteq> []" "list_all key_char k"
  shows "parse_arg (format_arg (k, v) @ s) args = ArgNext s (AList.update k v args)"
proof -
  have hd: "\<not> is_ws (hd k)" using assms by (cases k) (auto simp: key_char_def)
  have skip: "skip_spaces (format_arg (k, v) @ s) = k @ CHR ''='' # quote_value v @ s"
    using hd assms(1) by (cases k) (simp_all add: format_arg_def skip_spaces_def)
  have key: "takeWhile key_char (k @ CHR ''='' # t) = k" "dropWhile key_char (k @ CHR ''='' # t) = CHR ''='' # t" for t
    using assms(2) by (simp_all add: list_all_iff takeWhile_append dropWhile_append)
  have eq: "skip_spaces (CHR ''='' # t) = CHR ''='' # t" for t by (simp add: skip_spaces_def)
  have quote: "skip_spaces (quote_value v @ s) = quote_value v @ s"
    by (simp add: skip_spaces_def quote_value_def)
  show ?thesis
    using assms(1) parse_quoted_value [of "[]" v s]
    by (simp add: parse_arg_def Let_def skip key eq quote) (simp add: quote_value_def)
qed

lemma update_new: "k \<notin> fst ` set al \<Longrightarrow> AList.update k v al = al @ [(k, v)]"
  by (induction al) auto

lemma parse_args_format:
  "list_all (\<lambda>(k, v). k \<noteq> [] \<and> list_all key_char k) kvs \<Longrightarrow> distinct (map fst (args @ kvs)) \<Longrightarrow>
     parse_args (concat (map format_arg kvs)) args = Some (args @ kvs)"
proof (induction kvs arbitrary: args)
  case Nil
  show ?case by (simp add: parse_args.simps parse_arg_def skip_spaces_def)
next
  case (Cons kv kvs)
  obtain k v where kv: "kv = (k, v)" by fastforce
  have "parse_arg (concat (map format_arg (kv # kvs))) args
      = ArgNext (concat (map format_arg kvs)) (AList.update k v args)"
    using Cons.prems(1) parse_arg_format [of k v] by (simp add: kv)
  moreover have "AList.update k v args = args @ [(k, v)]"
    using Cons.prems(2) by (intro update_new) (auto simp: kv)
  ultimately show ?case
    using Cons.IH [of "args @ [kv]"] Cons.prems by (simp add: parse_args.simps kv)
qed

lemma trim_id: "s \<noteq> [] \<Longrightarrow> \<not> is_ws (hd s) \<Longrightarrow> \<not> is_ws (last s) \<Longrightarrow> trim s = s"
proof -
  assume s: "s \<noteq> []" "\<not> is_ws (hd s)" "\<not> is_ws (last s)"
  have "dropWhile is_ws s = s" using s(1,2) by (cases s) simp_all
  moreover have "dropWhile is_ws (rev s) = rev s" using s(1,3) by (cases s rule: rev_cases) simp_all
  ultimately show "trim s = s" by (simp add: trim_def trim_start_def trim_end_def)
qed

section \<open>Properties\<close>

text \<open>C16: printing a call and parsing the text gives the call back, for every name that is a word, every
  list of distinct keys that are words without an equals sign, and arbitrary values, quotes,
  backslashes and white space included.\<close>

theorem tool_call_roundtrip:
  assumes "printable_call c"
  shows "parse_tool_call (format_tool_call c) = Some c"
proof -
  let ?rest = "call_name c @ concat (map format_arg (call_args c))"
  have name: "call_name c \<noteq> []" "list_all (\<lambda>x. \<not> is_ws x) (call_name c)"
    using assms by (simp_all add: printable_call_def)
  have last: "\<not> is_ws (last ?rest)"
  proof (cases "call_args c" rule: rev_cases)
    case Nil
    then show ?thesis using name by (simp add: list_all_iff)
  next
    case (snoc kvs kv)
    then show ?thesis by (simp add: format_arg_def quote_value_def)
  qed
  have hd: "\<not> is_ws (hd ?rest)" using name by (cases "call_name c") simp_all
  have t1: "trim (''tool:'' @ ?rest) = ''tool:'' @ ?rest"
    by (rule trim_id) (use last name in simp_all)
  have t2: "trim ?rest = ?rest" by (rule trim_id) (use last hd name in simp_all)
  have "\<not> is_ws x" if "x \<in> set (call_name c)" for x using name(2) that by (simp add: list_all_iff)
  then have word: "takeWhile (\<lambda>x. \<not> is_ws x) ?rest = call_name c"
    "dropWhile (\<lambda>x. \<not> is_ws x) ?rest = concat (map format_arg (call_args c))"
    by (cases "call_args c"; simp add: format_arg_def takeWhile_append dropWhile_append)+
  have "parse_name ?rest = Some (call_name c, concat (map format_arg (call_args c)))"
  proof -
    have "skip_spaces ?rest = ?rest" using hd name(1) by (cases "call_name c") (simp_all add: skip_spaces_def)
    then show ?thesis using name(1) by (simp only: parse_name_def Let_def word) simp
  qed
  moreover have "parse_args (concat (map format_arg (call_args c))) [] = Some (call_args c)"
    using parse_args_format [of "call_args c" "[]"] assms by (simp add: printable_call_def)
  ultimately show ?thesis
    using name(1) t1 t2 by (simp add: parse_tool_call_def format_tool_call_def starts_with_def)
qed

theorem tool_call_roundtrip_witness:
  "parse_tool_call (format_tool_call \<lparr>call_name = ''shell'', call_args = [(''cmd'', ''echo hi'')]\<rparr>)
   = Some \<lparr>call_name = ''shell'', call_args = [(''cmd'', ''echo hi'')]\<rparr>"
proof (rule tool_call_roundtrip)
  show "printable_call \<lparr>call_name = ''shell'', call_args = [(''cmd'', ''echo hi'')]\<rparr>"
    by code_simp
qed

text \<open>a bare word swallows the argument that follows it: after a word without an equals sign the
  parser skips the next word whatever it is, so the command of this shell call is lost.\<close>

theorem bare_word_swallows_argument:
  "parse_tool_call ''tool:shell verbose cmd=ls'' = Some \<lparr>call_name = ''shell'', call_args = []\<rparr>
   \<and> parse_tool_call ''tool:shell cmd=ls verbose'' = Some \<lparr>call_name = ''shell'', call_args = [(''cmd'', ''ls'')]\<rparr>"
  by code_simp

end
