(* ===== verification/ToolCalls.thy ===== *)
theory ToolCalls
  imports Conversation ToolRouter
begin

text \<open>
  How the planner handles one native tool call (\<open>openjax-core/src/agent\<close>): the guards
  (\<open>tool_guard.rs\<close>), the execution and its bookkeeping (\<open>tool_executor.rs\<close>), the events of a call
  (\<open>tool_lifecycle.rs\<close>), their composition (\<open>planner_tool_action.rs\<close>) and the helpers of
  \<open>planner_utils.rs\<close>, \<open>tool_policy.rs\<close> and \<open>tool_projection.rs\<close>.

  What the agent relies on is the record \<open>agent_env\<close> over a world \<open>'w\<close>: the execution of a tool, the
  streaming model call, the summariser, the JSON printers and parser, and the fixed texts the source
  has in Chinese.
\<close>

section \<open>Helpers\<close>

definition first_arg :: "string list \<Rightarrow> str_map \<Rightarrow> string option" where
  "first_arg keys args =
     (case filter (\<lambda>k. map_of args k \<noteq> None) keys of [] \<Rightarrow> None | k # _ \<Rightarrow> map_of args k)"

definition extract_tool_target_hint :: "string \<Rightarrow> str_map \<Rightarrow> string option" where
  "extract_tool_target_hint tool_name args =
     (if tool_name \<in> {''Read'', ''Edit'', ''write_file''} then first_arg [''file_path'', ''path'', ''filepath''] args
      else if tool_name = ''disk_usage'' then first_arg [''path''] args
      else if tool_name \<in> {''shell'', ''exec_command''} then first_arg [''cmd'', ''command''] args
      else None)"

definition tool_failure_code :: "string \<Rightarrow> string" where
  "tool_failure_code text =
     (let lower = to_ascii_lowercase text
      in if str_contains lower ''approval timed out'' then ''approval_timeout''
         else if str_contains lower ''approval rejected'' then ''approval_rejected''
         else if str_contains lower ''timed out'' then ''tool_timeout''
         else if str_contains lower ''cancel'' then ''tool_canceled''
         else ''tool_execution_failed'')"

definition tool_failure_retryable :: "string \<Rightarrow> bool" where
  "tool_failure_retryable text =
     (let lower = to_ascii_lowercase text in str_contains lower ''timed out'' \<or> str_contains lower ''cancel'')"

definition is_mutating_tool :: "string \<Rightarrow> bool" where
  "is_mutating_tool n \<longleftrightarrow> n \<in> {''Edit'', ''shell'', ''exec_command''}"

definition summarize_log_preview :: "string \<Rightarrow> nat \<Rightarrow> string \<times> bool" where
  "summarize_log_preview text limit =
     (let normalized = escape_newlines text
      in if length normalized \<le> limit then (normalized, False)
         else (take limit normalized @ ellipsis, True))"

definition looks_like_skill_trigger_shell_command :: "string \<Rightarrow> bool" where
  "looks_like_skill_trigger_shell_command command =
     (let t = trim command
      in if t = [] \<or> \<not> starts_with t ''/'' then False
         else if list_ex is_ws t then False
         else list_all (\<lambda>c. c \<noteq> CHR ''/'') (tl t))"

definition is_git_status_short :: "string \<Rightarrow> bool" where
  "is_git_status_short command =
     (let n = to_ascii_lowercase (trim command) in n = ''git status --short'' \<or> n = ''git status -s'')"

definition is_git_diff_stat :: "string \<Rightarrow> bool" where
  "is_git_diff_stat command = str_contains (to_ascii_lowercase (trim command)) ''git diff --stat''"

definition detect_diff_strategy :: "string \<Rightarrow> string option" where
  "detect_diff_strategy command =
     (let n = to_ascii_lowercase (trim command)
      in if \<not> str_contains n ''git diff'' then None
         else if str_contains n ''git diff --stat'' then Some ''stat_only''
         else if str_contains n ''git diff --staged'' \<or> str_contains n ''git diff --cached''
                 \<or> str_contains n ''git diff -- '' then Some ''targeted''
         else Some ''full'')"

definition diff_rank :: "string \<Rightarrow> nat" where
  "diff_rank v =
     (if v = ''stat_only'' then 1 else if v = ''targeted'' then 2 else if v = ''full'' then 3 else 0)"

definition diff_name :: "string \<Rightarrow> string" where
  "diff_name v = (if v \<in> {''stat_only'', ''targeted'', ''full''} then v else ''none'')"

definition merge_diff_strategy :: "string \<Rightarrow> string \<Rightarrow> string" where
  "merge_diff_strategy current nxt =
     (if diff_rank nxt \<ge> diff_rank current then diff_name nxt else diff_name current)"

definition is_approval_blocking_error :: "string \<Rightarrow> bool" where
  "is_approval_blocking_error text =
     (let lower = to_ascii_lowercase text
      in str_contains lower ''approval rejected'' \<or> str_contains lower ''approval timed out'')"

definition MAX_CONSECUTIVE_DUPLICATE_SKIPS :: nat where
  "MAX_CONSECUTIVE_DUPLICATE_SKIPS = 2"

definition should_abort_on_consecutive_duplicate_skips :: "nat \<Rightarrow> nat \<Rightarrow> bool" where
  "should_abort_on_consecutive_duplicate_skips n max_skips \<longleftrightarrow> n \<ge> max_skips"

text \<open>The arguments of a call, from the JSON the model sent: strings as they are, anything else printed.\<close>

definition tool_input_to_args :: "(json \<Rightarrow> string) \<Rightarrow> json \<Rightarrow> str_map" where
  "tool_input_to_args js input =
     (case input of
        JObject kvs \<Rightarrow> map (\<lambda>(k, v). (k, case v of JString s \<Rightarrow> s | other \<Rightarrow> js other)) kvs
      | _ \<Rightarrow> [])"

definition value_to_btreemap :: "(json \<Rightarrow> string) \<Rightarrow> json \<Rightarrow> str_map" where
  "value_to_btreemap js input = sort_key fst (tool_input_to_args js input)"

definition tool_trace :: "string \<Rightarrow> string \<Rightarrow> string \<Rightarrow> nat \<Rightarrow> string" where
  "tool_trace tool_name ok output max_chars =
     ''tool='' @ tool_name @ ''; ok='' @ ok @ ''; output='' @ truncate_for_prompt output max_chars"

definition tool_trace_with_args ::
  "(str_map \<Rightarrow> string) \<Rightarrow> string \<Rightarrow> string \<Rightarrow> str_map \<Rightarrow> string \<Rightarrow> nat \<Rightarrow> string" where
  "tool_trace_with_args js tool_name ok args output max_chars =
     ''tool='' @ tool_name @ ''; ok='' @ ok @ ''; args='' @ js args
       @ ''; output='' @ truncate_for_prompt output max_chars"

section \<open>Environment and state of a turn\<close>

record 'w agent_env =
  ae_display_name :: "string \<Rightarrow> string option"
  ae_execute :: "nat \<Rightarrow> string \<Rightarrow> tool_call \<Rightarrow> 'w \<Rightarrow> (string + tool_exec_outcome) \<times> event list \<times> 'w"
  ae_complete_stream :: "message list \<Rightarrow> 'w \<Rightarrow> stream_delta list \<times> (string + model_response) \<times> 'w"
  ae_summarise :: "'w summariser"
  ae_js_map :: "str_map \<Rightarrow> string"
  ae_js :: "json \<Rightarrow> string"
  ae_debug_map :: "str_map \<Rightarrow> string"
  ae_from_str :: "string \<Rightarrow> json option"
  ae_text_recovery :: string
  ae_text_loop_halt :: string
  ae_text_duplicate_abort :: "nat \<Rightarrow> string"
  ae_text_rejected :: string
  ae_text_timed_out :: string
  ae_text_max_calls :: "nat \<Rightarrow> string"
  ae_text_max_rounds :: "nat \<Rightarrow> string"

text \<open>The agent, the world, and the variables of \<open>execute_natural_language_turn\<close> that a
  \<open>ToolActionContext\<close> borrows.\<close>

record 'w turn =
  tu_agent :: agent
  tu_world :: 'w
  tu_events :: "event list"
  tu_tool_traces :: "string list"
  tu_skips :: nat
  tu_executed :: nat
  tu_phase :: turn_phase
  tu_misfires :: nat
  tu_saw_status :: bool
  tu_saw_stat :: bool
  tu_diff_strategy :: string

definition push_event :: "event \<Rightarrow> 'w turn \<Rightarrow> 'w turn" where
  "push_event e s = s\<lparr>tu_events := tu_events s @ [e]\<rparr>"

definition push_events :: "event list \<Rightarrow> 'w turn \<Rightarrow> 'w turn" where
  "push_events es s = s\<lparr>tu_events := tu_events s @ es\<rparr>"

definition push_trace :: "string \<Rightarrow> 'w turn \<Rightarrow> 'w turn" where
  "push_trace t s = s\<lparr>tu_tool_traces := tu_tool_traces s @ [t]\<rparr>"

definition on_failed :: "'w turn \<Rightarrow> 'w turn" where
  "on_failed s = s\<lparr>tu_phase := PhaseFailed\<rparr>"

section \<open>Events of a call\<close>

definition started_sequence ::
  "'w agent_env \<Rightarrow> nat \<Rightarrow> string \<Rightarrow> string \<Rightarrow> str_map \<Rightarrow> string \<Rightarrow> event list" where
  "started_sequence env tid cid tool_name args progress =
     (let dn = ae_display_name env tool_name; target = extract_tool_target_hint tool_name args
      in [ToolCallStarted tid cid tool_name target dn]
         @ (if args = [] then [] else [ToolCallArgsDelta tid cid tool_name (ae_js_map env args) dn])
         @ [ToolCallReady tid cid tool_name dn target, ToolCallProgress tid cid tool_name progress dn])"

definition failed_event :: "'w agent_env \<Rightarrow> nat \<Rightarrow> string \<Rightarrow> string \<Rightarrow> string \<Rightarrow> event" where
  "failed_event env tid cid tool_name error_text =
     ToolCallFailed tid cid tool_name (tool_failure_code error_text) error_text
       (tool_failure_retryable error_text) (ae_display_name env tool_name)"

definition completed_event ::
  "'w agent_env \<Rightarrow> nat \<Rightarrow> string \<Rightarrow> string \<Rightarrow> bool \<Rightarrow> string \<Rightarrow> shell_metadata option \<Rightarrow> event" where
  "completed_event env tid cid tool_name ok output md =
     ToolCallCompleted tid cid tool_name ok output md (ae_display_name env tool_name)"


section \<open>Guards\<close>

datatype exec_outcome = ToolResult string bool | Aborted

definition ensure_native_tool_name :: "nat \<Rightarrow> string \<Rightarrow> 'w turn \<Rightarrow> exec_outcome option \<times> 'w turn" where
  "ensure_native_tool_name tid tool_name s =
     (if trim tool_name = [] then
        (Some Aborted, on_failed (push_event (ResponseError tid ''model_invalid_tool''
           ''[model error] tool action missing tool name'' False) s))
      else (None, s))"

definition observe_tool_args :: "str_map \<Rightarrow> 'w turn \<Rightarrow> 'w turn" where
  "observe_tool_args args s =
     (case map_of args ''cmd'' of
        None \<Rightarrow> s
      | Some cmd \<Rightarrow>
          s\<lparr>tu_misfires := (if looks_like_skill_trigger_shell_command cmd then tu_misfires s + 1 else tu_misfires s),
            tu_saw_status := (is_git_status_short cmd \<or> tu_saw_status s),
            tu_saw_stat := (is_git_diff_stat cmd \<or> tu_saw_stat s),
            tu_diff_strategy := (case detect_diff_strategy cmd of
                                   Some nxt \<Rightarrow> merge_diff_strategy (tu_diff_strategy s) nxt
                                 | None \<Rightarrow> tu_diff_strategy s)\<rparr>)"

definition duplicate_tool_call_warning :: "'w agent_env \<Rightarrow> string \<Rightarrow> str_map \<Rightarrow> string" where
  "duplicate_tool_call_warning env tool_name args =
     ''[warning] tool '' @ tool_name @ '' with args '' @ ae_debug_map env args
       @ '' was already called recently, skipping''"

definition guard_duplicate_native_tool_call ::
  "'w agent_env \<Rightarrow> nat \<Rightarrow> string \<Rightarrow> str_map \<Rightarrow> 'w turn \<Rightarrow> exec_outcome option \<times> 'w turn" where
  "guard_duplicate_native_tool_call env tid tool_name args s =
     (if \<not> is_duplicate_tool_call (ae_js_map env) tool_name args (tu_agent s) then (None, s)
      else
        (let msg = duplicate_tool_call_warning env tool_name args;
             max_chars = ag_max_diff_chars (tu_agent s);
             s1 = push_trace (tool_trace_with_args (ae_js_map env) tool_name ''skipped_duplicate'' args msg max_chars)
                    (push_event (ResponseError tid ''duplicate_tool_call_skipped'' msg True) s);
             s2 = s1\<lparr>tu_skips := tu_skips s1 + 1\<rparr>
         in if should_abort_on_consecutive_duplicate_skips (tu_skips s2) MAX_CONSECUTIVE_DUPLICATE_SKIPS then
              (let loop_msg = ae_text_duplicate_abort env MAX_CONSECUTIVE_DUPLICATE_SKIPS
               in (Some Aborted,
                   on_failed (push_trace (tool_trace_with_args (ae_js_map env) tool_name ''aborted'' args loop_msg max_chars)
                     (push_event (ResponseError tid ''duplicate_tool_call_loop_abort'' loop_msg True) s2))))
            else (Some (ToolResult msg False), s2)))"

section \<open>Execution\<close>

text \<open>The execution itself pushes the events of the tool as they arrive.\<close>

definition execute_tool_with_live_events ::
  "'w agent_env \<Rightarrow> nat \<Rightarrow> string \<Rightarrow> tool_call \<Rightarrow> 'w turn \<Rightarrow> (string + tool_exec_outcome) \<times> 'w turn" where
  "execute_tool_with_live_events env tid cid c s =
     (let (r, evs, w) = ae_execute env tid cid c (tu_world s)
      in (r, push_events evs (s\<lparr>tu_world := w\<rparr>)))"

text \<open>After a call that ran: the epoch, the trace and the loop detector, which may end the turn.\<close>

definition detect_loop :: "'w agent_env \<Rightarrow> nat \<Rightarrow> string \<Rightarrow> str_map \<Rightarrow> 'w turn \<Rightarrow> loop_signal \<times> 'w turn" where
  "detect_loop env tid tool_name args s =
     (let (sig, d) = check_and_advance tool_name (ae_js_map env args) (ag_loop_detector (tu_agent s));
          s' = s\<lparr>tu_agent := (tu_agent s)\<lparr>ag_loop_detector := d\<rparr>\<rparr>
      in (sig, case sig of
                 Warned \<Rightarrow> push_event (LoopWarning tid tool_name (ld_warn_threshold d)) s'
               | Halt \<Rightarrow> on_failed (push_event (ResponseError tid ''loop_halt'' (ae_text_loop_halt env) True) s')
               | NoSignal \<Rightarrow> s'))"

definition count_execution :: "'w turn \<Rightarrow> 'w turn" where
  "count_execution s = s\<lparr>tu_executed := tu_executed s + 1, tu_skips := 0\<rparr>"

definition record_call :: "'w agent_env \<Rightarrow> string \<Rightarrow> str_map \<Rightarrow> bool \<Rightarrow> string \<Rightarrow> 'w turn \<Rightarrow> 'w turn" where
  "record_call env tool_name args ok output s =
     s\<lparr>tu_agent := record_tool_call (ae_js_map env) tool_name args ok output (tu_agent s)\<rparr>"

definition after_success ::
  "'w agent_env \<Rightarrow> nat \<Rightarrow> string \<Rightarrow> string \<Rightarrow> str_map \<Rightarrow> tool_exec_outcome \<Rightarrow> 'w turn \<Rightarrow> exec_outcome \<times> 'w turn" where
  "after_success env tid cid tool_name args out s =
     (let ok = eo_success out; output = eo_display_output out;
          s1 = (if is_mutating_tool tool_name then s\<lparr>tu_agent := bump_epoch (tu_agent s)\<rparr> else s);
          s2 = push_trace (tool_trace tool_name (bool_display ok) output (ag_max_diff_chars (tu_agent s1))) s1;
          (sig, s3) = detect_loop env tid tool_name args s2
      in if sig = Halt then (Aborted, s3)
         else (ToolResult (eo_model_content out) ok,
               count_execution (push_event (completed_event env tid cid tool_name ok output (eo_shell_metadata out))
                 (record_call env tool_name args ok output s3))))"

definition after_error ::
  "'w agent_env \<Rightarrow> nat \<Rightarrow> string \<Rightarrow> string \<Rightarrow> str_map \<Rightarrow> string \<Rightarrow> 'w turn \<Rightarrow> exec_outcome \<times> 'w turn" where
  "after_error env tid cid tool_name args err s =
     (let s1 = push_trace (tool_trace tool_name ''false'' err (ag_max_diff_chars (tu_agent s))) s;
          s2 = count_execution (push_events [failed_event env tid cid tool_name err,
                                             completed_event env tid cid tool_name False err None]
                 (record_call env tool_name args False err s1))
      in if is_approval_blocking_error err then
           (Aborted, on_failed (push_event (ResponseError tid ''approval_blocked''
              (if str_contains (to_ascii_lowercase err) ''approval timed out'' then ae_text_timed_out env
               else ae_text_rejected env) False) s2))
         else (ToolResult err False, s2))"

definition execute_native_tool_call_body ::
  "'w agent_env \<Rightarrow> nat \<Rightarrow> string \<Rightarrow> string \<Rightarrow> str_map \<Rightarrow> 'w turn \<Rightarrow> exec_outcome \<times> 'w turn" where
  "execute_native_tool_call_body env tid cid tool_name args s =
     (let s1 = push_event (ToolCallProgress tid cid tool_name ''executing'' (ae_display_name env tool_name)) s;
          (r, s2) = execute_tool_with_live_events env tid cid \<lparr>call_name = tool_name, call_args = args\<rparr> s1
      in case r of
           Inr out \<Rightarrow> after_success env tid cid tool_name args out s2
         | Inl err \<Rightarrow> after_error env tid cid tool_name args err s2)"

definition execute_native_tool_call ::
  "'w agent_env \<Rightarrow> nat \<Rightarrow> string \<times> string \<times> json \<Rightarrow> 'w turn \<Rightarrow> exec_outcome \<times> 'w turn" where
  "execute_native_tool_call env tid u s =
     (let (cid, tool_name, input) = u
      in case ensure_native_tool_name tid tool_name s of
           (Some o', s1) \<Rightarrow> (o', s1)
         | (None, s1) \<Rightarrow>
             (let args = tool_input_to_args (ae_js env) input
              in case guard_duplicate_native_tool_call env tid tool_name args (observe_tool_args args s1) of
                   (Some o', s2) \<Rightarrow> (o', s2)
                 | (None, s2) \<Rightarrow> execute_native_tool_call_body env tid cid tool_name args s2))"

end
