(* ===== verification/Planner.thy ===== *)
theory Planner
  imports ToolCalls
begin

text \<open>
  The planner loop of a natural-language turn: the streamed model call
  (\<open>openjax-core/src/agent/planner_stream_flow.rs\<close>) and the rounds of \<open>agent/planner.rs\<close>, with the
  two budgets that bound them.
\<close>

section \<open>The streamed model call\<close>

text \<open>The variables the delta handler closes over.\<close>

record stream_acc =
  sa_text :: string
  sa_started :: bool
  sa_response :: response_stream
  sa_tool_names :: "string \<rightharpoonup> string"
  sa_args :: "string \<rightharpoonup> string"

definition stream_start :: "nat \<Rightarrow> stream_acc" where
  "stream_start tid = \<lparr>sa_text = [], sa_started = False, sa_response = response_stream_new tid ModelLive,
     sa_tool_names = Map.empty, sa_args = Map.empty\<rparr>"

definition tool_name_of :: "stream_acc \<Rightarrow> string \<Rightarrow> string" where
  "tool_name_of a i = (case sa_tool_names a i of Some n \<Rightarrow> n | None \<Rightarrow> [])"

text \<open>The string-valued entries of a JSON object.\<close>

definition string_entries :: "json \<Rightarrow> str_map option" where
  "string_entries v =
     (case v of
        JObject kvs \<Rightarrow> Some (concat (map (\<lambda>(k, v). case as_str v of Some s \<Rightarrow> [(k, s)] | None \<Rightarrow> []) kvs))
      | _ \<Rightarrow> None)"

definition ready_target :: "'w agent_env \<Rightarrow> string \<Rightarrow> string option \<Rightarrow> string option" where
  "ready_target env tool_name json_str =
     Option.bind json_str (\<lambda>t. Option.bind (ae_from_str env t) (\<lambda>v.
       Option.bind (string_entries v) (extract_tool_target_hint tool_name)))"

definition on_stream_delta ::
  "'w agent_env \<Rightarrow> nat \<Rightarrow> bool \<Rightarrow> stream_delta \<Rightarrow> stream_acc \<Rightarrow> event list \<times> stream_acc" where
  "on_stream_delta env tid emit_live d a =
     (case d of
        DText t \<Rightarrow>
          if t = [] then ([], a)
          else let a1 = a\<lparr>sa_text := sa_text a @ t\<rparr>
               in if emit_live then
                    (let (evs, rs) = on_delta t (sa_response a1)
                     in (evs, a1\<lparr>sa_started := True, sa_response := rs\<rparr>))
                  else ([], a1)
      | DToolUseStart i n \<Rightarrow>
          ([ToolCallStarted tid i n None (ae_display_name env n)],
           a\<lparr>sa_tool_names := (sa_tool_names a)(i \<mapsto> n)\<rparr>)
      | DToolArgsDelta i t \<Rightarrow>
          (let n = tool_name_of a i
           in ([ToolCallArgsDelta tid i n t (ae_display_name env n)],
               a\<lparr>sa_args := (sa_args a)(i \<mapsto> (case sa_args a i of Some u \<Rightarrow> u | None \<Rightarrow> []) @ t)\<rparr>))
      | DToolUseEnd i \<Rightarrow>
          (let n = tool_name_of a i
           in ([ToolCallReady tid i n (ae_display_name env n) (ready_target env n (sa_args a i))],
               a\<lparr>sa_args := (sa_args a)(i := None)\<rparr>))
      | DReasoning t \<Rightarrow> (if t = [] then [] else [ReasoningDelta tid t ModelLive], a))"

fun on_stream_deltas ::
  "'w agent_env \<Rightarrow> nat \<Rightarrow> bool \<Rightarrow> stream_delta list \<Rightarrow> stream_acc \<Rightarrow> event list \<times> stream_acc" where
  "on_stream_deltas env tid emit_live [] a = ([], a)"
| "on_stream_deltas env tid emit_live (d # ds) a =
     (let (evs, a') = on_stream_delta env tid emit_live d a;
          (evs', a'') = on_stream_deltas env tid emit_live ds a'
      in (evs @ evs', a''))"

record planner_stream_result =
  ps_response :: model_response
  ps_streamed_text :: string
  ps_live_streamed :: bool
  ps_usage :: "model_usage option"

definition request_planner_model_output ::
  "'w agent_env \<Rightarrow> nat \<Rightarrow> message list \<Rightarrow> bool \<Rightarrow> 'w turn \<Rightarrow> (string + planner_stream_result) \<times> 'w turn" where
  "request_planner_model_output env tid messages emit_live s =
     (let (deltas, result, w) = ae_complete_stream env messages (tu_world s);
          (evs, a) = on_stream_deltas env tid emit_live deltas (stream_start tid);
          s1 = push_events evs (s\<lparr>tu_world := w\<rparr>)
      in case result of
           Inl e \<Rightarrow> (Inl e, s1)
         | Inr response \<Rightarrow>
             (let late = (emit_live \<and> \<not> has_tool_use response \<and> sa_text a \<noteq> [] \<and> \<not> sa_started a);
                  s2 = (if late then push_events (fst (on_delta (sa_text a) (sa_response a))) s1 else s1)
              in (Inr \<lparr>ps_response = response, ps_streamed_text = sa_text a,
                       ps_live_streamed = (sa_started a \<or> late), ps_usage = mr_usage response\<rparr>, s2)))"

section \<open>The end of a turn\<close>

definition final_response :: "nat \<Rightarrow> string \<Rightarrow> planner_stream_result \<Rightarrow> 'w turn \<Rightarrow> 'w turn" where
  "final_response tid user_input p s =
     (let seed = response_text (ps_response p);
          content = (if ps_live_streamed p then if ps_streamed_text p = [] then seed else ps_streamed_text p
                     else seed);
          s1 = s\<lparr>tu_phase := StreamingText\<rparr>;
          s2 = (if ps_live_streamed p then push_event (ResponseCompleted tid content ModelLive) s1
                else push_events ([ResponseStarted tid Synthetic]
                       @ emit_synthetic_response_deltas tid seed SYNTHETIC_ASSISTANT_DELTA_CHUNK_CHARS
                       @ [ResponseCompleted tid seed Synthetic]) s1)
      in s2\<lparr>tu_phase := PhaseCompleted,
            tu_agent := commit_turn user_input (tu_tool_traces s2) content (tu_agent s2)\<rparr>)"

definition turn_limit_reached :: "'w agent_env \<Rightarrow> nat \<Rightarrow> 'w turn \<Rightarrow> 'w turn" where
  "turn_limit_reached env tid s =
     (let a = tu_agent s;
          msg = (if tu_executed s \<ge> ag_max_tool_calls a then ae_text_max_calls env (ag_max_tool_calls a)
                 else ae_text_max_rounds env (ag_max_planner_rounds a));
          s1 = push_event (ResponseError tid ''turn_limit_reached'' msg True) s
      in if tu_phase s1 = Planning then on_failed s1 else s1)"

section \<open>A batch of tool calls\<close>

definition budget_message :: "nat \<Rightarrow> string" where
  "budget_message n =
     ''tool call skipped because the turn only allows '' @ dec_of_nat n @ '' tool calls''"

definition dropped_events :: "'w agent_env \<Rightarrow> nat \<Rightarrow> nat \<Rightarrow> string \<times> string \<times> json \<Rightarrow> event list" where
  "dropped_events env tid max_calls u =
     (let (cid, n, _) = u; msg = budget_message max_calls
      in [ToolCallFailed tid cid n ''tool_call_budget_exhausted'' msg True (ae_display_name env n),
          completed_event env tid cid n False msg None])"

text \<open>The loop over the calls that fit the budget: the result blocks, and how many calls succeeded and
  failed; nothing when a call aborted the turn.\<close>

fun run_batch ::
  "'w agent_env \<Rightarrow> nat \<Rightarrow> (string \<times> string \<times> json) list \<Rightarrow> 'w turn
     \<Rightarrow> (user_block list \<times> nat \<times> nat) option \<times> 'w turn" where
  "run_batch env tid [] s = (Some ([], 0, 0), s)"
| "run_batch env tid (u # us) s =
     (case execute_native_tool_call env tid u s of
        (Aborted, s1) \<Rightarrow> (None, s1)
      | (ToolResult content ok, s1) \<Rightarrow>
          (case run_batch env tid us s1 of
             (None, s2) \<Rightarrow> (None, s2)
           | (Some (blocks, succeeded, failed), s2) \<Rightarrow>
               (Some (UToolResult (fst u) content (\<not> ok) # blocks,
                      of_bool ok + succeeded, of_bool (\<not> ok) + failed), s2)))"

definition proposal :: "'w agent_env \<Rightarrow> string \<times> string \<times> json \<Rightarrow> tool_call_proposal" where
  "proposal env u =
     (let (cid, n, input) = u
      in \<lparr>tp_tool_call_id = cid, tp_tool_name = n, tp_arguments = value_to_btreemap (ae_js env) input,
          tp_depends_on = [], tp_concurrency_group = None\<rparr>)"

definition tool_batch ::
  "'w agent_env \<Rightarrow> nat \<Rightarrow> nat \<Rightarrow> (string \<times> string \<times> json) list \<Rightarrow> message list \<Rightarrow> 'w turn
     \<Rightarrow> message list option \<times> 'w turn" where
  "tool_batch env tid remaining us messages s =
     (let s1 = (push_event (ToolCallsProposed tid (map (proposal env) us)) s)\<lparr>tu_phase := ToolBatchRunning\<rparr>;
          n = min (length us) remaining; dropped = drop n us;
          s2 = push_events (concat (map (dropped_events env tid (ag_max_tool_calls (tu_agent s))) dropped)) s1
      in case run_batch env tid (take n us) s2 of
           (None, s3) \<Rightarrow> (None, s3)
         | (Some (blocks, succeeded, failed), s3) \<Rightarrow>
             (Some (if blocks = [] then messages else messages @ [User blocks]),
              (push_event (ToolBatchCompleted tid (n + length dropped) succeeded (length dropped + failed)) s3)
                \<lparr>tu_phase := StreamingResumed\<rparr>))"

section \<open>The rounds\<close>

text \<open>One round after its model call: \<open>None\<close> ends the turn, otherwise the messages for the next round.\<close>

definition round_body ::
  "'w agent_env \<Rightarrow> nat \<Rightarrow> string \<Rightarrow> nat \<Rightarrow> message list \<Rightarrow> planner_stream_result \<Rightarrow> 'w turn
     \<Rightarrow> message list option \<times> 'w turn" where
  "round_body env tid user_input remaining messages p s =
     (let response = ps_response p;
          s1 = (case Option.bind (ps_usage p) mu_input_tokens of
                  Some t \<Rightarrow> s\<lparr>tu_agent := (tu_agent s)\<lparr>ag_last_input_tokens := Some t\<rparr>\<rparr>
                | None \<Rightarrow> s);
          (a, evs, w) = check_and_auto_compact (ae_summarise env) tid (tu_agent s1) (tu_world s1);
          s2 = push_events evs (s1\<lparr>tu_agent := a, tu_world := w\<rparr>);
          messages' = messages @ [Assistant (assistant_history_blocks response)]
      in if \<not> has_tool_use response then (None, final_response tid user_input p s2)
         else tool_batch env tid remaining (tool_uses (mr_content response)) messages' s2)"

definition planner_round ::
  "'w agent_env \<Rightarrow> nat \<Rightarrow> string \<Rightarrow> message list \<Rightarrow> 'w turn \<Rightarrow> message list option \<times> 'w turn" where
  "planner_round env tid user_input messages s =
     (let messages1 = refresh_loop_recovery_in_messages messages user_input
                        (recovery_prompt (ae_text_recovery env) (ag_loop_detector (tu_agent s)));
          remaining = ag_max_tool_calls (tu_agent s) - tu_executed s
      in case request_planner_model_output env tid messages1 True s of
           (Inl err, s1) \<Rightarrow>
             (None, on_failed (push_event (ResponseError tid ''model_request_failed'' (''[model error] '' @ err) True) s1))
         | (Inr p, s1) \<Rightarrow> round_body env tid user_input remaining messages1 p s1)"

text \<open>The \<open>while\<close> loop, by the number of planner rounds that are left.\<close>

fun planner_loop :: "'w agent_env \<Rightarrow> nat \<Rightarrow> string \<Rightarrow> nat \<Rightarrow> message list \<Rightarrow> 'w turn \<Rightarrow> 'w turn" where
  "planner_loop env tid user_input 0 messages s = turn_limit_reached env tid s"
| "planner_loop env tid user_input (Suc left) messages s =
     (if tu_executed s < ag_max_tool_calls (tu_agent s) then
        (case planner_round env tid user_input messages s of
           (None, s') \<Rightarrow> s'
         | (Some messages', s') \<Rightarrow> planner_loop env tid user_input left messages' s')
      else turn_limit_reached env tid s)"

definition turn_start :: "agent \<Rightarrow> 'w \<Rightarrow> 'w turn" where
  "turn_start a w =
     \<lparr>tu_agent = a\<lparr>ag_loop_detector := ld_reset (ag_loop_detector a)\<rparr>, tu_world = w, tu_events = [],
      tu_tool_traces = [], tu_skips = 0, tu_executed = 0, tu_phase = Planning, tu_misfires = 0,
      tu_saw_status = False, tu_saw_stat = False, tu_diff_strategy = ''none''\<rparr>"

definition execute_natural_language_turn ::
  "'w agent_env \<Rightarrow> nat \<Rightarrow> string \<Rightarrow> agent \<Rightarrow> 'w \<Rightarrow> agent \<times> event list \<times> 'w" where
  "execute_natural_language_turn env tid user_input a w =
     (let s = turn_start a w;
          messages = build_turn_messages user_input (ag_history a)
                       (recovery_prompt (ae_text_recovery env) (ag_loop_detector (tu_agent s)));
          s' = planner_loop env tid user_input (ag_max_planner_rounds a) messages s
      in (tu_agent s', tu_events s', tu_world s'))"


section \<open>Frame lemmas\<close>

text \<open>The budgets of a turn, and what a step leaves alone.\<close>

definition limits :: "'w turn \<Rightarrow> nat \<times> nat" where
  "limits s = (ag_max_tool_calls (tu_agent s), ag_max_planner_rounds (tu_agent s))"

lemma push_simps [simp]:
  "tu_world (push_event e s) = tu_world s" "tu_world (push_events es s) = tu_world s"
  "tu_world (push_trace t s) = tu_world s" "tu_world (on_failed s) = tu_world s"
  "tu_executed (push_event e s) = tu_executed s" "tu_executed (push_events es s) = tu_executed s"
  "tu_executed (push_trace t s) = tu_executed s" "tu_executed (on_failed s) = tu_executed s"
  "tu_agent (push_event e s) = tu_agent s" "tu_agent (push_events es s) = tu_agent s"
  "tu_agent (push_trace t s) = tu_agent s" "tu_agent (on_failed s) = tu_agent s"
  "tu_events (push_event e s) = tu_events s @ [e]" "tu_events (push_events es s) = tu_events s @ es"
  "tu_events (push_trace t s) = tu_events s" "tu_events (on_failed s) = tu_events s"
  by (simp_all add: push_event_def push_events_def push_trace_def on_failed_def)

lemma limits_simps [simp]:
  "limits (push_event e s) = limits s" "limits (push_events es s) = limits s"
  "limits (push_trace t s) = limits s" "limits (on_failed s) = limits s"
  "limits (count_execution s) = limits s" "limits (record_call env n args ok out s) = limits s"
  "limits (s\<lparr>tu_world := w\<rparr>) = limits s" "limits (s\<lparr>tu_phase := p\<rparr>) = limits s"
  "limits (s\<lparr>tu_skips := k\<rparr>) = limits s"
  by (simp_all add: limits_def count_execution_def record_call_def record_tool_call_def)

lemma observe_simps [simp]:
  "tu_world (observe_tool_args args s) = tu_world s" "tu_executed (observe_tool_args args s) = tu_executed s"
  "tu_agent (observe_tool_args args s) = tu_agent s" "tu_events (observe_tool_args args s) = tu_events s"
  "limits (observe_tool_args args s) = limits s"
  by (simp_all add: observe_tool_args_def limits_def split: option.split)

lemma count_simps [simp]:
  "tu_world (count_execution s) = tu_world s" "tu_executed (count_execution s) = tu_executed s + 1"
  "tu_agent (count_execution s) = tu_agent s" "tu_events (count_execution s) = tu_events s"
  "tu_world (record_call env n args ok out s) = tu_world s"
  "tu_executed (record_call env n args ok out s) = tu_executed s"
  "tu_events (record_call env n args ok out s) = tu_events s"
  by (simp_all add: count_execution_def record_call_def)

lemma detect_loop_frame:
  assumes "detect_loop env tid n args s = (sig, s')"
  shows "tu_world s' = tu_world s \<and> tu_executed s' = tu_executed s \<and> limits s' = limits s"
  using assms
  by (auto simp: detect_loop_def limits_def Let_def split: prod.splits loop_signal.splits)

lemma after_success_frame:
  assumes "after_success env tid cid n args out s = (oc, s')"
  shows "tu_world s' = tu_world s \<and> limits s' = limits s
    \<and> tu_executed s' = tu_executed s + of_bool (oc \<noteq> Aborted)"
proof -
  define s1 where "s1 = (if is_mutating_tool n then s\<lparr>tu_agent := bump_epoch (tu_agent s)\<rparr> else s)"
  define s2 where "s2 = push_trace (tool_trace n (bool_display (eo_success out)) (eo_display_output out)
      (ag_max_diff_chars (tu_agent s1))) s1"
  have f: "tu_world s2 = tu_world s" "tu_executed s2 = tu_executed s" "limits s2 = limits s"
    by (simp_all add: s2_def s1_def limits_def bump_epoch_def)
  obtain sig s3 where d: "detect_loop env tid n args s2 = (sig, s3)" by fastforce
  show ?thesis
    using assms detect_loop_frame [OF d] f d
    by (auto simp: after_success_def Let_def s1_def [symmetric] s2_def [symmetric] split: if_splits)
qed

lemma after_error_frame:
  assumes "after_error env tid cid n args err s = (oc, s')"
  shows "tu_world s' = tu_world s \<and> limits s' = limits s \<and> tu_executed s' = tu_executed s + 1"
  using assms by (auto simp: after_error_def Let_def split: if_splits)

lemma guard_frame:
  assumes "guard_duplicate_native_tool_call env tid n args s = (r, s')"
  shows "tu_world s' = tu_world s \<and> limits s' = limits s \<and> tu_executed s' = tu_executed s
    \<and> tu_agent s' = tu_agent s \<and> (r = None \<longrightarrow> s' = s)"
  using assms by (auto simp: guard_duplicate_native_tool_call_def Let_def split: if_splits)

text \<open>A call either never runs, or runs once.\<close>

lemma call_cases:
  assumes call: "execute_native_tool_call env tid u s = (oc, s')"
  obtains (refused) "tu_world s' = tu_world s" "tu_executed s' = tu_executed s" "limits s' = limits s"
  | (ran) c where "tu_world s' = snd (snd (ae_execute env tid (fst u) c (tu_world s)))"
      "limits s' = limits s" "tu_executed s' \<le> tu_executed s + 1"
      "oc \<noteq> Aborted \<Longrightarrow> tu_executed s' = tu_executed s + 1"
proof -
  obtain cid n input where u: "u = (cid, n, input)" by (cases u)
  define args where "args = tool_input_to_args (ae_js env) input"
  show ?thesis
  proof (cases "trim n = []")
    case True
    then show ?thesis using refused call by (auto simp: execute_native_tool_call_def u ensure_native_tool_name_def)
  next
    case named: False
    obtain r s1 where g: "guard_duplicate_native_tool_call env tid n args (observe_tool_args args s) = (r, s1)"
      by fastforce
    note frame = guard_frame [OF g]
    show ?thesis
    proof (cases r)
      case (Some o')
      then show ?thesis using refused call g named frame
        by (auto simp: execute_native_tool_call_def u ensure_native_tool_name_def args_def [symmetric] Let_def)
    next
      case None
      let ?c = "\<lparr>call_name = n, call_args = args\<rparr>"
      obtain r' evs w where e: "ae_execute env tid cid ?c (tu_world s) = (r', evs, w)" by (metis prod_cases3)
      define s2 where "s2 = push_events evs ((push_event (ToolCallProgress tid cid n ''executing''
          (ae_display_name env n)) s1)\<lparr>tu_world := w\<rparr>)"
      have body: "(case r' of Inr out \<Rightarrow> after_success env tid cid n args out s2
          | Inl err \<Rightarrow> after_error env tid cid n args err s2) = (oc, s')"
        using call g named None frame e
        by (cases r') (simp_all add: execute_native_tool_call_def u ensure_native_tool_name_def args_def [symmetric] Let_def
            execute_native_tool_call_body_def execute_tool_with_live_events_def s2_def)
      have f2: "tu_world s2 = w" "tu_executed s2 = tu_executed s" "limits s2 = limits s"
        using frame by (simp_all add: s2_def)
      have "tu_world s' = w \<and> limits s' = limits s \<and> tu_executed s' \<le> tu_executed s + 1
          \<and> (oc \<noteq> Aborted \<longrightarrow> tu_executed s' = tu_executed s + 1)"
        using body f2 after_success_frame [of env tid cid n args _ s2 oc s']
          after_error_frame [of env tid cid n args _ s2 oc s']
        by (cases r') auto
      then show ?thesis using ran [of ?c] e by (simp add: u)
    qed
  qed
qed


lemma request_frame:
  assumes "request_planner_model_output env tid ms live s = (r, s')"
  shows "tu_world s' = snd (snd (ae_complete_stream env ms (tu_world s)))
    \<and> tu_executed s' = tu_executed s \<and> tu_agent s' = tu_agent s
    \<and> (\<forall>p. r = Inr p \<longrightarrow> fst (snd (ae_complete_stream env ms (tu_world s))) = Inr (ps_response p))"
  using assms
  by (auto simp: request_planner_model_output_def Let_def case_prod_beta split: sum.splits)

lemma final_response_frame [simp]:
  "tu_world (final_response tid ui p s) = tu_world s" "tu_executed (final_response tid ui p s) = tu_executed s"
  "limits (final_response tid ui p s) = limits s"
  by (simp_all add: final_response_def Let_def limits_def commit_turn_def)

lemma turn_limit_frame [simp]:
  "tu_world (turn_limit_reached env tid s) = tu_world s" "tu_executed (turn_limit_reached env tid s) = tu_executed s"
  "limits (turn_limit_reached env tid s) = limits s"
  by (simp_all add: turn_limit_reached_def Let_def)

lemma compact_frame:
  assumes "check_and_auto_compact sm tid a w = (a', evs, w')"
  shows "ag_max_tool_calls a' = ag_max_tool_calls a \<and> ag_max_planner_rounds a' = ag_max_planner_rounds a
    \<and> ag_loop_detector a' = ag_loop_detector a
    \<and> (w' = w \<or> (\<exists>t n. w' = snd (sm t n w)))"
  using assms
  by (auto simp: check_and_auto_compact_def do_compact_def try_compact_def Let_def
      split: prod.splits option.splits if_splits) (metis snd_conv)+

text \<open>The state in which a round consumes its model response.\<close>

lemma round_body_cases:
  assumes "round_body env tid ui remaining ms p s = (r, s')"
  obtains s2 evs a w where
    "check_and_auto_compact (ae_summarise env) tid
       (case Option.bind (ps_usage p) mu_input_tokens of
          Some t \<Rightarrow> (tu_agent s)\<lparr>ag_last_input_tokens := Some t\<rparr> | None \<Rightarrow> tu_agent s) (tu_world s) = (a, evs, w)"
    "tu_agent s2 = a" "tu_world s2 = w" "tu_executed s2 = tu_executed s" "tu_events s2 = tu_events s @ evs"
    "tu_tool_traces s2 = tu_tool_traces s" "tu_skips s2 = tu_skips s"
    "(r, s') = (if \<not> has_tool_use (ps_response p) then (None, final_response tid ui p s2)
       else tool_batch env tid remaining (tool_uses (mr_content (ps_response p)))
              (ms @ [Assistant (assistant_history_blocks (ps_response p))]) s2)"
proof -
  define s1 where "s1 = (case Option.bind (ps_usage p) mu_input_tokens of
      Some t \<Rightarrow> s\<lparr>tu_agent := (tu_agent s)\<lparr>ag_last_input_tokens := Some t\<rparr>\<rparr> | None \<Rightarrow> s)"
  obtain a evs w where c: "check_and_auto_compact (ae_summarise env) tid (tu_agent s1) (tu_world s1) = (a, evs, w)"
    by (metis prod_cases3)
  have s1: "tu_world s1 = tu_world s" "tu_executed s1 = tu_executed s" "tu_events s1 = tu_events s"
    "tu_tool_traces s1 = tu_tool_traces s" "tu_skips s1 = tu_skips s"
    "tu_agent s1 = (case Option.bind (ps_usage p) mu_input_tokens of
       Some t \<Rightarrow> (tu_agent s)\<lparr>ag_last_input_tokens := Some t\<rparr> | None \<Rightarrow> tu_agent s)"
    by (simp_all add: s1_def split: option.split)
  define s2 where "s2 = push_events evs (s1\<lparr>tu_agent := a, tu_world := w\<rparr>)"
  have eq: "(r, s') = (if \<not> has_tool_use (ps_response p) then (None, final_response tid ui p s2)
       else tool_batch env tid remaining (tool_uses (mr_content (ps_response p)))
              (ms @ [Assistant (assistant_history_blocks (ps_response p))]) s2)"
    using assms c by (auto simp: round_body_def Let_def s1_def [symmetric] s2_def split: if_splits)
  show ?thesis
    by (rule that [of a evs w s2, OF _ _ _ _ _ _ _ eq]) (use c s1 in \<open>simp_all add: s2_def push_events_def\<close>)
qed

section \<open>Budgets\<close>

text \<open>An environment whose world counts the tool runs and logs the planner requests.\<close>

locale metered_env =
  fixes env :: "'w agent_env" and runs :: "'w \<Rightarrow> nat" and requests :: "'w \<Rightarrow> message list list"
  assumes execute_runs: "runs (snd (snd (ae_execute env tid cid c w))) \<le> Suc (runs w)"
    and execute_requests: "requests (snd (snd (ae_execute env tid cid c w))) = requests w"
    and stream_runs: "runs (snd (snd (ae_complete_stream env ms w))) = runs w"
    and stream_requests: "requests (snd (snd (ae_complete_stream env ms w))) = requests w @ [ms]"
    and summarise_runs: "runs (snd (ae_summarise env t n w)) = runs w"
    and summarise_requests: "requests (snd (ae_summarise env t n w)) = requests w"
begin

lemma call_metered:
  assumes "execute_native_tool_call env tid u s = (oc, s')"
  shows "limits s' = limits s \<and> requests (tu_world s') = requests (tu_world s)
    \<and> runs (tu_world s') \<le> runs (tu_world s) + 1
    \<and> tu_executed s' \<le> tu_executed s + 1
    \<and> (oc \<noteq> Aborted \<longrightarrow> runs (tu_world s') + tu_executed s \<le> runs (tu_world s) + tu_executed s')"
  by (cases rule: call_cases [OF assms]) (auto simp: execute_runs execute_requests)

lemma batch_metered:
  "run_batch env tid us s = (r, s') \<Longrightarrow>
     limits s' = limits s \<and> requests (tu_world s') = requests (tu_world s)
     \<and> runs (tu_world s') \<le> runs (tu_world s) + length us
     \<and> tu_executed s' \<le> tu_executed s + length us
     \<and> (r \<noteq> None \<longrightarrow> runs (tu_world s') + tu_executed s \<le> runs (tu_world s) + tu_executed s')"
proof (induction us arbitrary: s r s')
  case (Cons u us)
  obtain oc s1 where c: "execute_native_tool_call env tid u s = (oc, s1)" by fastforce
  note m = call_metered [OF c]
  show ?case
  proof (cases oc)
    case Aborted
    then show ?thesis using Cons.prems c m by auto
  next
    case (ToolResult content ok)
    obtain r1 s2 where b: "run_batch env tid us s1 = (r1, s2)" by fastforce
    have "s' = s2" "r \<noteq> None \<longrightarrow> r1 \<noteq> None"
      using Cons.prems c ToolResult b by (auto split: option.splits prod.splits)
    then show ?thesis using Cons.IH [OF b] m ToolResult by auto
  qed
qed simp

lemma tool_batch_metered:
  assumes b: "tool_batch env tid remaining us ms s = (r, s')"
    and rem: "remaining + tu_executed s = max_calls" and base: "runs (tu_world s) \<le> base + tu_executed s"
  shows "limits s' = limits s \<and> requests (tu_world s') = requests (tu_world s)
    \<and> runs (tu_world s') \<le> base + max_calls
    \<and> (r \<noteq> None \<longrightarrow> runs (tu_world s') \<le> base + tu_executed s' \<and> tu_executed s' \<le> max_calls)"
proof -
  let ?n = "min (length us) remaining"
  define s2 where "s2 = push_events (concat (map (dropped_events env tid (ag_max_tool_calls (tu_agent s)))
      (drop ?n us))) ((push_event (ToolCallsProposed tid (map (proposal env) us)) s)\<lparr>tu_phase := ToolBatchRunning\<rparr>)"
  have s2: "tu_world s2 = tu_world s" "tu_executed s2 = tu_executed s" "limits s2 = limits s"
    by (simp_all add: s2_def)
  obtain r1 s3 where rb: "run_batch env tid (take ?n us) s2 = (r1, s3)" by fastforce
  have out: "tu_world s' = tu_world s3" "tu_executed s' = tu_executed s3" "limits s' = limits s3"
    "r \<noteq> None \<longrightarrow> r1 \<noteq> None"
    using b rb by (auto simp: tool_batch_def Let_def s2_def [symmetric] split: option.splits prod.splits)
  show ?thesis using batch_metered [OF rb] s2 out rem base by auto
qed

lemma round_metered:
  assumes r: "planner_round env tid ui ms s = (r, s')"
    and max_calls: "fst (limits s) = max_calls" "tu_executed s \<le> max_calls"
    and base: "runs (tu_world s) \<le> base + tu_executed s"
  shows "limits s' = limits s \<and> length (requests (tu_world s')) \<le> length (requests (tu_world s)) + 1
    \<and> runs (tu_world s') \<le> base + max_calls
    \<and> (r \<noteq> None \<longrightarrow> runs (tu_world s') \<le> base + tu_executed s' \<and> tu_executed s' \<le> max_calls)"
proof -
  define ms1 where "ms1 = refresh_loop_recovery_in_messages ms ui
      (recovery_prompt (ae_text_recovery env) (ag_loop_detector (tu_agent s)))"
  obtain r1 s1 where q: "request_planner_model_output env tid ms1 True s = (r1, s1)" by fastforce
  note f = request_frame [OF q]
  have s1: "runs (tu_world s1) = runs (tu_world s)" "length (requests (tu_world s1)) \<le> length (requests (tu_world s)) + 1"
    "limits s1 = limits s" "tu_executed s1 = tu_executed s"
    using f by (simp_all add: stream_runs stream_requests limits_def)
  show ?thesis
  proof (cases r1)
    case (Inl e)
    then show ?thesis using r q s1 base max_calls by (auto simp: planner_round_def Let_def ms1_def [symmetric])
  next
    case (Inr p)
    then have body: "round_body env tid ui (max_calls - tu_executed s) ms1 p s1 = (r, s')"
      using r q max_calls by (simp add: planner_round_def Let_def ms1_def [symmetric] limits_def)
    obtain s2 evs a w where c: "check_and_auto_compact (ae_summarise env) tid
         (case Option.bind (ps_usage p) mu_input_tokens of
            Some t \<Rightarrow> (tu_agent s1)\<lparr>ag_last_input_tokens := Some t\<rparr> | None \<Rightarrow> tu_agent s1) (tu_world s1) = (a, evs, w)"
      and s2: "tu_agent s2 = a" "tu_world s2 = w" "tu_executed s2 = tu_executed s1"
        "tu_events s2 = tu_events s1 @ evs" "tu_tool_traces s2 = tu_tool_traces s1" "tu_skips s2 = tu_skips s1"
      and out: "(r, s') = (if \<not> has_tool_use (ps_response p) then (None, final_response tid ui p s2)
         else tool_batch env tid (max_calls - tu_executed s) (tool_uses (mr_content (ps_response p)))
              (ms1 @ [Assistant (assistant_history_blocks (ps_response p))]) s2)"
      by (rule round_body_cases [OF body])
    have lim2: "limits s2 = limits s" and w: "runs w = runs (tu_world s)" "requests w = requests (tu_world s1)"
      using compact_frame [OF c] s2 s1
      by (auto simp: limits_def summarise_runs summarise_requests split: option.splits)
    show ?thesis
    proof (cases "has_tool_use (ps_response p)")
      case False
      then show ?thesis using out s1 s2 lim2 w base max_calls by auto
    next
      case True
      have "tool_batch env tid (max_calls - tu_executed s) (tool_uses (mr_content (ps_response p)))
          (ms1 @ [Assistant (assistant_history_blocks (ps_response p))]) s2 = (r, s')"
        using out True by simp
      from tool_batch_metered [OF this, of max_calls base] show ?thesis
        using s1 s2 lim2 w base max_calls by auto
    qed
  qed
qed

lemma loop_metered:
  "fst (limits s) = max_calls \<Longrightarrow> tu_executed s \<le> max_calls \<Longrightarrow> runs (tu_world s) \<le> base + tu_executed s \<Longrightarrow>
     s' = planner_loop env tid ui left ms s \<Longrightarrow>
     runs (tu_world s') \<le> base + max_calls \<and> length (requests (tu_world s')) \<le> length (requests (tu_world s)) + left
     \<and> limits s' = limits s"
proof (induction left arbitrary: ms s)
  case 0
  then show ?case by simp
next
  case (Suc left)
  show ?case
  proof (cases "tu_executed s < ag_max_tool_calls (tu_agent s)")
    case False
    then show ?thesis using Suc.prems by simp
  next
    case True
    obtain r s1 where rnd: "planner_round env tid ui ms s = (r, s1)" by fastforce
    note m = round_metered [OF rnd Suc.prems(1-3)]
    show ?thesis
    proof (cases r)
      case None
      then show ?thesis using m Suc.prems(4) True rnd by simp
    next
      case (Some ms')
      then have "s' = planner_loop env tid ui left ms' s1" using Suc.prems(4) True rnd by simp
      from Suc.IH [OF _ _ _ this] m Some Suc.prems(1) show ?thesis by auto
    qed
  qed
qed

lemma turn_metered:
  assumes "execute_natural_language_turn env tid ui a w = (a', evs, w')"
  shows "runs w' \<le> runs w + ag_max_tool_calls a \<and> length (requests w') \<le> length (requests w) + ag_max_planner_rounds a
    \<and> ag_max_tool_calls a' = ag_max_tool_calls a \<and> ag_max_planner_rounds a' = ag_max_planner_rounds a"
proof -
  let ?s = "turn_start a w"
  let ?s' = "planner_loop env tid ui (ag_max_planner_rounds a)
      (build_turn_messages ui (ag_history a)
        (recovery_prompt (ae_text_recovery env) (ag_loop_detector (tu_agent ?s)))) ?s"
  have "fst (limits ?s) = ag_max_tool_calls a" "tu_executed ?s \<le> ag_max_tool_calls a"
    "runs (tu_world ?s) \<le> runs w + tu_executed ?s"
    by (simp_all add: turn_start_def limits_def)
  note m = loop_metered [OF this refl, of tid ui "ag_max_planner_rounds a"
      "build_turn_messages ui (ag_history a)
        (recovery_prompt (ae_text_recovery env) (ag_loop_detector (tu_agent ?s)))"]
  have "a' = tu_agent ?s'" "w' = tu_world ?s'"
    using assms by (simp_all add: execute_natural_language_turn_def Let_def)
  moreover have "tu_world ?s = w" "limits ?s = (ag_max_tool_calls a, ag_max_planner_rounds a)"
    by (simp_all add: turn_start_def limits_def)
  ultimately show ?thesis using m by (simp add: limits_def)
qed

end


section \<open>Every tool call of a conversation is answered\<close>

definition result_ids :: "user_block list \<Rightarrow> string list" where
  "result_ids bs = concat (map (\<lambda>b. case b of UToolResult i _ _ \<Rightarrow> [i] | UText _ \<Rightarrow> []) bs)"

text \<open>What matters of a message: the results in it, or the ids of the calls in it. The calls of an
  assistant message must be answered, in order, by the user message right after it.\<close>

datatype skeleton = SUser "string list" | SAssistant "string list"

definition skeleton_of :: "message \<Rightarrow> skeleton" where
  "skeleton_of m =
     (case m of User bs \<Rightarrow> SUser (result_ids bs) | Assistant bs \<Rightarrow> SAssistant (map fst (tool_uses bs)))"

fun answered_skeletons :: "skeleton list \<Rightarrow> bool" where
  "answered_skeletons [] = True"
| "answered_skeletons (SUser _ # ks) = answered_skeletons ks"
| "answered_skeletons (SAssistant is # ks) =
     ((is = [] \<or> (case ks of SUser rs # _ \<Rightarrow> rs = is | _ \<Rightarrow> False)) \<and> answered_skeletons ks)"

definition answered :: "message list \<Rightarrow> bool" where
  "answered ms = answered_skeletons (map skeleton_of ms)"

lemma answered_skeletons_append:
  "answered_skeletons ks \<Longrightarrow> answered_skeletons ks' \<Longrightarrow> answered_skeletons (ks @ ks')"
  by (induction ks rule: answered_skeletons.induct) (auto split: list.splits skeleton.splits)

lemma answered_append: "answered ms \<Longrightarrow> answered ms' \<Longrightarrow> answered (ms @ ms')"
  by (simp add: answered_def answered_skeletons_append)

lemma result_ids_replace: "replace_first_text t bs = Some bs' \<Longrightarrow> result_ids bs' = result_ids bs"
  by (induction t bs arbitrary: bs' rule: replace_first_text.induct) (auto simp: result_ids_def)

lemma skeleton_replace: "map skeleton_of (replace_in_rev t ms) = map skeleton_of ms"
  by (induction t ms rule: replace_in_rev.induct)
    (auto simp: skeleton_of_def result_ids_replace split: option.split)

lemma answered_refresh [simp]: "answered (refresh_loop_recovery_in_messages ms ui r) = answered ms"
proof -
  have "map skeleton_of (rev (replace_in_rev t (rev ms))) = map skeleton_of ms" for t
    using skeleton_replace [of t "rev ms"] by (simp add: rev_map [symmetric])
  then show ?thesis by (simp add: answered_def refresh_loop_recovery_in_messages_def)
qed

lemma answered_start: "answered (build_turn_messages ui h r)"
  by (simp add: build_turn_messages_def answered_def skeleton_of_def)

lemma run_batch_result:
  "run_batch env tid us s = (Some (blocks, succeeded, failed), s') \<Longrightarrow>
     result_ids blocks = map fst us \<and> length blocks = length us \<and> succeeded + failed = length us"
proof (induction us arbitrary: s blocks succeeded failed)
  case (Cons u us)
  obtain oc s1 where c: "execute_native_tool_call env tid u s = (oc, s1)" by fastforce
  with Cons.prems obtain content ok where oc: "oc = ToolResult content ok" by (cases oc) auto
  from Cons.prems c oc obtain bs f g where
    b: "run_batch env tid us s1 = (Some (bs, f, g), s')"
    and out: "blocks = UToolResult (fst u) content (\<not> ok) # bs" "succeeded = of_bool ok + f" "failed = of_bool (\<not> ok) + g"
    by (auto split: option.splits prod.splits)
  from Cons.IH [OF b] show ?case by (simp add: out result_ids_def)
qed (simp add: result_ids_def)

lemma tool_batch_answers:
  assumes "tool_batch env tid remaining us (ms @ [Assistant bs]) s = (Some ms', s')"
    and "us = tool_uses bs" "length us \<le> remaining" "answered ms"
  shows "answered ms'"
proof -
  obtain blocks f g where r: "result_ids blocks = map fst us" "length blocks = length us"
    and ms': "ms' = (if blocks = [] then ms @ [Assistant bs] else ms @ [Assistant bs, User blocks])"
    using assms(1,3) by (auto simp: tool_batch_def Let_def split: option.splits prod.splits dest!: run_batch_result)
  show ?thesis
  proof (cases "blocks = []")
    case True
    then have "answered [Assistant bs]" using r assms(2) by (simp add: answered_def skeleton_of_def)
    then show ?thesis using True ms' answered_append [OF assms(4)] by simp
  next
    case False
    have "answered [Assistant bs, User blocks]"
      using r assms(2) by (simp add: answered_def skeleton_of_def)
    then show ?thesis using False ms' answered_append [OF assms(4)] by simp
  qed
qed

text \<open>A model that proposes at most one call per response.\<close>

definition one_call_at_a_time :: "'w agent_env \<Rightarrow> bool" where
  "one_call_at_a_time env \<longleftrightarrow>
     (\<forall>ms w resp. fst (snd (ae_complete_stream env ms w)) = Inr resp \<longrightarrow> length (tool_uses (mr_content resp)) \<le> 1)"

context metered_env
begin

lemma round_requests:
  assumes rnd: "planner_round env tid ui ms s = (r, s')"
    and one: "one_call_at_a_time env"
    and room: "tu_executed s < ag_max_tool_calls (tu_agent s)" and ms: "answered ms"
  shows "\<exists>ms1. requests (tu_world s') = requests (tu_world s) @ [ms1] \<and> answered ms1
    \<and> (\<forall>ms'. r = Some ms' \<longrightarrow> answered ms')"
proof -
  define ms1 where "ms1 = refresh_loop_recovery_in_messages ms ui
      (recovery_prompt (ae_text_recovery env) (ag_loop_detector (tu_agent s)))"
  have ans: "answered ms1" using ms by (simp add: ms1_def)
  obtain r1 s1 where q: "request_planner_model_output env tid ms1 True s = (r1, s1)" by fastforce
  note f = request_frame [OF q]
  have log: "requests (tu_world s1) = requests (tu_world s) @ [ms1]" using f by (simp add: stream_requests)
  show ?thesis
  proof (cases r1)
    case (Inl e)
    then show ?thesis using rnd q log ans by (auto simp: planner_round_def Let_def ms1_def [symmetric])
  next
    case (Inr p)
    let ?rem = "ag_max_tool_calls (tu_agent s) - tu_executed s"
    have body: "round_body env tid ui ?rem ms1 p s1 = (r, s')"
      using Inr rnd q by (simp add: planner_round_def Let_def ms1_def [symmetric])
    have small: "length (tool_uses (mr_content (ps_response p))) \<le> ?rem"
      using one [unfolded one_call_at_a_time_def, rule_format, of ms1 "tu_world s" "ps_response p"] f Inr room
      by simp
    obtain s2 evs a w where c: "check_and_auto_compact (ae_summarise env) tid
         (case Option.bind (ps_usage p) mu_input_tokens of
            Some t \<Rightarrow> (tu_agent s1)\<lparr>ag_last_input_tokens := Some t\<rparr> | None \<Rightarrow> tu_agent s1) (tu_world s1) = (a, evs, w)"
      and s2: "tu_agent s2 = a" "tu_world s2 = w" "tu_executed s2 = tu_executed s1"
        "tu_events s2 = tu_events s1 @ evs" "tu_tool_traces s2 = tu_tool_traces s1" "tu_skips s2 = tu_skips s1"
      and out: "(r, s') = (if \<not> has_tool_use (ps_response p) then (None, final_response tid ui p s2)
         else tool_batch env tid ?rem (tool_uses (mr_content (ps_response p)))
              (ms1 @ [Assistant (assistant_history_blocks (ps_response p))]) s2)"
      by (rule round_body_cases [OF body])
    have w: "requests w = requests (tu_world s1)"
      using compact_frame [OF c] by (auto simp: summarise_requests)
    show ?thesis
    proof (cases "has_tool_use (ps_response p)")
      case False
      then show ?thesis using out s2 w log ans by simp
    next
      case True
      then have b: "tool_batch env tid ?rem (tool_uses (mr_content (ps_response p)))
          (ms1 @ [Assistant (assistant_history_blocks (ps_response p))]) s2 = (r, s')" using out by simp
      have rem: "?rem + tu_executed s2 = ag_max_tool_calls (tu_agent s)" using s2 f room by simp
      have "requests (tu_world s') = requests (tu_world s2)"
        using tool_batch_metered [OF b rem, of "runs (tu_world s2)"] by simp
      moreover have "answered ms'" if "r = Some ms'" for ms'
        using tool_batch_answers [OF b [unfolded that] _ small ans] by simp
      ultimately show ?thesis using log ans s2 w by simp
    qed
  qed
qed

lemma loop_requests:
  assumes one: "one_call_at_a_time env"
  shows "answered ms \<Longrightarrow> \<forall>q \<in> set (requests (tu_world s)). answered q \<Longrightarrow>
    \<forall>q \<in> set (requests (tu_world (planner_loop env tid ui left ms s))). answered q"
proof (induction left arbitrary: ms s)
  case 0
  then show ?case by simp
next
  case (Suc left)
  show ?case
  proof (cases "tu_executed s < ag_max_tool_calls (tu_agent s)")
    case False
    then show ?thesis using Suc.prems by simp
  next
    case True
    obtain r s1 where rnd: "planner_round env tid ui ms s = (r, s1)" by fastforce
    obtain ms1 where m: "requests (tu_world s1) = requests (tu_world s) @ [ms1]" "answered ms1"
      "\<forall>ms'. r = Some ms' \<longrightarrow> answered ms'"
      using round_requests [OF rnd one True Suc.prems(1)] by blast
    show ?thesis
    proof (cases r)
      case None
      then show ?thesis using m Suc.prems(2) True rnd by simp
    next
      case (Some ms')
      then show ?thesis using Suc.IH [of ms' s1] m Suc.prems(2) True rnd by auto
    qed
  qed
qed

end

section \<open>An environment with a log\<close>

definition metered :: "'w agent_env \<Rightarrow> ('w \<times> tool_call list \<times> message list list) agent_env" where
  "metered env =
     \<lparr>ae_display_name = ae_display_name env,
      ae_execute = (\<lambda>tid cid c (w, calls, reqs).
        (let (r, evs, w') = ae_execute env tid cid c w in (r, evs, w', calls @ [c], reqs))),
      ae_complete_stream = (\<lambda>ms (w, calls, reqs).
        (let (ds, r, w') = ae_complete_stream env ms w in (ds, r, w', calls, reqs @ [ms]))),
      ae_summarise = (\<lambda>t n (w, calls, reqs). (let (r, w') = ae_summarise env t n w in (r, w', calls, reqs))),
      ae_js_map = ae_js_map env, ae_js = ae_js env, ae_debug_map = ae_debug_map env,
      ae_from_str = ae_from_str env, ae_text_recovery = ae_text_recovery env,
      ae_text_loop_halt = ae_text_loop_halt env, ae_text_duplicate_abort = ae_text_duplicate_abort env,
      ae_text_rejected = ae_text_rejected env, ae_text_timed_out = ae_text_timed_out env,
      ae_text_max_calls = ae_text_max_calls env, ae_text_max_rounds = ae_text_max_rounds env\<rparr>"

interpretation log: metered_env "metered env" "\<lambda>(_, calls, _). length calls" "\<lambda>(_, _, reqs). reqs"
  for env :: "'w agent_env"
  by unfold_locales (auto simp: metered_def case_prod_beta Let_def)


section \<open>What a turn does to the agent\<close>

text \<open>The recent calls stay a bounded queue and the loop detector keeps its invariant.\<close>

definition agent_ok :: "agent \<Rightarrow> bool" where
  "agent_ok a \<longleftrightarrow> length (ag_recent a) \<le> 16 \<and> ld_inv (ag_loop_detector a)"

lemma agent_ok_record [inv_intros]: "agent_ok a \<Longrightarrow> agent_ok (record_tool_call js n args ok out a)"
  using recent_queue.push_ok [of "ag_recent a"]
  by (simp add: agent_ok_def record_tool_call_push) (simp add: record_tool_call_def)

lemma agent_ok_bump [inv_intros]: "agent_ok a \<Longrightarrow> agent_ok (bump_epoch a)"
  by (simp add: agent_ok_def bump_epoch_def)

lemma detect_loop_agent:
  assumes "detect_loop env tid n args s = (sig, s')" "agent_ok (tu_agent s)"
  shows "agent_ok (tu_agent s') \<and> ag_history (tu_agent s') = ag_history (tu_agent s)
    \<and> ag_next_turn_id (tu_agent s') = ag_next_turn_id (tu_agent s)"
proof -
  obtain sg d where c: "check_and_advance n (ae_js_map env args) (ag_loop_detector (tu_agent s)) = (sg, d)"
    by fastforce
  have "ld_inv d" using check_and_advance_inv [of "ag_loop_detector (tu_agent s)" n "ae_js_map env args"] assms(2) c
    by (simp add: agent_ok_def)
  then show ?thesis using assms c
    by (auto simp: detect_loop_def agent_ok_def Let_def split: loop_signal.splits)
qed

lemma call_agent:
  assumes call: "execute_native_tool_call env tid u s = (oc, s')" and ok: "agent_ok (tu_agent s)"
  shows "agent_ok (tu_agent s') \<and> ag_history (tu_agent s') = ag_history (tu_agent s)
    \<and> ag_next_turn_id (tu_agent s') = ag_next_turn_id (tu_agent s)"
proof -
  obtain cid n input where u: "u = (cid, n, input)" by (cases u)
  define args where "args = tool_input_to_args (ae_js env) input"
  have success: "agent_ok (tu_agent s1) \<and> ag_history (tu_agent s1) = ag_history (tu_agent s0)
      \<and> ag_next_turn_id (tu_agent s1) = ag_next_turn_id (tu_agent s0)"
    if "after_success env tid cid n args out s0 = (oc, s1)" "agent_ok (tu_agent s0)" for out s0 s1
  proof -
    define b where "b = (if is_mutating_tool n then s0\<lparr>tu_agent := bump_epoch (tu_agent s0)\<rparr> else s0)"
    define t where "t = push_trace (tool_trace n (bool_display (eo_success out)) (eo_display_output out)
        (ag_max_diff_chars (tu_agent b))) b"
    have t: "agent_ok (tu_agent t)" "ag_history (tu_agent t) = ag_history (tu_agent s0)"
      "ag_next_turn_id (tu_agent t) = ag_next_turn_id (tu_agent s0)"
      using that(2) by (simp_all add: t_def b_def agent_ok_bump) (simp_all add: bump_epoch_def)
    obtain sig d where dl: "detect_loop env tid n args t = (sig, d)" by fastforce
    show ?thesis using that(1) detect_loop_agent [OF dl t(1)] t(2,3) dl
      by (auto simp: after_success_def Let_def b_def [symmetric] t_def [symmetric] record_call_def
          intro: agent_ok_record split: if_splits) (auto simp: record_tool_call_def)
  qed
  have error: "agent_ok (tu_agent s1) \<and> ag_history (tu_agent s1) = ag_history (tu_agent s0)
      \<and> ag_next_turn_id (tu_agent s1) = ag_next_turn_id (tu_agent s0)"
    if "after_error env tid cid n args err s0 = (oc, s1)" "agent_ok (tu_agent s0)" for err s0 s1
    using that by (auto simp: after_error_def Let_def record_call_def intro: agent_ok_record split: if_splits)
      (auto simp: record_tool_call_def)
  obtain r s1 where g: "guard_duplicate_native_tool_call env tid n args (observe_tool_args args s) = (r, s1)"
    by fastforce
  obtain r' evs w where e: "ae_execute env tid cid \<lparr>call_name = n, call_args = args\<rparr> (tu_world s1) = (r', evs, w)"
    by (metis prod_cases3)
  show ?thesis
    using call ok guard_frame [OF g] g e success error
    by (cases r; cases r'; cases "trim n = []")
      (auto simp: execute_native_tool_call_def u ensure_native_tool_name_def args_def [symmetric] Let_def
        execute_native_tool_call_body_def execute_tool_with_live_events_def)
qed

lemma batch_agent:
  "run_batch env tid us s = (r, s') \<Longrightarrow> agent_ok (tu_agent s) \<Longrightarrow>
     agent_ok (tu_agent s') \<and> ag_history (tu_agent s') = ag_history (tu_agent s)
    \<and> ag_next_turn_id (tu_agent s') = ag_next_turn_id (tu_agent s)"
proof (induction us arbitrary: s r s')
  case (Cons u us)
  obtain oc s1 where c: "execute_native_tool_call env tid u s = (oc, s1)" by fastforce
  obtain r1 s2 where b: "run_batch env tid us s1 = (r1, s2)" by fastforce
  show ?case using Cons.prems c b call_agent [OF c Cons.prems(2)] Cons.IH [OF b]
    by (auto split: exec_outcome.splits option.splits prod.splits)
qed simp

lemma tool_batch_agent:
  assumes "tool_batch env tid remaining us ms s = (r, s')" "agent_ok (tu_agent s)"
  shows "agent_ok (tu_agent s') \<and> ag_history (tu_agent s') = ag_history (tu_agent s)
    \<and> ag_next_turn_id (tu_agent s') = ag_next_turn_id (tu_agent s)"
  using assms batch_agent
  by (fastforce simp: tool_batch_def Let_def split: option.splits prod.splits)


lemma keeps_auto_compact:
  assumes "check_and_auto_compact sm tid a w = (a', evs, w')"
  shows "(keeps c (ag_history a) \<longrightarrow> keeps c (ag_history a')) \<and> (agent_ok a \<longrightarrow> agent_ok a')
    \<and> ag_next_turn_id a' = ag_next_turn_id a"
proof -
  have "keeps c (ag_history a) \<longrightarrow> keeps c (ag_history a')"
    using keeps_step [of c "(a, w)" "OpAutoCompact tid" sm] assms by (simp add: history_step_def)
  moreover have "ag_recent a' = ag_recent a" "ag_next_turn_id a' = ag_next_turn_id a"
    using assms by (auto simp: check_and_auto_compact_def do_compact_def Let_def
        split: prod.splits option.splits if_splits)
  ultimately show ?thesis using compact_frame [OF assms] by (simp add: agent_ok_def)
qed

text \<open>How far a turn has got: nothing committed yet, or the turn committed with its response sent last.\<close>

definition turn_open :: "nat \<Rightarrow> turn_record list \<Rightarrow> 'w turn \<Rightarrow> bool" where
  "turn_open n c s \<longleftrightarrow> agent_ok (tu_agent s) \<and> keeps c (ag_history (tu_agent s))
     \<and> ag_next_turn_id (tu_agent s) = n"

definition turn_done :: "nat \<Rightarrow> nat \<Rightarrow> string \<Rightarrow> turn_record list \<Rightarrow> 'w turn \<Rightarrow> bool" where
  "turn_done n tid ui c s \<longleftrightarrow> agent_ok (tu_agent s) \<and> ag_next_turn_id (tu_agent s) = n
     \<and> (\<exists>r src. tr_user_input r = ui \<and> keeps (c @ [r]) (ag_history (tu_agent s))
          \<and> tu_events s \<noteq> [] \<and> last (tu_events s) = ResponseCompleted tid (tr_assistant_output r) src)"

lemma final_response_done:
  assumes "turn_open n c s"
  shows "turn_done n tid ui c (final_response tid ui p s)"
proof -
  define content where "content = (if ps_live_streamed p
      then if ps_streamed_text p = [] then response_text (ps_response p) else ps_streamed_text p
      else response_text (ps_response p))"
  define evs where "evs = (if ps_live_streamed p then [ResponseCompleted tid content ModelLive]
      else ResponseStarted tid Synthetic # emit_synthetic_response_deltas tid (response_text (ps_response p))
             SYNTHETIC_ASSISTANT_DELTA_CHUNK_CHARS @ [ResponseCompleted tid content Synthetic])"
  let ?r = "\<lparr>tr_user_input = ui, tr_tool_traces = tu_tool_traces s, tr_assistant_output = content\<rparr>"
  have f: "tu_agent (final_response tid ui p s) = commit_turn ui (tu_tool_traces s) content (tu_agent s)"
    "tu_events (final_response tid ui p s) = tu_events s @ evs"
    by (auto simp: final_response_def Let_def content_def evs_def push_event_def push_events_def)
  have "agent_ok (tu_agent (final_response tid ui p s))"
    "ag_next_turn_id (tu_agent (final_response tid ui p s)) = n"
    using assms by (simp_all add: f turn_open_def agent_ok_def commit_turn_def)
  moreover have "keeps (c @ [?r]) (ag_history (tu_agent (final_response tid ui p s)))"
    using keeps_commit [of c "ag_history (tu_agent s)" ?r] assms by (simp add: f turn_open_def commit_turn_def)
  moreover have "\<exists>src. last (tu_events s @ evs) = ResponseCompleted tid content src" by (simp add: evs_def)
  ultimately show ?thesis unfolding turn_done_def f(2)
    by (intro conjI exI [of _ ?r]) (auto simp: evs_def split: if_splits)
qed

text \<open>A turn that ends without a commit says so: its last event is an error.\<close>

definition ends_in_error :: "event list \<Rightarrow> bool" where
  "ends_in_error evs \<longleftrightarrow> evs \<noteq> [] \<and> (case last evs of ResponseError _ _ _ _ \<Rightarrow> True | _ \<Rightarrow> False)"

lemma ends_in_error_snoc [simp]: "ends_in_error (evs @ [ResponseError t c m r])"
  by (simp add: ends_in_error_def)

lemma after_success_aborts:
  assumes "after_success env tid cid n args out s = (Aborted, s')"
  shows "ends_in_error (tu_events s')"
proof -
  define s1 where "s1 = (if is_mutating_tool n then s\<lparr>tu_agent := bump_epoch (tu_agent s)\<rparr> else s)"
  define s2 where "s2 = push_trace (tool_trace n (bool_display (eo_success out)) (eo_display_output out)
      (ag_max_diff_chars (tu_agent s1))) s1"
  obtain sig s3 where d: "detect_loop env tid n args s2 = (sig, s3)" by fastforce
  have "sig = Halt" "s' = s3"
    using assms d by (simp_all add: after_success_def Let_def s1_def [symmetric] s2_def [symmetric] split: if_splits)
  then show ?thesis using d by (auto simp: detect_loop_def Let_def split: prod.splits)
qed

lemma after_error_aborts:
  "after_error env tid cid n args err s = (Aborted, s') \<Longrightarrow> ends_in_error (tu_events s')"
  by (auto simp: after_error_def ends_in_error_def Let_def split: if_splits)

lemma guard_aborts:
  "guard_duplicate_native_tool_call env tid n args s = (Some Aborted, s') \<Longrightarrow> ends_in_error (tu_events s')"
  by (auto simp: guard_duplicate_native_tool_call_def ends_in_error_def Let_def split: if_splits)

lemma call_aborts:
  assumes "execute_native_tool_call env tid u s = (Aborted, s')"
  shows "ends_in_error (tu_events s')"
proof -
  obtain cid n input where u: "u = (cid, n, input)" by (cases u)
  show ?thesis
  proof (cases "trim n = []")
    case True
    then show ?thesis using assms by (auto simp: execute_native_tool_call_def u ensure_native_tool_name_def)
  next
    case False
    define args where "args = tool_input_to_args (ae_js env) input"
    obtain r s1 where g: "guard_duplicate_native_tool_call env tid n args (observe_tool_args args s) = (r, s1)"
      by fastforce
    show ?thesis
    proof (cases r)
      case (Some o')
      then show ?thesis using assms g False guard_aborts
        by (auto simp: execute_native_tool_call_def u ensure_native_tool_name_def args_def [symmetric] Let_def)
    next
      case None
      then have "execute_native_tool_call_body env tid cid n args s1 = (Aborted, s')"
        using assms g False
        by (simp add: execute_native_tool_call_def u ensure_native_tool_name_def args_def [symmetric] Let_def)
      then show ?thesis
        by (auto simp: execute_native_tool_call_body_def Let_def split: prod.splits sum.splits
            dest: after_success_aborts after_error_aborts)
    qed
  qed
qed

lemma run_batch_aborts: "run_batch env tid us s = (None, s') \<Longrightarrow> ends_in_error (tu_events s')"
  by (induction us arbitrary: s)
    (auto split: prod.splits exec_outcome.splits option.splits dest: call_aborts)

lemma tool_batch_aborts: "tool_batch env tid remaining us ms s = (None, s') \<Longrightarrow> ends_in_error (tu_events s')"
  by (auto simp: tool_batch_def Let_def split: prod.splits option.splits dest: run_batch_aborts)

lemma turn_limit_ends: "ends_in_error (tu_events (turn_limit_reached env tid s))"
  by (simp add: turn_limit_reached_def Let_def)

lemma round_agent:
  assumes rnd: "planner_round env tid ui ms s = (r, s')" and opened: "turn_open n c s"
  shows "turn_open n c s' \<and> (r = None \<longrightarrow> ends_in_error (tu_events s')) \<or> r = None \<and> turn_done n tid ui c s'"
proof -
  define ms1 where "ms1 = refresh_loop_recovery_in_messages ms ui
      (recovery_prompt (ae_text_recovery env) (ag_loop_detector (tu_agent s)))"
  obtain r1 s1 where q: "request_planner_model_output env tid ms1 True s = (r1, s1)" by fastforce
  have s1: "turn_open n c s1" using request_frame [OF q] opened by (simp add: turn_open_def)
  show ?thesis
  proof (cases r1)
    case (Inl e)
    then show ?thesis using rnd q s1 by (auto simp: planner_round_def Let_def ms1_def [symmetric] turn_open_def)
  next
    case (Inr p)
    have body: "round_body env tid ui (ag_max_tool_calls (tu_agent s) - tu_executed s) ms1 p s1 = (r, s')"
      using Inr rnd q by (simp add: planner_round_def Let_def ms1_def [symmetric])
    obtain s2 evs a w where c: "check_and_auto_compact (ae_summarise env) tid
         (case Option.bind (ps_usage p) mu_input_tokens of
            Some t \<Rightarrow> (tu_agent s1)\<lparr>ag_last_input_tokens := Some t\<rparr> | None \<Rightarrow> tu_agent s1) (tu_world s1) = (a, evs, w)"
      and s2: "tu_agent s2 = a" "tu_world s2 = w" "tu_executed s2 = tu_executed s1"
        "tu_events s2 = tu_events s1 @ evs" "tu_tool_traces s2 = tu_tool_traces s1" "tu_skips s2 = tu_skips s1"
      and out: "(r, s') = (if \<not> has_tool_use (ps_response p) then (None, final_response tid ui p s2)
         else tool_batch env tid (ag_max_tool_calls (tu_agent s) - tu_executed s)
              (tool_uses (mr_content (ps_response p)))
              (ms1 @ [Assistant (assistant_history_blocks (ps_response p))]) s2)"
      by (rule round_body_cases [OF body])
    have o2: "turn_open n c s2"
      using keeps_auto_compact [OF c, of c] s1 s2
      by (auto simp: turn_open_def agent_ok_def split: option.splits)
    show ?thesis
    proof (cases "has_tool_use (ps_response p)")
      case False
      then show ?thesis using out final_response_done [OF o2] by simp
    next
      case True
      then have batch: "tool_batch env tid (ag_max_tool_calls (tu_agent s) - tu_executed s)
            (tool_uses (mr_content (ps_response p)))
            (ms1 @ [Assistant (assistant_history_blocks (ps_response p))]) s2 = (r, s')" using out by simp
      then show ?thesis using tool_batch_agent [OF batch] tool_batch_aborts o2 by (auto simp: turn_open_def)
    qed
  qed
qed

lemma loop_agent:
  "turn_open n c s \<Longrightarrow> turn_open n c (planner_loop env tid ui left ms s)
       \<and> ends_in_error (tu_events (planner_loop env tid ui left ms s))
     \<or> turn_done n tid ui c (planner_loop env tid ui left ms s)"
proof (induction left arbitrary: ms s)
  case 0
  then show ?case by (simp add: turn_limit_ends) (simp add: turn_open_def turn_limit_reached_def Let_def)
next
  case (Suc left)
  obtain r s1 where rnd: "planner_round env tid ui ms s = (r, s1)" by fastforce
  have limit: "turn_open n c (turn_limit_reached env tid s)"
    using Suc.prems by (simp add: turn_open_def turn_limit_reached_def Let_def)
  from round_agent [OF rnd Suc.prems] show ?case
    using rnd Suc.IH [of s1] limit by (cases r) (auto simp: turn_limit_ends)
qed


lemma turn_effect:
  assumes "agent_ok a" "keeps c (ag_history a)"
    and "execute_natural_language_turn env tid ui a w = (a', evs, w')"
  shows "agent_ok a' \<and> ag_next_turn_id a' = ag_next_turn_id a \<and> (keeps c (ag_history a') \<and> ends_in_error evs
    \<or> (\<exists>r src. tr_user_input r = ui \<and> keeps (c @ [r]) (ag_history a')
         \<and> evs \<noteq> [] \<and> last evs = ResponseCompleted tid (tr_assistant_output r) src))"
proof -
  let ?s = "turn_start a w"
  have "turn_open (ag_next_turn_id a) c ?s" using assms(1,2)
    by (simp add: turn_open_def turn_start_def agent_ok_def ld_inv_reset)
  from loop_agent [OF this, of env tid ui "ag_max_planner_rounds a" "build_turn_messages ui (ag_history a)
      (recovery_prompt (ae_text_recovery env) (ag_loop_detector (tu_agent ?s)))"] assms(3)
  show ?thesis by (auto simp: execute_natural_language_turn_def Let_def turn_open_def turn_done_def)
qed

section \<open>Example data\<close>

text \<open>A model that proposes the batches of a script, one per request, then answers in text; the world is
  the rest of the script. Tools always succeed.\<close>

definition scripted_response :: "assistant_block list \<Rightarrow> model_response" where
  "scripted_response bs = \<lparr>mr_content = bs, mr_reasoning = None, mr_usage = None, mr_stop_reason = None\<rparr>"

definition scripted_env :: "assistant_block list list agent_env" where
  "scripted_env =
     \<lparr>ae_display_name = (\<lambda>_. None),
      ae_execute = (\<lambda>tid cid c w. (Inr \<lparr>eo_model_content = ''ok'', eo_display_output = ''ok'',
                       eo_shell_metadata = None, eo_success = True\<rparr>, [], w)),
      ae_complete_stream = (\<lambda>ms w. case w of
          [] \<Rightarrow> ([], Inr (scripted_response [AText ''done'']), [])
        | bs # w' \<Rightarrow> ([], Inr (scripted_response bs), w')),
      ae_summarise = (\<lambda>t n w. (None, w)), ae_js_map = (\<lambda>m. concat (map snd m)), ae_js = (\<lambda>_. []),
      ae_debug_map = (\<lambda>_. []), ae_from_str = (\<lambda>_. None), ae_text_recovery = ''recover'',
      ae_text_loop_halt = ''halt'', ae_text_duplicate_abort = (\<lambda>_. ''loop''), ae_text_rejected = ''rejected'',
      ae_text_timed_out = ''timed out'', ae_text_max_calls = (\<lambda>_. ''calls''), ae_text_max_rounds = (\<lambda>_. ''rounds'')\<rparr>"

definition unanswered_script :: "assistant_block list list" where
  "unanswered_script =
     [[AToolUse ''1'' ''glob_files'' (JObject [])],
      [AToolUse ''2'' ''glob_files'' (JObject []), AToolUse ''3'' ''write_file'' (JObject [])]]"

definition example_start :: "assistant_block list list turn" where
  "example_start = turn_start example_agent []"

definition rejecting_env :: "unit agent_env" where
  "rejecting_env =
     \<lparr>ae_display_name = (\<lambda>_. None), ae_execute = (\<lambda>tid cid c w. (Inl ''error: Approval rejected: no'', [], w)),
      ae_complete_stream = (\<lambda>ms w. ([], Inl ''down'', w)),
      ae_summarise = (\<lambda>t n w. (None, w)), ae_js_map = (\<lambda>m. concat (map snd m)), ae_js = (\<lambda>_. []),
      ae_debug_map = (\<lambda>_. []), ae_from_str = (\<lambda>_. None), ae_text_recovery = ''recover'',
      ae_text_loop_halt = ''halt'', ae_text_duplicate_abort = (\<lambda>_. ''loop''), ae_text_rejected = ''rejected'',
      ae_text_timed_out = ''timed out'', ae_text_max_calls = (\<lambda>_. ''calls''), ae_text_max_rounds = (\<lambda>_. ''rounds'')\<rparr>"

section \<open>Properties\<close>

text \<open>C11: the budgets of a turn: whatever the model proposes and the tools do, one turn runs at most
  \<open>max_tool_calls_per_turn\<close> tools and sends at most \<open>max_planner_rounds_per_turn\<close> planner requests.\<close>

theorem turn_budgets:
  "case execute_natural_language_turn (metered env) tid ui a (w, [], []) of
     (a', evs, w', calls, reqs) \<Rightarrow>
       length calls \<le> ag_max_tool_calls a \<and> length reqs \<le> ag_max_planner_rounds a"
proof -
  obtain a' evs w' calls reqs where
    t: "execute_natural_language_turn (metered env) tid ui a (w, [], []) = (a', evs, w', calls, reqs)"
    by (metis prod_cases5)
  from log.turn_metered [OF t] show ?thesis by (simp add: t)
qed

text \<open>C12: with a model that proposes at most one tool call per response, every request of a turn is
  well-formed for the provider: each tool call of an assistant message is answered by a tool result
  in the message right after it.\<close>

theorem sequential_requests_answered:
  assumes "one_call_at_a_time env"
  shows "case execute_natural_language_turn (metered env) tid ui a (w, [], []) of
     (a', evs, w', calls, reqs) \<Rightarrow> list_all answered reqs"
proof -
  have one: "one_call_at_a_time (metered env)"
    using assms by (auto simp: one_call_at_a_time_def metered_def case_prod_beta Let_def)
  let ?s = "turn_start a (w, [], []) :: ('a \<times> tool_call list \<times> message list list) turn"
  have "\<forall>q \<in> set ((\<lambda>(_, _, reqs). reqs) (tu_world (planner_loop (metered env) tid ui (ag_max_planner_rounds a)
      (build_turn_messages ui (ag_history a)
        (recovery_prompt (ae_text_recovery (metered env)) (ag_loop_detector (tu_agent ?s)))) ?s))). answered q"
    by (rule log.loop_requests [OF one answered_start]) (simp add: turn_start_def)
  then show ?thesis
    by (auto simp: execute_natural_language_turn_def Let_def list_all_iff split: prod.splits)
qed

theorem sequential_requests_answered_witness:
  "list_all answered [[User [UText ''hi'']]]"
proof -
  let ?env = "scripted_env\<lparr>ae_complete_stream := \<lambda>ms w. ([], Inr (scripted_response [AText ''done'']), w)\<rparr>"
  have "one_call_at_a_time ?env" by (simp add: one_call_at_a_time_def scripted_response_def)
  moreover have "execute_natural_language_turn (metered ?env) 1 ''hi''
      (example_agent\<lparr>ag_context_window_size := 0\<rparr>) ([], [], [])
    = (let r = execute_natural_language_turn (metered ?env) 1 ''hi''
      (example_agent\<lparr>ag_context_window_size := 0\<rparr>) ([], [], []) in (fst r, fst (snd r), [], [], [[User [UText ''hi'']]]))"
    by code_simp
  ultimately show ?thesis
    using sequential_requests_answered [of ?env 1 "''hi''" "example_agent\<lparr>ag_context_window_size := 0\<rparr>" "[]"]
    by (simp add: Let_def split: prod.splits)
qed


text \<open>with parallel calls that fails. A batch that exceeds the tool budget has its last calls dropped
  without a tool result; when a call that fits is skipped as a duplicate, the budget is not used up,
  the turn goes on, and the next request carries a tool call that nothing answers.\<close>

theorem dropped_call_unanswered:
  "case execute_natural_language_turn (metered scripted_env) 1 ''hi''
       (example_agent\<lparr>ag_context_window_size := 0, ag_max_tool_calls := 2\<rparr>) (unanswered_script, [], []) of
     (a', evs, w', calls, reqs) \<Rightarrow> length reqs = 3 \<and> \<not> answered (reqs ! 2)"
  by code_simp

text \<open>a batch that is not aborted ends with a report that adds up: the total is the number of calls
  proposed, and it is the sum of the successes and the failures, the calls beyond the budget
  counted as failures.\<close>

theorem batch_report_adds_up:
  assumes "tool_batch env tid remaining us ms s = (Some ms', s')"
  shows "\<exists>succeeded failed. succeeded + failed = length us \<and> length us - remaining \<le> failed
    \<and> tu_events s' \<noteq> [] \<and> last (tu_events s') = ToolBatchCompleted tid (length us) succeeded failed"
  using assms by (auto simp: tool_batch_def Let_def split: option.splits prod.splits dest!: run_batch_result)

theorem batch_report_adds_up_witness:
  "\<exists>succeeded failed. succeeded + failed = 1
     \<and> last (tu_events (snd (tool_batch scripted_env 1 5 [(''1'', ''Read'', JObject [])] [] example_start)))
         = ToolBatchCompleted 1 1 succeeded failed"
proof -
  have "fst (tool_batch scripted_env 1 5 [(''1'', ''Read'', JObject [])] [] example_start)
      = Some [User [UToolResult ''1'' ''ok'' False]]" by code_simp
  then have "tool_batch scripted_env 1 5 [(''1'', ''Read'', JObject [])] [] example_start
      = (Some [User [UToolResult ''1'' ''ok'' False]],
         snd (tool_batch scripted_env 1 5 [(''1'', ''Read'', JObject [])] [] example_start))"
    by (metis prod.collapse)
  from batch_report_adds_up [OF this] show ?thesis by auto
qed

text \<open>C13: what a turn does to the agent. Either the turn is committed once, with the user's input and the
  very text of the response event that ends it, or nothing is committed; compaction in between
  keeps the history in shape, and the record of recent calls and the loop detector keep their
  invariants.\<close>

theorem turn_commits_at_most_once:
  assumes "agent_ok a" "keeps c (ag_history a)"
    and "execute_natural_language_turn env tid ui a w = (a', evs, w')"
  shows "agent_ok a' \<and> ag_next_turn_id a' = ag_next_turn_id a \<and> (keeps c (ag_history a')
    \<or> (\<exists>r src. tr_user_input r = ui \<and> keeps (c @ [r]) (ag_history a')
         \<and> evs \<noteq> [] \<and> last evs = ResponseCompleted tid (tr_assistant_output r) src))"
  using turn_effect [OF assms] by blast

theorem turn_commits_at_most_once_witness:
  "agent_ok (fst (execute_natural_language_turn scripted_env 1 ''hi'' example_agent []))"
proof -
  have "agent_ok example_agent" "keeps [] (ag_history example_agent)"
    by (simp_all add: agent_ok_def example_agent_def ld_inv_new keeps_def history_shape_def)
  moreover obtain a' evs w' where
    "execute_natural_language_turn scripted_env 1 ''hi'' example_agent [] = (a', evs, w')"
    by (metis prod_cases3)
  ultimately show ?thesis using turn_commits_at_most_once [of example_agent "[]" scripted_env 1 "''hi''" "[]" a' evs w']
    by simp
qed

text \<open>a tool that fails with a refused or timed-out approval ends the turn there: after the events of
  the tool the call reports its failure and its completion and the turn its end, the turn is marked
  failed, and the outcome is the one that aborts the batch.\<close>

theorem approval_failure_stops_batch:
  assumes "ae_execute env tid cid \<lparr>call_name = n, call_args = args\<rparr> (tu_world s) = (Inl err, evs, w)"
    and "is_approval_blocking_error err"
  shows "case execute_native_tool_call_body env tid cid n args s of
     (oc, s') \<Rightarrow> oc = Aborted \<and> tu_phase s' = PhaseFailed \<and> tu_world s' = w
       \<and> (\<exists>msg. tu_events s' = tu_events s
            @ [ToolCallProgress tid cid n ''executing'' (ae_display_name env n)] @ evs
            @ [failed_event env tid cid n err, completed_event env tid cid n False err None,
               ResponseError tid ''approval_blocked'' msg False])"
  using assms by (simp add: execute_native_tool_call_body_def execute_tool_with_live_events_def
      after_error_def Let_def count_execution_def record_call_def) (simp add: on_failed_def)

theorem approval_failure_stops_batch_witness:
  "fst (execute_native_tool_call_body rejecting_env 1 ''c'' ''Edit'' [] (turn_start example_agent ())) = Aborted"
proof -
  have "ae_execute rejecting_env 1 ''c'' \<lparr>call_name = ''Edit'', call_args = []\<rparr>
      (tu_world (turn_start example_agent ())) = (Inl ''error: Approval rejected: no'', [], ())"
    by (simp add: rejecting_env_def)
  moreover have "is_approval_blocking_error ''error: Approval rejected: no''" by code_simp
  ultimately show ?thesis
    using approval_failure_stops_batch [of rejecting_env 1 "''c''" "''Edit''" "[]" "turn_start example_agent ()"]
    by (auto split: prod.splits)
qed

end
