(* ===== verification/TurnDispatch.thy ===== *)
theory TurnDispatch
  imports Planner
begin

text \<open>
  The entry point of an agent: \<open>submit\<close> and its operations (\<open>openjax-core/src/agent/turn.rs\<close>), the
  direct tool call with its retries (\<open>agent/execution.rs\<close>), sub-agents (\<open>agent/lifecycle.rs\<close>), the
  limits read from the environment and the configuration (\<open>agent/runtime_policy.rs\<close>) and the policy
  level (\<open>agent/policy_level.rs\<close>, \<open>agent/bootstrap.rs\<close>).
\<close>

section \<open>Policy level\<close>

datatype policy_level = Permissive | Standard | Strict

definition policy_level_from_str :: "string \<Rightarrow> string + policy_level" where
  "policy_level_from_str s =
     (if s = ''allow'' then Inr Permissive else if s = ''ask'' then Inr Standard
      else if s = ''deny'' then Inr Strict else Inl (''unknown policy level: '' @ s))"

definition policy_level_as_str :: "policy_level \<Rightarrow> string" where
  "policy_level_as_str l = (case l of Permissive \<Rightarrow> ''allow'' | Standard \<Rightarrow> ''ask'' | Strict \<Rightarrow> ''deny'')"

definition to_decision_kind :: "policy_level \<Rightarrow> decision_kind" where
  "to_decision_kind l = (case l of Permissive \<Rightarrow> Allow | Standard \<Rightarrow> Ask | Strict \<Rightarrow> Deny)"

text \<open>\<open>set_policy_level\<close> on the agent's policy runtime.\<close>

definition set_policy_level :: "policy_level \<Rightarrow> policy_snapshot option \<Rightarrow> policy_snapshot option" where
  "set_policy_level l runtime =
     (let st = store_new (to_decision_kind l) []
      in case runtime of Some s \<Rightarrow> Some (snd (publish st s)) | None \<Rightarrow> Some (runtime_new st))"

section \<open>Limits\<close>

definition MAX_TURN_BUDGET :: nat where
  "MAX_TURN_BUDGET = 300"

definition parse_sandbox_mode :: "string \<Rightarrow> sandbox_mode option" where
  "parse_sandbox_mode v =
     (let t = to_ascii_lowercase (trim v)
      in if t = ''workspace_write'' then Some ModeWorkspaceWrite
         else if t = ''danger_full_access'' then Some ModeDangerFullAccess else None)"

text \<open>The environment variable \<open>var\<close> and the configured value \<open>cfg\<close>, when they are set.\<close>

definition resolve_sandbox_mode :: "string option \<Rightarrow> string option \<Rightarrow> sandbox_mode" where
  "resolve_sandbox_mode var cfg =
     (case Option.bind var parse_sandbox_mode of
        Some m \<Rightarrow> m
      | None \<Rightarrow> (case Option.bind cfg parse_sandbox_mode of Some m \<Rightarrow> m | None \<Rightarrow> ModeWorkspaceWrite))"

definition parse_positive_usize :: "string \<Rightarrow> nat option" where
  "parse_positive_usize v =
     (case parse_u64 (trim v) of Some n \<Rightarrow> if n > 0 then Some n else None | None \<Rightarrow> None)"

definition resolve_limit :: "string option \<Rightarrow> nat option \<Rightarrow> nat" where
  "resolve_limit var cfg =
     (case Option.bind var parse_positive_usize of
        Some n \<Rightarrow> n
      | None \<Rightarrow> (case cfg of Some n \<Rightarrow> if n > 0 then n else MAX_TURN_BUDGET | None \<Rightarrow> MAX_TURN_BUDGET))"

section \<open>A direct tool call\<close>

text \<open>The host: fresh identifiers and the delay between attempts.\<close>

record 'w host =
  ho_uuid :: "'w \<Rightarrow> string \<times> 'w"
  ho_sleep_ms :: "nat \<Rightarrow> 'w \<Rightarrow> 'w"
  ho_new_thread :: "'w \<Rightarrow> thread_id \<times> 'w"

definition retry_delay :: "nat \<Rightarrow> nat" where
  "retry_delay attempt = min (500 * 2 ^ (attempt - 1)) 5000"

definition non_retryable :: "string \<Rightarrow> bool" where
  "non_retryable err \<longleftrightarrow>
     str_contains err ''invalid'' \<or> str_contains err ''permission denied'' \<or> str_contains err ''Approval rejected''"

definition direct_trace :: "'w agent_env \<Rightarrow> tool_call \<Rightarrow> bool \<Rightarrow> string \<Rightarrow> string" where
  "direct_trace env c ok output =
     ''tool='' @ call_name c @ ''; ok='' @ bool_display ok @ ''; args='' @ ae_js_map env (call_args c)
       @ ''; output='' @ truncate_for_prompt output MAX_TOOL_OUTPUT_CHARS_FOR_PROMPT"

text \<open>The attempts that are left, each after its delay but the first: the traces and output of the call,
  or the last error, with the events and the world.\<close>

fun attempts ::
  "'w host \<Rightarrow> 'w agent_env \<Rightarrow> nat \<Rightarrow> string \<Rightarrow> tool_call \<Rightarrow> nat list \<Rightarrow> string option \<Rightarrow> 'w
     \<Rightarrow> (string option + string list \<times> string) \<times> event list \<times> 'w" where
  "attempts host env tid cid c [] last_error w = (Inl last_error, [], w)"
| "attempts host env tid cid c (attempt # rest) last_error w =
     (let w1 = (if attempt > 0 then ho_sleep_ms host (retry_delay attempt) w else w);
          (r, evs, w2) = ae_execute env tid cid c w1
      in case r of
           Inr out \<Rightarrow>
             (Inr ([direct_trace env c (eo_success out) (eo_display_output out)], eo_display_output out),
              evs @ [completed_event env tid cid (call_name c) (eo_success out) (eo_display_output out) None], w2)
         | Inl err \<Rightarrow>
             (let evs1 = evs @ [failed_event env tid cid (call_name c) err]
              in if non_retryable err then (Inl (Some err), evs1, w2)
                 else let (res, evs2, w3) = attempts host env tid cid c rest (Some err) w2
                      in (res, evs1 @ evs2, w3)))"

definition MAX_RETRIES :: nat where
  "MAX_RETRIES = 2"

definition execute_single_tool_call ::
  "'w host \<Rightarrow> 'w agent_env \<Rightarrow> nat \<Rightarrow> tool_call \<Rightarrow> 'w \<Rightarrow> (string list \<times> string) option \<times> event list \<times> 'w" where
  "execute_single_tool_call host env tid c w =
     (let (cid, w1) = ho_uuid host w;
          start = started_sequence env tid cid (call_name c) (call_args c) ''executing'';
          (res, evs, w2) = attempts host env tid cid c [0..<Suc MAX_RETRIES] None w1
      in case res of
           Inr out \<Rightarrow> (Some out, start @ evs, w2)
         | Inl None \<Rightarrow> (None, start @ evs, w2)
         | Inl (Some err) \<Rightarrow>
             (None, start @ evs @ [completed_event env tid cid (call_name c) False err None,
                ResponseError tid (tool_failure_code err) err (tool_failure_retryable err)], w2))"

section \<open>Operations\<close>

definition can_spawn_sub_agent :: "agent \<Rightarrow> bool" where
  "can_spawn_sub_agent a \<longleftrightarrow> ag_depth a < TOOLS_MAX_AGENT_DEPTH"

text \<open>\<open>fresh\<close> is the agent \<open>with_runtime\<close> builds.\<close>

definition spawn_sub_agent :: "agent \<Rightarrow> agent \<Rightarrow> string + agent" where
  "spawn_sub_agent a fresh =
     (if \<not> can_spawn_sub_agent a then Inl (''cannot spawn sub-agent: max depth 10 reached'')
      else Inr (fresh\<lparr>ag_parent_thread_id := Some (ag_thread_id a), ag_depth := ag_depth a + 1\<rparr>))"

definition synthetic_reply :: "nat \<Rightarrow> string \<Rightarrow> event list" where
  "synthetic_reply tid content = [ResponseStarted tid Synthetic, ResponseCompleted tid content Synthetic]"

definition user_turn ::
  "'w host \<Rightarrow> 'w agent_env \<Rightarrow> string \<Rightarrow> agent \<Rightarrow> 'w \<Rightarrow> agent \<times> event list \<times> 'w" where
  "user_turn host env input a w =
     (let tid = ag_next_turn_id a;
          a1 = a\<lparr>ag_next_turn_id := tid + 1, ag_recent := [], ag_state_epoch := 0\<rparr>;
          (a2, evs, w2) =
            (case parse_tool_call input of
               Some c \<Rightarrow>
                 (let (r, evs, w') = execute_single_tool_call host env tid c w
                  in (case r of Some (traces, output) \<Rightarrow> commit_turn input traces output a1 | None \<Rightarrow> a1, evs, w'))
             | None \<Rightarrow> execute_natural_language_turn env tid input a1 w)
      in (a2, [TurnStarted tid] @ evs @ [TurnCompleted tid], w2))"

definition submit ::
  "'w host \<Rightarrow> 'w agent_env \<Rightarrow> op \<Rightarrow> agent \<Rightarrow> 'w \<Rightarrow> agent \<times> event list \<times> 'w" where
  "submit host env oper a w =
     (let tid = ag_next_turn_id a; a' = a\<lparr>ag_next_turn_id := tid + 1\<rparr>
      in case oper of
           UserTurn input \<Rightarrow> user_turn host env input a w
         | SpawnAgent _ _ \<Rightarrow>
             if ag_depth a \<ge> TOOLS_MAX_AGENT_DEPTH
             then (a', synthetic_reply tid ''Cannot spawn sub-agent: max depth 10 reached'', w)
             else let (t, w') = ho_new_thread host w in (a', [AgentSpawned (Some (ag_thread_id a)) t], w')
         | SendToAgent _ _ \<Rightarrow> (a', synthetic_reply tid ''SendToAgent not yet implemented'', w)
         | InterruptAgent _ \<Rightarrow> (a', synthetic_reply tid ''InterruptAgent not yet implemented'', w)
         | ResumeAgent _ _ \<Rightarrow> (a', synthetic_reply tid ''ResumeAgent not yet implemented'', w)
         | Shutdown \<Rightarrow> (a, [ShutdownComplete], w))"

text \<open>A session: the operations submitted one after the other, and the events of each.\<close>

fun session ::
  "'w host \<Rightarrow> 'w agent_env \<Rightarrow> op list \<Rightarrow> agent \<Rightarrow> 'w \<Rightarrow> agent \<times> event list list \<times> 'w" where
  "session host env [] a w = (a, [], w)"
| "session host env (oper # ops) a w =
     (let (a1, evs, w1) = submit host env oper a w; (a2, evss, w2) = session host env ops a1 w1
      in (a2, evs # evss, w2))"


section \<open>Lemmas\<close>

text \<open>What a client sees of a user turn: the answer, when the turn ended with one. A direct tool call answers
  with the output of its completion, any other turn with the text of its response.\<close>

definition turn_answer :: "string \<Rightarrow> event list \<Rightarrow> string option" where
  "turn_answer input evs =
     (case rev evs of
        TurnCompleted _ # e # _ \<Rightarrow>
          (case (parse_tool_call input, e) of
             (None, ResponseCompleted _ content _) \<Rightarrow> Some content
           | (Some _, ToolCallCompleted _ _ _ _ output _ _) \<Rightarrow> Some output
           | _ \<Rightarrow> None)
      | _ \<Rightarrow> None)"

definition answered_turn :: "string \<Rightarrow> event list \<Rightarrow> (string \<times> string) list" where
  "answered_turn input evs = (case turn_answer input evs of Some answer \<Rightarrow> [(input, answer)] | None \<Rightarrow> [])"

text \<open>The turns of a session that were answered, from the operations and the events of each.\<close>

fun answered_turns :: "op list \<Rightarrow> event list list \<Rightarrow> (string \<times> string) list" where
  "answered_turns (oper # ops) (evs # evss) =
     (case oper of UserTurn input \<Rightarrow> answered_turn input evs | _ \<Rightarrow> []) @ answered_turns ops evss"
| "answered_turns _ _ = []"

definition exchange :: "turn_record \<Rightarrow> string \<times> string" where
  "exchange r = (tr_user_input r, tr_assistant_output r)"

definition agent_keeps :: "turn_record list \<Rightarrow> agent \<Rightarrow> bool" where
  "agent_keeps c a \<longleftrightarrow> agent_ok a \<and> keeps c (ag_history a)"

lemma turn_answer_last:
  "mid \<noteq> [] \<Longrightarrow> turn_answer input ([TurnStarted t] @ mid @ [TurnCompleted u]) =
     (case (parse_tool_call input, last mid) of
        (None, ResponseCompleted _ content _) \<Rightarrow> Some content
      | (Some _, ToolCallCompleted _ _ _ _ output _ _) \<Rightarrow> Some output
      | _ \<Rightarrow> None)"
  by (cases mid rule: rev_cases) (simp_all add: turn_answer_def)

lemma ends_in_error_unanswered:
  "ends_in_error mid \<Longrightarrow> answered_turn input ([TurnStarted t] @ mid @ [TurnCompleted u]) = []"
  by (auto simp: ends_in_error_def answered_turn_def turn_answer_last simp del: append_Cons
      split: event.splits option.splits)

lemma attempts_ends:
  "attempts host env tid cid c as le w = (res, evs, w') \<Longrightarrow> as \<noteq> [] \<Longrightarrow>
     (case res of
        Inr (traces, out) \<Rightarrow> evs \<noteq> [] \<and> (\<exists>ok. last evs = completed_event env tid cid (call_name c) ok out None)
      | Inl le' \<Rightarrow> le' \<noteq> None)"
proof (induction as arbitrary: le w res evs w')
  case (Cons at as)
  define w1 where "w1 = (if at > 0 then ho_sleep_ms host (retry_delay at) w else w)"
  obtain r evs1 w2 where e: "ae_execute env tid cid c w1 = (r, evs1, w2)" by (metis prod_cases3)
  show ?case
  proof (cases r)
    case (Inr out)
    then show ?thesis using Cons.prems(1) e by (auto simp: w1_def [symmetric] Let_def)
  next
    case (Inl err)
    obtain res2 evs2 w3 where rest: "attempts host env tid cid c as (Some err) w2 = (res2, evs2, w3)"
      by (metis prod_cases3)
    show ?thesis
    proof (cases "as = []")
      case True
      then show ?thesis using Cons.prems(1) e Inl by (auto simp: w1_def [symmetric] Let_def split: if_splits)
    next
      case False
      then show ?thesis using Cons.IH [OF rest] Cons.prems(1) e Inl rest
        by (auto simp: w1_def [symmetric] Let_def split: if_splits sum.splits)
    qed
  qed
qed simp

lemma direct_call_ends:
  assumes "execute_single_tool_call host env tid c w = (r, mid, w')"
  shows "case r of
      Some (traces, out) \<Rightarrow> mid \<noteq> [] \<and> (\<exists>cid ok. last mid = completed_event env tid cid (call_name c) ok out None)
    | None \<Rightarrow> ends_in_error mid"
proof -
  obtain cid w1 where u: "ho_uuid host w = (cid, w1)" by fastforce
  obtain res evs w2 where t: "attempts host env tid cid c [0..<Suc MAX_RETRIES] None w1 = (res, evs, w2)"
    by (metis prod_cases3)
  from attempts_ends [OF t] assms u t show ?thesis
    by (auto simp: execute_single_tool_call_def ends_in_error_def Let_def simp del: upt_Suc
        split: sum.splits option.splits) blast
qed

lemma user_turn_effect:
  assumes "agent_keeps c a" "user_turn host env input a w = (a', evs, w')"
  shows "(\<exists>d. agent_keeps (c @ d) a' \<and> map exchange d = answered_turn input evs)
    \<and> ag_next_turn_id a' = ag_next_turn_id a + 1
    \<and> (\<exists>mid. evs = [TurnStarted (ag_next_turn_id a)] @ mid @ [TurnCompleted (ag_next_turn_id a)])"
proof -
  define tid where "tid = ag_next_turn_id a"
  define a1 where "a1 = a\<lparr>ag_next_turn_id := tid + 1, ag_recent := [], ag_state_epoch := 0\<rparr>"
  have a1: "agent_ok a1" "keeps c (ag_history a1)" "ag_next_turn_id a1 = tid + 1"
    using assms(1) by (simp_all add: a1_def agent_keeps_def agent_ok_def)
  show ?thesis
  proof (cases "parse_tool_call input")
    case None
    obtain a2 mid w2 where t: "execute_natural_language_turn env tid input a1 w = (a2, mid, w2)"
      by (metis prod_cases3)
    have out: "a' = a2" "evs = [TurnStarted tid] @ mid @ [TurnCompleted tid]"
      using assms(2) None t unfolding a1_def tid_def by (simp_all add: user_turn_def Let_def)
    note effect = turn_effect [OF a1(1,2) t]
    from effect consider "keeps c (ag_history a2)" "ends_in_error mid"
      | r src where "tr_user_input r = input" "keeps (c @ [r]) (ag_history a2)" "mid \<noteq> []"
          "last mid = ResponseCompleted tid (tr_assistant_output r) src" by blast
    then have "\<exists>d. agent_keeps (c @ d) a2 \<and> map exchange d = answered_turn input evs"
    proof cases
      case 1
      then show ?thesis unfolding out using effect
        by (intro exI [of _ "[]"]) (simp add: agent_keeps_def ends_in_error_unanswered del: append_Cons)
    next
      case (2 r src)
      then show ?thesis unfolding out using effect None
        by (intro exI [of _ "[r]"])
          (simp add: agent_keeps_def answered_turn_def turn_answer_last exchange_def del: append_Cons)
    qed
    then show ?thesis using effect out a1(3) by (auto simp: tid_def)
  next
    case (Some call)
    obtain r mid w2 where t: "execute_single_tool_call host env tid call w = (r, mid, w2)" by (metis prod_cases3)
    have out: "a' = (case r of Some (traces, output) \<Rightarrow> commit_turn input traces output a1 | None \<Rightarrow> a1)"
      "evs = [TurnStarted tid] @ mid @ [TurnCompleted tid]"
      using assms(2) Some t unfolding a1_def tid_def by (cases r; simp add: user_turn_def Let_def case_prod_beta)+
    have commit: "agent_keeps (c @ [\<lparr>tr_user_input = input, tr_tool_traces = traces, tr_assistant_output = answer\<rparr>])
        (commit_turn input traces answer a1)" for traces answer
      using keeps_commit [OF a1(2)] a1(1) by (simp add: agent_keeps_def commit_turn_def agent_ok_def)
    have next_id: "ag_next_turn_id (commit_turn input traces answer a1) = tid + 1" for traces answer
      using a1(3) by (simp add: commit_turn_def)
    note ends = direct_call_ends [OF t]
    have "(\<exists>d. agent_keeps (c @ d) a' \<and> map exchange d = answered_turn input evs) \<and> ag_next_turn_id a' = tid + 1"
    proof (cases r)
      case None
      then show ?thesis unfolding out using ends a1
        by (intro conjI exI [of _ "[]"]) (simp_all add: agent_keeps_def ends_in_error_unanswered del: append_Cons)
    next
      case (Some o')
      obtain traces shown where o': "o' = (traces, shown)" by (cases o')
      have "answered_turn input evs = [(input, shown)]"
        using ends \<open>parse_tool_call input = Some call\<close> unfolding out(2) Some o'
        by (auto simp: answered_turn_def turn_answer_last completed_event_def simp del: append_Cons)
      then show ?thesis using out(1) Some o' commit next_id
        by (intro conjI exI [of _ "[\<lparr>tr_user_input = input, tr_tool_traces = traces, tr_assistant_output = shown\<rparr>]"])
          (simp_all add: exchange_def)
    qed
    then show ?thesis using out(2) by (auto simp: tid_def)
  qed
qed

lemma submit_effect:
  assumes "agent_keeps c a" "submit host env oper a w = (a', evs, w')"
  shows "(\<exists>d. agent_keeps (c @ d) a' \<and> map exchange d = answered_turns [oper] [evs])
    \<and> ag_next_turn_id a' = ag_next_turn_id a + of_bool (oper \<noteq> Shutdown)
    \<and> (\<forall>input. oper = UserTurn input \<longrightarrow>
         (\<exists>mid. evs = [TurnStarted (ag_next_turn_id a)] @ mid @ [TurnCompleted (ag_next_turn_id a)]))"
proof (cases oper)
  case (UserTurn input)
  then have "user_turn host env input a w = (a', evs, w')" using assms(2) by (simp add: submit_def Let_def)
  from user_turn_effect [OF assms(1) this] show ?thesis by (auto simp: UserTurn)
qed (use assms in \<open>auto simp: submit_def agent_keeps_def agent_ok_def Let_def split: if_splits prod.splits\<close>)

lemma session_keeps:
  "session host env ops a w = (a', evss, w') \<Longrightarrow> agent_keeps c a \<Longrightarrow>
     \<exists>d. agent_keeps (c @ d) a' \<and> map exchange d = answered_turns ops evss"
proof (induction ops arbitrary: a w c a' evss w')
  case Nil
  then show ?case by (intro exI [of _ "[]"]) auto
next
  case (Cons oper ops)
  obtain a1 evs w1 where s: "submit host env oper a w = (a1, evs, w1)" by (metis prod_cases3)
  obtain a2 evss2 w2 where r: "session host env ops a1 w1 = (a2, evss2, w2)" by (metis prod_cases3)
  obtain d where d: "agent_keeps (c @ d) a1" "map exchange d = answered_turns [oper] [evs]"
    using conjunct1 [OF submit_effect [OF Cons.prems(2) s]] by (elim exE conjE)
  obtain e where e: "agent_keeps ((c @ d) @ e) a2" "map exchange e = answered_turns ops evss2"
    using Cons.IH [OF r d(1)] by blast
  show ?case using Cons.prems(1) s r d(2) e by (intro exI [of _ "d @ e"]) auto
qed

lemma session_events:
  "session host env ops a w = (a', evss, w') \<Longrightarrow> agent_keeps c a \<Longrightarrow>
     length evss = length ops
     \<and> (\<forall>i < length ops. \<forall>input. ops ! i = UserTurn input \<longrightarrow>
          (let t = ag_next_turn_id a + length (filter (\<lambda>oper. oper \<noteq> Shutdown) (take i ops))
           in \<exists>mid. evss ! i = [TurnStarted t] @ mid @ [TurnCompleted t]))"
proof (induction ops arbitrary: a w c a' evss w')
  case (Cons oper ops)
  obtain a1 evs w1 where s: "submit host env oper a w = (a1, evs, w1)" by (metis prod_cases3)
  obtain a2 evss2 w2 where r: "session host env ops a1 w1 = (a2, evss2, w2)" by (metis prod_cases3)
  have e: "evss = evs # evss2" using Cons.prems(1) s r by simp
  obtain d where c': "agent_keeps (c @ d) a1"
    using conjunct1 [OF submit_effect [OF Cons.prems(2) s]] by (elim exE conjE)
  note IH = Cons.IH [OF r c']
  note sub = conjunct1 [OF conjunct2 [OF submit_effect [OF Cons.prems(2) s]]]
    conjunct2 [OF conjunct2 [OF submit_effect [OF Cons.prems(2) s]]]
  show ?case
  proof (intro conjI allI impI)
    show "length evss = length (oper # ops)" using IH e by simp
    fix i input assume i: "i < length (oper # ops)" and op: "(oper # ops) ! i = UserTurn input"
    show "let t = ag_next_turn_id a + length (filter (\<lambda>oper. oper \<noteq> Shutdown) (take i (oper # ops)))
           in \<exists>mid. evss ! i = [TurnStarted t] @ mid @ [TurnCompleted t]"
    proof (cases i)
      case 0
      then show ?thesis using sub(2) op e by simp
    next
      case (Suc k)
      then show ?thesis using IH sub(1) op e i by (auto simp: Let_def split: if_splits)
    qed
  qed
qed simp


text \<open>Attempts of a direct call: each failed attempt but the last adds one failure event.\<close>

definition lifecycle_events :: "event list \<Rightarrow> event list" where
  "lifecycle_events evs = filter (\<lambda>e. case e of ToolCallStarted _ _ _ _ _ \<Rightarrow> True
     | ToolCallCompleted _ _ _ _ _ _ _ \<Rightarrow> True | ToolCallFailed _ _ _ _ _ _ _ \<Rightarrow> True | _ \<Rightarrow> False) evs"

lemma lifecycle_append [simp]: "lifecycle_events (xs @ ys) = lifecycle_events xs @ lifecycle_events ys"
  by (simp add: lifecycle_events_def)

lemma lifecycle_Cons [simp]:
  "lifecycle_events [] = []"
  "lifecycle_events (failed_event env tid cid n err # es) = failed_event env tid cid n err # lifecycle_events es"
  "lifecycle_events (completed_event env tid cid n ok out md # es)
   = completed_event env tid cid n ok out md # lifecycle_events es"
  "lifecycle_events (ResponseError tid cd msg b # es) = lifecycle_events es"
  by (simp_all add: lifecycle_events_def failed_event_def completed_event_def)

text \<open>A tool sends no such events itself: they belong to the agent.\<close>

definition silent_tools :: "'w agent_env \<Rightarrow> bool" where
  "silent_tools env \<longleftrightarrow> (\<forall>tid cid c w. lifecycle_events (fst (snd (ae_execute env tid cid c w))) = [])"

lemma attempts_events:
  "silent_tools env \<Longrightarrow> attempts host env tid cid c as le w = (res, evs, w') \<Longrightarrow>
     \<exists>errs ends. lifecycle_events evs = map (failed_event env tid cid (call_name c)) errs @ ends
       \<and> length errs + length ends \<le> length as
       \<and> (case res of
            Inr (traces, out) \<Rightarrow> \<exists>ok. ends = [completed_event env tid cid (call_name c) ok out None]
          | Inl le' \<Rightarrow> ends = [] \<and> le' = (if errs = [] then le else Some (last errs)))"
proof (induction as arbitrary: le w res evs w')
  case Nil
  then show ?case by (auto simp: lifecycle_events_def)
next
  case (Cons at as)
  define w1 where "w1 = (if at > 0 then ho_sleep_ms host (retry_delay at) w else w)"
  obtain r evs1 w2 where e: "ae_execute env tid cid c w1 = (r, evs1, w2)" by (metis prod_cases3)
  have quiet: "lifecycle_events evs1 = []"
    using Cons.prems(1)[unfolded silent_tools_def, rule_format, of tid cid c w1] e by simp
  show ?case
  proof (cases r)
    case (Inr out)
    then show ?thesis using Cons.prems(2) e quiet
      by (intro exI [of _ "[]"] exI [of _ "[completed_event env tid cid (call_name c) (eo_success out)
            (eo_display_output out) None]"]) (auto simp: w1_def [symmetric] Let_def)
  next
    case (Inl err)
    show ?thesis
    proof (cases "non_retryable err")
      case True
      then show ?thesis using Cons.prems(2) e quiet Inl
        by (intro exI [of _ "[err]"] exI [of _ "[]"]) (auto simp: w1_def [symmetric] Let_def)
    next
      case False
      obtain res2 evs2 w3 where rest: "attempts host env tid cid c as (Some err) w2 = (res2, evs2, w3)"
        by (metis prod_cases3)
      have out: "res = res2" "evs = (evs1 @ [failed_event env tid cid (call_name c) err]) @ evs2"
        using Cons.prems(2) e Inl False rest by (auto simp: w1_def [symmetric] Let_def)
      from Cons.IH [OF Cons.prems(1) rest] obtain errs ends where
        IH: "lifecycle_events evs2 = map (failed_event env tid cid (call_name c)) errs @ ends"
        "length errs + length ends \<le> length as"
        "case res2 of
            Inr (traces, out) \<Rightarrow> \<exists>ok. ends = [completed_event env tid cid (call_name c) ok out None]
          | Inl le' \<Rightarrow> ends = [] \<and> le' = (if errs = [] then Some err else Some (last errs))"
        by blast
      show ?thesis
        by (intro exI [of _ "err # errs"] exI [of _ ends])
          (use IH out quiet in \<open>auto split: sum.splits\<close>)
    qed
  qed
qed


lemma started_lifecycle [simp]:
  "lifecycle_events (started_sequence env tid cid n args p)
   = [ToolCallStarted tid cid n (extract_tool_target_hint n args) (ae_display_name env n)]"
  by (simp add: started_sequence_def lifecycle_events_def Let_def)

lemma handle_decide_no_overlay:
  "snap_overlays h = Map.empty \<Longrightarrow>
     dec_kind (handle_decide h i) = dec_kind (decide i (store_rules (snap_store h)) (store_default (snap_store h)))"
  by (simp add: handle_decide_simps Let_def split: option.split)

lemma empty_store_decides:
  "dec_kind (decide i (store_rules (store_new k [])) d)
   = (if ''destructive'' \<in> set (in_risk_tags i) then Escalate else d)"
  by (simp add: store_new_def decide_def max_by_def system_rule_matches) (simp add: system_destructive_def)

definition example_host :: "unit host" where
  "example_host = \<lparr>ho_uuid = (\<lambda>w. (''u'', w)), ho_sleep_ms = (\<lambda>_ w. w), ho_new_thread = (\<lambda>w. (ThreadId 1, w))\<rparr>"

section \<open>Properties\<close>

text \<open>C10: a session of any operations, and what its clients see of it: the turns that ended with an answer, each
  with its input and the answer shown, in the order they were submitted. The turns the history holds are the
  latest of exactly these, at most 100 and the last three always among them, behind at most one summary: no turn
  is invented or held twice, none that was answered is passed over, and none that failed is remembered.\<close>

theorem session_history:
  assumes "agent_ok a" "ag_history a = []" "session host env ops a w = (a', evss, w')"
  shows "suffix (map (\<lambda>r. (tr_user_input r, tr_assistant_output r)) (turns_of (ag_history a'))) (answered_turns ops evss)
    \<and> min 3 (length (answered_turns ops evss)) \<le> length (turns_of (ag_history a'))
    \<and> length (turns_of (ag_history a')) \<le> 100
    \<and> (\<exists>ss. length ss \<le> 1 \<and> ag_history a' = map Summary ss @ map Turn (turns_of (ag_history a')))"
proof -
  have "agent_keeps [] a" using assms(1,2) by (simp add: agent_keeps_def keeps_def history_shape_def)
  from session_keeps [OF assms(3) this] obtain d where
    d: "keeps d (ag_history a')" "map exchange d = answered_turns ops evss" by (auto simp: agent_keeps_def)
  have "exchange = (\<lambda>r. (tr_user_input r, tr_assistant_output r))" by (simp add: fun_eq_iff exchange_def)
  moreover have "suffix (map exchange (turns_of (ag_history a'))) (answered_turns ops evss)"
    using d(1) unfolding d(2) [symmetric] by (simp add: keeps_def map_mono_suffix)
  moreover have "length d = length (answered_turns ops evss)" using d(2) by (metis length_map)
  ultimately show ?thesis using d(1) by (simp add: keeps_def history_shape_def)
qed

definition answering_env :: "unit agent_env" where
  "answering_env = rejecting_env\<lparr>ae_complete_stream := (\<lambda>ms w. ([], Inr (scripted_response [AText ''done'']), w))\<rparr>"

theorem session_history_witness:
  "suffix (map (\<lambda>r. (tr_user_input r, tr_assistant_output r))
       (turns_of (ag_history (fst (session example_host answering_env [UserTurn ''hi'', Shutdown] example_agent ())))))
     [(''hi'', ''done'')]
   \<and> turns_of (ag_history (fst (session example_host answering_env [UserTurn ''hi'', Shutdown] example_agent ()))) \<noteq> []"
proof -
  have ok: "agent_ok example_agent" "ag_history example_agent = []"
    by (simp_all add: agent_ok_def example_agent_def ld_inv_new)
  obtain a' evss w' where s: "session example_host answering_env [UserTurn ''hi'', Shutdown] example_agent () = (a', evss, w')"
    by (metis prod_cases3)
  have "answered_turns [UserTurn ''hi'', Shutdown]
      (fst (snd (session example_host answering_env [UserTurn ''hi'', Shutdown] example_agent ()))) = [(''hi'', ''done'')]"
    by code_simp
  then have "answered_turns [UserTurn ''hi'', Shutdown] evss = [(''hi'', ''done'')]" by (simp only: s fst_conv snd_conv)
  then show ?thesis using session_history [OF ok s] unfolding s by auto
qed

text \<open>C15: the events of the user turns of a session: each is bracketed by the start and the completion of
  a turn whose number counts the operations submitted before it, shutdowns apart, so no two turns
  share a number.\<close>

theorem session_turn_events:
  assumes "agent_ok a" "ag_history a = []" "session host env ops a w = (a', evss, w')"
    and "i < length ops" "ops ! i = UserTurn input"
  shows "\<exists>mid. evss ! i
      = [TurnStarted (ag_next_turn_id a + length (filter (\<lambda>oper. oper \<noteq> Shutdown) (take i ops)))] @ mid
        @ [TurnCompleted (ag_next_turn_id a + length (filter (\<lambda>oper. oper \<noteq> Shutdown) (take i ops)))]"
proof -
  have "agent_keeps [] a" using assms(1,2) by (simp add: agent_keeps_def keeps_def history_shape_def)
  from session_events [OF assms(3) this] assms(4,5) show ?thesis by (simp add: Let_def)
qed

theorem session_turn_events_witness:
  "\<exists>mid. fst (snd (session example_host rejecting_env [Shutdown, UserTurn ''hi''] example_agent ())) ! 1
     = [TurnStarted 1] @ mid @ [TurnCompleted 1]"
proof -
  have ok: "agent_ok example_agent" "ag_history example_agent = []"
    by (simp_all add: agent_ok_def example_agent_def ld_inv_new)
  obtain a' evss w' where s: "session example_host rejecting_env [Shutdown, UserTurn ''hi''] example_agent () = (a', evss, w')"
    by (metis prod_cases3)
  from session_turn_events [OF ok s, of 1 "''hi''"] s show ?thesis by (simp add: example_agent_def)
qed

text \<open>C14: the life of a direct tool call, whatever happens to its attempts: one start, at most three
  failures, and exactly one completion, last; three attempts are made at most.\<close>

theorem direct_call_lifecycle:
  assumes "silent_tools env" "execute_single_tool_call host env tid c w = (r, evs, w')"
  shows "\<exists>cid target dn errs ok out. length errs \<le> 3
    \<and> lifecycle_events evs = [ToolCallStarted tid cid (call_name c) target dn]
        @ map (failed_event env tid cid (call_name c)) errs
        @ [completed_event env tid cid (call_name c) ok out None]
    \<and> (r = None \<longrightarrow> \<not> ok \<and> errs \<noteq> [] \<and> out = last errs)
    \<and> (r \<noteq> None \<longrightarrow> length errs \<le> 2)"
proof -
  obtain cid w1 where u: "ho_uuid host w = (cid, w1)" by fastforce
  obtain res evs1 w2 where t: "attempts host env tid cid c [0..<Suc MAX_RETRIES] None w1 = (res, evs1, w2)"
    by (metis prod_cases3)
  have n: "length [0..<Suc MAX_RETRIES] = 3" by (simp add: MAX_RETRIES_def)
  from attempts_events [OF assms(1) t] obtain errs ends where
    l: "lifecycle_events evs1 = map (failed_event env tid cid (call_name c)) errs @ ends"
    "length errs + length ends \<le> 3"
    "case res of
        Inr (traces, out) \<Rightarrow> \<exists>ok. ends = [completed_event env tid cid (call_name c) ok out None]
      | Inl le' \<Rightarrow> ends = [] \<and> le' = (if errs = [] then None else Some (last errs))"
    unfolding n by blast
  have some: "res \<noteq> Inl None"
    using t by (auto simp: MAX_RETRIES_def numeral_2_eq_2 Let_def split: prod.splits sum.splits if_splits)
  show ?thesis
  proof (cases res)
    case (Inr out)
    then obtain ok where "ends = [completed_event env tid cid (call_name c) ok (snd out) None]"
      using l(3) by (auto split: prod.splits)
    then show ?thesis using assms(2) u t l(1,2) Inr
      by (intro exI [of _ cid] exI [of _ errs] exI [of _ ok] exI [of _ "snd out"] exI)
        (auto simp: execute_single_tool_call_def Let_def)
  next
    case (Inl le')
    then have "errs \<noteq> []" "le' = Some (last errs)" "ends = []" using l(3) some by (auto split: if_splits)
    then show ?thesis using assms(2) u t l(1,2) Inl
      by (intro exI [of _ cid] exI [of _ errs] exI [of _ False] exI [of _ "last errs"] exI)
        (auto simp: execute_single_tool_call_def Let_def)
  qed
qed

theorem direct_call_lifecycle_witness:
  "lifecycle_events (fst (snd (execute_single_tool_call example_host rejecting_env 1
     \<lparr>call_name = ''Edit'', call_args = []\<rparr> ()))) \<noteq> []"
proof -
  have "silent_tools rejecting_env" by (simp add: silent_tools_def rejecting_env_def)
  moreover obtain r evs w' where
    "execute_single_tool_call example_host rejecting_env 1 \<lparr>call_name = ''Edit'', call_args = []\<rparr> () = (r, evs, w')"
    by (metis prod_cases3)
  ultimately show ?thesis using direct_call_lifecycle by fastforce
qed

text \<open>setting the policy level: with no session overlay in force, the level decides every call that
  is not tagged destructive, and a destructive one escalates at every level; the level names
  survive printing and parsing.\<close>

theorem policy_level_decides:
  assumes "set_policy_level l runtime = Some s" "runtime = None \<or> (\<exists>s0. runtime = Some s0 \<and> snap_overlays s0 = Map.empty)"
  shows "dec_kind (handle_decide (runtime_handle s) i)
      = (if ''destructive'' \<in> set (in_risk_tags i) then Escalate else to_decision_kind l)
    \<and> policy_level_from_str (policy_level_as_str l) = Inr l"
proof -
  have "snap_overlays s = Map.empty" "snap_store s = store_new (to_decision_kind l) []"
    using assms by (auto simp: set_policy_level_def Let_def runtime_op_defs runtime_new_def split: option.splits)
  then have "dec_kind (handle_decide (runtime_handle s) i)
      = (if ''destructive'' \<in> set (in_risk_tags i) then Escalate else to_decision_kind l)"
    by (simp add: runtime_handle_def handle_decide_no_overlay empty_store_decides) (simp add: store_new_def)
  moreover have "policy_level_from_str (policy_level_as_str l) = Inr l"
    by (cases l) (simp_all add: policy_level_from_str_def policy_level_as_str_def)
  ultimately show ?thesis by simp
qed

theorem policy_level_decides_witness:
  "dec_kind (handle_decide (runtime_handle (the (set_policy_level Strict None))) destructive_input) = Escalate"
proof -
  obtain s where s: "set_policy_level Strict None = Some s" by (simp add: set_policy_level_def)
  have "''destructive'' \<in> set (in_risk_tags destructive_input)" by code_simp
  with policy_level_decides [OF s, of destructive_input] s show ?thesis by simp
qed

end
