(* ===== verification/Composition.thy ===== *)
theory Composition
  imports TurnDispatch
begin

text \<open>
  The components put together: the agent whose tools run through the router and the orchestrator, and
  the contract by which facts about single operations become facts about whole sessions. Whatever
  every operation of the outside keeps of the world, a session keeps too.
\<close>

section \<open>Invariants of the world\<close>

locale world_invariant =
  fixes env :: "'w agent_env" and host :: "'w host" and I :: "'w \<Rightarrow> bool"
  assumes execute_keeps: "I w \<Longrightarrow> I (snd (snd (ae_execute env tid cid c w)))"
    and stream_keeps: "I w \<Longrightarrow> I (snd (snd (ae_complete_stream env ms w)))"
    and summarise_keeps: "I w \<Longrightarrow> I (snd (ae_summarise env t n w))"
    and uuid_keeps: "I w \<Longrightarrow> I (snd (ho_uuid host w))"
    and sleep_keeps: "I w \<Longrightarrow> I (ho_sleep_ms host ms' w)"
    and thread_keeps: "I w \<Longrightarrow> I (snd (ho_new_thread host w))"
begin

lemma call_keeps:
  assumes "execute_native_tool_call env tid u s = (oc, s')" "I (tu_world s)"
  shows "I (tu_world s')"
  by (cases rule: call_cases [OF assms(1)]) (simp_all add: assms(2) execute_keeps)

lemma batch_keeps: "run_batch env tid us s = (r, s') \<Longrightarrow> I (tu_world s) \<Longrightarrow> I (tu_world s')"
proof (induction us arbitrary: s r s')
  case (Cons u us)
  obtain oc s1 where c: "execute_native_tool_call env tid u s = (oc, s1)" by fastforce
  obtain r1 s2 where b: "run_batch env tid us s1 = (r1, s2)" by fastforce
  show ?case using Cons.prems c b call_keeps [OF c] Cons.IH [OF b]
    by (auto split: exec_outcome.splits option.splits prod.splits)
qed simp

lemma tool_batch_keeps:
  assumes "tool_batch env tid remaining us ms s = (r, s')" "I (tu_world s)"
  shows "I (tu_world s')"
  using assms batch_keeps by (fastforce simp: tool_batch_def Let_def split: option.splits prod.splits)

lemma round_keeps:
  assumes rnd: "planner_round env tid ui ms s = (r, s')" and i: "I (tu_world s)"
  shows "I (tu_world s')"
proof -
  define ms1 where "ms1 = refresh_loop_recovery_in_messages ms ui
      (recovery_prompt (ae_text_recovery env) (ag_loop_detector (tu_agent s)))"
  obtain r1 s1 where q: "request_planner_model_output env tid ms1 True s = (r1, s1)" by fastforce
  have s1: "I (tu_world s1)" using request_frame [OF q] i by (simp add: stream_keeps)
  show ?thesis
  proof (cases r1)
    case (Inl e)
    then show ?thesis using rnd q s1 by (auto simp: planner_round_def Let_def ms1_def [symmetric])
  next
    case (Inr p)
    have body: "round_body env tid ui (ag_max_tool_calls (tu_agent s) - tu_executed s) ms1 p s1 = (r, s')"
      using Inr rnd q by (simp add: planner_round_def Let_def ms1_def [symmetric])
    obtain s2 evs a w where c: "check_and_auto_compact (ae_summarise env) tid
         (case Option.bind (ps_usage p) mu_input_tokens of
            Some t \<Rightarrow> (tu_agent s1)\<lparr>ag_last_input_tokens := Some t\<rparr> | None \<Rightarrow> tu_agent s1) (tu_world s1) = (a, evs, w)"
      and s2: "tu_agent s2 = a" "tu_world s2 = w" "tu_executed s2 = tu_executed s1"
        "tu_events s2 = tu_events s1 @ evs" "tu_tool_traces s2 = tu_tool_traces s1" "tu_skips s2 = tu_skips s1"
      and out: "(r, s') = (if \<not> has_tool_use (ps_response p) then (None, final_response tid ui p s2)
         else tool_batch env tid (ag_max_tool_calls (tu_agent s) - tu_executed s)
              (tool_uses (mr_content (ps_response p)))
              (ms1 @ [Assistant (assistant_history_blocks (ps_response p))]) s2)"
      by (rule round_body_cases [OF body])
    have i2: "I (tu_world s2)" using compact_frame [OF c] s1 s2(2) by (auto simp: summarise_keeps)
    show ?thesis
    proof (cases "has_tool_use (ps_response p)")
      case False
      then show ?thesis using out i2 by simp
    next
      case True
      then have "tool_batch env tid (ag_max_tool_calls (tu_agent s) - tu_executed s)
          (tool_uses (mr_content (ps_response p)))
          (ms1 @ [Assistant (assistant_history_blocks (ps_response p))]) s2 = (r, s')" using out by simp
      then show ?thesis by (rule tool_batch_keeps [OF _ i2])
    qed
  qed
qed

lemma loop_keeps: "I (tu_world s) \<Longrightarrow> I (tu_world (planner_loop env tid ui left ms s))"
proof (induction left arbitrary: ms s)
  case (Suc left)
  obtain r s1 where rnd: "planner_round env tid ui ms s = (r, s1)" by fastforce
  show ?case using Suc.prems Suc.IH [OF round_keeps [OF rnd Suc.prems]] round_keeps [OF rnd Suc.prems] rnd
    by (cases r) simp_all
qed simp

lemma turn_keeps:
  assumes "execute_natural_language_turn env tid ui a w = (a', evs, w')" "I w"
  shows "I w'"
  using assms loop_keeps [of "turn_start a w"]
  by (auto simp: execute_natural_language_turn_def Let_def turn_start_def)

lemma attempts_keep: "attempts host env tid cid c as le w = (res, evs, w') \<Longrightarrow> I w \<Longrightarrow> I w'"
proof (induction as arbitrary: le w res evs w')
  case (Cons at as)
  define w1 where "w1 = (if at > 0 then ho_sleep_ms host (retry_delay at) w else w)"
  have w1: "I w1" using Cons.prems(2) by (simp add: w1_def sleep_keeps)
  obtain r evs1 w2 where e: "ae_execute env tid cid c w1 = (r, evs1, w2)" by (metis prod_cases3)
  have w2: "I w2" using execute_keeps [OF w1, of tid cid c] e by simp
  show ?case
    using Cons.prems(1) e w2 Cons.IH [OF _ w2]
    by (auto simp: w1_def [symmetric] Let_def split: sum.splits if_splits prod.splits)
qed simp

lemma single_keeps:
  assumes "execute_single_tool_call host env tid c w = (r, evs, w')" "I w"
  shows "I w'"
proof -
  obtain cid w1 where u: "ho_uuid host w = (cid, w1)" by fastforce
  obtain res evs1 w2 where t: "attempts host env tid cid c [0..<Suc MAX_RETRIES] None w1 = (res, evs1, w2)"
    by (metis prod_cases3)
  have "I w2" using attempts_keep [OF t] uuid_keeps [OF assms(2)] u by simp
  moreover have "w' = w2" using assms(1) u t
    by (auto simp: execute_single_tool_call_def Let_def split: sum.splits option.splits)
  ultimately show ?thesis by simp
qed

lemma submit_keeps:
  assumes "submit host env oper a w = (a', evs, w')" "I w"
  shows "I w'"
proof (cases oper)
  case (UserTurn input)
  then show ?thesis using assms turn_keeps single_keeps
    by (fastforce simp: submit_def user_turn_def Let_def split: option.splits prod.splits)
next
  case (SpawnAgent input src)
  then show ?thesis using assms thread_keeps [OF assms(2)]
    by (auto simp: submit_def Let_def split: if_splits prod.splits)
qed (use assms in \<open>auto simp: submit_def Let_def\<close>)

lemma session_keeps_world: "session host env ops a w = (a', evss, w') \<Longrightarrow> I w \<Longrightarrow> I w'"
proof (induction ops arbitrary: a w a' evss w')
  case (Cons oper ops)
  obtain a1 evs w1 where s: "submit host env oper a w = (a1, evs, w1)" by (metis prod_cases3)
  obtain a2 evss2 w2 where r: "session host env ops a1 w1 = (a2, evss2, w2)" by (metis prod_cases3)
  show ?case using Cons.prems s r Cons.IH [OF r submit_keeps [OF s Cons.prems(2)]] by simp
qed simp

end

section \<open>The agent with its router\<close>

text \<open>The tools of the agent are those of the router; the orchestrator's approvals are part of the world.\<close>

definition routed_env :: "'w router \<Rightarrow> 'w agent_env \<Rightarrow> (approved_turns \<times> 'w) agent_env" where
  "routed_env ro env =
     \<lparr>ae_display_name = ae_display_name env, ae_execute = router_execute ro,
      ae_complete_stream = (\<lambda>ms (ap, w). (let (ds, r, w') = ae_complete_stream env ms w in (ds, r, ap, w'))),
      ae_summarise = (\<lambda>t n (ap, w). (let (r, w') = ae_summarise env t n w in (r, ap, w'))),
      ae_js_map = ae_js_map env, ae_js = ae_js env, ae_debug_map = ae_debug_map env,
      ae_from_str = ae_from_str env, ae_text_recovery = ae_text_recovery env,
      ae_text_loop_halt = ae_text_loop_halt env, ae_text_duplicate_abort = ae_text_duplicate_abort env,
      ae_text_rejected = ae_text_rejected env, ae_text_timed_out = ae_text_timed_out env,
      ae_text_max_calls = ae_text_max_calls env, ae_text_max_rounds = ae_text_max_rounds env\<rparr>"

definition routed_host :: "'w host \<Rightarrow> (approved_turns \<times> 'w) host" where
  "routed_host host =
     \<lparr>ho_uuid = (\<lambda>(ap, w). (let (u, w') = ho_uuid host w in (u, ap, w'))),
      ho_sleep_ms = (\<lambda>ms (ap, w). (ap, ho_sleep_ms host ms w)),
      ho_new_thread = (\<lambda>(ap, w). (let (t, w') = ho_new_thread host w in (t, ap, w')))\<rparr>"

text \<open>Whatever happens, the orchestrator remembers at most 256 turns, each once.\<close>

definition approvals_bounded :: "approved_turns \<times> 'w \<Rightarrow> bool" where
  "approvals_bounded s \<longleftrightarrow> distinct (fst s) \<and> length (fst s) \<le> 256"

lemma record_mutating_approval_bounded:
  "distinct ap \<Longrightarrow> length ap \<le> 256 \<Longrightarrow>
     distinct (record_mutating_approval iv m ap) \<and> length (record_mutating_approval iv m ap) \<le> 256"
  by (auto simp: record_mutating_approval_def Let_def)

lemma run_approvals:
  "rr_approved (run env reg ap iv w) = ap
   \<or> rr_approved (run env reg ap iv w) = record_mutating_approval iv (is_mutating_operation (ti_tool_name iv)) ap"
  by (cases rule: run_cases [of env reg ap iv w]) simp_all

lemma router_execute_bounded:
  "approvals_bounded s \<Longrightarrow> approvals_bounded (snd (snd (router_execute ro tid cid c s)))"
  using run_approvals [of "ro_env ro" "ro_registry ro" "fst s" "create_tool_invocation ro tid cid c" "snd s"]
    record_mutating_approval_bounded [of "fst s"]
  by (auto simp: approvals_bounded_def router_execute_def Let_def)

interpretation bounded: world_invariant "routed_env ro env" "routed_host host" approvals_bounded
  for ro :: "'w router" and env :: "'w agent_env" and host :: "'w host"
proof unfold_locales
  fix s :: "approved_turns \<times> 'w" and tid cid c
  assume "approvals_bounded s"
  then show "approvals_bounded (snd (snd (ae_execute (routed_env ro env) tid cid c s)))"
    by (simp add: routed_env_def router_execute_bounded)
qed (auto simp: approvals_bounded_def routed_env_def routed_host_def case_prod_beta Let_def)

section \<open>A user who approves nothing\<close>

text \<open>The outside keeps \<open>J\<close>, but for the tool handlers, about which nothing is known; the user never
  answers yes, and the policy in force asks by default and has no rules of its own.\<close>

definition asking_policy :: "policy_snapshot \<Rightarrow> bool" where
  "asking_policy s \<longleftrightarrow> snap_overlays s = Map.empty \<and> (\<exists>k. k \<noteq> Allow \<and> snap_store s = store_new k [])"

definition refusing :: "'w router \<Rightarrow> 'w agent_env \<Rightarrow> 'w host \<Rightarrow> ('w \<Rightarrow> bool) \<Rightarrow> bool" where
  "refusing ro env host J \<longleftrightarrow>
     (\<forall>q w. fst (oe_ask (ro_env ro) q w) \<noteq> Answered True)
     \<and> (\<exists>s. ro_policy_runtime ro = Some s \<and> asking_policy s)
     \<and> (\<forall>w. J w \<longrightarrow> J (snd (oe_uuid (ro_env ro) w)) \<and> J (snd (ho_uuid host w)) \<and> J (snd (ho_new_thread host w)))
     \<and> (\<forall>w q. J w \<longrightarrow> J (snd (oe_ask (ro_env ro) q w)))
     \<and> (\<forall>w ms. J w \<longrightarrow> J (snd (snd (ae_complete_stream env ms w))))
     \<and> (\<forall>w t n. J w \<longrightarrow> J (snd (ae_summarise env t n w)))
     \<and> (\<forall>w ms. J w \<longrightarrow> J (ho_sleep_ms host ms w))"

definition unapproved :: "('w \<Rightarrow> bool) \<Rightarrow> approved_turns \<times> 'w \<Rightarrow> bool" where
  "unapproved J s \<longleftrightarrow> fst s = [] \<and> J (snd s)"

lemma ask_policy_kind:
  assumes "ro_policy_runtime ro = Some s" "asking_policy s"
  shows "dec_kind (evaluate_policy_center_decision fs (create_tool_invocation ro tid cid c)) \<noteq> Allow"
proof -
  have "store_default (store_new k []) = k" for k by (simp add: store_new_def)
  then have "dec_kind (handle_decide (runtime_handle s) i) \<noteq> Allow" for i
    using assms(2) by (auto simp: asking_policy_def runtime_handle_def handle_decide_no_overlay empty_store_decides split: if_splits)
  then show ?thesis
    by (simp add: evaluate_policy_center_decision_def create_tool_invocation_def assms(1) Let_def)
qed

text \<open>The world of a run that is not dispatched is the one the approval exchange leaves.\<close>

lemma undispatched_world:
  assumes "\<not> dispatched (run env reg approved iv w)" "J w"
    and "\<And>w. J w \<Longrightarrow> J (snd (oe_uuid env w))" "\<And>w q. J w \<Longrightarrow> J (snd (oe_ask env q w))"
  shows "J (rr_world (run env reg approved iv w))"
proof -
  have "J (snd (snd (request_tool_approval env iv d w)))" for d
    using assms(2-4) by (auto simp: request_tool_approval_def Let_def split: prod.split approval_answer.split)
      (metis snd_conv)+
  then show ?thesis using assms(1,2)
    by (auto simp: run_def Let_def split: prod.splits option.splits if_splits) (metis snd_conv)+
qed

lemma refused_run:
  assumes r: "refusing ro env host J" and j: "J w"
  shows "let rr = run (ro_env ro) (ro_registry ro) [] (create_tool_invocation ro tid cid c) w
    in rr_approved rr = [] \<and> J (rr_world rr)"
proof -
  let ?iv = "create_tool_invocation ro tid cid c"
  let ?run = "run (ro_env ro) (ro_registry ro) [] ?iv w"
  have no: "approval_answer_of (ro_env ro) iv d w' \<noteq> Answered True" for iv d w'
    using r unfolding refusing_def approval_answer_of_def by (simp add: case_prod_beta Let_def)
  have "dec_kind (decision_of (ro_env ro) ?iv) \<noteq> Allow" using r ask_policy_kind unfolding refusing_def by blast
  then have "\<not> dispatched ?run"
    using no by (auto simp: dispatched_iff should_reuse_mutating_approval_def)
  moreover have "rr_approved ?run = []"
  proof (cases rule: run_cases [of "ro_env ro" "ro_registry ro" "[]" ?iv w])
    case free
    then show ?thesis by simp
  next
    case (approved w')
    then show ?thesis using no by simp
  qed simp
  moreover have "J (rr_world ?run)"
    by (rule undispatched_world) (use calculation(1) j r in \<open>auto simp: refusing_def\<close>)
  ultimately show ?thesis by (simp add: Let_def)
qed

lemma refusing_invariant:
  assumes r: "refusing ro env host J"
  shows "world_invariant (routed_env ro env) (routed_host host) (unapproved J)"
proof unfold_locales
  fix s tid cid c assume "unapproved J s"
  then obtain w where s: "s = ([], w)" "J w" by (cases s) (auto simp: unapproved_def)
  show "unapproved J (snd (snd (ae_execute (routed_env ro env) tid cid c s)))"
    using refused_run [OF r s(2), of tid cid c]
    by (simp add: s(1) routed_env_def router_execute_def unapproved_def Let_def)
qed (use r in \<open>auto simp: refusing_def unapproved_def routed_env_def routed_host_def case_prod_beta Let_def\<close>)


section \<open>Example data\<close>

text \<open>A world that counts the tools that ran, a user who says no, and a model that keeps asking for \<open>rm\<close>.\<close>

definition counting_router :: "nat router" where
  "counting_router =
     \<lparr>ro_env = \<lparr>oe_uuid = (\<lambda>w. (''r'', w)), oe_ask = (\<lambda>_ w. (Answered False, w)), oe_timeout_ms = 100,
        oe_from_str = example_parser\<rparr>,
      ro_registry = [''shell'' \<mapsto> \<lparr>h_kind = KFunction,
        h_handle = (\<lambda>_ w. (Inr (OutFunction (BodyText ''gone'') (Some True)), [], w + 1))\<rparr>],
      ro_sandbox_mode = ModeWorkspaceWrite, ro_shell_type = Bash, ro_prevent_shell_skill_trigger = False,
      ro_cwd = ''ws'', ro_session_id = None, ro_policy_runtime = Some (runtime_new (store_new Ask [])),
      ro_js_map = (\<lambda>_. ''{}''), ro_js = (\<lambda>_. []), ro_js_mcp = (\<lambda>_. [])\<rparr>"

definition insisting_env :: "nat agent_env" where
  "insisting_env =
     \<lparr>ae_display_name = (\<lambda>_. None), ae_execute = (\<lambda>tid cid c w. (Inl ''unused'', [], w)),
      ae_complete_stream = (\<lambda>ms w. ([], Inr (scripted_response [AToolUse ''1'' ''shell'' (JObject [])]), w)),
      ae_summarise = (\<lambda>t n w. (None, w)), ae_js_map = (\<lambda>m. concat (map snd m)), ae_js = (\<lambda>_. []),
      ae_debug_map = (\<lambda>_. []), ae_from_str = (\<lambda>_. None), ae_text_recovery = ''recover'',
      ae_text_loop_halt = ''halt'', ae_text_duplicate_abort = (\<lambda>_. ''loop''), ae_text_rejected = ''rejected'',
      ae_text_timed_out = ''timed out'', ae_text_max_calls = (\<lambda>_. ''calls''), ae_text_max_rounds = (\<lambda>_. ''rounds'')\<rparr>"

definition still_host :: "nat host" where
  "still_host = \<lparr>ho_uuid = (\<lambda>w. (''u'', w)), ho_sleep_ms = (\<lambda>_ w. w), ho_new_thread = (\<lambda>w. (ThreadId 1, w))\<rparr>"

lemma counting_refuses: "refusing counting_router insisting_env still_host (\<lambda>w. w = 0)"
  by (auto simp: refusing_def counting_router_def insisting_env_def still_host_def asking_policy_def
      runtime_new_def overlay_new_def)

end
