(* ===== verification/Workspace.thy ===== *)
theory Workspace
  imports Prelude
begin

text \<open>
  Paths and the workspace: \<open>std::path\<close> on Unix as far as the code uses it, the resolution of the paths
  the file tools get (\<open>openjax-core/src/tools/common.rs\<close>), and the check of the path arguments of a
  shell command (\<open>openjax-core/src/sandbox/runtime/mod.rs\<close>). What exists and what a path resolves to
  are the file system's: the record \<open>fs\<close>. The last sections give that record a file system of directories,
  files and symbolic links (\<open>tree_fs\<close>), on which a file is opened for writing through its links.
\<close>

section \<open>Paths\<close>

type_synonym path = string

datatype path_component = RootDir | CurDir | ParentDir | NormalPart string

definition is_absolute :: "path \<Rightarrow> bool" where
  "is_absolute p \<longleftrightarrow> starts_with p ''/''"

text \<open>\<open>Path::components\<close>: repeated separators and dots are dropped, but a leading dot is kept.\<close>

definition junk_part :: "string \<Rightarrow> bool" where
  "junk_part s \<longleftrightarrow> s = [] \<or> s = ''.''"

definition path_part :: "string \<Rightarrow> path_component" where
  "path_part s = (if s = ''..'' then ParentDir else NormalPart s)"

definition path_components :: "path \<Rightarrow> path_component list" where
  "path_components p =
     (let parts = split_char (CHR ''/'') p
      in (if is_absolute p then [RootDir] else if hd parts = ''.'' then [CurDir] else [])
         @ map path_part (filter (\<lambda>s. \<not> junk_part s) parts))"

definition path_join :: "path \<Rightarrow> path \<Rightarrow> path" where
  "path_join base p =
     (if is_absolute p then p
      else if base = [] \<or> last base = CHR ''/'' then base @ p else base @ ''/'' @ p)"

definition path_starts_with :: "path \<Rightarrow> path \<Rightarrow> bool" where
  "path_starts_with p base \<longleftrightarrow> prefix (path_components base) (path_components p)"

text \<open>\<open>Path::parent\<close>: the path without its last component, trailing separators and dots removed.\<close>

definition path_parent :: "path \<Rightarrow> path option" where
  "path_parent p =
     (let parts = split_char (CHR ''/'') p
      in case dropWhile junk_part (rev parts) of
           [] \<Rightarrow> if \<not> is_absolute p \<and> hd parts = ''.'' then Some [] else None
         | _ # rest \<Rightarrow>
             (case dropWhile junk_part rest of
                [] \<Rightarrow> Some (if is_absolute p then ''/'' else if hd parts = ''.'' \<and> rest \<noteq> [] then ''.'' else [])
              | kept \<Rightarrow> Some (join ''/'' (rev kept))))"

definition contains_parent_dir :: "path \<Rightarrow> bool" where
  "contains_parent_dir p \<longleftrightarrow> ParentDir \<in> set (path_components p)"

section \<open>Lemmas on paths\<close>

lemma split_char_nonempty [simp]: "split_char d s \<noteq> []"
  by (induction s) (auto split: list.splits)

lemma join_split_char: "join [d] (split_char d s) = s"
proof (induction s)
  case (Cons c s)
  obtain x xs where x: "split_char d s = x # xs" by (cases "split_char d s") simp_all
  then show ?case using Cons by (cases xs) auto
qed simp

lemma length_join: "ps \<noteq> [] \<Longrightarrow> length (join [d] ps) = sum_list (map length ps) + (length ps - 1)"
proof (induction ps)
  case (Cons p ps)
  then show ?case by (cases ps) simp_all
qed simp

lemma sum_dropWhile: "sum_list (map length (dropWhile P xs)) \<le> sum_list (map length xs)"
  by (induction xs) auto

lemma last_dropWhile_nonempty: "dropWhile P xs \<noteq> [] \<Longrightarrow> last (dropWhile P xs) = last xs"
  by (induction xs) (auto split: if_splits)

text \<open>The parent is a shorter path, so climbing to an existing ancestor ends.\<close>

lemma path_parent_shorter:
  assumes "path_parent p = Some q"
  shows "length q < length p"
proof -
  define parts where "parts = split_char (CHR ''/'') p"
  have len: "length p = sum_list (map length parts) + (length parts - 1)"
    using length_join [of parts "CHR ''/''"] join_split_char [of "CHR ''/''" p] by (simp add: parts_def)
  have ne: "parts \<noteq> []" by (simp add: parts_def)
  note par = assms [unfolded path_parent_def Let_def, folded parts_def]
  show ?thesis
  proof (cases "dropWhile junk_part (rev parts)")
    case Nil
    then have "hd parts = ''.''" "q = []"
      using par unfolding Nil by (simp_all split: if_splits)
    then show ?thesis using len ne by (cases parts) auto
  next
    case (Cons s rest)
    note par = par [unfolded Cons list.case]
    have s: "s \<noteq> []" using hd_dropWhile [of junk_part "rev parts"] Cons by (auto simp: junk_part_def)
    have "sum_list (map length (s # rest)) \<le> sum_list (map length (rev parts))"
      using sum_dropWhile [of junk_part "rev parts"] unfolding Cons .
    then have sums: "length s + sum_list (map length rest) \<le> sum_list (map length parts)"
      by (simp add: rev_map [symmetric])
    have lens: "Suc (length rest) \<le> length parts"
      using length_dropWhile_le [of junk_part "rev parts"] unfolding Cons by simp
    have s0: "0 < length s" using s by simp
    show ?thesis
    proof (cases "dropWhile junk_part rest")
      case Nil
      note q = par [unfolded Nil list.case]
      have two: "2 \<le> length p" if "rest \<noteq> []" proof -
        have "0 < length rest" using that by simp
        then show ?thesis using len sums lens s0 by linarith
      qed
      have rest: "rest \<noteq> []" if a: "is_absolute p"
      proof
        assume "rest = []"
        then have "s = last (rev parts)"
          using last_dropWhile_nonempty [of junk_part "rev parts"] Cons by simp
        also have "\<dots> = hd parts" using ne by (simp add: last_rev)
        also have "\<dots> = []" using a by (cases p) (auto simp: parts_def is_absolute_def starts_with_def)
        finally show False using s by simp
      qed
      have "0 < length p" using len sums s0 by linarith
      moreover have "length q \<le> 1 \<and> (q = [] \<or> rest \<noteq> [])"
        using q [symmetric] rest by (simp split: if_splits)
      ultimately show ?thesis using two by fastforce
    next
      case (Cons t kept)
      note q = par [unfolded Cons list.case]
      have "sum_list (map length (t # kept)) \<le> sum_list (map length rest)" "length (t # kept) \<le> length rest"
        using sum_dropWhile [of junk_part rest] length_dropWhile_le [of junk_part rest] unfolding Cons by simp_all
      moreover have "length (join ''/'' (rev (t # kept))) = sum_list (map length (t # kept)) + length kept"
        using length_join [of "rev (t # kept)" "CHR ''/''"] by (simp add: rev_map [symmetric])
      moreover have "q = join ''/'' (rev (t # kept))" using q by simp
      ultimately show ?thesis using len sums lens s0 by (simp only: length_Cons)
    qed
  qed
qed

section \<open>The file system\<close>

text \<open>\<open>Path::exists\<close> and \<open>Path::canonicalize\<close>, whose error text the code replaces by its own.\<close>

record fs =
  fs_exists :: "path \<Rightarrow> bool"
  fs_canonicalize :: "path \<Rightarrow> path option"

section \<open>Paths of the file tools\<close>

definition outside :: "string \<Rightarrow> string" where
  "outside why = ''path escapes workspace: '' @ why"

definition relative_inside :: "path \<Rightarrow> string + unit" where
  "relative_inside p =
     (if is_absolute p then Inl (outside (''absolute paths are not allowed ('' @ p @ '')''))
      else if contains_parent_dir p then Inl (outside (''parent traversal is not allowed ('' @ p @ '')''))
      else Inr ())"

definition canonical_root :: "fs \<Rightarrow> path \<Rightarrow> string + path" where
  "canonical_root f cwd =
     (case fs_canonicalize f cwd of
        Some r \<Rightarrow> Inr r | None \<Rightarrow> Inl (''failed to canonicalize workspace root: '' @ cwd))"

definition resolve_workspace_path :: "fs \<Rightarrow> path \<Rightarrow> path \<Rightarrow> string + path" where
  "resolve_workspace_path f cwd rel =
     (case relative_inside rel of
        Inl e \<Rightarrow> Inl e
      | Inr _ \<Rightarrow>
          (case canonical_root f cwd of
             Inl e \<Rightarrow> Inl e
           | Inr root \<Rightarrow>
               (case fs_canonicalize f (path_join cwd rel) of
                  None \<Rightarrow> Inl (''failed to canonicalize path: '' @ path_join cwd rel)
                | Some r \<Rightarrow> if path_starts_with r root then Inr r else Inl (outside (path_join cwd rel)))))"

text \<open>The loop up to the nearest ancestor that exists.\<close>

function existing_anchor :: "fs \<Rightarrow> path \<Rightarrow> path option" where
  "existing_anchor f p =
     (if fs_exists f p then Some p
      else case path_parent p of None \<Rightarrow> None | Some q \<Rightarrow> existing_anchor f q)"
  by pat_completeness auto

termination
  by (relation "measure (\<lambda>(f, p). length p)") (simp_all add: path_parent_shorter)

declare existing_anchor.simps [simp del]

definition resolve_workspace_path_for_write :: "fs \<Rightarrow> path \<Rightarrow> path \<Rightarrow> string + path" where
  "resolve_workspace_path_for_write f cwd rel =
     (if trim rel = [] then Inl (outside ''empty path is not allowed'')
      else case relative_inside rel of
        Inl e \<Rightarrow> Inl e
      | Inr _ \<Rightarrow>
          (case canonical_root f cwd of
             Inl e \<Rightarrow> Inl e
           | Inr root \<Rightarrow>
               (let candidate = path_join cwd rel
                in if fs_exists f candidate then
                     (case fs_canonicalize f candidate of
                        None \<Rightarrow> Inl (''failed to canonicalize path: '' @ candidate)
                      | Some r \<Rightarrow> if path_starts_with r root then Inr r else Inl (outside candidate))
                   else
                     (case existing_anchor f candidate of
                        None \<Rightarrow> Inl (outside candidate)
                      | Some anchor \<Rightarrow>
                          (case fs_canonicalize f anchor of
                             None \<Rightarrow> Inl (''failed to canonicalize path anchor: '' @ anchor)
                           | Some r \<Rightarrow>
                               if path_starts_with r root then Inr candidate else Inl (outside candidate))))))"

section \<open>Path arguments of a shell command\<close>

definition looks_like_path_arg :: "string \<Rightarrow> bool" where
  "looks_like_path_arg arg \<longleftrightarrow>
     arg = ''.'' \<or> arg = ''..'' \<or> starts_with arg ''./'' \<or> starts_with arg ''../'' \<or> starts_with arg ''/''
     \<or> starts_with arg ''~/'' \<or> str_contains arg ''/''"

definition validate_command_path_arg :: "fs \<Rightarrow> string \<Rightarrow> path \<Rightarrow> string + unit" where
  "validate_command_path_arg f arg cwd =
     (if starts_with arg ''~/'' then Inl (''home directory paths are not allowed ('' @ arg @ '')'')
      else if is_absolute arg then Inl (''absolute paths are not allowed ('' @ arg @ '')'')
      else if contains_parent_dir arg then Inl (''parent traversal is not allowed ('' @ arg @ '')'')
      else
        (let joined = path_join cwd arg
         in if fs_exists f joined then
              (case canonical_root f cwd of
                 Inl e \<Rightarrow> Inl e
               | Inr root \<Rightarrow>
                   (case fs_canonicalize f joined of
                      None \<Rightarrow> Inl (''failed to canonicalize command path: '' @ joined)
                    | Some r \<Rightarrow> if path_starts_with r root then Inr () else Inl (''path escapes workspace ('' @ arg @ '')'')))
            else Inr ()))"

definition is_explicit_cwd_chdir_prefix :: "fs \<Rightarrow> string list \<Rightarrow> path \<Rightarrow> string + bool" where
  "is_explicit_cwd_chdir_prefix f tokens cwd =
     (case tokens of
        t0 # target # t2 # _ \<Rightarrow>
          if t0 \<noteq> ''cd'' \<or> t2 \<noteq> ''&&'' \<or> \<not> is_absolute target then Inr False
          else
            (case canonical_root f cwd of
               Inl e \<Rightarrow> Inl e
             | Inr root \<Rightarrow>
                 (case fs_canonicalize f target of
                    None \<Rightarrow> Inl (''failed to canonicalize chdir target: '' @ target)
                  | Some t \<Rightarrow> Inr (path_components t = path_components root)))
      | _ \<Rightarrow> Inr False)"

fun validate_args :: "fs \<Rightarrow> path \<Rightarrow> string list \<Rightarrow> string + unit" where
  "validate_args f cwd [] = Inr ()"
| "validate_args f cwd (arg # args) =
     (if starts_with arg ''-'' \<or> \<not> looks_like_path_arg arg then validate_args f cwd args
      else case validate_command_path_arg f arg cwd of
             Inl e \<Rightarrow> Inl e | Inr _ \<Rightarrow> validate_args f cwd args)"

text \<open>\<open>split\<close> is \<open>shlex::split\<close>.\<close>

definition ensure_workspace_relative_paths ::
  "(string \<Rightarrow> string list option) \<Rightarrow> fs \<Rightarrow> string \<Rightarrow> path \<Rightarrow> string + unit" where
  "ensure_workspace_relative_paths split f command cwd =
     (case split command of
        None \<Rightarrow> Inl ''invalid shell command syntax''
      | Some tokens \<Rightarrow>
          (case is_explicit_cwd_chdir_prefix f tokens cwd of
             Inl e \<Rightarrow> Inl e
           | Inr b \<Rightarrow> validate_args f cwd (drop (if b then 3 else 1) tokens)))"

section \<open>Lemmas\<close>

lemma relative_inside_ok:
  "relative_inside p = Inr u \<longleftrightarrow> \<not> is_absolute p \<and> \<not> contains_parent_dir p"
  by (simp add: relative_inside_def)

lemma canonical_root_ok: "canonical_root f cwd = Inr r \<longleftrightarrow> fs_canonicalize f cwd = Some r"
  by (simp add: canonical_root_def split: option.splits)

lemma validate_args_ok:
  "validate_args f cwd args = Inr u \<Longrightarrow> arg \<in> set args \<Longrightarrow> \<not> starts_with arg ''-'' \<Longrightarrow>
     looks_like_path_arg arg \<Longrightarrow> validate_command_path_arg f arg cwd = Inr ()"
  by (induction args) (auto split: if_splits sum.splits)

lemma validate_command_path_arg_ok:
  "validate_command_path_arg f arg cwd = Inr u \<longleftrightarrow>
     \<not> starts_with arg ''~/'' \<and> \<not> is_absolute arg \<and> \<not> contains_parent_dir arg
     \<and> (fs_exists f (path_join cwd arg) \<longrightarrow>
          (\<exists>root r. fs_canonicalize f cwd = Some root \<and> fs_canonicalize f (path_join cwd arg) = Some r
             \<and> path_starts_with r root))"
  by (auto simp: validate_command_path_arg_def canonical_root_def Let_def split: sum.splits option.splits if_splits)

text \<open>The ancestors of a path, from itself up.\<close>

inductive ancestor :: "path \<Rightarrow> path \<Rightarrow> bool" where
  self: "ancestor p p"
| up: "path_parent p = Some q \<Longrightarrow> ancestor q r \<Longrightarrow> ancestor p r"

lemma existing_anchor_some:
  "existing_anchor f p = Some a \<Longrightarrow> fs_exists f a \<and> ancestor p a"
proof (induction f p rule: existing_anchor.induct)
  case (1 f p)
  then show ?case
    by (cases "fs_exists f p"; cases "path_parent p")
      (auto simp: existing_anchor.simps [of f p] intro: ancestor.intros)
qed


section \<open>A file system with links\<close>

text \<open>What the record \<open>fs\<close> stands for, on a tree of nodes: names from the root lead to directories, files and
  symbolic links. A path is walked from the root, through at most 40 links.\<close>

datatype node = DirNode | FileNode | LinkNode path

type_synonym tree = "string list \<Rightarrow> node option"

definition dir_at :: "tree \<Rightarrow> string list \<Rightarrow> bool" where
  "dir_at t d \<longleftrightarrow> d = [] \<or> t d = Some DirNode"

text \<open>The links left and the place reached; only a directory has places below it.\<close>

function walk :: "tree \<Rightarrow> nat \<Rightarrow> string list \<Rightarrow> path_component list \<Rightarrow> (nat \<times> string list) option" where
  "walk t n d [] = Some (n, d)"
| "walk t n d (c # cs) =
     (if \<not> dir_at t d then None
      else case c of
             RootDir \<Rightarrow> walk t n [] cs
           | CurDir \<Rightarrow> walk t n d cs
           | ParentDir \<Rightarrow> walk t n (butlast d) cs
           | NormalPart s \<Rightarrow>
               (case t (d @ [s]) of
                  None \<Rightarrow> None
                | Some (LinkNode p) \<Rightarrow> (case n of 0 \<Rightarrow> None | Suc m \<Rightarrow> walk t m d (path_components p @ cs))
                | Some _ \<Rightarrow> walk t n (d @ [s]) cs))"
  by pat_completeness auto

termination
  by (relation "measures [\<lambda>(t, n, d, cs). n, \<lambda>(t, n, d, cs). length cs]") auto

text \<open>Opening a file to write it, and creating it when it is missing: the file that is written.\<close>

function open_for_write :: "tree \<Rightarrow> nat \<Rightarrow> string list \<Rightarrow> path_component list \<Rightarrow> string list option" where
  "open_for_write t n d [] = (if t d = Some FileNode then Some d else None)"
| "open_for_write t n d (c # cs) =
     (if \<not> dir_at t d then None
      else case c of
             RootDir \<Rightarrow> open_for_write t n [] cs
           | CurDir \<Rightarrow> open_for_write t n d cs
           | ParentDir \<Rightarrow> open_for_write t n (butlast d) cs
           | NormalPart s \<Rightarrow>
               (case t (d @ [s]) of
                  None \<Rightarrow> if cs = [] then Some (d @ [s]) else None
                | Some (LinkNode p) \<Rightarrow>
                    (case n of 0 \<Rightarrow> None | Suc m \<Rightarrow> open_for_write t m d (path_components p @ cs))
                | Some _ \<Rightarrow> open_for_write t n (d @ [s]) cs))"
  by pat_completeness auto

termination
  by (relation "measures [\<lambda>(t, n, d, cs). n, \<lambda>(t, n, d, cs). length cs]") auto

definition MAX_LINKS :: nat where
  "MAX_LINKS = 40"

abbreviation walk_path :: "tree \<Rightarrow> path_component list \<Rightarrow> (nat \<times> string list) option" where
  "walk_path t cs \<equiv> walk t MAX_LINKS [] cs"

definition canonical :: "tree \<Rightarrow> path \<Rightarrow> string list option" where
  "canonical t p = map_option snd (walk_path t (path_components p))"

definition show_path :: "string list \<Rightarrow> path" where
  "show_path d = ''/'' @ join ''/'' d"

definition tree_fs :: "tree \<Rightarrow> fs" where
  "tree_fs t = \<lparr>fs_exists = (\<lambda>p. canonical t p \<noteq> None), fs_canonicalize = (\<lambda>p. map_option show_path (canonical t p))\<rparr>"

definition written_file :: "tree \<Rightarrow> path \<Rightarrow> string list option" where
  "written_file t p = open_for_write t MAX_LINKS [] (path_components p)"

text \<open>\<open>mkdir\<close> and \<open>std::fs::create_dir_all\<close>.\<close>

datatype mkdir_result = MkdirOk tree | MkdirNotFound | MkdirFailed

definition mkdir :: "tree \<Rightarrow> path \<Rightarrow> mkdir_result" where
  "mkdir t p =
     (case rev (path_components p) of
        NormalPart s # rest \<Rightarrow>
          (case walk_path t (rev rest) of
             None \<Rightarrow> MkdirNotFound
           | Some (_, d) \<Rightarrow>
               if dir_at t d \<and> t (d @ [s]) = None then MkdirOk (t(d @ [s] \<mapsto> DirNode)) else MkdirFailed)
      | _ \<Rightarrow> MkdirFailed)"

definition is_dir :: "tree \<Rightarrow> path \<Rightarrow> bool" where
  "is_dir t p \<longleftrightarrow> (case canonical t p of Some d \<Rightarrow> dir_at t d | None \<Rightarrow> False)"

function create_dir_all :: "tree \<Rightarrow> path \<Rightarrow> tree option" where
  "create_dir_all t p =
     (if p = [] then Some t
      else case mkdir t p of
             MkdirOk t' \<Rightarrow> Some t'
           | MkdirFailed \<Rightarrow> if is_dir t p then Some t else None
           | MkdirNotFound \<Rightarrow>
               (case path_parent p of
                  None \<Rightarrow> None
                | Some q \<Rightarrow>
                    (case create_dir_all t q of
                       None \<Rightarrow> None
                     | Some t1 \<Rightarrow>
                         (case mkdir t1 p of
                            MkdirOk t' \<Rightarrow> Some t' | _ \<Rightarrow> if is_dir t1 p then Some t1 else None))))"
  by pat_completeness auto

termination
  by (relation "measure (\<lambda>(t, p). length p)") (simp_all add: path_parent_shorter)

declare create_dir_all.simps [simp del]

text \<open>A link whose target does not exist; the nodes of a tree lie in directories.\<close>

definition dangling_link :: "tree \<Rightarrow> path \<Rightarrow> bool" where
  "dangling_link t p \<longleftrightarrow>
     (case rev (path_components p) of
        NormalPart s # rest \<Rightarrow>
          (case walk_path t (rev rest) of
             Some (_, d) \<Rightarrow> (case t (d @ [s]) of Some (LinkNode _) \<Rightarrow> canonical t p = None | _ \<Rightarrow> False)
           | None \<Rightarrow> False)
      | _ \<Rightarrow> False)"

definition tree_ok :: "tree \<Rightarrow> bool" where
  "tree_ok t \<longleftrightarrow> (\<forall>d s. t (d @ [s]) \<noteq> None \<longrightarrow> dir_at t d)"

subsection \<open>Components of joined, parent and canonical paths\<close>

lemma split_char_append: "split_char c (a @ c # b) = split_char c a @ split_char c b"
  by (induction a) (auto split: list.splits)

lemma split_char_absent: "c \<notin> set s \<Longrightarrow> split_char c s = [s]"
  by (induction s) auto

lemma split_char_join: "ps \<noteq> [] \<Longrightarrow> \<forall>p \<in> set ps. c \<notin> set p \<Longrightarrow> split_char c (join [c] ps) = ps"
proof (induction ps)
  case (Cons p ps)
  then show ?case using split_char_append [of c p "join [c] ps"] by (cases ps) (simp_all add: split_char_absent)
qed simp

lemma split_char_parts: "p \<in> set (split_char c s) \<Longrightarrow> c \<notin> set p"
  by (induction s arbitrary: p) (auto split: list.splits if_splits)

definition name_parts :: "string list \<Rightarrow> path_component list" where
  "name_parts parts = map path_part (filter (\<lambda>s. \<not> junk_part s) parts)"

lemma name_parts_append [simp]: "name_parts (xs @ ys) = name_parts xs @ name_parts ys"
  by (simp add: name_parts_def)

lemma path_components_parts:
  "path_components p = (let parts = split_char (CHR ''/'') p
     in (if hd parts = [] \<and> tl parts \<noteq> [] then [RootDir] else if hd parts = ''.'' then [CurDir] else []) @ name_parts parts)"
proof -
  have "is_absolute p \<longleftrightarrow> hd (split_char (CHR ''/'') p) = [] \<and> tl (split_char (CHR ''/'') p) \<noteq> []"
    by (cases p) (auto simp: is_absolute_def starts_with_def split: list.splits)
  then show ?thesis by (simp add: path_components_def name_parts_def Let_def)
qed

definition good_name :: "string \<Rightarrow> bool" where
  "good_name s \<longleftrightarrow> s \<noteq> [] \<and> s \<noteq> ''.'' \<and> s \<noteq> ''..'' \<and> CHR ''/'' \<notin> set s"

lemma good_parts: "NormalPart s \<in> set (path_components p) \<Longrightarrow> good_name s"
  by (auto simp: path_components_def good_name_def junk_part_def path_part_def Let_def dest: split_char_parts
      split: if_splits)

lemma path_components_show:
  assumes "\<forall>s \<in> set d. good_name s"
  shows "path_components (show_path d) = RootDir # map NormalPart d"
proof -
  have "name_parts d = map NormalPart d"
    unfolding name_parts_def using assms
    by (induction d) (auto simp: good_name_def junk_part_def path_part_def)
  moreover have "split_char (CHR ''/'') (show_path d) = [] # (if d = [] then [[]] else d)"
    using split_char_append [of "CHR ''/''" "[]" "join ''/'' d"] split_char_join [of d "CHR ''/''"] assms
    by (simp add: show_path_def good_name_def)
  ultimately show ?thesis
    unfolding path_components_parts Let_def by (simp add: name_parts_def junk_part_def)
qed

lemma path_components_join:
  assumes "is_absolute base" "\<not> is_absolute rel" "\<not> contains_parent_dir rel"
  obtains ns where "path_components (path_join base rel) = path_components base @ map NormalPart ns"
    "\<forall>s \<in> set ns. good_name s"
proof -
  define ns where "ns = filter (\<lambda>s. \<not> junk_part s) (split_char (CHR ''/'') rel)"
  have rel: "\<forall>s \<in> set ns. s \<noteq> ''..''"
    using assms(3) by (auto simp: contains_parent_dir_def path_components_def ns_def path_part_def Let_def image_iff)
  then have "name_parts (split_char (CHR ''/'') rel) = map NormalPart ns"
    by (simp add: name_parts_def ns_def path_part_def)
  moreover have "\<exists>xs. split_char (CHR ''/'') (path_join base rel) = xs @ split_char (CHR ''/'') rel
      \<and> name_parts xs = name_parts (split_char (CHR ''/'') base)"
  proof (cases "last base = CHR ''/''")
    case True
    then obtain b where b: "base = b @ ''/''"
      using assms(1) by (cases base rule: rev_cases) (auto simp: is_absolute_def starts_with_def)
    then show ?thesis
      using assms(1,2) split_char_append [of "CHR ''/''" b rel] split_char_append [of "CHR ''/''" b "[]"]
      by (intro exI [of _ "split_char (CHR ''/'') b"]) (simp add: path_join_def name_parts_def junk_part_def)
  next
    case False
    moreover have "base \<noteq> []" using assms(1) by (auto simp: is_absolute_def starts_with_def)
    ultimately show ?thesis
      using assms(2) split_char_append [of "CHR ''/''" base rel]
      by (intro exI [of _ "split_char (CHR ''/'') base"]) (simp add: path_join_def)
  qed
  then obtain xs where "name_parts (split_char (CHR ''/'') (path_join base rel)) = name_parts (split_char (CHR ''/'') base)
      @ name_parts (split_char (CHR ''/'') rel)" by fastforce
  moreover have "is_absolute (path_join base rel)"
    using assms(1,2) by (auto simp: path_join_def is_absolute_def starts_with_def prefix_def)
  ultimately have "path_components (path_join base rel) = path_components base @ map NormalPart ns"
    using assms(1) by (simp add: path_components_def name_parts_def Let_def)
  moreover have "\<forall>s \<in> set ns. good_name s"
    using good_parts [of _ "path_join base rel"] calculation by auto
  ultimately show thesis by (rule that)
qed

lemma name_parts_dropWhile: "name_parts (dropWhile junk_part xs) = name_parts xs"
  by (induction xs) (simp_all add: name_parts_def)

lemma name_parts_rev: "name_parts (rev xs) = rev (name_parts xs)"
  by (simp add: name_parts_def rev_map rev_filter)

lemma path_components_parent:
  assumes "path_parent p = Some q"
  shows "path_components q = butlast (path_components p)"
proof -
  define parts where "parts = split_char (CHR ''/'') p"
  have ne: "parts \<noteq> []" by (simp add: parts_def)
  define pre where "pre = (if hd parts = [] \<and> tl parts \<noteq> [] then [RootDir] else if hd parts = ''.'' then [CurDir] else [])"
  have p: "path_components p = pre @ name_parts parts"
    by (simp add: path_components_parts parts_def [symmetric] pre_def)
  have abs: "is_absolute p \<longleftrightarrow> hd parts = [] \<and> tl parts \<noteq> []"
    by (cases p) (auto simp: parts_def is_absolute_def starts_with_def split: list.splits)
  note par = assms [unfolded path_parent_def Let_def, folded parts_def]
  show ?thesis
  proof (cases "dropWhile junk_part (rev parts)")
    case Nil
    then have "hd parts = ''.''" "q = []" "\<not> is_absolute p"
      using par unfolding Nil by (simp_all split: if_splits)
    moreover have "name_parts parts = []"
      using name_parts_dropWhile [of "rev parts"] unfolding Nil by (simp add: name_parts_def flip: rev_filter)
    ultimately show ?thesis unfolding p by (simp add: pre_def path_components_parts name_parts_def junk_part_def)
  next
    case (Cons s rest)
    have s: "\<not> junk_part s" using hd_dropWhile [of junk_part "rev parts"] Cons by auto
    have names: "name_parts parts = name_parts (rev rest) @ [path_part s]"
    proof -
      have "name_parts (s # rest) = rev (name_parts parts)"
        using name_parts_dropWhile [of "rev parts"] unfolding Cons by (simp only: name_parts_rev)
      moreover have "name_parts (s # rest) = path_part s # name_parts rest" using s by (simp add: name_parts_def)
      ultimately show ?thesis by (metis name_parts_rev rev.simps(2) rev_rev_ident)
    qed
    obtain js where "rev parts = js @ s # rest" using takeWhile_dropWhile_id [of junk_part "rev parts"] Cons by metis
    then have parts: "parts = rev rest @ s # rev js" by (metis rev_append rev_rev_ident rev.simps(2) append.assoc append.simps)
    have last: "butlast (path_components p) = pre @ name_parts (rev rest)"
      unfolding p names by (simp add: butlast_append)
    show ?thesis
    proof (cases "dropWhile junk_part rest")
      case Nil
      have "name_parts rest = []" using name_parts_dropWhile [of rest] unfolding Nil by (simp add: name_parts_def)
      then have none: "name_parts (rev rest) = []" by (simp add: name_parts_rev)
      have q: "q = (if is_absolute p then ''/'' else if hd parts = ''.'' \<and> rest \<noteq> [] then ''.'' else [])"
        using par unfolding Cons list.case Nil by simp
      have "rest \<noteq> []" if "hd parts = ''.''"
      proof
        assume "rest = []"
        then have "s = ''.''" using that parts by simp
        then show False using s by (simp add: junk_part_def)
      qed
      then show ?thesis unfolding last none q
        by (auto simp: abs pre_def path_components_parts name_parts_def junk_part_def)
    next
      case (Cons t kept)
      have q: "q = join ''/'' (rev (t # kept))"
        using par unfolding \<open>dropWhile junk_part (rev parts) = s # rest\<close> list.case Cons by simp
      have t: "\<not> junk_part t" using hd_dropWhile [of junk_part rest] Cons by auto
      obtain ks where ks: "rest = ks @ t # kept" using takeWhile_dropWhile_id [of junk_part rest] Cons by metis
      have sub: "set (rev (t # kept)) \<subseteq> set parts" using parts ks by auto
      have "split_char (CHR ''/'') q = rev (t # kept)"
        unfolding q by (rule split_char_join) (use sub split_char_parts [of _ "CHR ''/''" p] in \<open>auto simp: parts_def\<close>)
      then have "path_components q = (if hd (rev (t # kept)) = [] \<and> tl (rev (t # kept)) \<noteq> [] then [RootDir]
          else if hd (rev (t # kept)) = ''.'' then [CurDir] else []) @ name_parts (rev (t # kept))"
        by (simp only: path_components_parts Let_def)
      moreover have hd: "hd (rev (t # kept)) = hd parts" by (simp add: parts ks hd_append)
      moreover have "tl (rev (t # kept)) \<noteq> []" if "hd parts = []"
      proof
        assume "tl (rev (t # kept)) = []"
        then have "kept = []" by (cases "rev kept") auto
        then show False using that hd t by (simp add: junk_part_def)
      qed
      moreover have "tl parts \<noteq> []" by (cases "rev kept") (simp_all add: parts ks)
      moreover have "name_parts (rev rest) = name_parts (rev (t # kept))"
        using name_parts_dropWhile [of rest] unfolding Cons by (simp only: name_parts_rev)
      ultimately show ?thesis unfolding last by (auto simp: pre_def)
    qed
  qed
qed

subsection \<open>Walking\<close>

lemma walk_append:
  "walk t n d (xs @ ys) = (case walk t n d xs of None \<Rightarrow> None | Some (m, e) \<Rightarrow> walk t m e ys)"
  by (induction t n d xs rule: walk.induct)
    (auto split: path_component.splits option.splits node.splits nat.splits)

lemma open_walk:
  "walk t n d xs = Some (m, e) \<Longrightarrow> open_for_write t n d (xs @ ys) = open_for_write t m e ys"
  by (induction t n d xs rule: walk.induct)
    (auto split: path_component.splits option.splits node.splits nat.splits if_splits)

lemma open_walk_None: "walk t n d xs = None \<Longrightarrow> ys \<noteq> [] \<Longrightarrow> open_for_write t n d (xs @ ys) = None"
  by (induction t n d xs rule: walk.induct)
    (auto split: path_component.splits option.splits node.splits nat.splits if_splits)

text \<open>The place reached is real: directories lead to it, and it is a directory or a file.\<close>

definition real :: "tree \<Rightarrow> string list \<Rightarrow> bool" where
  "real t d \<longleftrightarrow> (\<forall>k < length d. dir_at t (take k d) \<and> t (take (Suc k) d) \<in> {Some DirNode, Some FileNode})
     \<and> (\<forall>s \<in> set d. good_name s)"

lemma real_Nil [simp]: "real t []"
  by (simp add: real_def)

lemma real_snoc:
  "real t (d @ [s]) \<longleftrightarrow> real t d \<and> dir_at t d \<and> (t (d @ [s]) = Some DirNode \<or> t (d @ [s]) = Some FileNode) \<and> good_name s"
  unfolding real_def length_append_singleton All_less_Suc by auto

lemma real_butlast: "real t d \<Longrightarrow> real t (butlast d)"
  by (cases d rule: rev_cases) (simp_all add: real_snoc)

lemma walk_real:
  "walk t n d cs = Some (m, e) \<Longrightarrow> real t d \<Longrightarrow> \<forall>s. NormalPart s \<in> set cs \<longrightarrow> good_name s \<Longrightarrow> real t e"
proof (induction t n d cs rule: walk.induct)
  case (2 t n d c cs)
  have "\<forall>s. NormalPart s \<in> set (path_components p @ cs) \<longrightarrow> good_name s" for p
    using good_parts [of _ p] "2.prems"(3) by auto
  then show ?case using "2.prems" "2.IH"
    by (auto simp: real_snoc real_butlast simp del: set_append
        split: path_component.splits option.splits node.splits nat.splits if_splits)
qed simp

lemma walk_to_real: "real t d \<Longrightarrow> walk t n [] (map NormalPart d) = Some (n, d)"
  by (induction d rule: rev_induct) (auto simp: real_snoc walk_append)

lemma canonical_real: "canonical t p = Some r \<Longrightarrow> real t r"
  using walk_real [of t MAX_LINKS "[]" "path_components p"] good_parts by (auto simp: canonical_def)

lemma canonical_show: "canonical t p = Some r \<Longrightarrow> path_components (show_path r) = RootDir # map NormalPart r"
  using canonical_real [of t p r] by (auto simp: real_def intro: path_components_show)

lemma show_path_below:
  assumes "canonical t p = Some r" "canonical t base = Some root" "path_starts_with (show_path r) (show_path root)"
  shows "prefix root r"
  using assms canonical_show [OF assms(1)] canonical_show [OF assms(2)]
  by (auto simp: path_starts_with_def prefix_map_rightE dest!: prefix_map_rightE) (metis inj_map_eq_map inj_def path_component.inject)

text \<open>Creating directories leaves the rest of a tree as it is.\<close>

definition grows :: "tree \<Rightarrow> tree \<Rightarrow> bool" where
  "grows t t1 \<longleftrightarrow> (\<forall>d. t1 d = t d \<or> t d = None \<and> t1 d = Some DirNode)"

lemma grows_refl [simp]: "grows t t"
  by (simp add: grows_def)

lemma grows_trans: "grows t t1 \<Longrightarrow> grows t1 t2 \<Longrightarrow> grows t t2"
  unfolding grows_def by metis

lemma grows_Some: "grows t t1 \<Longrightarrow> t d = Some x \<Longrightarrow> t1 d = Some x"
  unfolding grows_def by (metis option.distinct(1))

lemma grows_dir: "grows t t1 \<Longrightarrow> dir_at t d \<Longrightarrow> dir_at t1 d"
  by (auto simp: dir_at_def grows_Some)

lemma grows_walk: "walk t n d cs = Some x \<Longrightarrow> grows t t1 \<Longrightarrow> walk t1 n d cs = Some x"
proof (induction t n d cs rule: walk.induct)
  case (2 t n d c cs)
  then show ?case
    using grows_dir [OF "2.prems"(2)] grows_Some [OF "2.prems"(2)]
    by (auto split: path_component.splits option.splits node.splits nat.splits if_splits)
qed simp

lemma mkdir_grows: "mkdir t p = MkdirOk t' \<Longrightarrow> grows t t'"
  by (auto simp: mkdir_def grows_def split: list.splits path_component.splits option.splits if_splits)

lemma create_dir_all_grows: "create_dir_all t p = Some t' \<Longrightarrow> grows t t'"
proof (induction t p arbitrary: t' rule: create_dir_all.induct)
  case (1 t p)
  then show ?case unfolding create_dir_all.simps [of t p]
    by (auto split: if_splits mkdir_result.splits option.splits dest: mkdir_grows intro: grows_trans)
qed

text \<open>No directory is created below a link that leads nowhere.\<close>

lemma create_dir_all_blocked:
  assumes "walk_path t pre = Some (m, d)" "t (d @ [s]) = Some (LinkNode l)" "walk t m d [NormalPart s] = None"
  shows "path_components p = pre @ NormalPart s # map NormalPart post \<Longrightarrow> create_dir_all t p = None"
proof (induction "length p" arbitrary: p post rule: less_induct)
  case less
  have all: "walk_path t (pre @ NormalPart s # zs) = None" for zs
    using assms(1,3) walk_append [of t m d "[NormalPart s]" zs] by (simp add: walk_append)
  have "path_components [] = []" by code_simp
  then have ne: "p \<noteq> []" using less.prems by auto
  have nodir: "\<not> is_dir t p" using all [of "map NormalPart post"] by (simp add: is_dir_def canonical_def less.prems)
  show ?case
  proof (cases post rule: rev_cases)
    case Nil
    then have "mkdir t p = MkdirFailed" using less.prems assms(1,2) by (simp add: mkdir_def)
    then show ?thesis using ne nodir by (simp add: create_dir_all.simps [of t p])
  next
    case (snoc post' c)
    then have "mkdir t p = MkdirNotFound" using less.prems all by (simp add: mkdir_def)
    moreover have "create_dir_all t q = None" if q: "path_parent p = Some q" for q
      using less.hyps [OF path_parent_shorter [OF q], of post'] path_components_parent [OF q] less.prems snoc
      by (simp add: butlast_append)
    ultimately show ?thesis using ne by (simp add: create_dir_all.simps [of t p] split: option.split)
  qed
qed

lemma open_new:
  "\<forall>zs. t (e @ zs) = None \<or> t (e @ zs) = Some DirNode \<Longrightarrow>
     open_for_write t n e (map NormalPart ns) = Some q \<Longrightarrow> prefix e q"
proof (induction ns arbitrary: e)
  case Nil
  then show ?case using Nil(1) [THEN spec, of "[]"] by (auto split: if_splits)
next
  case (Cons s ns)
  have "t (e @ [s]) = None \<or> t (e @ [s]) = Some DirNode" using Cons.prems(1) by blast
  moreover have "prefix e q" if "open_for_write t n (e @ [s]) (map NormalPart ns) = Some q"
    using Cons.IH [OF _ that] Cons.prems(1) append_prefixD [of e "[s]" q] by simp
  ultimately show ?case using Cons.prems(2) by (auto split: if_splits)
qed

lemma below_absent: "tree_ok t \<Longrightarrow> t d = None \<Longrightarrow> d \<noteq> [] \<Longrightarrow> t (d @ zs) = None"
proof (induction zs rule: rev_induct)
  case (snoc z zs)
  then have "\<not> dir_at t (d @ zs)" by (simp add: dir_at_def)
  then show ?case using snoc.prems(1) unfolding tree_ok_def by (metis append.assoc)
qed simp

text \<open>The nearest existing ancestor is nearest: nothing between it and the path exists.\<close>

lemma anchor_nearest:
  "existing_anchor (tree_fs t) p = Some a \<Longrightarrow>
     \<exists>ys. path_components p = path_components a @ ys \<and> canonical t a \<noteq> None
       \<and> (\<forall>zs. zs \<noteq> [] \<and> prefix zs ys \<longrightarrow> walk_path t (path_components a @ zs) = None)"
proof (induction "length p" arbitrary: p rule: less_induct)
  case less
  show ?case
  proof (cases "fs_exists (tree_fs t) p")
    case True
    then show ?thesis using less.prems by (simp add: existing_anchor.simps [of _ p] tree_fs_def)
  next
    case False
    then obtain q where q: "path_parent p = Some q" "existing_anchor (tree_fs t) q = Some a"
      using less.prems by (auto simp: existing_anchor.simps [of _ p] split: option.splits)
    obtain ys where ys: "path_components q = path_components a @ ys" "canonical t a \<noteq> None"
      "\<forall>zs. zs \<noteq> [] \<and> prefix zs ys \<longrightarrow> walk_path t (path_components a @ zs) = None"
      using less.hyps [OF path_parent_shorter [OF q(1)] q(2)] by blast
    have none: "walk_path t (path_components p) = None"
      using False by (cases "walk_path t (path_components p)") (simp_all add: tree_fs_def canonical_def)
    then have "path_components p \<noteq> []" by auto
    then obtain c where c: "path_components p = path_components a @ ys @ [c]"
      using path_components_parent [OF q(1)] ys(1) by (metis append.assoc append_butlast_last_id)
    show ?thesis by (rule exI [of _ "ys @ [c]"]) (use c ys none in \<open>auto simp: prefix_snoc\<close>)
  qed
qed

subsection \<open>Where the writing tools write\<close>

text \<open>The trees a writing tool opens its file in: as the path was resolved, or after its parent directories were
  created.\<close>

definition prepared :: "tree \<Rightarrow> path \<Rightarrow> tree \<Rightarrow> bool" where
  "prepared t p t1 \<longleftrightarrow>
     t1 = t \<or> (case path_parent p of Some parent \<Rightarrow> create_dir_all t parent = Some t1 | None \<Rightarrow> False)"

lemma prepared_grows: "prepared t p t1 \<Longrightarrow> grows t t1"
  by (auto simp: prepared_def split: option.splits intro: create_dir_all_grows)

lemma existing_target_inside:
  assumes "canonical t p = Some r" "canonical t cwd = Some root" "path_starts_with (show_path r) (show_path root)"
    and "grows t t1" "written_file t1 (show_path r) = Some q"
  shows "prefix root q"
proof -
  have "walk t1 MAX_LINKS [] (RootDir # map NormalPart r) = Some (MAX_LINKS, r)"
    using grows_walk [OF walk_to_real [OF canonical_real [OF assms(1)]] assms(4)] by (simp add: dir_at_def)
  then have "written_file t1 (show_path r) = (if t1 r = Some FileNode then Some r else None)"
    using open_walk [of t1 MAX_LINKS "[]" "RootDir # map NormalPart r" MAX_LINKS r "[]"]
    by (simp add: written_file_def canonical_show [OF assms(1)])
  then show ?thesis using assms(5) show_path_below [OF assms(1-3)] by (simp split: if_splits)
qed

lemma new_target_inside:
  assumes t: "tree_ok t" and missing: "canonical t p = None"
    and comps: "path_components p = path_components cwd @ map NormalPart ns"
    and cwd: "canonical t cwd = Some root" and anchor: "existing_anchor (tree_fs t) p = Some a"
    and a: "canonical t a = Some r" "prefix root r"
    and t1: "prepared t p t1" and q: "written_file t1 p = Some q"
  shows "prefix root q \<or> dangling_link t p"
proof -
  have grows: "grows t t1" by (rule prepared_grows [OF t1])
  obtain ys where ys: "path_components p = path_components a @ ys"
    "\<forall>zs. zs \<noteq> [] \<and> prefix zs ys \<longrightarrow> walk_path t (path_components a @ zs) = None"
    using anchor_nearest [OF anchor] by blast
  have exists: "walk_path t (path_components cwd) \<noteq> None" using cwd by (auto simp: canonical_def)
  have "\<exists>ks. ys = map NormalPart ks"
  proof -
    have "path_components a @ ys = path_components cwd @ map NormalPart ns" using ys(1) comps by simp
    then obtain us where us: "path_components a = path_components cwd @ us \<and> us @ ys = map NormalPart ns
        \<or> path_components a @ us = path_components cwd \<and> ys = us @ map NormalPart ns"
      unfolding append_eq_append_conv2 by blast
    show ?thesis
    proof (cases "us = []")
      case True
      then show ?thesis using us by auto
    next
      case False
      have "\<not> (path_components a @ us = path_components cwd \<and> ys = us @ map NormalPart ns)"
        using ys(2) [THEN spec, of us] False exists by auto
      then have "us @ ys = map NormalPart ns" using us by blast
      then show ?thesis by (metis map_eq_append_conv)
    qed
  qed
  then obtain ks where ks: "ys = map NormalPart ks" by blast
  obtain m where m: "walk_path t (path_components a) = Some (m, r)" using a(1) by (auto simp: canonical_def)
  have "walk_path t (path_components p) = None" using missing by (simp add: canonical_def)
  then obtain s post where sp: "ks = s # post" using ys(1) ks m by (cases ks) auto
  have stuck: "walk t m r [NormalPart s] = None"
    using ys(2) [THEN spec, of "[NormalPart s]"] m by (simp add: ks sp walk_append)
  have opened: "open_for_write t1 m r (NormalPart s # map NormalPart post) = Some q"
    using q open_walk [OF grows_walk [OF m grows]] by (simp add: written_file_def ys(1) ks sp)
  have dir: "dir_at t r"
  proof (rule ccontr)
    assume no: "\<not> dir_at t r"
    then have "t r = Some FileNode"
      using canonical_real [OF a(1)] by (cases r rule: rev_cases) (auto simp: real_snoc dir_at_def)
    then have "\<not> dir_at t1 r" using grows_Some [OF grows] no by (auto simp: dir_at_def)
    then show False using opened by simp
  qed
  show ?thesis
  proof (cases "t (r @ [s])")
    case None
    have "t1 (r @ [s] @ zs) = None \<or> t1 (r @ [s] @ zs) = Some DirNode" for zs
      using below_absent [OF t None, of zs] grows by (auto simp: grows_def) (metis option.distinct(1))
    then have "prefix (r @ [s]) q" if "open_for_write t1 m (r @ [s]) (map NormalPart post) = Some q"
      using open_new [OF _ that] by simp
    moreover have "t1 (r @ [s]) = None \<or> t1 (r @ [s]) = Some DirNode"
      using grows None by (metis grows_def)
    ultimately have "prefix (r @ [s]) q" using opened by (auto split: if_splits)
    then show ?thesis using a(2) append_prefixD by (metis prefix_order.trans)
  next
    case (Some x)
    then obtain l where l: "t (r @ [s]) = Some (LinkNode l)" using stuck dir by (cases x) auto
    show ?thesis
    proof (cases post rule: rev_cases)
      case Nil
      then show ?thesis using m l missing by (simp add: dangling_link_def ys(1) ks sp)
    next
      case (snoc post' c)
      have "create_dir_all t parent = None" if "path_parent p = Some parent" for parent
        using create_dir_all_blocked [OF m l stuck, of parent post'] path_components_parent [OF that] snoc
        by (simp add: ys(1) ks sp butlast_append)
      then have "t1 = t" using t1 by (auto simp: prepared_def split: option.splits)
      then have "open_for_write t1 m r (NormalPart s # map NormalPart post) = None"
        using open_walk_None [OF stuck, of "map NormalPart post"] snoc by simp
      then show ?thesis using opened by simp
    qed
  qed
qed

section \<open>Properties\<close>

text \<open>C20: where a writing tool writes. On a file system of directories, files and symbolic links: when the path it
  was given is accepted, then the path is relative and has no parent component, and the file that is opened for
  writing, created or not, before or after the missing parent directories are created, whatever links lead to it,
  lies in the directory the workspace resolves to. The one exception is a path that is itself a link to something
  that does not exist: it is not looked through, and \<open>dangling_link_escapes\<close> shows such a write outside.\<close>

theorem write_target_inside:
  assumes tree: "tree_ok t" and cwd: "is_absolute cwd"
    and path: "resolve_workspace_path_for_write (tree_fs t) cwd rel = Inr p"
    and opened: "prepared t p t1" "written_file t1 p = Some q"
  shows "\<not> is_absolute rel \<and> \<not> contains_parent_dir rel
    \<and> (\<exists>root. canonical t cwd = Some root \<and> (prefix root q \<or> dangling_link t p))"
proof -
  let ?c = "path_join cwd rel"
  have rel: "\<not> is_absolute rel" "\<not> contains_parent_dir rel" "relative_inside rel = Inr ()"
    using path by (auto simp: resolve_workspace_path_for_write_def relative_inside_ok split: if_splits sum.splits)
  obtain root where root: "canonical t cwd = Some root"
    using path by (auto simp: resolve_workspace_path_for_write_def canonical_root_def tree_fs_def
        split: if_splits sum.splits option.splits)
  then have croot: "canonical_root (tree_fs t) cwd = Inr (show_path root)" by (simp add: canonical_root_ok tree_fs_def)
  obtain ns where ns: "path_components ?c = path_components cwd @ map NormalPart ns"
    using path_components_join [OF cwd rel(1,2)] by metis
  have "prefix root q \<or> dangling_link t p"
  proof (cases "canonical t ?c")
    case (Some r)
    then have "p = show_path r" "path_starts_with (show_path r) (show_path root)"
      using path croot rel by (auto simp: resolve_workspace_path_for_write_def tree_fs_def Let_def split: if_splits)
    then show ?thesis
      using existing_target_inside [OF Some root _ prepared_grows [OF opened(1)]] opened(2) by simp
  next
    case None
    then obtain a r where a: "existing_anchor (tree_fs t) ?c = Some a" "canonical t a = Some r"
        "path_starts_with (show_path r) (show_path root)" and p: "p = ?c"
      using path croot rel
      by (auto simp: resolve_workspace_path_for_write_def tree_fs_def Let_def split: if_splits option.splits)
    show ?thesis
      using new_target_inside [OF tree None ns root a(1,2) show_path_below [OF a(2) root a(3)]] opened unfolding p by blast
  qed
  then show ?thesis using rel root by blast
qed

text \<open>A workspace with a link inside, and one whose link points at a missing file outside.\<close>

definition linked_tree :: tree where
  "linked_tree = [[''ws''] \<mapsto> DirNode, [''ws'', ''src''] \<mapsto> DirNode, [''ws'', ''link''] \<mapsto> LinkNode ''src'',
     [''etc''] \<mapsto> DirNode, [''ws'', ''out''] \<mapsto> LinkNode ''/etc/new'']"

lemma linked_tree_ok: "tree_ok linked_tree"
proof -
  have "d = [] \<or> d = [''ws'']" if "linked_tree (d @ [s]) \<noteq> None" for d s
  proof -
    have "d @ [s] \<in> {[''ws''], [''ws'', ''src''], [''ws'', ''link''], [''etc''], [''ws'', ''out'']}"
      using that by (auto simp: linked_tree_def split: if_splits)
    then show ?thesis by (auto simp: append_eq_Cons_conv)
  qed
  then show ?thesis unfolding tree_ok_def by (auto simp: dir_at_def linked_tree_def)
qed

theorem write_target_inside_witness:
  "prefix [''ws''] [''ws'', ''src'', ''sub'', ''a.txt'']
   \<and> resolve_workspace_path_for_write (tree_fs linked_tree) ''/ws'' ''link/sub/a.txt'' = Inr ''/ws/link/sub/a.txt''"
proof -
  have path: "resolve_workspace_path_for_write (tree_fs linked_tree) ''/ws'' ''link/sub/a.txt'' = Inr ''/ws/link/sub/a.txt''"
    by code_simp
  have "map_option (\<lambda>t1. written_file t1 ''/ws/link/sub/a.txt'') (create_dir_all linked_tree ''/ws/link/sub'')
      = Some (Some [''ws'', ''src'', ''sub'', ''a.txt''])" by code_simp
  then obtain t1 where t1: "create_dir_all linked_tree ''/ws/link/sub'' = Some t1"
      "written_file t1 ''/ws/link/sub/a.txt'' = Some [''ws'', ''src'', ''sub'', ''a.txt'']" by auto
  have "path_parent ''/ws/link/sub/a.txt'' = Some ''/ws/link/sub''" by code_simp
  then have "prepared linked_tree ''/ws/link/sub/a.txt'' t1" using t1(1) by (simp add: prepared_def)
  moreover have "is_absolute ''/ws''" "\<not> dangling_link linked_tree ''/ws/link/sub/a.txt''"
    "canonical linked_tree ''/ws'' = Some [''ws'']" by code_simp+
  ultimately show ?thesis using write_target_inside [OF linked_tree_ok _ path _ t1(2)] path by auto
qed

text \<open>The link \<open>out\<close> of the workspace points at a file outside that does not exist: the path is accepted, and writing
  it creates that file.\<close>

lemma dangling_link_escapes:
  "resolve_workspace_path_for_write (tree_fs linked_tree) ''/ws'' ''out'' = Inr ''/ws/out''
   \<and> written_file linked_tree ''/ws/out'' = Some [''etc'', ''new'']"
  by code_simp

text \<open>A workspace \<open>/ws\<close> in which only the root exists.\<close>

definition bare_fs :: fs where
  "bare_fs = \<lparr>fs_exists = (\<lambda>p. p = ''/ws'' \<or> p = ''/''), fs_canonicalize = Some\<rparr>"

text \<open>the path check of the sandbox knows only the words of the command: every word after the command
  name that looks like a path is relative, has no parent component, and resolves inside the workspace if
  it exists. A path the shell itself builds, from a variable here, passes whatever it names.\<close>

theorem command_paths_checked:
  assumes "ensure_workspace_relative_paths split f command cwd = Inr u" "split command = Some tokens"
    and "i < length tokens" "1 \<le> i" "take 1 tokens = [''cd''] \<Longrightarrow> 3 \<le> i"
    and "looks_like_path_arg (tokens ! i)" "\<not> starts_with (tokens ! i) ''-''"
  shows "\<not> is_absolute (tokens ! i) \<and> \<not> contains_parent_dir (tokens ! i)
    \<and> (fs_exists f (path_join cwd (tokens ! i)) \<longrightarrow>
         (\<exists>root r. fs_canonicalize f cwd = Some root \<and> fs_canonicalize f (path_join cwd (tokens ! i)) = Some r
            \<and> path_starts_with r root))
    \<and> ensure_workspace_relative_paths (\<lambda>_. Some [''cat'', ''$HOME/.ssh/id_rsa'']) bare_fs ''cat $HOME/.ssh/id_rsa'' ''/ws''
        = Inr ()"
proof -
  have gap: "ensure_workspace_relative_paths (\<lambda>_. Some [''cat'', ''$HOME/.ssh/id_rsa'']) bare_fs
      ''cat $HOME/.ssh/id_rsa'' ''/ws'' = Inr ()" by code_simp
  obtain b where b: "is_explicit_cwd_chdir_prefix f tokens cwd = Inr b"
    and v: "validate_args f cwd (drop (if b then 3 else 1) tokens) = Inr u"
    using assms(1,2) by (auto simp: ensure_workspace_relative_paths_def split: sum.splits)
  have "b \<Longrightarrow> take 1 tokens = [''cd'']"
    using b by (auto simp: is_explicit_cwd_chdir_prefix_def split: list.splits if_splits)
  then have "(if b then 3 else 1) \<le> i" using assms(4,5) by auto
  then have "tokens ! i \<in> set (drop (if b then 3 else 1) tokens)"
    using assms(3) by (auto simp: in_set_conv_nth intro!: exI [of _ "i - (if b then 3 else 1)"])
  from validate_args_ok [OF v this assms(7,6)]
  show ?thesis using gap by (simp add: validate_command_path_arg_ok)
qed

theorem command_paths_checked_witness:
  "\<not> is_absolute ''src/a.txt'' \<and> \<not> contains_parent_dir ''src/a.txt''"
proof -
  have "ensure_workspace_relative_paths (\<lambda>_. Some [''cat'', ''src/a.txt'']) bare_fs ''cat src/a.txt'' ''/ws'' = Inr ()"
    "looks_like_path_arg ''src/a.txt''" "\<not> starts_with ''src/a.txt'' ''-''"
    by code_simp+
  then show ?thesis
    using command_paths_checked [of "\<lambda>_. Some [''cat'', ''src/a.txt'']" bare_fs "''cat src/a.txt''" "''/ws''" "()"
        "[''cat'', ''src/a.txt'']" 1] by simp
qed

end
