(* ===== verification/Sandbox.thy ===== *)
theory Sandbox
  imports Orchestrator Workspace ShellOutput
begin

text \<open>
  Running a shell command: \<open>openjax-core/src/sandbox/mod.rs\<close> (\<open>execute_shell\<close>), the backends and their
  choice (\<open>sandbox/runtime\<close>), the approval a degraded run needs (\<open>sandbox/degrade.rs\<close>), the shell
  lookup (\<open>tools/shell.rs\<close>) and the shell tool (\<open>tools/handlers/shell.rs\<close>). Starting a process, looking
  up an executable, the environment variables and the file system are the fields of an environment
  over a world \<open>'w\<close>.
\<close>

section \<open>The outside\<close>

text \<open>How a started command ends: its exit code (none when killed by a signal) and its two outputs, a
  failure to start it, or the timeout.\<close>

datatype spawn_outcome = Exited "int option" string string | SpawnFailed string | Elapsed

text \<open>\<open>sx_spawn\<close> gets the program, its arguments, the directory (if the code sets one) and the timeout.
  \<open>sx_probe\<close> is how the health probe of the macOS backend ended when it was run (it has no timeout): a
  \<open>OnceLock\<close> keeps it.\<close>

record 'w sandbox_env =
  sx_os :: target_os
  sx_var :: "string \<Rightarrow> string option"
  sx_which :: "string \<Rightarrow> string + path"
  sx_spawn :: "path \<Rightarrow> string list \<Rightarrow> path option \<Rightarrow> nat \<Rightarrow> 'w \<Rightarrow> spawn_outcome \<times> 'w"
  sx_probe :: "string + int option \<times> string \<times> string"
  sx_fs :: "'w \<Rightarrow> fs"
  sx_split :: "string \<Rightarrow> string list option"
  sx_orch :: "'w orch_env"

section \<open>Settings\<close>

datatype backend_preference = PreferAuto | PreferLinuxNative | PreferMacosSeatbelt | PreferNone

datatype degrade_policy = AskThenAllow | DegradeDeny

record runtime_settings =
  rs_backend_preference :: backend_preference
  rs_degrade_policy :: degrade_policy
  rs_audit_enabled :: bool

definition env_or :: "string option \<Rightarrow> string \<Rightarrow> string" where
  "env_or v d = (case v of Some s \<Rightarrow> s | None \<Rightarrow> d)"

definition backend_preference_from_env :: "string option \<Rightarrow> backend_preference" where
  "backend_preference_from_env v =
     (let s = to_ascii_lowercase (env_or v ''auto'')
      in if s = ''linux_native'' then PreferLinuxNative else if s = ''macos_seatbelt'' then PreferMacosSeatbelt
         else if s = ''none'' then PreferNone else PreferAuto)"

definition degrade_policy_from_env :: "string option \<Rightarrow> degrade_policy" where
  "degrade_policy_from_env v =
     (if to_ascii_lowercase (env_or v ''ask_then_allow'') = ''deny'' then DegradeDeny else AskThenAllow)"

definition runtime_settings_from_env :: "(string \<Rightarrow> string option) \<Rightarrow> runtime_settings" where
  "runtime_settings_from_env var =
     \<lparr>rs_backend_preference = backend_preference_from_env (var ''OPENJAX_SANDBOX_BACKEND''),
      rs_degrade_policy = degrade_policy_from_env (var ''OPENJAX_SANDBOX_DEGRADE_POLICY''),
      rs_audit_enabled = (case var ''OPENJAX_SANDBOX_AUDIT'' of
         Some v \<Rightarrow> v \<notin> {''0'', ''false'', ''FALSE''} | None \<Rightarrow> True)\<rparr>"

section \<open>Shells\<close>

definition executable_name :: "shell_type \<Rightarrow> string" where
  "executable_name t = (case t of Bash \<Rightarrow> ''bash'' | Zsh \<Rightarrow> ''zsh'' | Sh \<Rightarrow> ''sh'' | PowerShell \<Rightarrow> ''pwsh'')"

definition login_flag :: "shell_type \<Rightarrow> string" where
  "login_flag t = (case t of Bash \<Rightarrow> ''--login'' | Zsh \<Rightarrow> ''-l'' | Sh \<Rightarrow> ''-l'' | PowerShell \<Rightarrow> ''-Login'')"

definition shell_type_debug :: "shell_type \<Rightarrow> string" where
  "shell_type_debug t = (case t of Bash \<Rightarrow> ''Bash'' | Zsh \<Rightarrow> ''Zsh'' | Sh \<Rightarrow> ''Sh'' | PowerShell \<Rightarrow> ''PowerShell'')"

definition fallback_candidates :: "shell_type \<Rightarrow> shell_type list" where
  "fallback_candidates t =
     (case t of Zsh \<Rightarrow> [Zsh, Bash, Sh] | Bash \<Rightarrow> [Bash, Zsh, Sh] | Sh \<Rightarrow> [Sh, Bash, Zsh]
      | PowerShell \<Rightarrow> [PowerShell])"

record shell =
  sh_type :: shell_type
  sh_path :: path

fun first_shell :: "(string \<Rightarrow> string + path) \<Rightarrow> shell_type list \<Rightarrow> string option \<Rightarrow> string option + shell" where
  "first_shell which [] last_err = Inl last_err"
| "first_shell which (c # cs) last_err =
     (case which (executable_name c) of
        Inr p \<Rightarrow> Inr \<lparr>sh_type = c, sh_path = p\<rparr>
      | Inl e \<Rightarrow> first_shell which cs (Some (executable_name c @ '' not found: '' @ e)))"

definition shell_new :: "(string \<Rightarrow> string + path) \<Rightarrow> shell_type \<Rightarrow> string + shell" where
  "shell_new which t =
     (case first_shell which (fallback_candidates t) None of
        Inr sh \<Rightarrow> Inr sh
      | Inl e \<Rightarrow> Inl (''no usable shell found for '' @ shell_type_debug t @ '': ''
          @ (case e of Some s \<Rightarrow> s | None \<Rightarrow> ''unknown reason'')))"

definition derive_exec_args :: "shell \<Rightarrow> string \<Rightarrow> bool option \<Rightarrow> string list" where
  "derive_exec_args sh command use_login =
     (if (case use_login of Some b \<Rightarrow> b | None \<Rightarrow> True)
      then [login_flag (sh_type sh), ''-c'', command] else [''-c'', command])"

definition wrap_command_for_shell :: "shell \<Rightarrow> string \<Rightarrow> string" where
  "wrap_command_for_shell sh command =
     (if sh_type sh \<in> {Bash, Zsh} then ''set -o pipefail; '' @ command else command)"

section \<open>Requests, results and backends\<close>

record exec_request =
  xr_command :: string
  xr_cwd :: path
  xr_timeout_ms :: nat
  xr_capabilities :: "sandbox_capability list"
  xr_shell :: shell
  xr_policy_trace :: policy_trace
  xr_preferred_backend :: "sandbox_backend option"

record exec_output =
  xs_exit_code :: int
  xs_stdout :: string
  xs_stderr :: string
  xs_backend_used :: sandbox_backend
  xs_degrade_reason :: "string option"
  xs_policy_trace :: policy_trace

record backend_unavailable =
  bu_backend :: sandbox_backend
  bu_reason :: string

definition exit_status :: "int option \<Rightarrow> int" where
  "exit_status c = (case c of Some n \<Rightarrow> n | None \<Rightarrow> -1)"

definition run_without_sandbox ::
  "'w sandbox_env \<Rightarrow> exec_request \<Rightarrow> 'w \<Rightarrow> (string + int \<times> string \<times> string) \<times> 'w" where
  "run_without_sandbox env r w =
     (let args = derive_exec_args (xr_shell r) (wrap_command_for_shell (xr_shell r) (xr_command r)) (Some False);
          (res, w') = sx_spawn env (sh_path (xr_shell r)) args (Some (xr_cwd r)) (xr_timeout_ms r) w
      in (case res of
            Elapsed \<Rightarrow> Inl (''command timed out after '' @ dec_of_nat (xr_timeout_ms r) @ ''ms'')
          | SpawnFailed e \<Rightarrow> Inl (''failed to execute command: '' @ e)
          | Exited c out err \<Rightarrow> Inr (exit_status c, out, err), w'))"

definition looks_like_linux_sandbox_bootstrap_error :: "string \<Rightarrow> bool" where
  "looks_like_linux_sandbox_bootstrap_error stderr =
     contains_any (to_ascii_lowercase stderr)
       [''operation not permitted'', ''creating new namespace'', ''unshare'', ''user namespace'']"

definition bwrap_args :: "exec_request \<Rightarrow> string list" where
  "bwrap_args r =
     [''--die-with-parent'', ''--unshare-pid'', ''--proc'', ''/proc'', ''--dev'', ''/dev'', ''--ro-bind'', ''/'', ''/'',
      ''--bind'', xr_cwd r, xr_cwd r, ''--chdir'', xr_cwd r]
     @ (if Network \<in> set (xr_capabilities r) then [] else [''--unshare-net''])
     @ [sh_path (xr_shell r)]
     @ derive_exec_args (xr_shell r) (wrap_command_for_shell (xr_shell r) (xr_command r)) (Some False)"

definition exec_output_of :: "exec_request \<Rightarrow> sandbox_backend \<Rightarrow> int \<times> string \<times> string \<Rightarrow> exec_output" where
  "exec_output_of r b c = (let (ec, out, err) = c in
     \<lparr>xs_exit_code = ec, xs_stdout = out, xs_stderr = err, xs_backend_used = b, xs_degrade_reason = None,
      xs_policy_trace = xr_policy_trace r\<rparr>)"

definition execute_linux_native ::
  "'w sandbox_env \<Rightarrow> exec_request \<Rightarrow> 'w \<Rightarrow> (string + exec_output) \<times> 'w" where
  "execute_linux_native env r w =
     (if sx_os env \<noteq> Linux then (Inl ''linux_native backend is unavailable on this platform'', w)
      else case sx_which env ''bwrap'' of
        Inl _ \<Rightarrow> (Inl ''bwrap is required for linux_native backend but not found'', w)
      | Inr bwrap \<Rightarrow>
          (let (res, w') = sx_spawn env bwrap (bwrap_args r) None (xr_timeout_ms r) w
           in (case res of
                 Elapsed \<Rightarrow> Inl (''command timed out after '' @ dec_of_nat (xr_timeout_ms r) @ ''ms'')
               | SpawnFailed e \<Rightarrow> Inl (''failed to execute bwrap command: '' @ e)
               | Exited c out err \<Rightarrow>
                   if exit_status c \<noteq> 0 \<and> looks_like_linux_sandbox_bootstrap_error err
                   then Inl (''linux_native backend setup failed: '' @ err)
                   else Inr (exec_output_of r LinuxNative (exit_status c, out, err)), w')))"

definition classify_macos_seatbelt_error :: "string \<Rightarrow> string" where
  "classify_macos_seatbelt_error stderr =
     (let lower = to_ascii_lowercase stderr; normalized = trim stderr
      in if str_contains lower ''sandbox_apply'' \<and> str_contains lower ''operation not permitted''
         then ''macos_seatbelt_apply_denied: sandbox apply not permitted by current runtime ('' @ normalized @ '')''
         else if str_contains lower ''invalid profile'' \<or> str_contains lower ''parse error''
         then ''macos_seatbelt_profile_invalid: sandbox profile rejected ('' @ normalized @ '')''
         else if str_contains lower ''operation not permitted''
         then ''macos_seatbelt_permission_denied: sandbox execution denied ('' @ normalized @ '')''
         else ''macos_seatbelt_runtime_error: '' @ normalized)"

definition probe_macos_seatbelt_health :: "(string \<Rightarrow> string + path) \<Rightarrow> string + int option \<times> string \<times> string \<Rightarrow> string option" where
  "probe_macos_seatbelt_health which probe =
     (case which ''sandbox-exec'' of
        Inl _ \<Rightarrow> Some ''macos_seatbelt_missing_binary: sandbox-exec is not available in PATH''
      | Inr _ \<Rightarrow>
          (case probe of
             Inl e \<Rightarrow> Some (''macos_seatbelt_probe_spawn_failed: failed to run sandbox-exec probe: '' @ e)
           | Inr (c, out, err) \<Rightarrow>
               if c = Some 0 then None
               else Some (classify_macos_seatbelt_error err @ ''; probe_runner=/bin/sh -c true; probe_exit=''
                      @ dec_of_int (exit_status c))))"

definition quote_char :: char where
  "quote_char = CHR 0x22"

definition render_macos_profile :: "path \<Rightarrow> bool \<Rightarrow> string" where
  "render_macos_profile cwd allow_network =
     (let lit = replace_char quote_char [CHR 0x5C, quote_char] cwd
      in ''(version 1)'' @ newline @ ''(deny default)'' @ newline @ ''(allow process*)'' @ newline
         @ ''(allow file-read*)'' @ newline
         @ ''(allow file-write* (subpath '' @ [quote_char] @ lit @ [quote_char] @ ''))'' @ newline
         @ ''(allow file-read* (subpath '' @ [quote_char] @ lit @ [quote_char] @ ''))''
         @ (if allow_network then newline @ ''(allow network*)'' else []))"

definition wrap_command_for_runner :: "string \<Rightarrow> string \<Rightarrow> string" where
  "wrap_command_for_runner runner command = command"

definition seatbelt_args :: "exec_request \<Rightarrow> string list" where
  "seatbelt_args r =
     [''-p'', render_macos_profile (xr_cwd r) (Network \<in> set (xr_capabilities r)), ''/bin/sh'', ''-c'',
      wrap_command_for_runner ''/bin/sh'' (xr_command r)]"

definition execute_macos_seatbelt ::
  "'w sandbox_env \<Rightarrow> exec_request \<Rightarrow> 'w \<Rightarrow> (string + exec_output) \<times> 'w" where
  "execute_macos_seatbelt env r w =
     (if sx_os env \<noteq> Macos then (Inl ''macos_seatbelt backend is unavailable on this platform'', w)
      else case probe_macos_seatbelt_health (sx_which env) (sx_probe env) of
        Some e \<Rightarrow> (Inl (''macos_seatbelt_unavailable_cached: '' @ e), w)
      | None \<Rightarrow>
          (case sx_which env ''sandbox-exec'' of
             Inl _ \<Rightarrow> (Inl (''macos_seatbelt_missing_binary: ''
                         @ ''sandbox-exec is required for macos_seatbelt backend but not found''), w)
           | Inr sandbox_exec \<Rightarrow>
               (let (res, w') = sx_spawn env sandbox_exec (seatbelt_args r) None (xr_timeout_ms r) w
                in (case res of
                      Elapsed \<Rightarrow> Inl (''macos_seatbelt_timeout: command timed out after ''
                                   @ dec_of_nat (xr_timeout_ms r) @ ''ms'')
                    | SpawnFailed e \<Rightarrow>
                        Inl (''macos_seatbelt_spawn_failed: failed to execute sandbox-exec command: '' @ e)
                    | Exited c out err \<Rightarrow>
                        if exit_status c \<noteq> 0 \<and> trim out = [] \<and> trim err = [] then
                          Inl (''macos_seatbelt_unknown_nonzero: backend returned non-zero exit ''
                               @ ''without stderr/stdout (exit_code='' @ dec_of_int (exit_status c) @ '')'')
                        else if exit_status c \<noteq> 0 then Inl (classify_macos_seatbelt_error err)
                        else Inr (exec_output_of r MacosSeatbelt (exit_status c, out, err)), w'))))"

definition select_backend :: "target_os \<Rightarrow> exec_request \<Rightarrow> backend_preference \<Rightarrow> sandbox_backend" where
  "select_backend os r preference =
     (case xr_preferred_backend r of
        Some b \<Rightarrow> b
      | None \<Rightarrow>
          (case preference of
             PreferLinuxNative \<Rightarrow> LinuxNative | PreferMacosSeatbelt \<Rightarrow> MacosSeatbelt
           | PreferNone \<Rightarrow> NoneEscalated
           | PreferAuto \<Rightarrow> (case os of Linux \<Rightarrow> LinuxNative | Macos \<Rightarrow> MacosSeatbelt | OtherOs \<Rightarrow> NoneEscalated)))"

definition unavailable :: "sandbox_backend \<Rightarrow> (string + 'a) \<times> 'w \<Rightarrow> (backend_unavailable + 'a) \<times> 'w" where
  "unavailable b rw = (let (r, w) = rw
     in (case r of Inr x \<Rightarrow> Inr x | Inl e \<Rightarrow> Inl \<lparr>bu_backend = b, bu_reason = e\<rparr>, w))"

definition execute_in_sandbox ::
  "'w sandbox_env \<Rightarrow> exec_request \<Rightarrow> runtime_settings \<Rightarrow> 'w \<Rightarrow> (backend_unavailable + exec_output) \<times> 'w" where
  "execute_in_sandbox env r settings w =
     (case select_backend (sx_os env) r (rs_backend_preference settings) of
        NoneEscalated \<Rightarrow>
          unavailable NoneEscalated
            (let (res, w') = run_without_sandbox env r w
             in (map_sum id (exec_output_of r NoneEscalated) res, w'))
      | LinuxNative \<Rightarrow> unavailable LinuxNative (execute_linux_native env r w)
      | MacosSeatbelt \<Rightarrow> unavailable MacosSeatbelt (execute_macos_seatbelt env r w))"

section \<open>Command hash\<close>

text \<open>FNV-1a over the bytes of the text, printed as 16 hexadecimal digits.\<close>

definition utf8_bytes :: "string \<Rightarrow> nat list" where
  "utf8_bytes s = concat (map (\<lambda>c. let n = Prelude.code c in
     if n < 128 then [n] else [192 + n div 64, 128 + n mod 64]) s)"

definition fnv_step :: "u64 \<Rightarrow> nat \<Rightarrow> u64" where
  "fnv_step h b = xor h (of_nat b) * 0x100000001b3"

definition hex16 :: "u64 \<Rightarrow> string" where
  "hex16 h = map (\<lambda>i. hex_digit (unat h div 16 ^ (15 - i) mod 16)) [0..<16]"

definition fnv1a64 :: "string \<Rightarrow> string" where
  "fnv1a64 text = hex16 (foldl fnv_step 0xcbf29ce484222325 (utf8_bytes text))"

definition summarize_capabilities :: "sandbox_capability list \<Rightarrow> string" where
  "summarize_capabilities caps = join '','' (btree_set (map capability_as_str caps))"

section \<open>Approval of a degraded run\<close>

definition query_policy_center_for_degrade :: "tool_invocation \<Rightarrow> string \<Rightarrow> decision_kind" where
  "query_policy_center_for_degrade iv command =
     (case tc_policy_runtime (ti_turn iv) of
        None \<Rightarrow> Escalate
      | Some runtime \<Rightarrow>
          (let h = runtime_handle runtime; tags = extract_shell_risk_tags command False
           in dec_kind (handle_decide h
                \<lparr>in_tool_name = ti_tool_name iv, in_action = ''exec'', in_session_id = policy_session (ti_turn iv),
                 in_actor = Some ''user'', in_resource = Some (tc_cwd (ti_turn iv)),
                 in_capabilities = [''process_exec''],
                 in_risk_tags = (if ''sandbox_degrade'' \<in> set tags then tags else tags @ [''sandbox_degrade'']),
                 in_policy_version = snap_version h\<rparr>)))"

definition degrade_human_reason :: "string \<Rightarrow> string \<Rightarrow> string" where
  "degrade_human_reason backend reason =
     ''sandbox backend unavailable; fallback requires explicit approval ('' @ backend @ '': '' @ reason @ '')''"

definition degrade_requested ::
  "tool_invocation \<Rightarrow> string \<Rightarrow> string \<Rightarrow> string \<Rightarrow> string \<Rightarrow> decision_kind \<Rightarrow> event" where
  "degrade_requested iv command backend reason request_id kind = ApprovalRequested
     \<lparr>ar_turn_id = tc_turn_id (ti_turn iv), ar_request_id = request_id, ar_target = command,
      ar_reason = degrade_human_reason backend reason,
      ar_policy_version = None, ar_matched_rule_id = None, ar_tool_name = Some (ti_tool_name iv),
      ar_command_preview = Some (truncate_preview command 180), ar_risk_tags = [''sandbox_degrade''],
      ar_sandbox_backend = Some backend, ar_degrade_reason = Some reason,
      ar_approval_kind = Some (if kind = Escalate then Escalation else Normal)\<rparr>"

definition request_degrade_approval ::
  "'w orch_env \<Rightarrow> tool_invocation \<Rightarrow> string \<Rightarrow> string \<Rightarrow> string \<Rightarrow> 'w
     \<Rightarrow> (function_call_error + bool) \<times> event list \<times> 'w" where
  "request_degrade_approval env iv command backend reason w =
     (let (request_id, w1) = oe_uuid env w; kind = query_policy_center_for_degrade iv command
      in if kind = Deny then
           (Inl (Internal (''policy denied sandbox degrade for command (hash: '' @ fnv1a64 command @ '')'')), [], w1)
         else
           (let requested = degrade_requested iv command backend reason request_id kind;
                resolved = (\<lambda>b. ApprovalResolved (tc_turn_id (ti_turn iv)) request_id b);
                (answer, w2) = oe_ask env
                  \<lparr>rq_request_id = request_id, rq_target = command,
                   rq_reason = degrade_human_reason backend reason\<rparr> w1
            in case answer of
                 HandlerError e \<Rightarrow> (Inl (Internal e), send iv [requested], w2)
               | TimedOut \<Rightarrow> (Inl (timed_out_error (oe_timeout_ms env) request_id),
                               send iv [requested, resolved False], w2)
               | Answered b \<Rightarrow> (Inr b, send iv [requested, resolved b], w2)))"

section \<open>Executing a shell command\<close>

definition shell_sandbox_mode :: "sandbox_policy \<Rightarrow> bool" where
  "shell_sandbox_mode p \<longleftrightarrow> p \<in> {ReadOnly, WorkspaceWrite}"

definition risky_capability :: "sandbox_capability \<Rightarrow> bool" where
  "risky_capability c \<longleftrightarrow> c \<in> {FsWrite, EnvWrite, Network}"

definition shell_trace_decision :: "sandbox_capability list \<Rightarrow> trace_decision" where
  "shell_trace_decision caps = (if list_ex risky_capability caps then AskApproval else TraceAllow)"

definition shell_request :: "'w sandbox_env \<Rightarrow> tool_invocation \<Rightarrow> string \<Rightarrow> nat \<Rightarrow> shell \<Rightarrow> exec_request" where
  "shell_request env iv command timeout_ms sh =
     (let caps = detect_capabilities command
      in \<lparr>xr_command = command, xr_cwd = tc_cwd (ti_turn iv), xr_timeout_ms = timeout_ms, xr_capabilities = caps,
          xr_shell = sh,
          xr_policy_trace = \<lparr>pt_decision = shell_trace_decision caps, pt_reason = ''sandbox execution policy'',
            pt_risk_tags = [], pt_capabilities = caps\<rparr>,
          xr_preferred_backend = preferred_backend (sx_os env) (tc_sandbox_policy (ti_turn iv))\<rparr>)"

definition requires_degrade_approval :: "exec_request \<Rightarrow> command_class \<Rightarrow> bool" where
  "requires_degrade_approval r cls \<longleftrightarrow>
     pt_decision (xr_policy_trace r) \<noteq> TraceAllow \<or> cls = ProcessObserve
     \<or> list_ex risky_capability (pt_capabilities (xr_policy_trace r))"

text \<open>The run outside the sandbox, reported with the reason for it.\<close>

definition degraded_run ::
  "'w sandbox_env \<Rightarrow> exec_request \<Rightarrow> string \<Rightarrow> 'w \<Rightarrow> (function_call_error + exec_output) \<times> 'w" where
  "degraded_run env r reason w =
     (let (res, w') = run_without_sandbox env r w
      in (map_sum Internal (\<lambda>c. (exec_output_of r NoneEscalated c)\<lparr>xs_degrade_reason := Some reason\<rparr>) res, w'))"

text \<open>The run outside the sandbox once the user approves; \<open>refused\<close> is the error when not.\<close>

definition approved_degraded_run ::
  "'w sandbox_env \<Rightarrow> tool_invocation \<Rightarrow> exec_request \<Rightarrow> string \<Rightarrow> string \<Rightarrow> string \<Rightarrow> string \<Rightarrow> 'w
     \<Rightarrow> (function_call_error + exec_output) \<times> event list \<times> 'w" where
  "approved_degraded_run env iv r backend ask_reason reason refused w =
     (case request_degrade_approval (sx_orch env) iv (xr_command r) backend ask_reason w of
        (Inl e, evs, w1) \<Rightarrow> (Inl e, evs, w1)
      | (Inr False, evs, w1) \<Rightarrow> (Inl (ApprovalRejected refused), evs, w1)
      | (Inr True, evs, w1) \<Rightarrow> (let (res, w2) = degraded_run env r reason w1 in (res, evs, w2)))"

definition backend_failure ::
  "'w sandbox_env \<Rightarrow> tool_invocation \<Rightarrow> runtime_settings \<Rightarrow> exec_request \<Rightarrow> backend_unavailable \<Rightarrow> 'w
     \<Rightarrow> (function_call_error + exec_output) \<times> event list \<times> 'w" where
  "backend_failure env iv settings r e w =
     (case rs_degrade_policy settings of
        DegradeDeny \<Rightarrow>
          (Inl (Internal (''sandbox backend `'' @ backend_as_str (bu_backend e) @ ''` unavailable: '' @ bu_reason e)), [], w)
      | AskThenAllow \<Rightarrow>
          (let reason = backend_as_str (bu_backend e) @ '': '' @ bu_reason e
           in if requires_degrade_approval r (classify_command (xr_command r)) then
                approved_degraded_run env iv r (backend_as_str (bu_backend e)) (bu_reason e) reason
                  ''command rejected by user after sandbox degradation warning'' w
              else (let (res, w') = degraded_run env r reason w in (res, [], w'))))"

definition runtime_status :: "exec_output \<Rightarrow> bool \<times> string option" where
  "runtime_status out = evaluate_runtime_status (xs_exit_code out) (xs_stderr out)"

text \<open>A process listing that the sandbox refused at run time is offered to run outside it.\<close>

definition runtime_denial ::
  "'w sandbox_env \<Rightarrow> tool_invocation \<Rightarrow> runtime_settings \<Rightarrow> exec_request \<Rightarrow> exec_output \<Rightarrow> 'w
     \<Rightarrow> (function_call_error + exec_output) \<times> event list \<times> 'w" where
  "runtime_denial env iv settings r out w =
     (if \<not> fst (runtime_status out) \<and> classify_command (xr_command r) = ProcessObserve
         \<and> xs_backend_used out \<noteq> NoneEscalated
      then
        (case rs_degrade_policy settings of
           DegradeDeny \<Rightarrow>
             (Inl (Internal (''sandbox runtime denied command under `'' @ backend_as_str (xs_backend_used out)
                @ ''` and degrade policy is deny: '' @ trim (xs_stderr out))), [], w)
         | AskThenAllow \<Rightarrow>
             (let reason = backend_as_str (xs_backend_used out) @ '' runtime denied: '' @ trim (xs_stderr out)
              in approved_degraded_run env iv r (backend_as_str (xs_backend_used out)) reason reason
                   ''command rejected by user after sandbox runtime denial'' w))
      else (Inr out, [], w))"

definition shell_tool_output :: "string \<Rightarrow> exec_output \<Rightarrow> tool_output" where
  "shell_tool_output command out =
     (let (allowed, deny_reason) = runtime_status out;
          cls = classify_shell_result (xs_exit_code out) (xs_stdout out) (xs_stderr out);
          md = \<lparr>sm_result_class = result_class_as_str cls, sm_backend = backend_as_str (xs_backend_used out),
                sm_exit_code = xs_exit_code out,
                sm_policy_decision = trace_decision_debug (pt_decision (xs_policy_trace out)),
                sm_runtime_allowed = allowed, sm_degrade_reason = xs_degrade_reason out,
                sm_runtime_deny_reason = deny_reason\<rparr>
      in OutFunction (BodyText (shell_display_output command md (xs_stdout out) (xs_stderr out)))
           (Some (cls \<noteq> Failure)))"

definition run_request ::
  "'w sandbox_env \<Rightarrow> tool_invocation \<Rightarrow> runtime_settings \<Rightarrow> exec_request \<Rightarrow> 'w
     \<Rightarrow> (function_call_error + exec_output) \<times> event list \<times> 'w" where
  "run_request env iv settings r w =
     (let (res, w1) = execute_in_sandbox env r settings w;
          (res1, evs1, w2) = (case res of
             Inr out \<Rightarrow> (Inr out, [], w1) | Inl e \<Rightarrow> backend_failure env iv settings r e w1)
      in case res1 of
           Inl e \<Rightarrow> (Inl e, evs1, w2)
         | Inr out \<Rightarrow>
             (let (res2, evs2, w3) = runtime_denial env iv settings r out w2 in (res2, evs1 @ evs2, w3)))"

definition execute_shell ::
  "'w sandbox_env \<Rightarrow> tool_invocation \<Rightarrow> string \<Rightarrow> nat \<Rightarrow> 'w
     \<Rightarrow> (function_call_error + tool_output) \<times> event list \<times> 'w" where
  "execute_shell env iv command timeout_ms w =
     (case (if shell_sandbox_mode (tc_sandbox_policy (ti_turn iv))
            then ensure_workspace_relative_paths (sx_split env) (sx_fs env w) command (tc_cwd (ti_turn iv))
            else Inr ()) of
        Inl e \<Rightarrow> (Inl (Internal (''command blocked by workspace_write sandbox policy: '' @ e)), [], w)
      | Inr _ \<Rightarrow>
          (case shell_new (sx_which env) (tc_shell_type (ti_turn iv)) of
             Inl e \<Rightarrow> (Inl (Internal e), [], w)
           | Inr sh \<Rightarrow>
               (let (res, evs, w') = run_request env iv (runtime_settings_from_env (sx_var env))
                       (shell_request env iv command timeout_ms sh) w
                in (map_sum id (shell_tool_output command) res, evs, w'))))"

section \<open>The shell tool\<close>

record shell_command_args =
  sa_cmd :: string
  sa_timeout_ms :: nat

definition shell_default_timeout :: nat where
  "shell_default_timeout = 30000"

definition skill_trigger_guidance :: string where
  "skill_trigger_guidance =
     ''selected skill should be executed as workflow steps, not as a shell executable trigger string''"

definition skill_trigger_output :: "string \<Rightarrow> string" where
  "skill_trigger_output command =
     ''result_class=failure'' @ newline @ ''command='' @ command @ newline @ ''exit_code=127'' @ newline
     @ ''backend=none'' @ newline @ ''degrade_reason=none'' @ newline @ ''policy_decision=Allow'' @ newline
     @ ''runtime_allowed=false'' @ newline @ ''runtime_deny_reason=skill_trigger_not_shell_command'' @ newline
     @ ''guidance='' @ skill_trigger_guidance @ newline @ ''stdout:'' @ newline @ newline
     @ ''stderr:'' @ newline @ skill_trigger_guidance"

definition is_skill_trigger :: "string \<Rightarrow> bool" where
  "is_skill_trigger command \<longleftrightarrow>
     (let t = trim command
      in starts_with t ''/'' \<and> \<not> list_ex is_ws t \<and> list_all (\<lambda>c. c \<noteq> CHR ''/'') (tl t))"

text \<open>\<open>parse\<close> is the deserialiser derived for \<open>ShellCommandArgs\<close>.\<close>

definition shell_handle ::
  "'w sandbox_env \<Rightarrow> (string \<Rightarrow> string + shell_command_args) \<Rightarrow> 'w handle" where
  "shell_handle env parse iv w =
     (case ti_payload iv of
        PFunction arguments \<Rightarrow>
          (case parse arguments of
             Inl e \<Rightarrow> (Inl (Internal (''failed to parse arguments: '' @ e)), [], w)
           | Inr args \<Rightarrow>
               if tc_prevent_shell_skill_trigger (ti_turn iv) \<and> is_skill_trigger (sa_cmd args)
               then (Inr (OutFunction (BodyText (skill_trigger_output (sa_cmd args))) (Some False)), [], w)
               else execute_shell env iv (sa_cmd args) (sa_timeout_ms args) w)
      | _ \<Rightarrow> (Inl (RespondToModel ''shell handler received unsupported payload''), [], w))"

definition shell_handler :: "'w sandbox_env \<Rightarrow> (string \<Rightarrow> string + shell_command_args) \<Rightarrow> 'w handler" where
  "shell_handler env parse = \<lparr>h_kind = KFunction, h_handle = shell_handle env parse\<rparr>"

section \<open>Lemmas\<close>

text \<open>The environment that also logs the programs it starts, with their arguments and directory.\<close>

type_synonym start = "path \<times> string list \<times> path option"

definition logging_orch :: "'w orch_env \<Rightarrow> (start list \<times> 'w) orch_env" where
  "logging_orch o' =
     \<lparr>oe_uuid = (\<lambda>(l, w). let (u, w') = oe_uuid o' w in (u, l, w')),
      oe_ask = (\<lambda>q (l, w). let (a, w') = oe_ask o' q w in (a, l, w')),
      oe_timeout_ms = oe_timeout_ms o', oe_from_str = oe_from_str o'\<rparr>"

definition logging :: "'w sandbox_env \<Rightarrow> (start list \<times> 'w) sandbox_env" where
  "logging env =
     \<lparr>sx_os = sx_os env, sx_var = sx_var env, sx_which = sx_which env,
      sx_spawn = (\<lambda>p args dir t (l, w). let (r, w') = sx_spawn env p args dir t w in (r, l @ [(p, args, dir)], w')),
      sx_probe = sx_probe env, sx_fs = (\<lambda>(l, w). sx_fs env w), sx_split = sx_split env,
      sx_orch = logging_orch (sx_orch env)\<rparr>"

text \<open>A start of the request inside one of the two sandboxes.\<close>

definition sandboxed_start :: "'w sandbox_env \<Rightarrow> exec_request \<Rightarrow> start \<Rightarrow> bool" where
  "sandboxed_start env r s \<longleftrightarrow>
     (case s of (p, args, dir) \<Rightarrow>
        sx_os env = Linux \<and> sx_which env ''bwrap'' = Inr p \<and> args = bwrap_args r
        \<or> sx_os env = Macos \<and> sx_which env ''sandbox-exec'' = Inr p \<and> args = seatbelt_args r)"

definition user_approved :: "event list \<Rightarrow> bool" where
  "user_approved evs \<longleftrightarrow> list_ex (\<lambda>e. case e of ApprovalResolved _ _ b \<Rightarrow> b | _ \<Rightarrow> False) evs"

lemma logging_simps [simp]:
  "sx_os (logging env) = sx_os env" "sx_var (logging env) = sx_var env" "sx_which (logging env) = sx_which env"
  "sx_probe (logging env) = sx_probe env" "sx_split (logging env) = sx_split env"
  "sx_fs (logging env) (l, w) = sx_fs env w"
  "sx_spawn (logging env) p args dir t (l, w)
   = (fst (sx_spawn env p args dir t w), l @ [(p, args, dir)], snd (sx_spawn env p args dir t w))"
  "sx_orch (logging env) = logging_orch (sx_orch env)"
  by (simp_all add: logging_def case_prod_beta Let_def)

lemma logging_orch_simps [simp]:
  "oe_uuid (logging_orch o') (l, w) = (fst (oe_uuid o' w), l, snd (oe_uuid o' w))"
  "oe_ask (logging_orch o') q (l, w) = (fst (oe_ask o' q w), l, snd (oe_ask o' q w))"
  "oe_timeout_ms (logging_orch o') = oe_timeout_ms o'" "oe_from_str (logging_orch o') = oe_from_str o'"
  by (simp_all add: logging_orch_def case_prod_beta Let_def)

text \<open>Each backend starts at most one program.\<close>

lemma sandbox_starts:
  assumes "execute_in_sandbox (logging env) r settings (l, w) = (res, l', w')"
    and "select_backend (sx_os env) r (rs_backend_preference settings) \<noteq> NoneEscalated"
  shows "\<exists>ss. l' = l @ ss \<and> length ss \<le> 1 \<and> (\<forall>s \<in> set ss. sandboxed_start env r s)"
  using assms
  by (auto simp: execute_in_sandbox_def unavailable_def execute_linux_native_def execute_macos_seatbelt_def
      sandboxed_start_def Let_def split: sandbox_backend.splits sum.splits option.splits if_splits prod.splits)

lemma degraded_starts:
  "degraded_run (logging env) r reason (l, w) = (res, l', w') \<Longrightarrow> \<exists>s. l' = l @ [s]"
  by (auto simp: degraded_run_def run_without_sandbox_def Let_def split: prod.splits)

lemma approval_frame:
  assumes "request_degrade_approval (logging_orch o') iv command backend reason (l, w) = (res, evs, l', w')"
    and "tc_event_sink (ti_turn iv)"
  shows "l' = l \<and> (res = Inr True \<longrightarrow> user_approved evs)"
  using assms
  by (auto simp: request_degrade_approval_def user_approved_def degrade_requested_def send_def Let_def split: if_splits approval_answer.splits)

lemma approved_starts:
  assumes "approved_degraded_run (logging env) iv r backend a reason refused (l, w) = (res, evs, l', w')"
    and "tc_event_sink (ti_turn iv)"
  shows "l' = l \<or> (\<exists>s. l' = l @ [s]) \<and> user_approved evs"
proof -
  obtain res1 evs1 l1 w1 where q: "request_degrade_approval (logging_orch (sx_orch env)) iv (xr_command r) backend a (l, w)
      = (res1, evs1, l1, w1)" by (metis prod_cases4)
  note fr = approval_frame [OF q assms(2)]
  show ?thesis using assms(1) q fr degraded_starts [of env r reason l1 w1]
    by (auto simp: approved_degraded_run_def Let_def split: sum.splits bool.splits prod.splits)
qed

lemma degraded_backend:
  "degraded_run env r reason w = (Inr out, w') \<Longrightarrow> xs_backend_used out = NoneEscalated"
  by (auto simp: degraded_run_def exec_output_of_def Let_def map_sum_def split: prod.splits sum.splits)

lemma approved_backend:
  "approved_degraded_run env iv r backend a reason refused w = (Inr out, evs, w') \<Longrightarrow> xs_backend_used out = NoneEscalated"
  by (auto simp: approved_degraded_run_def Let_def dest!: degraded_backend split: prod.splits sum.splits bool.splits)

lemma failure_starts:
  assumes "backend_failure (logging env) iv settings r e (l, w) = (res, evs, l', w')"
    and "tc_event_sink (ti_turn iv)"
  shows "(\<exists>us. l' = l @ us \<and> length us \<le> 1
      \<and> (us \<noteq> [] \<longrightarrow> rs_degrade_policy settings = AskThenAllow
           \<and> (user_approved evs \<or> \<not> requires_degrade_approval r (classify_command (xr_command r)))))
    \<and> (\<forall>out. res = Inr out \<longrightarrow> xs_backend_used out = NoneEscalated)"
proof (cases "rs_degrade_policy settings")
  case DegradeDeny
  then show ?thesis using assms by (auto simp: backend_failure_def)
next
  case AskThenAllow
  let ?reason = "backend_as_str (bu_backend e) @ '': '' @ bu_reason e"
  show ?thesis
  proof (cases "requires_degrade_approval r (classify_command (xr_command r))")
    case True
    then have run: "approved_degraded_run (logging env) iv r (backend_as_str (bu_backend e)) (bu_reason e) ?reason
        ''command rejected by user after sandbox degradation warning'' (l, w) = (res, evs, l', w')"
      using assms(1) AskThenAllow by (simp add: backend_failure_def Let_def)
    show ?thesis using approved_starts [OF run assms(2)] approved_backend AskThenAllow run by fastforce
  next
    case False
    then obtain w2 where run: "degraded_run (logging env) r ?reason (l, w) = (res, l', w')"
      using assms(1) AskThenAllow by (auto simp: backend_failure_def Let_def split: prod.splits)
    show ?thesis using degraded_starts [OF run] degraded_backend run AskThenAllow False by fastforce
  qed
qed

lemma denial_starts:
  assumes "runtime_denial (logging env) iv settings r out (l, w) = (res, evs, l', w')"
    and "tc_event_sink (ti_turn iv)"
  shows "l' = l \<or> xs_backend_used out \<noteq> NoneEscalated \<and> (\<exists>s. l' = l @ [s])
           \<and> rs_degrade_policy settings = AskThenAllow \<and> user_approved evs"
proof (cases "\<not> fst (runtime_status out) \<and> classify_command (xr_command r) = ProcessObserve
    \<and> xs_backend_used out \<noteq> NoneEscalated \<and> rs_degrade_policy settings = AskThenAllow")
  case True
  let ?reason = "backend_as_str (xs_backend_used out) @ '' runtime denied: '' @ trim (xs_stderr out)"
  have run: "approved_degraded_run (logging env) iv r (backend_as_str (xs_backend_used out)) ?reason ?reason
      ''command rejected by user after sandbox runtime denial'' (l, w) = (res, evs, l', w')"
    using assms(1) True by (simp add: runtime_denial_def Let_def)
  show ?thesis using approved_starts [OF run assms(2)] True by blast
next
  case False
  then show ?thesis using assms(1) by (auto simp: runtime_denial_def Let_def split: if_splits degrade_policy.splits)
qed

lemma user_approved_append [simp]: "user_approved (xs @ ys) \<longleftrightarrow> user_approved xs \<or> user_approved ys"
  by (simp add: user_approved_def)

text \<open>What a request starts: at most one sandboxed program, then at most one outside the sandbox.\<close>

lemma request_starts:
  assumes run: "run_request (logging env) iv settings r (l, w) = (res, evs, l', w')"
    and sink: "tc_event_sink (ti_turn iv)"
    and sel: "select_backend (sx_os env) r (rs_backend_preference settings) \<noteq> NoneEscalated"
  obtains ss us where "l' = l @ ss @ us" "length ss \<le> 1" "length us \<le> 1" "\<forall>s \<in> set ss. sandboxed_start env r s"
    "us \<noteq> [] \<Longrightarrow> rs_degrade_policy settings = AskThenAllow
       \<and> (user_approved evs \<or> \<not> requires_degrade_approval r (classify_command (xr_command r)))"
proof -
  obtain res1 l1 w1 where ex: "execute_in_sandbox (logging env) r settings (l, w) = (res1, l1, w1)"
    by (metis prod_cases3)
  obtain ss where ss: "l1 = l @ ss" "length ss \<le> 1" "\<forall>s \<in> set ss. sandboxed_start env r s"
    using sandbox_starts [OF ex sel] by blast
  show thesis
  proof (cases res1)
    case (Inl e)
    obtain res2 evs2 l2 w2 where f: "backend_failure (logging env) iv settings r e (l1, w1) = (res2, evs2, l2, w2)"
      by (metis prod_cases4)
    obtain us where us: "l2 = l1 @ us" "length us \<le> 1"
      "us \<noteq> [] \<Longrightarrow> rs_degrade_policy settings = AskThenAllow
         \<and> (user_approved evs2 \<or> \<not> requires_degrade_approval r (classify_command (xr_command r)))"
      and none: "\<And>out. res2 = Inr out \<Longrightarrow> xs_backend_used out = NoneEscalated"
      using failure_starts [OF f sink] by blast
    have "l' = l2 \<and> (user_approved evs2 \<longrightarrow> user_approved evs)"
    proof (cases res2)
      case (Inl e2)
      then show ?thesis using run ex f \<open>res1 = Inl e\<close> by (simp add: run_request_def)
    next
      case (Inr out)
      then have "runtime_denial (logging env) iv settings r out (l2, w2) = (Inr out, [], l2, w2)"
        using none by (simp add: runtime_denial_def)
      then show ?thesis using run ex f \<open>res1 = Inl e\<close> Inr by (simp add: run_request_def)
    qed
    then show thesis using that [of ss us] ss us by auto
  next
    case (Inr out)
    obtain res3 evs3 l3 w3 where d: "runtime_denial (logging env) iv settings r out (l1, w1) = (res3, evs3, l3, w3)"
      by (metis prod_cases4)
    have "l' = l3" "evs = evs3" using run ex d Inr by (simp_all add: run_request_def)
    then show thesis using denial_starts [OF d sink] that [of ss] ss by fastforce
  qed
qed

section \<open>Example data\<close>

definition example_shell_call :: tool_invocation where
  "example_shell_call = \<lparr>ti_tool_name = ''shell'', ti_call_id = ''c'', ti_payload = PFunction ''{}'',
     ti_turn = example_turn\<rparr>"

text \<open>A Linux host on which everything run by \<open>bwrap\<close> runs into the timeout.\<close>

definition slow_sandbox :: "unit sandbox_env" where
  "slow_sandbox =
     \<lparr>sx_os = Linux, sx_var = Map.empty, sx_which = (\<lambda>n. Inr (''/bin/'' @ n)),
      sx_spawn = (\<lambda>p args dir t w. (if p = ''/bin/bwrap'' then Elapsed else Exited (Some 0) ''done'' [], w)),
      sx_probe = Inl [], sx_fs = (\<lambda>_. \<lparr>fs_exists = (\<lambda>_. False), fs_canonicalize = Some\<rparr>),
      sx_split = (\<lambda>s. Some (split_whitespace s)), sx_orch = example_env (Answered False)\<rparr>"

section \<open>Properties\<close>

text \<open>C18: with the workspace sandbox on, a shell call starts at most one program in the sandbox and then at
  most one outside it; outside only if the degrade policy is to ask, and then either the user approved
  it during this call, or the command shows no writing, environment or network capability and does not
  observe processes.\<close>

theorem unsandboxed_start_justified:
  assumes mode: "shell_sandbox_mode (tc_sandbox_policy (ti_turn iv))" and os: "sx_os env \<noteq> OtherOs"
    and sink: "tc_event_sink (ti_turn iv)"
    and run: "execute_shell (logging env) iv command t ([], w) = (res, evs, log, w')"
  shows "\<exists>ss us. log = ss @ us \<and> length ss \<le> 1 \<and> length us \<le> 1
    \<and> (\<forall>s \<in> set ss. \<exists>sh. sandboxed_start env (shell_request env iv command t sh) s)
    \<and> (us \<noteq> [] \<longrightarrow> degrade_policy_from_env (sx_var env ''OPENJAX_SANDBOX_DEGRADE_POLICY'') = AskThenAllow
         \<and> (user_approved evs
            \<or> list_all (\<lambda>c. \<not> risky_capability c) (detect_capabilities command)
              \<and> classify_command command \<noteq> ProcessObserve))"
proof (cases "ensure_workspace_relative_paths (sx_split env) (sx_fs env w) command (tc_cwd (ti_turn iv))")
  case (Inl e)
  then show ?thesis using run mode by (auto simp: execute_shell_def)
next
  case (Inr u)
  note paths = this
  show ?thesis
  proof (cases "shell_new (sx_which env) (tc_shell_type (ti_turn iv))")
    case (Inl e)
    then show ?thesis using run mode paths by (auto simp: execute_shell_def)
  next
    case (Inr sh)
    let ?r = "shell_request env iv command t sh" and ?st = "runtime_settings_from_env (sx_var env)"
    have req: "shell_request (logging env) iv command t sh = ?r" by (simp add: shell_request_def)
    obtain res1 where rr: "run_request (logging env) iv ?st ?r ([], w) = (res1, evs, log, w')"
      using run mode paths Inr by (auto simp: execute_shell_def req split: prod.splits)
    have "select_backend (sx_os env) ?r (rs_backend_preference ?st) \<noteq> NoneEscalated"
      using mode os by (cases "sx_os env")
        (auto simp: select_backend_def shell_request_def preferred_backend_def shell_sandbox_mode_def Let_def)
    from request_starts [OF rr sink this] obtain ss us where
      *: "log = [] @ ss @ us" "length ss \<le> 1" "length us \<le> 1" "\<forall>s \<in> set ss. sandboxed_start env ?r s"
      "us \<noteq> [] \<Longrightarrow> rs_degrade_policy ?st = AskThenAllow
         \<and> (user_approved evs \<or> \<not> requires_degrade_approval ?r (classify_command (xr_command ?r)))" by blast
    have cond: "\<not> requires_degrade_approval ?r (classify_command (xr_command ?r)) \<Longrightarrow>
        list_all (\<lambda>c. \<not> risky_capability c) (detect_capabilities command) \<and> classify_command command \<noteq> ProcessObserve"
      by (auto simp: requires_degrade_approval_def shell_request_def list_ex_iff list_all_iff Let_def)
    show ?thesis using * cond by (intro exI [of _ ss] exI [of _ us]) (auto simp: runtime_settings_from_env_def)
  qed
qed

theorem unsandboxed_start_justified_witness:
  "\<exists>ss us. fst (snd (snd (execute_shell (logging slow_sandbox) example_shell_call ''touch x'' 5 ([], ())))) = ss @ us
     \<and> length ss \<le> 1
     \<and> (us \<noteq> [] \<longrightarrow> user_approved (fst (snd (execute_shell (logging slow_sandbox) example_shell_call ''touch x'' 5 ([], ())))))"
proof -
  obtain res evs log w' where run: "execute_shell (logging slow_sandbox) example_shell_call ''touch x'' 5 ([], ())
      = (res, evs, log, w')" by (metis prod_cases4)
  have "shell_sandbox_mode (tc_sandbox_policy (ti_turn example_shell_call))" "sx_os slow_sandbox \<noteq> OtherOs"
    "tc_event_sink (ti_turn example_shell_call)"
    by (simp_all add: example_shell_call_def example_turn_def shell_sandbox_mode_def slow_sandbox_def)
  note * = unsandboxed_start_justified [OF this run]
  have "\<not> list_all (\<lambda>c. \<not> risky_capability c) (detect_capabilities ''touch x'')" by code_simp
  then show ?thesis using * run by auto
qed

text \<open>C19: the gap in that rule. A command in which no capability is recognised, such as any script or
  interpreter call, runs a second time outside the sandbox, without any question and without an event,
  when its run in the sandbox exceeds the timeout.\<close>

theorem timeout_escapes_sandbox:
  assumes "shell_sandbox_mode (tc_sandbox_policy (ti_turn iv))" "sx_os env = Linux"
    and "ensure_workspace_relative_paths (sx_split env) (sx_fs env w) command (tc_cwd (ti_turn iv)) = Inr ()"
    and "shell_new (sx_which env) (tc_shell_type (ti_turn iv)) = Inr sh" "sx_which env ''bwrap'' = Inr bwrap"
    and "degrade_policy_from_env (sx_var env ''OPENJAX_SANDBOX_DEGRADE_POLICY'') = AskThenAllow"
    and "list_all (\<lambda>c. \<not> risky_capability c) (detect_capabilities command)"
    and "classify_command command \<noteq> ProcessObserve"
    and "sx_spawn env bwrap (bwrap_args (shell_request env iv command t sh)) None t w = (Elapsed, w1)"
  shows "case execute_shell (logging env) iv command t ([], w) of (res, evs, log, w2) \<Rightarrow>
    evs = [] \<and> log = [(bwrap, bwrap_args (shell_request env iv command t sh), None),
                      (sh_path sh, [''-c'', wrap_command_for_shell sh command], Some (tc_cwd (ti_turn iv)))]"
proof -
  let ?r = "shell_request env iv command t sh" and ?st = "runtime_settings_from_env (sx_var env)"
  let ?args = "[''-c'', wrap_command_for_shell sh command]"
  have req: "shell_request (logging env) iv command t sh = ?r" by (simp add: shell_request_def)
  have r: "xr_command ?r = command" "xr_shell ?r = sh" "xr_cwd ?r = tc_cwd (ti_turn iv)" "xr_timeout_ms ?r = t"
    "xr_preferred_backend ?r = Some LinuxNative"
    using assms(1,2) by (auto simp: shell_request_def preferred_backend_def shell_sandbox_mode_def Let_def)
  have free: "\<not> requires_degrade_approval ?r (classify_command command)"
    using assms(7,8) by (auto simp: requires_degrade_approval_def shell_request_def shell_trace_decision_def
        list_all_iff list_ex_iff Let_def)
  define why where "why = ''command timed out after '' @ dec_of_nat t @ ''ms''"
  define first where "first = [(bwrap, bwrap_args ?r, None :: path option)]"
  have ex: "execute_in_sandbox (logging env) ?r ?st ([], w)
      = (Inl \<lparr>bu_backend = LinuxNative, bu_reason = why\<rparr>, first, w1)"
    using assms(2,5,9) r
    by (simp add: execute_in_sandbox_def select_backend_def execute_linux_native_def unavailable_def why_def first_def)
  obtain res l2 w2 where d: "degraded_run (logging env) ?r (backend_as_str LinuxNative @ '': '' @ why) (first, w1)
      = (res, l2, w2)" by (metis prod_cases3)
  then have l2: "l2 = first @ [(sh_path sh, ?args, Some (tc_cwd (ti_turn iv)))]"
    using r by (auto simp: degraded_run_def run_without_sandbox_def derive_exec_args_def Let_def split: prod.splits)
  have fail: "backend_failure (logging env) iv ?st ?r \<lparr>bu_backend = LinuxNative, bu_reason = why\<rparr> (first, w1)
      = (res, [], l2, w2)"
    using assms(6) free r d by (simp add: backend_failure_def runtime_settings_from_env_def)
  have deny: "runtime_denial (logging env) iv ?st ?r out s = (Inr out, [], s)" for out s
    using assms(8) r by (simp add: runtime_denial_def)
  have "run_request (logging env) iv ?st ?r ([], w) = (res, [], l2, w2)"
    by (cases res) (simp_all add: run_request_def ex fail deny)
  then show ?thesis using assms(1,3,4) by (simp add: execute_shell_def req l2 first_def)
qed

theorem timeout_escapes_sandbox_witness:
  "fst (snd (snd (execute_shell (logging slow_sandbox) example_shell_call ''python3 deploy.py'' 5 ([], ()))))
   = [(''/bin/bwrap'', bwrap_args (shell_request slow_sandbox example_shell_call ''python3 deploy.py'' 5
          \<lparr>sh_type = Bash, sh_path = ''/bin/bash''\<rparr>), None),
      (''/bin/bash'', [''-c'', ''set -o pipefail; python3 deploy.py''], Some ''ws'')]"
proof -
  let ?sh = "\<lparr>sh_type = Bash, sh_path = ''/bin/bash''\<rparr>"
  have "shell_sandbox_mode (tc_sandbox_policy (ti_turn example_shell_call))" "sx_os slow_sandbox = Linux"
    "shell_new (sx_which slow_sandbox) (tc_shell_type (ti_turn example_shell_call)) = Inr ?sh"
    "sx_which slow_sandbox ''bwrap'' = Inr ''/bin/bwrap''"
    "degrade_policy_from_env (sx_var slow_sandbox ''OPENJAX_SANDBOX_DEGRADE_POLICY'') = AskThenAllow"
    "sx_spawn slow_sandbox ''/bin/bwrap'' (bwrap_args (shell_request slow_sandbox example_shell_call ''python3 deploy.py'' 5 ?sh))
       None 5 () = (Elapsed, ())"
    subgoal by (simp add: example_shell_call_def example_turn_def shell_sandbox_mode_def)
    subgoal by (simp add: slow_sandbox_def)
    subgoal by code_simp
    subgoal by (simp add: slow_sandbox_def)
    subgoal by code_simp
    subgoal by (simp add: slow_sandbox_def)
    done
  moreover have "ensure_workspace_relative_paths (sx_split slow_sandbox) (sx_fs slow_sandbox ()) ''python3 deploy.py''
      (tc_cwd (ti_turn example_shell_call)) = Inr ()" by code_simp
  moreover have "list_all (\<lambda>c. \<not> risky_capability c) (detect_capabilities ''python3 deploy.py'')" by code_simp
  moreover have "classify_command ''python3 deploy.py'' \<noteq> ProcessObserve" by code_simp
  moreover have "wrap_command_for_shell ?sh ''python3 deploy.py'' = ''set -o pipefail; python3 deploy.py''"
    "tc_cwd (ti_turn example_shell_call) = ''ws''"
    by (simp_all add: wrap_command_for_shell_def example_shell_call_def example_turn_def)
  ultimately show ?thesis
    using timeout_escapes_sandbox [of example_shell_call slow_sandbox "()" "''python3 deploy.py''" ?sh "''/bin/bwrap''" 5 "()"]
    by (auto split: prod.splits)
qed

end
