(* ===== verification/FileTools.thy ===== *)
theory FileTools
  imports Workspace ToolContext
begin

text \<open>
  The tools that read and change files: \<open>openjax-core/src/tools/handlers/read.rs\<close>, \<open>edit.rs\<close> and
  \<open>write_file.rs\<close>, with the tolerant argument readers of \<open>de_helpers.rs\<close>. A file is its text; reading,
  writing and creating directories are the fields of an environment over a world \<open>'w\<close>, and the
  deserialisers derived for the argument structs are parameters.
\<close>

section \<open>Tolerant arguments\<close>

definition value_to_u64 :: "json \<Rightarrow> string + nat" where
  "value_to_u64 v =
     (case as_u64 v of
        Some n \<Rightarrow> Inr n
      | None \<Rightarrow>
          (case as_str v of
             Some t \<Rightarrow> (case parse_u64 t of Some n \<Rightarrow> Inr n | None \<Rightarrow> Inl ''expected non-negative integer'')
           | None \<Rightarrow> Inl ''expected integer''))"

text \<open>\<open>usize\<close> is 64 bits wide.\<close>

definition de_usize :: "json \<Rightarrow> string + nat" where
  "de_usize v = value_to_u64 v"

definition de_u64 :: "json \<Rightarrow> string + nat" where
  "de_u64 v = value_to_u64 v"

definition de_opt_usize :: "json \<Rightarrow> string + nat option" where
  "de_opt_usize v = (if v = JNull then Inr None else map_sum id Some (value_to_u64 v))"

definition de_bool :: "json \<Rightarrow> bool" where
  "de_bool v =
     (case v of
        JBool b \<Rightarrow> b
      | JNumber (PosInt n) \<Rightarrow> n \<noteq> 0
      | JNumber (NegInt i) \<Rightarrow> i \<noteq> 0
      | JString t \<Rightarrow> to_ascii_lowercase t \<in> {''1'', ''true'', ''yes''}
      | _ \<Rightarrow> False)"

section \<open>The outside\<close>

datatype read_outcome = FileText string | FileMissing | FileError string

text \<open>A write or the creation of directories answers its error, if any.\<close>

record 'w file_env =
  fe_fs :: "'w \<Rightarrow> fs"
  fe_read :: "'w \<Rightarrow> path \<Rightarrow> read_outcome"
  fe_write :: "path \<Rightarrow> string \<Rightarrow> 'w \<Rightarrow> string option \<times> 'w"
  fe_create_dir_all :: "path \<Rightarrow> 'w \<Rightarrow> string option \<times> 'w"

section \<open>Edit\<close>

record edit_args =
  ea_file_path :: string
  ea_old_string :: string
  ea_new_string :: string

text \<open>\<open>replace("\r\n", "\n").replace('\r', "\n")\<close>.\<close>

definition cr :: char where
  "cr = CHR 0x0D"

definition lf :: char where
  "lf = CHR 0x0A"

fun replace_crlf :: "string \<Rightarrow> string" where
  "replace_crlf [] = []"
| "replace_crlf [c] = [c]"
| "replace_crlf (c # d # s) = (if c = cr \<and> d = lf then lf # replace_crlf s else c # replace_crlf (d # s))"

definition normalize_newlines :: "string \<Rightarrow> string" where
  "normalize_newlines s = replace_char cr [lf] (replace_crlf s)"

text \<open>\<open>str::find\<close>, by characters.\<close>

fun find_sub :: "string \<Rightarrow> string \<Rightarrow> nat option" where
  "find_sub [] n = (if n = [] then Some 0 else None)"
| "find_sub (c # h) n = (if prefix n (c # h) then Some 0 else map_option Suc (find_sub h n))"

function find_loop :: "string \<Rightarrow> string \<Rightarrow> nat \<Rightarrow> (nat \<times> nat) list" where
  "find_loop haystack needle start =
     (if start \<le> length haystack then
        (case find_sub (drop start haystack) needle of
           None \<Rightarrow> []
         | Some k \<Rightarrow> (start + k, start + k + length needle) # find_loop haystack needle (start + k + 1))
      else [])"
  by pat_completeness auto

termination
  by (relation "measure (\<lambda>(h, n, s). Suc (length h) - s)") auto

declare find_loop.simps [simp del]

definition find_match_ranges :: "string \<Rightarrow> string \<Rightarrow> (nat \<times> nat) list" where
  "find_match_ranges haystack needle = (if needle = [] then [] else find_loop haystack needle 0)"

definition edit_failed :: "string \<Rightarrow> string \<Rightarrow> tool_output" where
  "edit_failed cls details =
     OutFunction (BodyText (''Edit failed ['' @ cls @ '']: '' @ details)) (Some False)"

text \<open>The new text of a file, or the class and text of the failure.\<close>

definition edited_text :: "edit_args \<Rightarrow> string \<Rightarrow> (string \<times> string) + string" where
  "edited_text a original =
     (let file = normalize_newlines original; old = normalize_newlines (ea_old_string a);
          new = normalize_newlines (ea_new_string a)
      in case find_match_ranges file old of
           [] \<Rightarrow> Inl (''not_found'', ''old_string was not found in '' @ ea_file_path a @ ''. Call Read before retrying.'')
         | (start, stop) # others \<Rightarrow>
             if others \<noteq> [] then
               Inl (''not_unique'', ''old_string matched multiple locations in '' @ ea_file_path a
                 @ ''. Call Read and provide a more specific old_string.'')
             else
               (let updated = take start file @ new @ drop stop file
                in Inr (if str_contains original [cr, lf] then replace_char lf [cr, lf] updated else updated)))"

definition edit_handle :: "'w file_env \<Rightarrow> (string \<Rightarrow> string + edit_args) \<Rightarrow> 'w handle" where
  "edit_handle env parse iv w =
     (case ti_payload iv of
        PFunction arguments \<Rightarrow>
          (case parse arguments of
             Inl _ \<Rightarrow> (Inr (edit_failed ''invalid_args'' ''failed to parse arguments for Edit. Call Read before retrying.''), [], w)
           | Inr a \<Rightarrow>
               if trim (ea_file_path a) = [] then
                 (Inr (edit_failed ''invalid_args'' ''file_path must be non-empty. Call Read before retrying.''), [], w)
               else if ea_old_string a = [] then
                 (Inr (edit_failed ''invalid_args'' ''old_string must be non-empty. Call Read before retrying.''), [], w)
               else
                 (case resolve_workspace_path_for_write (fe_fs env w) (tc_cwd (ti_turn iv)) (ea_file_path a) of
                    Inl e \<Rightarrow> (Inl (Internal e), [], w)
                  | Inr p \<Rightarrow>
                      (case fe_read env w p of
                         FileMissing \<Rightarrow> (Inr (edit_failed ''file_missing''
                            (''file was not found: '' @ ea_file_path a @ ''. Call Read before retrying.'')), [], w)
                       | FileError e \<Rightarrow> (Inl (Internal (''failed to read file: '' @ e)), [], w)
                       | FileText original \<Rightarrow>
                           (case edited_text a original of
                              Inl (cls, details) \<Rightarrow> (Inr (edit_failed cls details), [], w)
                            | Inr text \<Rightarrow>
                                (case fe_write env p text w of
                                   (Some e, w') \<Rightarrow> (Inl (Internal (''failed to write file: '' @ e)), [], w')
                                 | (None, w') \<Rightarrow>
                                     (Inr (OutFunction (BodyText (''The file '' @ ea_file_path a
                                        @ '' has been updated successfully.'')) (Some True)), [], w'))))))
      | _ \<Rightarrow> (Inl (RespondToModel ''Edit handler received unsupported payload''), [], w))"

section \<open>write_file\<close>

record write_file_args =
  wa_file_path :: string
  wa_content :: string

definition write_file_handle :: "'w file_env \<Rightarrow> (string \<Rightarrow> string + write_file_args) \<Rightarrow> 'w handle" where
  "write_file_handle env parse iv w =
     (case ti_payload iv of
        PFunction arguments \<Rightarrow>
          (case parse arguments of
             Inl e \<Rightarrow> (Inl (Internal (''failed to parse arguments: '' @ e)), [], w)
           | Inr a \<Rightarrow>
               (case resolve_workspace_path_for_write (fe_fs env w) (tc_cwd (ti_turn iv)) (wa_file_path a) of
                  Inl e \<Rightarrow> (Inl (Internal e), [], w)
                | Inr p \<Rightarrow>
                    (let (err, w1) = (case path_parent p of
                           Some parent \<Rightarrow> fe_create_dir_all env parent w | None \<Rightarrow> (None, w))
                     in case err of
                          Some e \<Rightarrow> (Inl (Internal (''failed to create parent directories: '' @ e)), [], w1)
                        | None \<Rightarrow>
                            (case fe_write env p (wa_content a) w1 of
                               (Some e, w2) \<Rightarrow> (Inl (Internal (''failed to write file: '' @ e)), [], w2)
                             | (None, w2) \<Rightarrow>
                                 (Inr (OutFunction (BodyText (''written '' @ wa_file_path a @ '' (''
                                    @ dec_of_nat (utf8_len (wa_content a)) @ '' bytes)'')) (Some True)), [], w2)))))
      | _ \<Rightarrow> (Inl (RespondToModel ''write_file handler received unsupported payload''), [], w))"

section \<open>Read\<close>

definition READ_MAX_LINE_LENGTH :: nat where
  "READ_MAX_LINE_LENGTH = 500"

definition READ_TAB_WIDTH :: nat where
  "READ_TAB_WIDTH = 4"

definition READ_COMMENT_PREFIXES :: "string list" where
  "READ_COMMENT_PREFIXES = [''#'', ''//'', ''--'']"

datatype read_mode = Slice | Indentation

record indentation_args =
  ia_anchor_line :: "nat option"
  ia_max_levels :: nat
  ia_include_siblings :: bool
  ia_include_header :: bool
  ia_max_lines :: "nat option"

record read_file_args =
  ra_file_path :: string
  ra_offset :: nat
  ra_limit :: nat
  ra_mode :: read_mode
  ra_indentation :: "indentation_args option"

text \<open>\<open>IndentationArgs::default()\<close>, which is derived: the defaults of its deserialiser do not apply.\<close>

definition default_indentation :: indentation_args where
  "default_indentation = \<lparr>ia_anchor_line = None, ia_max_levels = 0, ia_include_siblings = False,
     ia_include_header = False, ia_max_lines = None\<rparr>"

record line_record =
  ln_number :: nat
  ln_raw :: string
  ln_display :: string
  ln_indent :: nat

definition is_blank :: "line_record \<Rightarrow> bool" where
  "is_blank l \<longleftrightarrow> trim_start (ln_raw l) = []"

definition is_comment :: "line_record \<Rightarrow> bool" where
  "is_comment l \<longleftrightarrow> list_ex (starts_with (trim (ln_raw l))) READ_COMMENT_PREFIXES"

text \<open>The longest prefix of at most \<open>n\<close> bytes that ends at a character boundary.\<close>

fun take_bytes :: "nat \<Rightarrow> string \<Rightarrow> string" where
  "take_bytes n [] = []"
| "take_bytes n (c # s) = (if utf8_width c \<le> n then c # take_bytes (n - utf8_width c) s else [])"

definition take_bytes_at_char_boundary :: "string \<Rightarrow> nat \<Rightarrow> string" where
  "take_bytes_at_char_boundary s n = (if utf8_len s \<le> n then s else take_bytes n s)"

definition format_read_line :: "string \<Rightarrow> string" where
  "format_read_line l =
     (if utf8_len l > READ_MAX_LINE_LENGTH then take_bytes_at_char_boundary l READ_MAX_LINE_LENGTH else l)"

definition measure_indent :: "string \<Rightarrow> nat" where
  "measure_indent l =
     sum_list (map (\<lambda>c. if c = CHR 0x09 then READ_TAB_WIDTH else 1)
       (takeWhile (\<lambda>c. c = CHR '' '' \<or> c = CHR 0x09) l))"

definition numbered :: "nat \<Rightarrow> string \<Rightarrow> string" where
  "numbered n text = ''L'' @ dec_of_nat n @ '': '' @ text"

fun slice_loop :: "nat \<Rightarrow> nat \<Rightarrow> nat \<Rightarrow> string list \<Rightarrow> string list \<Rightarrow> nat \<times> string list" where
  "slice_loop offset limit seen collected [] = (seen, collected)"
| "slice_loop offset limit seen collected (l # ls) =
     (let seen' = seen + 1
      in if seen' < offset then slice_loop offset limit seen' collected ls
         else if length collected = limit then (seen', collected)
         else slice_loop offset limit seen' (collected @ [numbered seen' (format_read_line l)]) ls)"

definition read_slice :: "string \<Rightarrow> nat \<Rightarrow> nat \<Rightarrow> string + string list" where
  "read_slice text offset limit =
     (let (seen, collected) = slice_loop offset limit 0 [] (str_lines text)
      in if seen < offset then Inl ''offset exceeds file length'' else Inr collected)"

definition collect_file_lines :: "string \<Rightarrow> line_record list" where
  "collect_file_lines text =
     map (\<lambda>(n, l). \<lparr>ln_number = n + 1, ln_raw = l, ln_display = format_read_line l, ln_indent = measure_indent l\<rparr>)
       (enumerate 0 (str_lines text))"

fun effective_from :: "nat \<Rightarrow> line_record list \<Rightarrow> nat list" where
  "effective_from p [] = []"
| "effective_from p (r # rs) = (let e = (if is_blank r then p else ln_indent r) in e # effective_from e rs)"

definition compute_effective_indents :: "line_record list \<Rightarrow> nat list" where
  "compute_effective_indents rs = effective_from 0 rs"

text \<open>The window grows from the anchor line up and down. Its state: the next line above (none left at -1)
  and below, the lines at the least indentation taken on each side, and the window.\<close>

record window =
  wi_up :: int
  wi_down :: nat
  wi_up_taken :: nat
  wi_down_taken :: nat
  wi_out :: "line_record list"

definition window_up :: "line_record list \<Rightarrow> nat list \<Rightarrow> nat \<Rightarrow> indentation_args \<Rightarrow> window \<Rightarrow> window" where
  "window_up ls ind least o' s =
     (if wi_up s \<ge> 0 then
        (let iu = nat (wi_up s)
         in if ind ! iu \<ge> least then
              (if ind ! iu = least \<and> \<not> ia_include_siblings o' then
                 (if ia_include_header o' \<and> is_comment (ls ! iu) \<or> wi_up_taken s = 0
                  then s\<lparr>wi_up := wi_up s - 1, wi_up_taken := wi_up_taken s + 1, wi_out := ls ! iu # wi_out s\<rparr>
                  else s\<lparr>wi_up := -1\<rparr>)
               else s\<lparr>wi_up := wi_up s - 1, wi_out := ls ! iu # wi_out s\<rparr>)
            else s\<lparr>wi_up := -1\<rparr>)
      else s)"

definition window_down :: "line_record list \<Rightarrow> nat list \<Rightarrow> nat \<Rightarrow> indentation_args \<Rightarrow> window \<Rightarrow> window" where
  "window_down ls ind least o' s =
     (if wi_down s < length ls then
        (let ju = wi_down s
         in if ind ! ju \<ge> least then
              (if ind ! ju = least \<and> \<not> ia_include_siblings o' then
                 (if wi_down_taken s > 0
                  then s\<lparr>wi_down := length ls, wi_down_taken := wi_down_taken s + 1\<rparr>
                  else s\<lparr>wi_down := ju + 1, wi_down_taken := 1, wi_out := wi_out s @ [ls ! ju]\<rparr>)
               else s\<lparr>wi_down := ju + 1, wi_out := wi_out s @ [ls ! ju]\<rparr>)
            else s\<lparr>wi_down := length ls\<rparr>)
      else s)"

text \<open>One turn of the loop: up, then down unless the window is full; it goes on while the window grew.\<close>

function grow_window ::
  "line_record list \<Rightarrow> nat list \<Rightarrow> nat \<Rightarrow> indentation_args \<Rightarrow> nat \<Rightarrow> window \<Rightarrow> line_record list" where
  "grow_window ls ind least o' final_limit s =
     (if length (wi_out s) < final_limit then
        (let s1 = window_up ls ind least o' s
         in if length (wi_out s1) > length (wi_out s) \<and> length (wi_out s1) \<ge> final_limit then wi_out s1
            else
              (let s2 = window_down ls ind least o' s1
               in if length (wi_out s2) > length (wi_out s) then grow_window ls ind least o' final_limit s2
                  else wi_out s2))
      else wi_out s)"
  by pat_completeness auto

termination
  by (relation "measure (\<lambda>(ls, ind, least, o', limit, s). limit - length (wi_out s))") auto

declare grow_window.simps [simp del]

definition blank_line :: "line_record \<Rightarrow> bool" where
  "blank_line l \<longleftrightarrow> trim (ln_raw l) = []"

definition trim_empty_lines :: "line_record list \<Rightarrow> line_record list" where
  "trim_empty_lines out = rev (dropWhile blank_line (rev (dropWhile blank_line out)))"

definition rendered :: "line_record \<Rightarrow> string" where
  "rendered l = numbered (ln_number l) (ln_display l)"

text \<open>\<open>None\<close> is a panic: \<open>anchor_line - 1\<close> at zero (an overflow in a checked build, an index out of bounds
  in any other), and the capacity of the window, eight bytes per line, beyond the largest allocation.
  The product of the levels wraps, as it does in an unchecked build.\<close>

definition read_indentation ::
  "string \<Rightarrow> nat \<Rightarrow> nat \<Rightarrow> indentation_args \<Rightarrow> (string + string list) option" where
  "read_indentation text offset limit o' =
     (let anchor_line = (case ia_anchor_line o' of Some a \<Rightarrow> a | None \<Rightarrow> offset);
          guard_limit = (case ia_max_lines o' of Some m \<Rightarrow> m | None \<Rightarrow> limit);
          ls = collect_file_lines text
      in if ls = [] \<or> anchor_line > length ls then Some (Inl ''anchor_line exceeds file length'')
         else if anchor_line = 0 then None
         else
           (let anchor = anchor_line - 1; ind = compute_effective_indents ls;
                least = (if ia_max_levels o' = 0 then 0
                else ind ! anchor - ia_max_levels o' * READ_TAB_WIDTH mod 2 ^ 64);
                final_limit = min (min limit guard_limit) (length ls)
            in if final_limit = 1 then Some (Inr [rendered (ls ! anchor)])
               else if 2 ^ 60 \<le> limit then None
               else Some (Inr (map rendered (trim_empty_lines (grow_window ls ind least o' final_limit
                    \<lparr>wi_up = int anchor - 1, wi_down = anchor + 1, wi_up_taken = 0, wi_down_taken = 0,
                     wi_out = [ls ! anchor]\<rparr>))))))"

text \<open>The handler; \<open>None\<close> is a panic.\<close>

definition read_handle ::
  "'w file_env \<Rightarrow> (string \<Rightarrow> string + read_file_args) \<Rightarrow> tool_invocation \<Rightarrow> 'w
     \<Rightarrow> ((function_call_error + tool_output) \<times> event list \<times> 'w) option" where
  "read_handle env parse iv w =
     map_option (\<lambda>r. (r, [], w))
     (case ti_payload iv of
        PFunction arguments \<Rightarrow>
          (case parse arguments of
             Inl e \<Rightarrow> Some (Inl (Internal (''failed to parse arguments: '' @ e)))
           | Inr a \<Rightarrow>
               if ra_offset a = 0 then Some (Inl (RespondToModel ''offset must be a 1-indexed line number''))
               else if ra_limit a = 0 then Some (Inl (RespondToModel ''limit must be greater than zero''))
               else
                 (case resolve_workspace_path (fe_fs env w) (tc_cwd (ti_turn iv)) (ra_file_path a) of
                    Inl e \<Rightarrow> Some (Inl (Internal e))
                  | Inr p \<Rightarrow>
                      (case fe_read env w p of
                         FileText text \<Rightarrow>
                           map_option (\<lambda>r. case r of
                               Inl e \<Rightarrow> Inl (Internal e)
                             | Inr collected \<Rightarrow> Inr (OutFunction (BodyText (join newline collected)) (Some True)))
                             (case ra_mode a of
                                Slice \<Rightarrow> Some (read_slice text (ra_offset a) (ra_limit a))
                              | Indentation \<Rightarrow> read_indentation text (ra_offset a) (ra_limit a)
                                  (case ra_indentation a of Some i \<Rightarrow> i | None \<Rightarrow> default_indentation))
                       | _ \<Rightarrow> Some (Inl (Internal ''failed to read file'')))))
      | _ \<Rightarrow> Some (Inl (RespondToModel ''Read handler received unsupported payload'')))"

section \<open>Lemmas\<close>

lemma upt_split: "s \<le> i \<Longrightarrow> i < m \<Longrightarrow> [s..<m] = [s..<i] @ i # [Suc i..<m]"
  by (metis le_add_diff_inverse less_imp_le_nat upt_add_eq_append upt_conv_Cons)

lemma find_sub_None: "n \<noteq> [] \<Longrightarrow> find_sub h n = None \<longleftrightarrow> (\<forall>i. \<not> prefix n (drop i h))"
proof (induction h)
  case (Cons c h)
  have "(\<forall>i. \<not> prefix n (drop i (c # h))) \<longleftrightarrow> \<not> prefix n (c # h) \<and> (\<forall>i. \<not> prefix n (drop i h))"
    by (metis drop0 drop_Suc_Cons not0_implies_Suc)
  then show ?case using Cons by simp
qed simp

lemma find_sub_Some:
  "n \<noteq> [] \<Longrightarrow> find_sub h n = Some k \<Longrightarrow> prefix n (drop k h) \<and> k < length h \<and> (\<forall>i < k. \<not> prefix n (drop i h))"
proof (induction h arbitrary: k)
  case (Cons c h)
  show ?case
  proof (cases "prefix n (c # h)")
    case True
    then show ?thesis using Cons.prems by simp
  next
    case False
    then obtain j where j: "find_sub h n = Some j" "k = Suc j" using Cons.prems(2) by auto
    have "\<not> prefix n (drop i (c # h))" if "i < Suc j" for i
      using Cons.IH [OF Cons.prems(1) j(1)] False that by (cases i) simp_all
    then show ?thesis using Cons.IH [OF Cons.prems(1) j(1)] j(2) by simp
  qed
qed simp

text \<open>The search finds every position where the needle begins, overlapping ones included.\<close>

lemma find_loop_eq:
  "n \<noteq> [] \<Longrightarrow> find_loop h n s = map (\<lambda>i. (i, i + length n)) (filter (\<lambda>i. prefix n (drop i h)) [s..<Suc (length h)])"
proof (induction h n s rule: find_loop.induct)
  case (1 h n s)
  show ?case
  proof (cases "s \<le> length h")
    case True
    show ?thesis
    proof (cases "find_sub (drop s h) n")
      case None
      then have "filter (\<lambda>i. prefix n (drop i h)) [s..<Suc (length h)] = []"
        using find_sub_None [OF "1.prems", of "drop s h"]
        by (auto simp: filter_empty_conv) (metis add_diff_inverse_nat linorder_not_less drop_drop add.commute)
      then show ?thesis using True None by (simp add: find_loop.simps [of h n s])
    next
      case (Some k)
      note k = find_sub_Some [OF "1.prems" Some]
      have "[s..<Suc (length h)] = [s..<s + k] @ (s + k) # [Suc (s + k)..<Suc (length h)]"
        by (rule upt_split) (use k True in auto)
      moreover have "filter (\<lambda>i. prefix n (drop i h)) [s..<s + k] = []"
        using k by (auto simp: filter_empty_conv) (metis add_diff_inverse_nat less_diff_conv2 linorder_not_less drop_drop add.commute)
      moreover have "prefix n (drop (s + k) h)" using k by (simp add: add.commute)
      ultimately show ?thesis
        using True Some "1.IH" [OF True Some "1.prems"] by (simp add: find_loop.simps [of h n s])
    qed
  next
    case False
    then show ?thesis by (simp add: find_loop.simps [of h n s])
  qed
qed

lemma prefix_drop_split: "prefix n (drop i h) \<Longrightarrow> i \<le> length h \<Longrightarrow> h = take i h @ n @ drop (i + length n) h"
  by (metis append_take_drop_id prefix_def append_eq_conv_conj drop_drop add.commute)

lemma edited_text_ok:
  assumes ed: "edited_text a original = Inr text" and ne: "normalize_newlines (ea_old_string a) \<noteq> []"
  obtains pre post where
    "normalize_newlines original = pre @ normalize_newlines (ea_old_string a) @ post"
    "\<And>pre' post'. normalize_newlines original = pre' @ normalize_newlines (ea_old_string a) @ post' \<Longrightarrow> pre' = pre"
    "text = (let t = pre @ normalize_newlines (ea_new_string a) @ post
             in if str_contains original [cr, lf] then replace_char lf [cr, lf] t else t)"
proof -
  let ?h = "normalize_newlines original" and ?n = "normalize_newlines (ea_old_string a)"
  define hits where "hits = filter (\<lambda>i. prefix ?n (drop i ?h)) [0..<Suc (length ?h)]"
  have ranges: "find_match_ranges ?h ?n = map (\<lambda>i. (i, i + length ?n)) hits"
    using ne find_loop_eq [OF ne] by (simp only: find_match_ranges_def hits_def if_False)
  obtain i where i: "hits = [i]"
    and t: "text = (let t = take i ?h @ normalize_newlines (ea_new_string a) @ drop (i + length ?n) ?h
             in if str_contains original [cr, lf] then replace_char lf [cr, lf] t else t)"
    using ed unfolding edited_text_def Let_def ranges
    by (cases hits) (auto split: if_splits)
  have hits: "j \<in> set hits \<longleftrightarrow> prefix ?n (drop j ?h) \<and> j \<le> length ?h" for j
    unfolding hits_def set_filter set_upt by auto
  then have hit: "prefix ?n (drop i ?h)" "i \<le> length ?h" using i by auto
  have uniq: "pre' = take i ?h" if h: "?h = pre' @ ?n @ post'" for pre' post'
  proof -
    have "length pre' \<in> set hits" unfolding hits h by simp
    then show ?thesis using h i by (metis append_eq_conv_conj singletonD empty_set list.simps(15))
  qed
  show thesis by (rule that [OF prefix_drop_split [OF hit] uniq t])
qed

lemma edited_text_sole:
  assumes h: "normalize_newlines original = pre @ normalize_newlines (ea_old_string a) @ post"
    and one: "\<And>pre' post'. normalize_newlines original = pre' @ normalize_newlines (ea_old_string a) @ post' \<Longrightarrow> pre' = pre"
    and ne: "normalize_newlines (ea_old_string a) \<noteq> []"
  shows "\<exists>text. edited_text a original = Inr text"
proof -
  let ?h = "normalize_newlines original" and ?n = "normalize_newlines (ea_old_string a)"
  define hits where "hits = filter (\<lambda>i. prefix ?n (drop i ?h)) [0..<Suc (length ?h)]"
  have ranges: "find_match_ranges ?h ?n = map (\<lambda>i. (i, i + length ?n)) hits"
    using ne find_loop_eq [OF ne] by (simp only: find_match_ranges_def hits_def if_False)
  have at: "i = length pre" if "i \<in> set hits" for i
  proof -
    have i: "prefix ?n (drop i ?h)" "i \<le> length ?h" using that by (auto simp: hits_def simp del: upt_Suc)
    from one [OF prefix_drop_split [OF i]] i(2) show ?thesis by (metis length_take min.absorb2)
  qed
  moreover have "length pre \<in> set hits" using h by (auto simp: hits_def simp del: upt_Suc)
  ultimately have "set hits = {length pre}" by blast
  moreover have "distinct hits" by (simp add: hits_def del: upt_Suc)
  ultimately have "hits = [length pre]" by (cases hits; cases "tl hits") auto
  then show ?thesis unfolding edited_text_def Let_def ranges by simp
qed

lemma replace_crlf_Nil [simp]: "replace_crlf s = [] \<longleftrightarrow> s = []"
  by (cases s rule: replace_crlf.cases) simp_all

lemma normalize_newlines_Nil [simp]: "normalize_newlines s = [] \<longleftrightarrow> s = []"
proof -
  have "replace_char c [d] t = [] \<longleftrightarrow> t = []" for c d t
    by (cases t) (simp_all add: replace_char_def)
  then show ?thesis by (simp add: normalize_newlines_def)
qed

text \<open>A slice: the lines before the offset are counted, then at most \<open>limit\<close> are taken.\<close>

lemma slice_loop_skip:
  "seen + length ls < offset \<Longrightarrow> slice_loop offset limit seen c ls = (seen + length ls, c)"
  "seen + k < offset \<Longrightarrow> k \<le> length ls \<Longrightarrow>
     slice_loop offset limit seen c ls = slice_loop offset limit (seen + k) c (drop k ls)"
proof -
  show "seen + length ls < offset \<Longrightarrow> slice_loop offset limit seen c ls = (seen + length ls, c)"
    by (induction ls arbitrary: seen) simp_all
  show "seen + k < offset \<Longrightarrow> k \<le> length ls \<Longrightarrow>
     slice_loop offset limit seen c ls = slice_loop offset limit (seen + k) c (drop k ls)"
  proof (induction k arbitrary: ls seen)
    case (Suc k)
    then obtain l ls' where "ls = l # ls'" by (cases ls) simp_all
    then show ?case using Suc.prems Suc.IH [of "seen + 1" ls'] by simp
  qed simp
qed

lemma slice_loop_take:
  "offset \<le> Suc seen \<Longrightarrow> length c \<le> limit \<Longrightarrow>
     snd (slice_loop offset limit seen c ls)
       = c @ map2 (\<lambda>i l. numbered i (format_read_line l)) [Suc seen..<Suc seen + length ls] (take (limit - length c) ls)
     \<and> seen \<le> fst (slice_loop offset limit seen c ls) \<and> (ls \<noteq> [] \<longrightarrow> Suc seen \<le> fst (slice_loop offset limit seen c ls))"
proof (induction ls arbitrary: seen c)
  case (Cons l ls)
  show ?case
  proof (cases "length c = limit")
    case False
    let ?c = "c @ [numbered (Suc seen) (format_read_line l)]"
    have "snd (slice_loop offset limit (Suc seen) ?c ls)
        = ?c @ map2 (\<lambda>i l. numbered i (format_read_line l)) [Suc (Suc seen)..<Suc (Suc seen) + length ls]
            (take (limit - length ?c) ls)
      \<and> Suc seen \<le> fst (slice_loop offset limit (Suc seen) ?c ls)"
      using Cons.IH [of "Suc seen" ?c] Cons.prems False by simp
    moreover have "limit - length c = Suc (limit - length ?c)" using Cons.prems(2) False by simp
    moreover have "[Suc seen..<Suc seen + length (l # ls)] = Suc seen # [Suc (Suc seen)..<Suc (Suc seen) + length ls]"
      by (subst upt_conv_Cons) simp_all
    ultimately show ?thesis using Cons.prems False by (simp add: Let_def del: upt_Suc)
  qed (use Cons.prems in simp)
qed simp

lemma read_slice_eq:
  assumes "0 < offset" "0 < limit"
  shows "read_slice text offset limit =
    (if length (str_lines text) < offset then Inl ''offset exceeds file length''
     else Inr (map2 (\<lambda>i l. numbered i (format_read_line l)) [offset..<Suc (length (str_lines text))]
            (take limit (drop (offset - 1) (str_lines text)))))"
proof (cases "length (str_lines text) < offset")
  case True
  then show ?thesis using slice_loop_skip(1) [of 0 "str_lines text" offset limit "[]"]
    by (simp add: read_slice_def)
next
  case False
  let ?ls = "drop (offset - 1) (str_lines text)"
  have "slice_loop offset limit 0 [] (str_lines text) = slice_loop offset limit (offset - 1) [] ?ls"
    using slice_loop_skip(2) [of 0 "offset - 1" offset "str_lines text" limit "[]"] assms(1) False by simp
  moreover have "?ls \<noteq> []" using False assms(1) by simp
  moreover have "Suc (offset - 1) + length ?ls = Suc (length (str_lines text))" using False assms(1) by simp
  ultimately show ?thesis
    using slice_loop_take [of offset "offset - 1" "[]" limit ?ls] assms False
    by (auto simp: read_slice_def case_prod_beta Let_def simp del: upt_Suc)
qed

text \<open>The window of the indentation mode is a block of lines around the anchor.\<close>

definition window_ok :: "line_record list \<Rightarrow> nat list \<Rightarrow> nat \<Rightarrow> nat \<Rightarrow> window \<Rightarrow> bool" where
  "window_ok ls ind least anchor s \<longleftrightarrow>
     (\<exists>lo hi. lo \<le> anchor \<and> anchor < hi \<and> hi \<le> length ls \<and> wi_out s = map ((!) ls) [lo..<hi]
        \<and> (wi_up s = int lo - 1 \<or> wi_up s = -1) \<and> (wi_down s = hi \<or> wi_down s = length ls)
        \<and> (\<forall>k \<in> {lo..<hi}. least \<le> ind ! k))"

lemma window_up_cases:
  obtains (same) "wi_out (window_up ls ind least o' s) = wi_out s"
      "wi_up (window_up ls ind least o' s) = wi_up s \<or> wi_up (window_up ls ind least o' s) = -1"
      "wi_down (window_up ls ind least o' s) = wi_down s"
  | (more) k where "wi_up s = int k" "least \<le> ind ! k" "wi_out (window_up ls ind least o' s) = ls ! k # wi_out s"
      "wi_up (window_up ls ind least o' s) = int k - 1" "wi_down (window_up ls ind least o' s) = wi_down s"
proof (cases "wi_up s \<ge> 0 \<and> least \<le> ind ! nat (wi_up s)
    \<and> (ind ! nat (wi_up s) = least \<and> \<not> ia_include_siblings o' \<longrightarrow>
         ia_include_header o' \<and> is_comment (ls ! nat (wi_up s)) \<or> wi_up_taken s = 0)")
  case True
  then show thesis by (intro more [of "nat (wi_up s)"]) (auto simp: window_up_def Let_def)
next
  case False
  then show thesis by (intro same) (auto simp: window_up_def Let_def)
qed

lemma window_down_cases:
  obtains (same) "wi_out (window_down ls ind least o' s) = wi_out s"
      "wi_down (window_down ls ind least o' s) = wi_down s \<or> wi_down (window_down ls ind least o' s) = length ls"
      "wi_up (window_down ls ind least o' s) = wi_up s"
  | (more) "wi_down s < length ls" "least \<le> ind ! wi_down s"
      "wi_out (window_down ls ind least o' s) = wi_out s @ [ls ! wi_down s]"
      "wi_down (window_down ls ind least o' s) = Suc (wi_down s)" "wi_up (window_down ls ind least o' s) = wi_up s"
proof (cases "wi_down s < length ls \<and> least \<le> ind ! wi_down s
    \<and> (ind ! wi_down s = least \<and> \<not> ia_include_siblings o' \<longrightarrow> wi_down_taken s = 0)")
  case True
  then show thesis by (intro more) (auto simp: window_down_def Let_def)
next
  case False
  then show thesis by (intro same) (auto simp: window_down_def Let_def)
qed

lemma window_okE:
  assumes "window_ok ls ind least anchor s"
  obtains lo hi where "lo \<le> anchor" "anchor < hi" "hi \<le> length ls" "wi_out s = map ((!) ls) [lo..<hi]"
    "wi_up s = int lo - 1 \<or> wi_up s = -1" "wi_down s = hi \<or> wi_down s = length ls"
    "\<forall>k \<in> {lo..<hi}. least \<le> ind ! k"
  using assms by (auto simp: window_ok_def)

lemma window_okI:
  assumes "lo \<le> anchor" "anchor < hi" "hi \<le> length ls" "wi_out s = map ((!) ls) [lo..<hi]"
    "wi_up s = int lo - 1 \<or> wi_up s = -1" "wi_down s = hi \<or> wi_down s = length ls"
    "\<forall>k \<in> {lo..<hi}. least \<le> ind ! k"
  shows "window_ok ls ind least anchor s"
  unfolding window_ok_def using assms by (intro exI [of _ lo] exI [of _ hi]) simp

lemma window_up_ok:
  assumes "window_ok ls ind least anchor s"
  shows "window_ok ls ind least anchor (window_up ls ind least o' s)"
proof -
  obtain lo hi where w: "lo \<le> anchor" "anchor < hi" "hi \<le> length ls" "wi_out s = map ((!) ls) [lo..<hi]"
    "wi_up s = int lo - 1 \<or> wi_up s = -1" "wi_down s = hi \<or> wi_down s = length ls"
    "\<forall>k \<in> {lo..<hi}. least \<le> ind ! k" by (rule window_okE [OF assms])
  show ?thesis
  proof (cases rule: window_up_cases [of ls ind least o' s])
    case same
    show ?thesis by (rule window_okI [of lo anchor hi]) (use same w in auto)
  next
    case (more k)
    have lo: "lo = Suc k" using more(1) w(5) by auto
    have range: "map ((!) ls) [k..<hi] = ls ! k # map ((!) ls) [lo..<hi]"
      using w(1,2) lo by (subst upt_conv_Cons) simp_all
    have least: "\<forall>j \<in> {k..<hi}. least \<le> ind ! j"
    proof
      fix j assume "j \<in> {k..<hi}"
      then show "least \<le> ind ! j" using w(7) more(2) lo by (cases "j = k") simp_all
    qed
    show ?thesis by (rule window_okI [OF _ w(2,3) _ _ _ least]) (use more w lo range in auto)
  qed
qed

lemma window_down_ok:
  assumes "window_ok ls ind least anchor s"
  shows "window_ok ls ind least anchor (window_down ls ind least o' s)"
proof -
  obtain lo hi where w: "lo \<le> anchor" "anchor < hi" "hi \<le> length ls" "wi_out s = map ((!) ls) [lo..<hi]"
    "wi_up s = int lo - 1 \<or> wi_up s = -1" "wi_down s = hi \<or> wi_down s = length ls"
    "\<forall>k \<in> {lo..<hi}. least \<le> ind ! k" by (rule window_okE [OF assms])
  show ?thesis
  proof (cases rule: window_down_cases [of ls ind least o' s])
    case same
    show ?thesis by (rule window_okI [of lo anchor hi]) (use same w in auto)
  next
    case more
    have hi: "wi_down s = hi" using more(1) w(6) by auto
    have least: "\<forall>j \<in> {lo..<Suc hi}. least \<le> ind ! j"
    proof
      fix j assume "j \<in> {lo..<Suc hi}"
      then show "least \<le> ind ! j" using w(7) more(2) hi by (cases "j = hi") simp_all
    qed
    show ?thesis by (rule window_okI [OF w(1) _ _ _ _ _ least]) (use more w hi in auto)
  qed
qed

lemma grow_window_block:
  "window_ok ls ind least anchor s \<Longrightarrow>
     \<exists>lo hi. lo \<le> anchor \<and> anchor < hi \<and> hi \<le> length ls
       \<and> grow_window ls ind least o' limit s = map ((!) ls) [lo..<hi]
       \<and> (\<forall>k \<in> {lo..<hi}. least \<le> ind ! k) \<and> hi - lo \<le> max (length (wi_out s)) limit"
proof (induction ls ind least o' limit s rule: grow_window.induct)
  case (1 ls ind least o' limit s)
  let ?s1 = "window_up ls ind least o' s"
  let ?s2 = "window_down ls ind least o' ?s1"
  have ok1: "window_ok ls ind least anchor ?s1" by (rule window_up_ok [OF "1.prems"])
  have ok2: "window_ok ls ind least anchor ?s2" by (rule window_down_ok [OF ok1])
  have len1: "length (wi_out ?s1) \<le> Suc (length (wi_out s))"
    by (cases rule: window_up_cases [of ls ind least o' s]) simp_all
  have len2: "length (wi_out ?s2) \<le> Suc (length (wi_out ?s1))"
    by (cases rule: window_down_cases [of ls ind least o' ?s1]) simp_all
  have stop: "\<exists>lo hi. lo \<le> anchor \<and> anchor < hi \<and> hi \<le> length ls \<and> wi_out t = map ((!) ls) [lo..<hi]
      \<and> (\<forall>k \<in> {lo..<hi}. least \<le> ind ! k) \<and> hi - lo \<le> max (length (wi_out s)) limit"
    if t: "window_ok ls ind least anchor t" "length (wi_out t) \<le> max (length (wi_out s)) limit" for t
  proof -
    obtain lo hi where w: "lo \<le> anchor" "anchor < hi" "hi \<le> length ls" "wi_out t = map ((!) ls) [lo..<hi]"
      "\<forall>k \<in> {lo..<hi}. least \<le> ind ! k" by (rule window_okE [OF t(1)])
    then show ?thesis using t(2) by (intro exI [of _ lo] exI [of _ hi]) simp
  qed
  show ?case
  proof (cases "length (wi_out s) < limit")
    case False
    then show ?thesis using stop [OF "1.prems"] by (simp add: grow_window.simps [of ls ind least o' limit s])
  next
    case True
    show ?thesis
    proof (cases "length (wi_out ?s1) > length (wi_out s) \<and> length (wi_out ?s1) \<ge> limit")
      case full: True
      then have "grow_window ls ind least o' limit s = wi_out ?s1"
        using True by (simp add: grow_window.simps [of ls ind least o' limit s])
      then show ?thesis using stop [OF ok1] len1 True by simp
    next
      case room: False
      then have lim: "length (wi_out ?s2) \<le> limit" using len1 len2 True by linarith
      show ?thesis
      proof (cases "length (wi_out ?s2) > length (wi_out s)")
        case grew: True
        then have "grow_window ls ind least o' limit s = grow_window ls ind least o' limit ?s2"
          by (subst grow_window.simps) (simp only: Let_def True if_True room if_False grew)
        moreover have "max (length (wi_out ?s2)) limit = max (length (wi_out s)) limit" using lim True by simp
        ultimately show ?thesis using "1.IH" [OF True refl room refl grew ok2] by simp
      next
        case same: False
        then have "grow_window ls ind least o' limit s = wi_out ?s2"
          by (subst grow_window.simps) (simp only: Let_def True if_True room if_False same)
        then show ?thesis using stop [OF ok2] lim by simp
      qed
    qed
  qed
qed

lemma dropWhile_split:
  obtains a where "xs = a @ dropWhile P xs" "\<forall>x \<in> set a. P x"
  using that [of "takeWhile P xs"] by (auto dest: set_takeWhileD)

lemma trim_empty_split:
  obtains a b where "out = a @ trim_empty_lines out @ b" "\<forall>x \<in> set a \<union> set b. blank_line x"
proof -
  obtain a where a: "out = a @ dropWhile blank_line out" "\<forall>x \<in> set a. blank_line x"
    by (rule dropWhile_split)
  obtain b where b: "rev (dropWhile blank_line out) = b @ dropWhile blank_line (rev (dropWhile blank_line out))"
    "\<forall>x \<in> set b. blank_line x" by (rule dropWhile_split)
  have "dropWhile blank_line out = trim_empty_lines out @ rev b"
    unfolding trim_empty_lines_def by (metis b(1) rev_append rev_rev_ident)
  then show thesis using that [of a "rev b"] a b(2) by (metis UnE set_rev)
qed

lemma append_nth_third: "(a @ m @ b) ! (length a + length m + k) = b ! k"
  by (simp add: nth_append)

text \<open>Trimming a block of lines leaves a block, which keeps the anchor unless it is blank.\<close>

lemma trim_block:
  assumes "lo \<le> anchor" "anchor < hi"
  obtains lo' hi' where "trim_empty_lines (map f [lo..<hi]) = map f [lo'..<hi']" "lo \<le> lo'" "hi' \<le> hi"
    "\<not> blank_line (f anchor) \<Longrightarrow> lo' \<le> anchor \<and> anchor < hi'"
proof -
  obtain a b where ab: "map f [lo..<hi] = a @ trim_empty_lines (map f [lo..<hi]) @ b"
    "\<forall>x \<in> set a \<union> set b. blank_line x" by (rule trim_empty_split)
  let ?m = "trim_empty_lines (map f [lo..<hi])"
  have len: "length a + length ?m + length b = hi - lo" using arg_cong [OF ab(1), of length] by simp
  have "?m = take (length ?m) (drop (length a) (map f [lo..<hi]))" using ab(1)
    by (metis append_eq_conv_conj)
  also have "\<dots> = map f [lo + length a..<lo + length a + length ?m]"
  proof -
    have "lo + length a + length ?m \<le> hi" using len assms by linarith
    then show ?thesis by (simp only: drop_map take_map drop_upt take_upt)
  qed
  finally have m: "?m = map f [lo + length a..<lo + length a + length ?m]" .
  have "lo + length a \<le> anchor \<and> anchor < lo + length a + length ?m" if nb: "\<not> blank_line (f anchor)"
  proof (rule ccontr)
    assume out: "\<not> ?thesis"
    have nth: "f anchor = map f [lo..<hi] ! (anchor - lo)" using assms by simp
    show False
    proof (cases "anchor < lo + length a")
      case True
      then have "anchor - lo < length a" using assms(1) by linarith
      then have "f anchor \<in> set a" using nth by (subst (asm) ab(1)) (simp add: nth_append)
      then show False using ab(2) nb by blast
    next
      case False
      then have "anchor - lo = length a + length ?m + (anchor - lo - length a - length ?m)"
        "anchor - lo - length a - length ?m < length b" using out len assms by linarith+
      then have "f anchor \<in> set b" using nth append_nth_third [of a ?m b] unfolding ab(1) [symmetric] by (metis nth_mem)
      then show False using ab(2) nb by blast
    qed
  qed
  moreover have "lo + length a + length ?m \<le> hi" using len assms by linarith
  ultimately show thesis using that [OF m] by simp
qed

section \<open>Properties\<close>

text \<open>The preliminaries of an edit: its arguments, its file in the workspace and the text of that file, when all
  of them are there.\<close>

definition edit_target ::
  "'w file_env \<Rightarrow> (string \<Rightarrow> string + edit_args) \<Rightarrow> tool_invocation \<Rightarrow> 'w \<Rightarrow> (edit_args \<times> path \<times> string) option" where
  "edit_target env parse iv w =
     (case ti_payload iv of
        PFunction arguments \<Rightarrow>
          (case parse arguments of
             Inr a \<Rightarrow>
               if trim (ea_file_path a) = [] \<or> ea_old_string a = [] then None
               else (case resolve_workspace_path_for_write (fe_fs env w) (tc_cwd (ti_turn iv)) (ea_file_path a) of
                       Inr p \<Rightarrow> (case fe_read env w p of FileText original \<Rightarrow> Some (a, p, original) | _ \<Rightarrow> None)
                     | Inl _ \<Rightarrow> None)
           | Inl _ \<Rightarrow> None)
      | _ \<Rightarrow> None)"

definition reports_success :: "function_call_error + tool_output \<Rightarrow> bool" where
  "reports_success r = (case r of Inr (OutFunction _ (Some b)) \<Rightarrow> b | Inr _ \<Rightarrow> True | Inl _ \<Rightarrow> False)"

text \<open>\<open>splits_once h n pre post\<close>: the text \<open>n\<close> occurs once in \<open>h\<close>, between \<open>pre\<close> and \<open>post\<close>.\<close>

definition splits_once :: "string \<Rightarrow> string \<Rightarrow> string \<Rightarrow> string \<Rightarrow> bool" where
  "splits_once h n pre post \<longleftrightarrow> h = pre @ n @ post \<and> (\<forall>pre' post'. h = pre' @ n @ post' \<longrightarrow> pre' = pre)"

definition with_line_ends_of :: "string \<Rightarrow> string \<Rightarrow> string" where
  "with_line_ends_of original t = (if str_contains original [cr, lf] then replace_char lf [cr, lf] t else t)"

lemma edit_without_target:
  "edit_target env parse iv w = None \<Longrightarrow> \<exists>r. edit_handle env parse iv w = (r, [], w) \<and> \<not> reports_success r"
  by (cases "ti_payload iv")
    (auto simp: edit_target_def edit_handle_def reports_success_def edit_failed_def
      split: sum.splits if_splits read_outcome.splits)

lemma edit_of_target:
  assumes "edit_target env parse iv w = Some (a, p, original)"
  shows "ea_old_string a \<noteq> []"
    and "edit_handle env parse iv w = (case edited_text a original of
        Inl (cls, details) \<Rightarrow> (Inr (edit_failed cls details), [], w)
      | Inr text \<Rightarrow> (case fe_write env p text w of
            (Some e, w') \<Rightarrow> (Inl (Internal (''failed to write file: '' @ e)), [], w')
          | (None, w') \<Rightarrow> (Inr (OutFunction (BodyText (''The file '' @ ea_file_path a
                @ '' has been updated successfully.'')) (Some True)), [], w')))"
  using assms
  by (cases "ti_payload iv"; auto simp: edit_target_def edit_handle_def split: sum.splits if_splits read_outcome.splits)+

text \<open>C21: what an edit does, on every branch. When its arguments, the path or the file are no good it fails and
  leaves the world alone. Otherwise the old text is looked for in the file, line ends compared as newlines: when it
  occurs exactly once, the file is written once, with this occurrence replaced by the new text and with the line
  ends of a file that has any carriage-return pair, and the edit reports success if and only if that write
  succeeds; when it occurs nowhere or more than once, the edit fails and leaves the world alone. It never sends
  an event.\<close>

theorem edit_all_or_nothing:
  "case edit_handle env parse iv w of (r, evs, w') \<Rightarrow> evs = [] \<and>
     (case edit_target env parse iv w of
        None \<Rightarrow> \<not> reports_success r \<and> w' = w
      | Some (a, p, original) \<Rightarrow>
          (let file = normalize_newlines original; old = normalize_newlines (ea_old_string a);
               new = normalize_newlines (ea_new_string a)
           in if \<exists>pre post. splits_once file old pre post
              then \<exists>pre post. splits_once file old pre post
                 \<and> (case fe_write env p (with_line_ends_of original (pre @ new @ post)) w of
                      (None, w2) \<Rightarrow> reports_success r \<and> w' = w2
                    | (Some e, w2) \<Rightarrow> r = Inl (Internal (''failed to write file: '' @ e)) \<and> w' = w2)
              else \<not> reports_success r \<and> w' = w))"
proof (cases "edit_target env parse iv w")
  case None
  then show ?thesis using edit_without_target [OF None] by auto
next
  case (Some t)
  obtain a p original where t: "edit_target env parse iv w = Some (a, p, original)" using Some by (cases t) auto
  have ne: "normalize_newlines (ea_old_string a) \<noteq> []" using edit_of_target(1) [OF t] by simp
  let ?file = "normalize_newlines original" and ?old = "normalize_newlines (ea_old_string a)"
  show ?thesis
  proof (cases "edited_text a original")
    case (Inl e)
    then have "\<not> splits_once ?file ?old pre post" for pre post
      using edited_text_sole [OF _ _ ne, of original pre post] by (auto simp: splits_once_def)
    then show ?thesis using Inl
      by (cases e) (simp add: t edit_of_target(2) [OF t] Let_def reports_success_def edit_failed_def)
  next
    case (Inr out)
    obtain pre post where s: "splits_once ?file ?old pre post"
      "out = with_line_ends_of original (pre @ normalize_newlines (ea_new_string a) @ post)"
      using edited_text_ok [OF Inr ne] unfolding splits_once_def with_line_ends_of_def Let_def by metis
    let ?text = "\<lambda>pre post. with_line_ends_of original (pre @ normalize_newlines (ea_new_string a) @ post)"
    obtain e w2 where wr: "fe_write env p out w = (e, w2)" by fastforce
    obtain r where r: "edit_handle env parse iv w = (r, [], w2)"
      "case e of None \<Rightarrow> reports_success r | Some e \<Rightarrow> r = Inl (Internal (''failed to write file: '' @ e))"
      by (cases e) (simp_all add: edit_of_target(2) [OF t] Inr wr reports_success_def)
    have "\<exists>pre post. splits_once ?file ?old pre post \<and> (case fe_write env p (?text pre post) w of
        (None, w3) \<Rightarrow> reports_success r \<and> w2 = w3
      | (Some e, w3) \<Rightarrow> r = Inl (Internal (''failed to write file: '' @ e)) \<and> w2 = w3)"
      by (rule exI [of _ pre], rule exI [of _ post]) (use s wr r(2) in \<open>cases e; simp\<close>)
    moreover have "\<exists>pre post. splits_once ?file ?old pre post" using s(1) by blast
    ultimately show ?thesis unfolding r(1) t Let_def prod.case option.case by (simp only: if_True simp_thms)
  qed
qed

text \<open>A workspace whose one file is the world.\<close>

definition one_file_env :: "string file_env" where
  "one_file_env = \<lparr>fe_fs = (\<lambda>_. \<lparr>fs_exists = (\<lambda>_. True), fs_canonicalize = Some\<rparr>), fe_read = (\<lambda>w _. FileText w),
     fe_write = (\<lambda>_ text _. (None, text)), fe_create_dir_all = (\<lambda>_ w. (None, w))\<rparr>"

definition edit_of :: "string \<Rightarrow> string \<Rightarrow> string \<Rightarrow> string + edit_args" where
  "edit_of old new _ = Inr \<lparr>ea_file_path = ''f'', ea_old_string = old, ea_new_string = new\<rparr>"

definition edit_invocation :: tool_invocation where
  "edit_invocation = \<lparr>ti_tool_name = ''Edit'', ti_call_id = ''c'', ti_payload = PFunction ''{}'',
     ti_turn = \<lparr>tc_turn_id = 1, tc_session_id = None, tc_cwd = ''/ws'', tc_sandbox_policy = WorkspaceWrite,
       tc_shell_type = Bash, tc_event_sink = True, tc_policy_runtime = None, tc_windows_sandbox_level = None,
       tc_prevent_shell_skill_trigger = False\<rparr>\<rparr>"

theorem edit_all_or_nothing_witness:
  "snd (snd (edit_handle one_file_env (edit_of ''b'' ''xy'') edit_invocation ''abc'')) = ''axyc''
   \<and> snd (snd (edit_handle one_file_env (edit_of ''b'' ''xy'') edit_invocation ''abcb'')) = ''abcb''"
proof
  have once: "splits_once ''abc'' ''b'' pre post \<longleftrightarrow> pre = ''a'' \<and> post = ''c''" for pre post
    by (auto simp: splits_once_def Cons_eq_append_conv)
  then have found: "\<exists>pre. Ex (splits_once ''abc'' ''b'' pre)" by blast
  have more: "\<not> splits_once ''abcb'' ''b'' pre post" for pre post
  proof
    assume "splits_once ''abcb'' ''b'' pre post"
    then have only: "''abcb'' = pre' @ ''b'' @ post' \<Longrightarrow> pre' = pre" for pre' post' unfolding splits_once_def by blast
    from only [of "''a''" "''cb''"] only [of "''abc''" "[]"] show False by simp
  qed
  have norm: "normalize_newlines ''abc'' = ''abc''" "normalize_newlines ''b'' = ''b''" "normalize_newlines ''xy'' = ''xy''"
    "normalize_newlines ''abcb'' = ''abcb''" "with_line_ends_of ''abc'' ''axyc'' = ''axyc''" by code_simp+
  have target: "edit_target one_file_env (edit_of ''b'' ''xy'') edit_invocation w
      = Some (\<lparr>ea_file_path = ''f'', ea_old_string = ''b'', ea_new_string = ''xy''\<rparr>, ''/ws/f'', w)" for w
  proof -
    have "resolve_workspace_path_for_write \<lparr>fs_exists = (\<lambda>_. True), fs_canonicalize = Some\<rparr> ''/ws'' ''f'' = Inr ''/ws/f''"
      by code_simp
    moreover have "trim ''f'' \<noteq> []" by code_simp
    ultimately show ?thesis by (simp add: edit_target_def edit_of_def edit_invocation_def one_file_env_def)
  qed
  have fw: "fe_write one_file_env p t w = (None, t)" for p t w by (simp add: one_file_env_def)
  note edit = edit_all_or_nothing [where env = one_file_env and parse = "edit_of ''b'' ''xy''" and iv = edit_invocation]
  obtain r evs w where h: "edit_handle one_file_env (edit_of ''b'' ''xy'') edit_invocation ''abc'' = (r, evs, w)"
    by (metis prod_cases3)
  show "snd (snd (edit_handle one_file_env (edit_of ''b'' ''xy'') edit_invocation ''abc'')) = ''axyc''"
    using edit [where w = "''abc''"] by (simp add: h target norm found once fw Let_def)
  obtain r evs w where h: "edit_handle one_file_env (edit_of ''b'' ''xy'') edit_invocation ''abcb'' = (r, evs, w)"
    by (metis prod_cases3)
  show "snd (snd (edit_handle one_file_env (edit_of ''b'' ''xy'') edit_invocation ''abcb'')) = ''abcb''"
    using edit [where w = "''abcb''"] by (simp add: h target norm more Let_def)
qed

text \<open>An edit of one line changes the ends of all the others when the file mixes the two kinds.\<close>

lemma edit_changes_other_lines:
  "edited_text \<lparr>ea_file_path = ''f'', ea_old_string = ''c'', ea_new_string = ''d''\<rparr>
     (''a'' @ [cr, lf] @ ''b'' @ [lf] @ ''c'')
   = Inr (''a'' @ [cr, lf] @ ''b'' @ [cr, lf] @ ''d'')"
  by code_simp

text \<open>reading. A slice is the numbered lines from the offset on, at most \<open>limit\<close> of them, and fails only
  past the end. The indentation mode answers a block of consecutive lines, none indented less than
  the level asked for, within the limits (but never fewer than the anchor's), around the anchor unless
  the anchor is blank; it panics exactly on the anchor line 0 of a file with lines, or a window too
  large to allocate.\<close>

theorem read_windows:
  assumes "0 < offset" "0 < limit"
  shows "read_slice text offset limit =
    (if length (str_lines text) < offset then Inl ''offset exceeds file length''
     else Inr (map2 (\<lambda>i l. numbered i (format_read_line l)) [offset..<Suc (length (str_lines text))]
            (take limit (drop (offset - 1) (str_lines text)))))
   \<and> (case read_indentation text offset limit o' of
        None \<Rightarrow> collect_file_lines text \<noteq> [] \<and> (ia_anchor_line o' = Some 0 \<or> 2 ^ 60 \<le> limit)
      | Some (Inl _) \<Rightarrow> length (collect_file_lines text) < (case ia_anchor_line o' of Some a \<Rightarrow> a | None \<Rightarrow> offset)
                      \<or> collect_file_lines text = []
      | Some (Inr rs) \<Rightarrow>
          (let ls = collect_file_lines text; ind = compute_effective_indents ls;
               anchor = (case ia_anchor_line o' of Some a \<Rightarrow> a | None \<Rightarrow> offset) - 1;
               bound = min limit (case ia_max_lines o' of Some m \<Rightarrow> m | None \<Rightarrow> limit)
           in \<exists>lo hi. rs = map (\<lambda>k. rendered (ls ! k)) [lo..<hi] \<and> hi \<le> length ls \<and> hi - lo \<le> max 1 bound
                \<and> list_all (\<lambda>k. ind ! anchor - ia_max_levels o' * READ_TAB_WIDTH mod 2 ^ 64 \<le> ind ! k \<or> ia_max_levels o' = 0)
                    [lo..<hi]
                \<and> (blank_line (ls ! anchor) \<or> lo \<le> anchor \<and> anchor < hi)))"
proof -
  define ls where "ls = collect_file_lines text"
  define line where "line = (case ia_anchor_line o' of Some a \<Rightarrow> a | None \<Rightarrow> offset)"
  define bound where "bound = min limit (case ia_max_lines o' of Some m \<Rightarrow> m | None \<Rightarrow> limit)"
  define ind where "ind = compute_effective_indents ls"
  define anchor where "anchor = line - 1"
  define least where "least = (if ia_max_levels o' = 0 then 0
      else ind ! anchor - ia_max_levels o' * READ_TAB_WIDTH mod 2 ^ 64)"
  define start where "start = \<lparr>wi_up = int anchor - 1, wi_down = anchor + 1, wi_up_taken = 0,
      wi_down_taken = 0, wi_out = [ls ! anchor]\<rparr>"
  have ri: "read_indentation text offset limit o' =
      (if ls = [] \<or> line > length ls then Some (Inl ''anchor_line exceeds file length'')
       else if line = 0 then None
       else if min bound (length ls) = 1 then Some (Inr [rendered (ls ! anchor)])
       else if 2 ^ 60 \<le> limit then None
       else Some (Inr (map rendered (trim_empty_lines (grow_window ls ind least o' (min bound (length ls)) start)))))"
    unfolding read_indentation_def Let_def ls_def line_def bound_def ind_def anchor_def least_def start_def
    by (rule refl)
  define good where "good = (\<lambda>rs. \<exists>lo hi. rs = map (\<lambda>k. rendered (ls ! k)) [lo..<hi] \<and> hi \<le> length ls
      \<and> hi - lo \<le> max 1 bound
      \<and> list_all (\<lambda>k. ind ! anchor - ia_max_levels o' * READ_TAB_WIDTH mod 2 ^ 64 \<le> ind ! k \<or> ia_max_levels o' = 0)
          [lo..<hi]
      \<and> (blank_line (ls ! anchor) \<or> lo \<le> anchor \<and> anchor < hi))"
  have block: "good (map rendered ms)"
    if ok: "ls \<noteq> []" "line \<le> length ls" "line \<noteq> 0"
      and ms: "ms = [ls ! anchor] \<or> ms = trim_empty_lines (grow_window ls ind least o' (min bound (length ls)) start)"
    for ms
  proof -
    have at: "anchor < length ls" using ok by (simp add: anchor_def)
    have least_le: "least \<le> ind ! anchor" by (simp add: least_def)
    have start: "window_ok ls ind least anchor start"
      by (rule window_okI [of anchor anchor "Suc anchor"]) (use at least_le in \<open>simp_all add: start_def\<close>)
    obtain lo hi where g: "lo \<le> anchor" "anchor < hi" "hi \<le> length ls"
      "grow_window ls ind least o' (min bound (length ls)) start = map ((!) ls) [lo..<hi]"
      "\<forall>k \<in> {lo..<hi}. least \<le> ind ! k" "hi - lo \<le> max (length (wi_out start)) (min bound (length ls))"
      using grow_window_block [OF start, of o' "min bound (length ls)"] by blast
    from ms show ?thesis
    proof
      assume "ms = [ls ! anchor]"
      then show ?thesis unfolding good_def using at by (intro exI [of _ anchor] exI [of _ "Suc anchor"]) simp
    next
      assume m: "ms = trim_empty_lines (grow_window ls ind least o' (min bound (length ls)) start)"
      obtain lo' hi' where t: "ms = map ((!) ls) [lo'..<hi']" "lo \<le> lo'" "hi' \<le> hi"
        "\<not> blank_line (ls ! anchor) \<Longrightarrow> lo' \<le> anchor \<and> anchor < hi'"
        using trim_block [OF g(1,2), of "(!) ls"] unfolding m g(4) by metis
      have "list_all (\<lambda>k. ind ! anchor - ia_max_levels o' * READ_TAB_WIDTH mod 2 ^ 64 \<le> ind ! k \<or> ia_max_levels o' = 0)
          [lo'..<hi']"
        using g(5) t(2,3) by (auto simp: list_all_iff least_def split: if_splits)
      then show ?thesis unfolding good_def using t g(3,6)
        by (intro exI [of _ lo'] exI [of _ hi']) (auto simp: start_def)
    qed
  qed
  have zero: "0 < line \<or> ia_anchor_line o' = Some 0" using assms(1) by (auto simp: line_def split: option.splits)
  have "case read_indentation text offset limit o' of
        None \<Rightarrow> ls \<noteq> [] \<and> (ia_anchor_line o' = Some 0 \<or> 2 ^ 60 \<le> limit)
      | Some (Inl _) \<Rightarrow> length ls < line \<or> ls = []
      | Some (Inr rs) \<Rightarrow> good rs"
    using block [of "[ls ! anchor]"]
      block [of "trim_empty_lines (grow_window ls ind least o' (min bound (length ls)) start)"] zero
    unfolding ri by (cases "line = 0") (simp_all split: if_splits)
  then show ?thesis
    unfolding read_slice_eq [OF assms] Let_def ls_def [symmetric] line_def [symmetric] bound_def [symmetric]
      ind_def [symmetric] anchor_def [symmetric] good_def [symmetric] by simp
qed

theorem read_windows_witness:
  "read_slice (''a'' @ [lf] @ ''b'') 2 5 = Inr [''L2: b'']
   \<and> read_indentation (''a'' @ [lf] @ ''b'') 1 5 (default_indentation\<lparr>ia_anchor_line := Some 0\<rparr>) = None"
proof -
  let ?t = "''a'' @ [lf] @ ''b''"
  have "read_slice ?t 2 5 = (if length (str_lines ?t) < 2 then Inl ''offset exceeds file length''
     else Inr (map2 (\<lambda>i l. numbered i (format_read_line l)) [2..<Suc (length (str_lines ?t))]
            (take 5 (drop (2 - 1) (str_lines ?t)))))"
    by (rule conjunct1 [OF read_windows [of 2 5 ?t default_indentation]]) simp_all
  also have "\<dots> = Inr [''L2: b'']" by code_simp
  finally show ?thesis by (rule conjI) code_simp
qed

end
