(* ===== verification/EventMapper.thy ===== *)
theory EventMapper
  imports Protocol "HOL-Library.AList"
begin

text \<open>
  The events a gateway sends to its clients, made from the events of the agent:
  \<open>openjax-gateway/src/event_mapper/\<close>. A mapped event has a type, a JSON payload, the turn of the agent
  and, for streamed text, the source of the text. \<open>ratio_json\<close> is the number serde writes for the \<open>f64\<close>
  ratio.
\<close>

section \<open>Objects of serde_json\<close>

text \<open>The map of an object is a \<open>BTreeMap\<close>: its entries are in the order of their keys.\<close>

definition json_obj :: "(string \<times> json) list \<Rightarrow> json" where
  "json_obj kvs = JObject (sort_key fst kvs)"

definition json_set :: "string \<Rightarrow> json \<Rightarrow> json \<Rightarrow> json" where
  "json_set k x v =
     (case v of JObject kvs \<Rightarrow> JObject (sort_key fst (AList.update k x kvs)) | JNull \<Rightarrow> JObject [(k, x)] | _ \<Rightarrow> v)"

definition is_object :: "json \<Rightarrow> bool" where
  "is_object v = (case v of JObject _ \<Rightarrow> True | _ \<Rightarrow> False)"

definition json_opt_str :: "string option \<Rightarrow> json" where
  "json_opt_str s = (case s of None \<Rightarrow> JNull | Some x \<Rightarrow> JString x)"

definition json_nat :: "nat \<Rightarrow> json" where
  "json_nat n = JNumber (PosInt n)"

definition json_int :: "int \<Rightarrow> json" where
  "json_int i = JNumber (if i < 0 then NegInt i else PosInt (nat i))"

lemma map_of_sort_key [simp]:
  fixes kvs :: "('k::linorder \<times> 'v) list"
  shows "map_of (sort_key fst kvs) k = map_of kvs k"
proof -
  have select: "map_of xs k = map_of (filter (\<lambda>y. fst y = k) xs) k" for xs :: "('k \<times> 'v) list"
    by (induction xs) auto
  show ?thesis
    using select [of "sort_key fst kvs"] select [of kvs] sort_key_stable [of fst k kvs] by simp
qed

lemma json_get_obj [simp]: "json_get (json_obj kvs) k = map_of kvs k"
  by (simp add: json_get_def json_obj_def)

lemma json_get_set: "is_object v \<Longrightarrow> json_get (json_set k x v) k' = (if k' = k then Some x else json_get v k')"
  by (cases v) (auto simp: is_object_def json_get_def json_set_def update_conv')

lemma is_object_obj [simp]: "is_object (json_obj kvs)" and is_object_set: "is_object v \<Longrightarrow> is_object (json_set k x v)"
  by (cases v; simp add: is_object_def json_obj_def json_set_def)+

section \<open>The mapping\<close>

record core_event_mapping =
  cm_core_turn_id :: "nat option"
  cm_event_type :: string
  cm_payload :: json
  cm_stream_source :: "string option"

datatype map_result = Mapped core_event_mapping | IgnoredInternal | Unmapped string

definition mapping :: "nat option \<Rightarrow> string \<Rightarrow> (string \<times> json) list \<Rightarrow> string option \<Rightarrow> core_event_mapping" where
  "mapping t ty kvs src =
     \<lparr>cm_core_turn_id = t, cm_event_type = ty, cm_payload = json_obj kvs, cm_stream_source = src\<rparr>"

fun stream_source_wire :: "stream_source \<Rightarrow> string" where
  "stream_source_wire ModelLive = ''model_live''"
| "stream_source_wire Synthetic = ''synthetic''"
| "stream_source_wire Replay = ''replay''"
| "stream_source_wire UnknownSource = ''unknown''"

definition json_source :: "stream_source \<Rightarrow> json" where
  "json_source s = JString (stream_source_wire s)"

fun response_map :: "event \<Rightarrow> core_event_mapping option" where
  "response_map (TurnStarted t) = Some (mapping (Some t) ''turn_started'' [] None)"
| "response_map (ResponseStarted t s) =
     Some (mapping (Some t) ''response_started'' [(''stream_source'', json_source s)] (Some (stream_source_wire s)))"
| "response_map (ResponseTextDelta t c s) =
     Some (mapping (Some t) ''response_text_delta'' [(''content_delta'', JString c), (''stream_source'', json_source s)]
       (Some (stream_source_wire s)))"
| "response_map (ReasoningDelta t c s) =
     Some (mapping (Some t) ''reasoning_delta'' [(''content_delta'', JString c), (''stream_source'', json_source s)]
       (Some (stream_source_wire s)))"
| "response_map (ResponseResumed t s) =
     Some (mapping (Some t) ''response_resumed'' [(''stream_source'', json_source s)] (Some (stream_source_wire s)))"
| "response_map (ResponseCompleted t c s) =
     Some (mapping (Some t) ''response_completed'' [(''content'', JString c), (''stream_source'', json_source s)]
       (Some (stream_source_wire s)))"
| "response_map (ResponseError t ecode message retryable) =
     Some (mapping (Some t) ''response_error''
       [(''code'', JString ecode), (''message'', JString message), (''retryable'', JBool retryable)] None)"
| "response_map (TurnCompleted t) = Some (mapping (Some t) ''turn_completed'' [] None)"
| "response_map _ = None"

definition json_proposal :: "tool_call_proposal \<Rightarrow> json" where
  "json_proposal p =
     json_obj [(''tool_call_id'', JString (tp_tool_call_id p)), (''tool_name'', JString (tp_tool_name p)),
       (''arguments'', json_obj (map (\<lambda>(k, v). (k, JString v)) (tp_arguments p))),
       (''depends_on'', JArray (map JString (tp_depends_on p))),
       (''concurrency_group'', json_opt_str (tp_concurrency_group p))]"

definition json_shell_metadata :: "shell_metadata option \<Rightarrow> json" where
  "json_shell_metadata m =
     (case m of
        None \<Rightarrow> JNull
      | Some m \<Rightarrow>
          json_obj [(''result_class'', JString (sm_result_class m)), (''backend'', JString (sm_backend m)),
            (''exit_code'', json_int (sm_exit_code m)), (''policy_decision'', JString (sm_policy_decision m)),
            (''runtime_allowed'', JBool (sm_runtime_allowed m)), (''degrade_reason'', json_opt_str (sm_degrade_reason m)),
            (''runtime_deny_reason'', json_opt_str (sm_runtime_deny_reason m))])"

fun tool_map :: "event \<Rightarrow> core_event_mapping option" where
  "tool_map (ToolCallsProposed t calls) =
     Some (mapping (Some t) ''tool_calls_proposed'' [(''tool_calls'', JArray (map json_proposal calls))] None)"
| "tool_map (ToolBatchCompleted t n succeeded failed) =
     Some (mapping (Some t) ''tool_batch_completed''
       [(''total'', json_nat n), (''succeeded'', json_nat succeeded), (''failed'', json_nat failed)] None)"
| "tool_map (ToolCallStarted t cid name target display) =
     Some (mapping (Some t) ''tool_call_started''
       [(''tool_call_id'', JString cid), (''tool_name'', JString name), (''target'', json_opt_str target),
        (''display_name'', json_opt_str display)] None)"
| "tool_map (ToolCallCompleted t cid name ok out meta display) =
     Some (mapping (Some t) ''tool_call_completed''
       [(''tool_call_id'', JString cid), (''tool_name'', JString name), (''ok'', JBool ok), (''output'', JString out),
        (''shell_metadata'', json_shell_metadata meta), (''display_name'', json_opt_str display)] None)"
| "tool_map (ToolCallArgsDelta t cid name delta display) =
     Some (mapping (Some t) ''tool_args_delta''
       [(''tool_call_id'', JString cid), (''tool_name'', JString name), (''args_delta'', JString delta),
        (''display_name'', json_opt_str display)] None)"
| "tool_map (ToolCallReady t cid name display target) =
     Some (mapping (Some t) ''tool_call_ready''
       [(''tool_call_id'', JString cid), (''tool_name'', JString name), (''display_name'', json_opt_str display),
        (''target'', json_opt_str target)] None)"
| "tool_map (ToolCallProgress t cid name message display) =
     Some (mapping (Some t) ''tool_call_progress''
       [(''tool_call_id'', JString cid), (''tool_name'', JString name), (''progress_message'', JString message),
        (''display_name'', json_opt_str display)] None)"
| "tool_map (ToolCallFailed t cid name ecode message retryable display) =
     Some (mapping (Some t) ''tool_call_failed''
       [(''tool_call_id'', JString cid), (''tool_name'', JString name), (''code'', JString ecode),
        (''message'', JString message), (''retryable'', JBool retryable), (''display_name'', json_opt_str display)] None)"
| "tool_map _ = None"

fun json_approval_kind :: "approval_kind option \<Rightarrow> json" where
  "json_approval_kind None = JNull"
| "json_approval_kind (Some Normal) = JString ''normal''"
| "json_approval_kind (Some Escalation) = JString ''escalation''"

fun approval_map :: "event \<Rightarrow> core_event_mapping option" where
  "approval_map (ApprovalRequested r) =
     Some (mapping (Some (ar_turn_id r)) ''approval_requested''
       [(''approval_id'', JString (ar_request_id r)), (''target'', JString (ar_target r)),
        (''reason'', JString (ar_reason r)),
        (''policy_version'', case ar_policy_version r of None \<Rightarrow> JNull | Some v \<Rightarrow> json_nat (unat v)),
        (''matched_rule_id'', json_opt_str (ar_matched_rule_id r)), (''tool_name'', json_opt_str (ar_tool_name r)),
        (''command_preview'', json_opt_str (ar_command_preview r)),
        (''risk_tags'', JArray (map JString (ar_risk_tags r))),
        (''sandbox_backend'', json_opt_str (ar_sandbox_backend r)),
        (''degrade_reason'', json_opt_str (ar_degrade_reason r)),
        (''approval_kind'', json_approval_kind (ar_approval_kind r))] None)"
| "approval_map (ApprovalResolved t rid approved) =
     Some (mapping (Some t) ''approval_resolved'' [(''approval_id'', JString rid), (''approved'', JBool approved)] None)"
| "approval_map _ = None"

fun map_misc :: "(nat \<times> nat \<Rightarrow> json) \<Rightarrow> event \<Rightarrow> core_event_mapping option" where
  "map_misc ratio_json ShutdownComplete = Some (mapping None ''session_shutdown'' [] None)"
| "map_misc ratio_json (ContextCompacted t compressed retained preview) =
     Some (mapping (Some t) ''context_compacted''
       [(''compressed_turns'', json_nat compressed), (''retained_turns'', json_nat retained),
        (''summary_preview'', JString preview)] None)"
| "map_misc ratio_json (ContextUsageUpdated t tokens window ratio) =
     Some (mapping (Some t) ''context_usage_updated''
       [(''input_tokens'', json_nat tokens), (''context_window_size'', json_nat window), (''ratio'', ratio_json ratio)] None)"
| "map_misc ratio_json _ = None"


fun event_variant_name :: "event \<Rightarrow> string" where
  "event_variant_name (TurnStarted _) = ''turn_started''"
| "event_variant_name (ToolCallStarted _ _ _ _ _) = ''tool_call_started''"
| "event_variant_name (ToolCallCompleted _ _ _ _ _ _ _) = ''tool_call_completed''"
| "event_variant_name (ToolCallArgsDelta _ _ _ _ _) = ''tool_call_args_delta''"
| "event_variant_name (ToolCallReady _ _ _ _ _) = ''tool_call_ready''"
| "event_variant_name (ToolCallProgress _ _ _ _ _) = ''tool_call_progress''"
| "event_variant_name (ToolCallFailed _ _ _ _ _ _ _) = ''tool_call_failed''"
| "event_variant_name (AssistantMessage _ _) = ''assistant_message''"
| "event_variant_name (ResponseStarted _ _) = ''response_started''"
| "event_variant_name (ResponseTextDelta _ _ _) = ''response_text_delta''"
| "event_variant_name (ReasoningDelta _ _ _) = ''reasoning_delta''"
| "event_variant_name (ToolCallsProposed _ _) = ''tool_calls_proposed''"
| "event_variant_name (ToolBatchCompleted _ _ _ _) = ''tool_batch_completed''"
| "event_variant_name (ResponseResumed _ _) = ''response_resumed''"
| "event_variant_name (ResponseCompleted _ _ _) = ''response_completed''"
| "event_variant_name (LoopWarning _ _ _) = ''loop_warning''"
| "event_variant_name (ResponseError _ _ _ _) = ''response_error''"
| "event_variant_name (ApprovalRequested _) = ''approval_requested''"
| "event_variant_name (ApprovalResolved _ _ _) = ''approval_resolved''"
| "event_variant_name (ContextUsageUpdated _ _ _ _) = ''context_usage_updated''"
| "event_variant_name (AgentSpawned _ _) = ''agent_spawned''"
| "event_variant_name (AgentStatusChanged _ _) = ''agent_status_changed''"
| "event_variant_name (ContextCompacted _ _ _ _) = ''context_compacted''"
| "event_variant_name (TurnCompleted _) = ''turn_completed''"
| "event_variant_name ShutdownComplete = ''shutdown_complete''"

fun classify_unmapped :: "event \<Rightarrow> map_result" where
  "classify_unmapped (AgentSpawned _ _) = IgnoredInternal"
| "classify_unmapped (AgentStatusChanged _ _) = IgnoredInternal"
| "classify_unmapped (AssistantMessage _ _) = IgnoredInternal"
| "classify_unmapped (LoopWarning _ _ _) = IgnoredInternal"
| "classify_unmapped e = Unmapped (event_variant_name e)"

definition or_else :: "'a option \<Rightarrow> 'a option \<Rightarrow> 'a option" where
  "or_else x y = (case x of None \<Rightarrow> y | Some _ \<Rightarrow> x)"

definition map_core_event_payload_result :: "(nat \<times> nat \<Rightarrow> json) \<Rightarrow> event \<Rightarrow> map_result" where
  "map_core_event_payload_result ratio_json e =
     (case or_else (or_else (or_else (response_map e) (tool_map e)) (approval_map e)) (map_misc ratio_json e) of
        Some m \<Rightarrow> Mapped m | None \<Rightarrow> classify_unmapped e)"

definition map_core_event_payload :: "(nat \<times> nat \<Rightarrow> json) \<Rightarrow> event \<Rightarrow> core_event_mapping option" where
  "map_core_event_payload ratio_json e =
     (case map_core_event_payload_result ratio_json e of Mapped m \<Rightarrow> Some m | _ \<Rightarrow> None)"

definition core_event_mapping_gate :: "(nat \<times> nat \<Rightarrow> json) \<Rightarrow> event \<Rightarrow> string option" where
  "core_event_mapping_gate ratio_json e =
     (case map_core_event_payload_result ratio_json e of Unmapped variant \<Rightarrow> Some variant | _ \<Rightarrow> None)"

text \<open>\<open>core_projection.rs\<close> infers the number of a turn from its first event that carries one; the two context
  events do not count.\<close>

fun first_turn_id :: "event list \<Rightarrow> nat option" where
  "first_turn_id [] = None"
| "first_turn_id (ContextUsageUpdated _ _ _ _ # es) = first_turn_id es"
| "first_turn_id (ContextCompacted _ _ _ _ # es) = first_turn_id es"
| "first_turn_id (e # es) = (case event_turn e of Some t \<Rightarrow> Some t | None \<Rightarrow> first_turn_id es)"

text \<open>The events a client never sees.\<close>

fun internal_event :: "event \<Rightarrow> bool" where
  "internal_event (AgentSpawned _ _) \<longleftrightarrow> True"
| "internal_event (AgentStatusChanged _ _) \<longleftrightarrow> True"
| "internal_event (AssistantMessage _ _) \<longleftrightarrow> True"
| "internal_event (LoopWarning _ _ _) \<longleftrightarrow> True"
| "internal_event _ \<longleftrightarrow> False"

lemma no_event_unmapped: "core_event_mapping_gate ratio_json e = None"
  by (cases e) (simp_all add: core_event_mapping_gate_def map_core_event_payload_result_def or_else_def)

end
