(* ===== verification/SessionRuntime.thy ===== *)
theory SessionRuntime
  imports PolicyCenter EventMapper
begin

text \<open>
  The state a gateway keeps for a session, \<open>openjax-gateway/src/state/runtime.rs\<close>: its turns, the numbering of its
  events, the identifiers of response and reasoning segments, and the window of recent events
  (\<open>openjax-core/src/streaming/replay.rs\<close>). The agent is a parameter \<open>'ag\<close>; clocks and the logs are left
  out, and the broadcast channel is the list of the events sent on it.
\<close>

section \<open>The replay buffer\<close>

record 'a replay_buffer =
  rb_capacity :: nat
  rb_next_seq :: nat
  rb_entries :: "(nat \<times> 'a) list"

record replay_window_error =
  rw_requested_after_seq :: nat
  rw_min_allowed :: nat

definition rb_with_capacity :: "nat \<Rightarrow> 'a replay_buffer" where
  "rb_with_capacity c = \<lparr>rb_capacity = max c 1, rb_next_seq = 1, rb_entries = []\<rparr>"

definition rb_push :: "'a \<Rightarrow> 'a replay_buffer \<Rightarrow> nat \<times> 'a replay_buffer" where
  "rb_push x b =
     (let seq = rb_next_seq b;
          kept = (if length (rb_entries b) \<ge> rb_capacity b then tl (rb_entries b) else rb_entries b)
      in (seq, b\<lparr>rb_next_seq := (if fits_u64 (seq + 1) then seq + 1 else seq), rb_entries := kept @ [(seq, x)]\<rparr>))"

definition rb_min_allowed :: "'a replay_buffer \<Rightarrow> nat" where
  "rb_min_allowed b = (case rb_entries b of [] \<Rightarrow> 0 | (seq, _) # _ \<Rightarrow> seq - 1)"

definition rb_replay_from :: "nat option \<Rightarrow> 'a replay_buffer \<Rightarrow> replay_window_error + (nat \<times> 'a) list" where
  "rb_replay_from after b =
     (if (case after of Some k \<Rightarrow> k < rb_min_allowed b | None \<Rightarrow> False)
      then Inl \<lparr>rw_requested_after_seq = the after, rw_min_allowed = rb_min_allowed b\<rparr>
      else Inr (filter (\<lambda>(seq, _). case after of Some k \<Rightarrow> seq > k | None \<Rightarrow> True) (rb_entries b)))"

definition rb_last_seq :: "'a replay_buffer \<Rightarrow> nat" where
  "rb_last_seq b = (if rb_entries b = [] then 0 else fst (last (rb_entries b)))"

section \<open>Turns and segments\<close>

datatype session_status = Active | Closing | Closed

datatype turn_status = TQueued | TRunning | TCompleted | TFailed

record api_turn_error =
  te_code :: string
  te_message :: string
  te_retryable :: bool
  te_details :: json

record turn_runtime =
  tr_status :: turn_status
  tr_assistant_message :: "string option"
  tr_error :: "api_turn_error option"

definition turn_queued :: turn_runtime where
  "turn_queued = \<lparr>tr_status = TQueued, tr_assistant_message = None, tr_error = None\<rparr>"

record node_state =
  ns_response_counter :: nat
  ns_reasoning_counter :: nat
  ns_current_response :: "string option"
  ns_current_reasoning :: "string option"

definition node_default :: node_state where
  "node_default = \<lparr>ns_response_counter = 0, ns_reasoning_counter = 0, ns_current_response = None, ns_current_reasoning = None\<rparr>"

definition response_key :: string where
  "response_key = ''response_segment_id''"

definition reasoning_key :: string where
  "reasoning_key = ''reasoning_segment_id''"

definition parse_segment_suffix :: "string \<Rightarrow> string \<Rightarrow> nat option" where
  "parse_segment_suffix sid p = Option.bind (strip_prefix sid p) parse_u64"

definition observe_response_segment_id :: "string \<Rightarrow> node_state \<Rightarrow> node_state" where
  "observe_response_segment_id sid n =
     n\<lparr>ns_response_counter := max (ns_response_counter n) (case parse_segment_suffix sid ''resp_'' of Some k \<Rightarrow> k | None \<Rightarrow> 0),
       ns_current_response := Some sid\<rparr>"

definition observe_reasoning_segment_id :: "string \<Rightarrow> node_state \<Rightarrow> node_state" where
  "observe_reasoning_segment_id sid n =
     n\<lparr>ns_reasoning_counter := max (ns_reasoning_counter n) (case parse_segment_suffix sid ''reason_'' of Some k \<Rightarrow> k | None \<Rightarrow> 0),
       ns_current_reasoning := Some sid\<rparr>"

definition open_new_response_segment :: "node_state \<Rightarrow> string \<times> node_state" where
  "open_new_response_segment n =
     (let c = ns_response_counter n + 1; sid = ''resp_'' @ dec_of_nat c
      in (sid, n\<lparr>ns_response_counter := c, ns_current_response := Some sid\<rparr>))"

definition current_or_open_response_segment :: "node_state \<Rightarrow> string \<times> node_state" where
  "current_or_open_response_segment n =
     (case ns_current_response n of Some sid \<Rightarrow> (sid, n) | None \<Rightarrow> open_new_response_segment n)"

definition current_or_open_reasoning_segment :: "node_state \<Rightarrow> string \<times> node_state" where
  "current_or_open_reasoning_segment n =
     (case ns_current_reasoning n of
        Some sid \<Rightarrow> (sid, n)
      | None \<Rightarrow>
          (let c = ns_reasoning_counter n + 1; sid = ''reason_'' @ dec_of_nat c
           in (sid, n\<lparr>ns_reasoning_counter := c, ns_current_reasoning := Some sid\<rparr>)))"

definition close_segments :: "node_state \<Rightarrow> node_state" where
  "close_segments n = n\<lparr>ns_current_response := None, ns_current_reasoning := None\<rparr>"

definition str_field :: "json \<Rightarrow> string \<Rightarrow> string option" where
  "str_field v k = Option.bind (json_get v k) as_str"

definition assign_response_segment_id :: "json \<Rightarrow> bool \<Rightarrow> node_state \<Rightarrow> json \<times> node_state" where
  "assign_response_segment_id payload open_new n =
     (case str_field payload response_key of
        Some existing \<Rightarrow> (payload, observe_response_segment_id existing n)
      | None \<Rightarrow>
          (let (sid, n') = (if open_new then open_new_response_segment n else current_or_open_response_segment n)
           in (json_set response_key (JString sid) payload, n')))"

definition assign_reasoning_segment_id :: "json \<Rightarrow> node_state \<Rightarrow> json \<times> node_state" where
  "assign_reasoning_segment_id payload n =
     (case str_field payload reasoning_key of
        Some existing \<Rightarrow> (payload, observe_reasoning_segment_id existing n)
      | None \<Rightarrow>
          (let (sid, n') = current_or_open_reasoning_segment n
           in (json_set reasoning_key (JString sid) payload, n')))"

definition observe_payload_ids :: "json \<Rightarrow> node_state \<Rightarrow> node_state" where
  "observe_payload_ids payload n =
     (let n1 = (case str_field payload response_key of Some sid \<Rightarrow> observe_response_segment_id sid n | None \<Rightarrow> n)
      in case str_field payload reasoning_key of Some sid \<Rightarrow> observe_reasoning_segment_id sid n1 | None \<Rightarrow> n1)"

section \<open>The session runtime\<close>

record stream_event_envelope =
  se_request_id :: string
  se_session_id :: string
  se_turn_id :: "string option"
  se_event_seq :: nat
  se_turn_seq :: nat
  se_timestamp :: string
  se_event_type :: string
  se_stream_source :: string
  se_payload :: json

text \<open>Hash maps are lists of their entries; \<open>sr_pending\<close> are the approvals somebody waits for, the map inside
  the approval handler; \<open>sr_turn_task\<close> says whether a turn task can be aborted.\<close>

record 'ag session_runtime =
  sr_agent :: 'ag
  sr_pending :: "string list"
  sr_active_provider_id :: "string option"
  sr_policy_overlay_rules :: "policy_rule list"
  sr_policy_level_override :: "decision_kind option"
  sr_status :: session_status
  sr_turns :: "(string \<times> turn_runtime) list"
  sr_core_turn_to_public :: "(nat \<times> string) list"
  sr_next_event_seq :: nat
  sr_turn_event_seq :: "(string \<times> nat) list"
  sr_event_log :: "stream_event_envelope replay_buffer"
  sr_sent :: "stream_event_envelope list"
  sr_resolved_approvals :: "string list"
  sr_turn_task :: bool
  sr_turn_submit_in_flight :: bool
  sr_turn_abort_requested :: bool
  sr_turn_stream_nodes :: "(string \<times> node_state) list"
  sr_replay_capacity :: nat

definition session_runtime_new :: "'ag \<Rightarrow> nat \<Rightarrow> 'ag session_runtime" where
  "session_runtime_new agent replay_capacity =
     \<lparr>sr_agent = agent, sr_pending = [], sr_active_provider_id = None, sr_policy_overlay_rules = [],
      sr_policy_level_override = None, sr_status = Active, sr_turns = [], sr_core_turn_to_public = [],
      sr_next_event_seq = 1, sr_turn_event_seq = [], sr_event_log = rb_with_capacity replay_capacity, sr_sent = [],
      sr_resolved_approvals = [], sr_turn_task = False, sr_turn_submit_in_flight = False,
      sr_turn_abort_requested = False, sr_turn_stream_nodes = [], sr_replay_capacity = replay_capacity\<rparr>"

definition clear_context_with_config :: "'ag \<Rightarrow> 'ag session_runtime \<Rightarrow> 'ag session_runtime" where
  "clear_context_with_config agent s =
     s\<lparr>sr_agent := agent, sr_pending := [], sr_policy_overlay_rules := [], sr_policy_level_override := None,
       sr_status := Active, sr_turns := [], sr_core_turn_to_public := [], sr_resolved_approvals := [],
       sr_turn_event_seq := [], sr_event_log := rb_with_capacity (sr_replay_capacity s), sr_turn_task := False,
       sr_turn_submit_in_flight := False, sr_turn_abort_requested := False, sr_turn_stream_nodes := []\<rparr>"

definition clear_context :: "'ag \<Rightarrow> 'ag session_runtime \<Rightarrow> 'ag session_runtime" where
  "clear_context agent s = (clear_context_with_config agent s)\<lparr>sr_active_provider_id := None\<rparr>"

definition closes_segments :: "string \<Rightarrow> bool" where
  "closes_segments ty \<longleftrightarrow> ty = ''response_completed'' \<or> ty = ''response_error'' \<or> ty = ''turn_completed''"

definition opens_response :: "string \<Rightarrow> bool" where
  "opens_response ty \<longleftrightarrow> ty = ''response_started'' \<or> ty = ''response_resumed''"

definition extends_response :: "string \<Rightarrow> bool" where
  "extends_response ty \<longleftrightarrow> ty = ''response_text_delta'' \<or> ty = ''response_completed''"

definition assign_node :: "string \<Rightarrow> json \<Rightarrow> node_state \<Rightarrow> json \<times> node_state" where
  "assign_node ty payload n =
     (let (payload', n1) =
            (if opens_response ty then assign_response_segment_id payload True n
             else if extends_response ty then assign_response_segment_id payload False n
             else if ty = ''reasoning_delta'' then assign_reasoning_segment_id payload n
             else (payload, n))
      in (payload', if closes_segments ty then close_segments n1 else n1))"

definition node_of :: "(string \<times> node_state) list \<Rightarrow> string \<Rightarrow> node_state" where
  "node_of nodes t = (case map_of nodes t of Some n \<Rightarrow> n | None \<Rightarrow> node_default)"

definition store_node :: "string \<Rightarrow> string \<Rightarrow> node_state \<Rightarrow> (string \<times> node_state) list \<Rightarrow> (string \<times> node_state) list" where
  "store_node t ty n nodes =
     (if ty = ''turn_completed'' then AList.delete t nodes else AList.update t n nodes)"

definition assign_stream_node_ids ::
  "string option \<Rightarrow> string \<Rightarrow> json \<Rightarrow> 'ag session_runtime \<Rightarrow> json \<times> 'ag session_runtime" where
  "assign_stream_node_ids turn_id ty payload s =
     (case turn_id of
        None \<Rightarrow> (payload, s)
      | Some t \<Rightarrow>
          (let (payload', n) = assign_node ty payload (node_of (sr_turn_stream_nodes s) t)
           in (payload', s\<lparr>sr_turn_stream_nodes := store_node t ty n (sr_turn_stream_nodes s)\<rparr>)))"

definition observe_node :: "string \<Rightarrow> json \<Rightarrow> node_state \<Rightarrow> node_state" where
  "observe_node ty payload n =
     (let n1 =
            (if opens_response ty
             then (if json_get payload response_key = None then snd (open_new_response_segment n) else n)
             else if extends_response ty
             then (if json_get payload response_key = None then snd (current_or_open_response_segment n) else n)
             else if ty = ''reasoning_delta''
             then (if json_get payload reasoning_key = None then snd (current_or_open_reasoning_segment n) else n)
             else n);
          n2 = observe_payload_ids payload n1
      in if closes_segments ty then close_segments n2 else n2)"

definition observe_stream_node_ids ::
  "string option \<Rightarrow> string \<Rightarrow> json \<Rightarrow> 'ag session_runtime \<Rightarrow> 'ag session_runtime" where
  "observe_stream_node_ids turn_id ty payload s =
     (case turn_id of
        None \<Rightarrow> s
      | Some t \<Rightarrow>
          s\<lparr>sr_turn_stream_nodes :=
              store_node t ty (observe_node ty payload (node_of (sr_turn_stream_nodes s) t)) (sr_turn_stream_nodes s)\<rparr>)"

definition create_gateway_event ::
  "string \<Rightarrow> string \<Rightarrow> string \<Rightarrow> string option \<Rightarrow> string \<Rightarrow> json \<Rightarrow> string option \<Rightarrow> 'ag session_runtime
     \<Rightarrow> stream_event_envelope \<times> 'ag session_runtime" where
  "create_gateway_event now request_id session_id turn_id ty payload source s =
     (let turn_seq = (case turn_id of
            None \<Rightarrow> 0
          | Some t \<Rightarrow> (case map_of (sr_turn_event_seq s) t of Some q \<Rightarrow> q | None \<Rightarrow> 0) + 1);
          seqs = (case turn_id of None \<Rightarrow> sr_turn_event_seq s | Some t \<Rightarrow> AList.update t turn_seq (sr_turn_event_seq s))
      in (\<lparr>se_request_id = request_id, se_session_id = session_id, se_turn_id = turn_id,
           se_event_seq = sr_next_event_seq s, se_turn_seq = turn_seq, se_timestamp = now, se_event_type = ty,
           se_stream_source = (case source of Some x \<Rightarrow> x | None \<Rightarrow> ''synthetic''), se_payload = payload\<rparr>,
          s\<lparr>sr_turn_event_seq := seqs, sr_next_event_seq := sr_next_event_seq s + 1\<rparr>))"

definition publish_event :: "stream_event_envelope \<Rightarrow> 'ag session_runtime \<Rightarrow> 'ag session_runtime" where
  "publish_event e s = s\<lparr>sr_event_log := snd (rb_push e (sr_event_log s)), sr_sent := sr_sent s @ [e]\<rparr>"

definition replay_from :: "nat option \<Rightarrow> 'ag session_runtime \<Rightarrow> replay_window_error + stream_event_envelope list" where
  "replay_from after s = map_sum id (map snd) (rb_replay_from after (sr_event_log s))"

definition get_or_create_public_turn_id :: "nat \<Rightarrow> 'ag session_runtime \<Rightarrow> string \<times> 'ag session_runtime" where
  "get_or_create_public_turn_id t s =
     (case map_of (sr_core_turn_to_public s) t of
        Some p \<Rightarrow> (p, s)
      | None \<Rightarrow>
          (let p = ''turn_'' @ dec_of_nat t
           in (p, s\<lparr>sr_core_turn_to_public := AList.update t p (sr_core_turn_to_public s)\<rparr>)))"


text \<open>\<open>GatewayApprovalHandler\<close>: the entry of a request is there from the request to its outcome, and answering it
  takes it out.\<close>

definition handler_request :: "string \<Rightarrow> 'ag session_runtime \<Rightarrow> 'ag session_runtime" where
  "handler_request aid s = s\<lparr>sr_pending := aid # removeAll aid (sr_pending s)\<rparr>"

definition handler_done :: "string \<Rightarrow> 'ag session_runtime \<Rightarrow> 'ag session_runtime" where
  "handler_done aid s = s\<lparr>sr_pending := removeAll aid (sr_pending s)\<rparr>"

definition handler_resolve :: "string \<Rightarrow> 'ag session_runtime \<Rightarrow> bool \<times> 'ag session_runtime" where
  "handler_resolve aid s = (aid \<in> set (sr_pending s), handler_done aid s)"

section \<open>The replay buffer implements a window on the list of everything pushed\<close>

definition numbered_log :: "'a list \<Rightarrow> (nat \<times> 'a) list" where
  "numbered_log xs = enumerate 1 xs"

definition window_of :: "nat \<Rightarrow> 'a list \<Rightarrow> 'a replay_buffer" where
  "window_of c xs =
     \<lparr>rb_capacity = max c 1, rb_next_seq = Suc (length xs),
      rb_entries = drop (length xs - max c 1) (numbered_log xs)\<rparr>"

lemma numbered_log_snoc: "numbered_log (xs @ [x]) = numbered_log xs @ [(Suc (length xs), x)]"
  by (simp add: numbered_log_def enumerate_append_eq)

lemma length_numbered_log [simp]: "length (numbered_log xs) = length xs"
  by (simp add: numbered_log_def)

lemma numbered_log_nth: "i < length xs \<Longrightarrow> numbered_log xs ! i = (Suc i, xs ! i)"
  by (simp add: numbered_log_def nth_enumerate_eq)

lemma numbered_log_filter: "filter (\<lambda>(q, _). q > k) (numbered_log xs) = drop k (numbered_log xs)"
proof (induction xs rule: rev_induct)
  case (snoc x xs)
  then show ?case by (cases "k \<le> length xs") (simp_all add: numbered_log_snoc)
qed (simp add: numbered_log_def)

lemma window_of_new: "rb_with_capacity c = window_of c []"
  by (simp add: rb_with_capacity_def window_of_def numbered_log_def)

lemma rb_push_window:
  assumes "length xs + 2 < 2 ^ 64"
  shows "rb_push x (window_of c xs) = (Suc (length xs), window_of c (xs @ [x]))"
proof -
  let ?n = "numbered_log xs"
  obtain d where d: "max c 1 = d" by blast
  then have pos: "Suc 0 - d = 0" by auto
  have "rb_push x \<lparr>rb_capacity = d, rb_next_seq = Suc (length xs), rb_entries = drop (length xs - d) ?n\<rparr>
    = (Suc (length xs), \<lparr>rb_capacity = d, rb_next_seq = Suc (length (xs @ [x])),
        rb_entries = drop (length (xs @ [x]) - d) (numbered_log (xs @ [x]))\<rparr>)"
  proof (cases "d \<le> length xs")
    case True
    then have "tl (drop (length xs - d) ?n) = drop (Suc (length xs) - d) ?n"
      by (simp add: Suc_diff_le drop_Suc tl_drop)
    moreover have "length (drop (length xs - d) ?n) \<ge> d" using True by auto
    ultimately show ?thesis using True assms pos
      by (simp add: rb_push_def numbered_log_snoc Let_def)
  next
    case False
    then have "length xs - d = 0" "Suc (length xs) - d = 0" by auto
    then show ?thesis using False assms by (simp add: rb_push_def numbered_log_snoc Let_def)
  qed
  then show ?thesis by (simp only: window_of_def d)
qed

lemma rb_min_allowed_window: "rb_min_allowed (window_of c xs) = length xs - max c 1"
proof (cases "xs = []")
  case False
  then have "length xs - max c 1 < length xs" by (cases xs) auto
  then have "drop (length xs - max c 1) (numbered_log xs)
      = (Suc (length xs - max c 1), xs ! (length xs - max c 1)) # drop (Suc (length xs - max c 1)) (numbered_log xs)"
    by (simp add: numbered_log_nth flip: Cons_nth_drop_Suc)
  then show ?thesis by (simp add: rb_min_allowed_def window_of_def)
qed (simp add: rb_min_allowed_def window_of_def numbered_log_def)

text \<open>C26: However many items are pushed, the buffer is the last \<open>capacity\<close> of them under the numbers
  1, 2, 3, ...; a replay after \<open>k\<close> is refused exactly when item \<open>k + 1\<close> has already left the window, with the
  smallest number it would accept, and otherwise returns every later item, in order and under its number.\<close>

theorem replay_buffer_refines_log:
  fixes xs :: "'a list" and c :: nat
  assumes "length xs + 2 < 2 ^ 64"
  defines "b \<equiv> fold (\<lambda>x b. snd (rb_push x b)) xs (rb_with_capacity c)"
  shows "b = window_of c xs \<and>
    rb_replay_from (Some k) b =
      (if k < length xs - max c 1
       then Inl \<lparr>rw_requested_after_seq = k, rw_min_allowed = length xs - max c 1\<rparr>
       else Inr (drop k (numbered_log xs))) \<and>
    rb_last_seq b = length xs"
proof (intro conjI)
  have "length xs + 2 < 2 ^ 64 \<Longrightarrow> fold (\<lambda>x b. snd (rb_push x b)) xs (rb_with_capacity c) = window_of c xs" for xs :: "'a list"
    by (induction xs rule: rev_induct) (simp_all add: window_of_new rb_push_window)
  then show b: "b = window_of c xs" using assms(1) by (simp add: b_def)
  have "filter (\<lambda>(q, _). q > k) (drop (length xs - max c 1) (numbered_log xs)) = drop k (numbered_log xs)"
    if "\<not> k < length xs - max c 1"
  proof -
    have "filter (\<lambda>(q, _). q > k) (drop m (numbered_log xs)) = filter (\<lambda>(q, _). q > k) (numbered_log xs)" if "m \<le> k" for m
    proof -
      have "filter (\<lambda>(q, _). q > k) (take m (numbered_log xs)) = []"
        using that by (auto simp: filter_empty_conv in_set_conv_nth numbered_log_nth)
      then show ?thesis
        using filter_append [of "\<lambda>(q, _). q > k" "take m (numbered_log xs)" "drop m (numbered_log xs)"] by simp
    qed
    then show ?thesis using that by (simp add: numbered_log_filter)
  qed
  then show "rb_replay_from (Some k) b =
      (if k < length xs - max c 1
       then Inl \<lparr>rw_requested_after_seq = k, rw_min_allowed = length xs - max c 1\<rparr>
       else Inr (drop k (numbered_log xs)))"
    unfolding b rb_replay_from_def rb_min_allowed_window by (simp add: window_of_def)
  show "rb_last_seq b = length xs"
  proof (cases xs rule: rev_cases)
    case (snoc ys y)
    then have "length xs - max c 1 < length (numbered_log xs)" by simp
    then show ?thesis using snoc by (simp add: b rb_last_seq_def window_of_def numbered_log_snoc)
  qed (simp add: b rb_last_seq_def window_of_def numbered_log_def)
qed

theorem replay_buffer_refines_log_witness:
  "rb_replay_from (Some 1) (fold (\<lambda>x b. snd (rb_push x b)) [''a'', ''b'', ''c''] (rb_with_capacity 2))
     = Inr [(2, ''b''), (3, ''c'')]"
proof -
  have "drop 1 (numbered_log [''a'', ''b'', ''c'']) = [(2, ''b''), (3, ''c'')]"
    by (simp add: numbered_log_def)
  then show ?thesis using replay_buffer_refines_log [of "[''a'', ''b'', ''c'']" 2 1, THEN conjunct2, THEN conjunct1] by simp
qed

section \<open>Assigning segment identifiers and reading them back\<close>

definition below_counter :: "string option \<Rightarrow> string \<Rightarrow> nat \<Rightarrow> bool" where
  "below_counter cur p n \<longleftrightarrow>
     (case cur of None \<Rightarrow> True | Some sid \<Rightarrow> (case parse_segment_suffix sid p of Some k \<Rightarrow> k \<le> n | None \<Rightarrow> True))"

definition node_ok :: "nat \<Rightarrow> node_state \<Rightarrow> bool" where
  "node_ok m n \<longleftrightarrow> ns_response_counter n \<le> m \<and> ns_reasoning_counter n \<le> m
     \<and> below_counter (ns_current_response n) ''resp_'' (ns_response_counter n)
     \<and> below_counter (ns_current_reasoning n) ''reason_'' (ns_reasoning_counter n)"

definition bare_payload :: "json \<Rightarrow> bool" where
  "bare_payload v \<longleftrightarrow> is_object v \<and> json_get v response_key = None \<and> json_get v reasoning_key = None"

lemma parse_suffix_fresh: "k < 2 ^ 64 \<Longrightarrow> parse_segment_suffix (p @ dec_of_nat k) p = Some k"
proof -
  assume k: "k < 2 ^ 64"
  obtain c t where ct: "dec_of_nat k = c # t" "is_digit c" using dec_of_nat_hd [of k] by blast
  then have "c \<noteq> CHR ''+''" by (auto simp: is_digit_def Prelude.code_def)
  then have "parse_u64 (dec_of_nat k) = Some k" using k parse_digits_dec [of k] ct(1) by (simp add: parse_u64_def)
  then show ?thesis by (simp add: parse_segment_suffix_def strip_prefix_def)
qed

lemma keys_distinct: "response_key \<noteq> reasoning_key"
  by (simp add: response_key_def reasoning_key_def)

lemma observe_below:
  "node_ok m n \<Longrightarrow> ns_current_response n = Some sid \<Longrightarrow> observe_response_segment_id sid n = n"
  "node_ok m n \<Longrightarrow> ns_current_reasoning n = Some sid \<Longrightarrow> observe_reasoning_segment_id sid n = n"
  by (auto simp: observe_response_segment_id_def observe_reasoning_segment_id_def node_ok_def below_counter_def
      split: option.splits)

lemma open_response_ok:
  assumes "node_ok m n" "Suc m < 2 ^ 64" "open_new_response_segment n = (sid, n')"
  shows "node_ok (Suc m) n'" "ns_current_response n' = Some sid" "observe_response_segment_id sid n = n'"
proof -
  have "Suc (ns_response_counter n) < 2 ^ 64" using assms by (simp add: node_ok_def)
  note p = parse_suffix_fresh [OF this, of "''resp_''"]
  have s: "sid = ''resp_'' @ dec_of_nat (Suc (ns_response_counter n))"
      "n' = n\<lparr>ns_response_counter := Suc (ns_response_counter n), ns_current_response := Some sid\<rparr>"
    using assms(3) by (auto simp: open_new_response_segment_def Let_def)
  show "node_ok (Suc m) n'" "ns_current_response n' = Some sid" "observe_response_segment_id sid n = n'"
    using assms(1) p by (auto simp: s node_ok_def below_counter_def observe_response_segment_id_def simp del: dec_of_nat.simps)
qed

lemma node_ok_mono: "node_ok m n \<Longrightarrow> node_ok (Suc m) n"
  by (simp add: node_ok_def)

lemma current_response_ok:
  assumes "node_ok m n" "Suc m < 2 ^ 64" "current_or_open_response_segment n = (sid, n')"
  shows "node_ok (Suc m) n'" "ns_current_response n' = Some sid" "observe_response_segment_id sid n = n'"
  using assms open_response_ok [OF assms(1,2), of sid n'] observe_below(1) [OF assms(1), of sid] node_ok_mono [OF assms(1)]
  by (auto simp: current_or_open_response_segment_def split: option.splits)

lemma current_reasoning_ok:
  assumes "node_ok m n" "Suc m < 2 ^ 64" "current_or_open_reasoning_segment n = (sid, n')"
  shows "node_ok (Suc m) n'" "ns_current_reasoning n' = Some sid" "observe_reasoning_segment_id sid n = n'"
proof -
  have "Suc (ns_reasoning_counter n) < 2 ^ 64" using assms by (simp add: node_ok_def)
  note p = parse_suffix_fresh [OF this, of "''reason_''"]
  have s: "ns_current_reasoning n = Some sid \<and> n' = n \<or> sid = ''reason_'' @ dec_of_nat (Suc (ns_reasoning_counter n)) \<and>
      n' = n\<lparr>ns_reasoning_counter := Suc (ns_reasoning_counter n), ns_current_reasoning := Some sid\<rparr>"
    using assms(3) by (auto simp: current_or_open_reasoning_segment_def Let_def split: option.splits)
  have "node_ok (Suc m) n' \<and> ns_current_reasoning n' = Some sid \<and> observe_reasoning_segment_id sid n = n'"
    using s
  proof
    assume "ns_current_reasoning n = Some sid \<and> n' = n"
    then show ?thesis using node_ok_mono [OF assms(1)] observe_below(2) [OF assms(1), of sid] by simp
  next
    assume "sid = ''reason_'' @ dec_of_nat (Suc (ns_reasoning_counter n)) \<and>
      n' = n\<lparr>ns_reasoning_counter := Suc (ns_reasoning_counter n), ns_current_reasoning := Some sid\<rparr>"
    then show ?thesis using assms(1) p
      by (simp add: node_ok_def below_counter_def observe_reasoning_segment_id_def del: dec_of_nat.simps)
  qed
  then show "node_ok (Suc m) n'" "ns_current_reasoning n' = Some sid" "observe_reasoning_segment_id sid n = n'"
    by blast+
qed

lemma close_ok: "node_ok m n \<Longrightarrow> node_ok m (close_segments n)"
  by (simp add: node_ok_def close_segments_def below_counter_def)

lemma bare_fields:
  assumes "bare_payload v"
  shows "str_field v response_key = None" "str_field v reasoning_key = None" "json_get v response_key = None"
    "json_get v reasoning_key = None"
    "str_field (json_set response_key (JString sid) v) response_key = Some sid"
    "str_field (json_set response_key (JString sid) v) reasoning_key = None"
    "str_field (json_set reasoning_key (JString sid) v) reasoning_key = Some sid"
    "str_field (json_set reasoning_key (JString sid) v) response_key = None"
    "json_get (json_set response_key (JString sid) v) response_key = Some (JString sid)"
    "json_get (json_set reasoning_key (JString sid) v) reasoning_key = Some (JString sid)"
    "json_get (json_set reasoning_key (JString sid) v) response_key = None"
  using assms keys_distinct by (auto simp: bare_payload_def str_field_def json_get_set as_str_def)

lemma types_exclusive:
  "opens_response ty \<Longrightarrow> \<not> extends_response ty \<and> ty \<noteq> ''reasoning_delta'' \<and> \<not> closes_segments ty"
  "extends_response ty \<Longrightarrow> ty \<noteq> ''reasoning_delta''"
  by (auto simp: opens_response_def extends_response_def closes_segments_def)

text \<open>Reading an event back from the log gives the segment state that assigning its identifiers left.\<close>

lemma observe_assigned:
  assumes n: "node_ok m n" "Suc m < 2 ^ 64" and bare: "bare_payload v" and run: "assign_node ty v n = (v', n')"
  shows "observe_node ty v' n = n'" and "node_ok (Suc m) n'"
proof -
  note b = bare_fields [OF bare]
  have fin: "node_ok (Suc m) k \<Longrightarrow> node_ok (Suc m) (if closes_segments ty then close_segments k else k)" for k
    by (simp add: close_ok)
  have "observe_node ty v' n = n' \<and> node_ok (Suc m) n'"
  proof (cases "opens_response ty \<or> extends_response ty")
    case True
    obtain sid k where k: "(if opens_response ty then open_new_response_segment n else current_or_open_response_segment n) = (sid, k)"
      by (cases "if opens_response ty then open_new_response_segment n else current_or_open_response_segment n")
    have k_ok: "node_ok (Suc m) k" "observe_response_segment_id sid n = k"
      using k open_response_ok [OF n, of sid k] current_response_ok [OF n, of sid k] by (auto split: if_splits)
    have "v' = json_set response_key (JString sid) v" "n' = (if closes_segments ty then close_segments k else k)"
      using run True k b(1) types_exclusive(1) [of ty]
      by (auto simp: assign_node_def assign_response_segment_id_def split: if_splits)
    then show ?thesis using True k_ok fin [OF k_ok(1)] b
      by (auto simp: observe_node_def observe_payload_ids_def Let_def)
  next
    case False
    show ?thesis
    proof (cases "ty = ''reasoning_delta''")
      case True
      obtain sid k where k: "current_or_open_reasoning_segment n = (sid, k)"
        by (cases "current_or_open_reasoning_segment n")
      note k_ok = current_reasoning_ok [OF n k]
      have "v' = json_set reasoning_key (JString sid) v" "n' = (if closes_segments ty then close_segments k else k)"
        using run True False k b(2) by (auto simp: assign_node_def assign_reasoning_segment_id_def)
      then show ?thesis using True False k_ok fin [OF k_ok(1)] b
        by (auto simp: observe_node_def observe_payload_ids_def Let_def)
    next
      case other: False
      then have "v' = v" "n' = (if closes_segments ty then close_segments n else n)"
        using run False by (auto simp: assign_node_def)
      then show ?thesis using other False b fin [OF node_ok_mono [OF n(1)]]
        by (auto simp: observe_node_def observe_payload_ids_def Let_def)
    qed
  qed
  then show "observe_node ty v' n = n'" "node_ok (Suc m) n'" by blast+
qed

end
