(* ===== verification/Transcript.thy ===== *)
theory Transcript
  imports Prelude "HOL-Library.AList"
begin

text \<open>
  The transcript of a gateway session, \<open>openjax-gateway/src/transcript/store.rs\<close> and \<open>types.rs\<close>: an
  append-only log cut into segment files, with a manifest that says which segment is active and which
  sequence number was written last. The disk of a session is a record; a fault says where an append
  is cut short.
\<close>

section \<open>Records and the disk\<close>

definition TRANSCRIPT_SCHEMA_VERSION :: nat where
  "TRANSCRIPT_SCHEMA_VERSION = 1"

definition FIRST_SEGMENT_FILE :: string where
  "FIRST_SEGMENT_FILE = ''segment-000001.jsonl''"

record transcript_record =
  ts_schema_version :: nat
  ts_session_id :: string
  ts_event_seq :: nat
  ts_turn_seq :: nat
  ts_turn_id :: "string option"
  ts_event_type :: string
  ts_stream_source :: string
  ts_timestamp :: string
  ts_payload :: json
  ts_request_id :: string

record transcript_manifest =
  mf_schema_version :: nat
  mf_session_id :: string
  mf_last_event_seq :: nat
  mf_last_turn_seq :: nat
  mf_active_segment :: string
  mf_updated_at :: string

definition manifest_new_empty :: "string \<Rightarrow> string \<Rightarrow> transcript_manifest" where
  "manifest_new_empty session_id updated_at =
     \<lparr>mf_schema_version = TRANSCRIPT_SCHEMA_VERSION, mf_session_id = session_id, mf_last_event_seq = 0,
      mf_last_turn_seq = 0, mf_active_segment = FIRST_SEGMENT_FILE, mf_updated_at = updated_at\<rparr>"

text \<open>A line of a segment holds a record, or is torn: so many bytes that are not the text of a record.\<close>

datatype log_line = Line transcript_record | Torn nat

record segment =
  sg_lines :: "log_line list"
  sg_writable :: bool

record session_dir =
  sd_manifest :: "transcript_manifest option"
  sd_segments :: "(string \<times> segment) list"

definition empty_dir :: session_dir where
  "empty_dir = \<lparr>sd_manifest = None, sd_segments = []\<rparr>"

datatype transcript_error =
  TailUnparsable string | LineUnparsable string | InvalidSegmentName string | Unopenable string
| RecordNotWritten string | ManifestNotWritten

text \<open>Where an append is cut short, by an error of the disk or the end of the process: before the record is
  written, after so many bytes of it, or after it and before the manifest.\<close>

datatype fault = NoFault | BeforeRecord | InRecord nat | BeforeManifest

section \<open>Segment names\<close>

definition segment_prefix :: string where
  "segment_prefix = ''segment-''"

definition segment_suffix :: string where
  "segment_suffix = ''.jsonl''"

definition parse_segment_index :: "string \<Rightarrow> nat option" where
  "parse_segment_index n =
     (if starts_with n segment_prefix \<and> suffix segment_suffix n
      then parse_u64 (take (length n - length segment_suffix - length segment_prefix) (drop (length segment_prefix) n))
      else None)"

definition segment_name :: "nat \<Rightarrow> string" where
  "segment_name i =
     segment_prefix @ replicate (6 - length (dec_of_nat i)) (CHR ''0'') @ dec_of_nat i @ segment_suffix"

definition next_segment_name :: "string \<Rightarrow> transcript_error + string" where
  "next_segment_name current =
     (case parse_segment_index current of
        None \<Rightarrow> Inl (InvalidSegmentName current) | Some i \<Rightarrow> Inr (segment_name (i + 1)))"

section \<open>Appending\<close>

definition saturating_succ :: "nat \<Rightarrow> nat" where
  "saturating_succ n = (if fits_u64 (n + 1) then n + 1 else 2 ^ 64 - 1)"

definition segment_lines :: "session_dir \<Rightarrow> string \<Rightarrow> log_line list" where
  "segment_lines d n = (case map_of (sd_segments d) n of Some s \<Rightarrow> sg_lines s | None \<Rightarrow> [])"

definition write_manifest :: "transcript_manifest \<Rightarrow> session_dir \<Rightarrow> session_dir" where
  "write_manifest m d = d\<lparr>sd_manifest := Some m\<rparr>"

definition read_segment_tail :: "session_dir \<Rightarrow> string \<Rightarrow> transcript_error + transcript_record option" where
  "read_segment_tail d n =
     (if segment_lines d n = [] then Inr None
      else case last (segment_lines d n) of Line r \<Rightarrow> Inr (Some r) | Torn _ \<Rightarrow> Inl (TailUnparsable n))"

definition recover_manifest_from_tail ::
  "transcript_manifest \<Rightarrow> session_dir \<Rightarrow> transcript_error + transcript_manifest \<times> session_dir" where
  "recover_manifest_from_tail m d =
     (case read_segment_tail d (mf_active_segment m) of
        Inl e \<Rightarrow> Inl e
      | Inr None \<Rightarrow> Inr (m, d)
      | Inr (Some r) \<Rightarrow>
          if ts_event_seq r > mf_last_event_seq m then
            (let m' = m\<lparr>mf_last_event_seq := ts_event_seq r, mf_last_turn_seq := ts_turn_seq r,
                        mf_updated_at := ts_timestamp r\<rparr>
             in Inr (m', write_manifest m' d))
          else Inr (m, d))"

text \<open>Opening a segment to append to it creates it.\<close>

definition open_append :: "string \<Rightarrow> session_dir \<Rightarrow> bool \<times> session_dir" where
  "open_append n d =
     (case map_of (sd_segments d) n of
        Some s \<Rightarrow> (sg_writable s, d)
      | None \<Rightarrow> (True, d\<lparr>sd_segments := AList.update n \<lparr>sg_lines = [], sg_writable = True\<rparr> (sd_segments d)\<rparr>))"

definition rotate_if_active_segment_unwritable ::
  "transcript_manifest \<Rightarrow> session_dir \<Rightarrow> (transcript_error + transcript_manifest) \<times> session_dir" where
  "rotate_if_active_segment_unwritable m d =
     (let (ok, d1) = open_append (mf_active_segment m) d
      in if ok then (Inr m, d1)
         else case next_segment_name (mf_active_segment m) of
           Inl e \<Rightarrow> (Inl e, d1)
         | Inr n \<Rightarrow>
             (let m' = m\<lparr>mf_active_segment := n\<rparr>; (ok2, d2) = open_append n (write_manifest m' d1)
              in (if ok2 then Inr m' else Inl (Unopenable n), d2)))"

text \<open>\<open>enc\<close> is the length of the JSON text of a record; a line adds one byte.\<close>

definition segment_bytes :: "(transcript_record \<Rightarrow> nat) \<Rightarrow> log_line list \<Rightarrow> nat" where
  "segment_bytes enc ls = sum_list (map (\<lambda>l. case l of Line r \<Rightarrow> enc r + 1 | Torn b \<Rightarrow> b) ls)"

definition should_rotate_by_size ::
  "(transcript_record \<Rightarrow> nat) \<Rightarrow> nat \<Rightarrow> session_dir \<Rightarrow> transcript_manifest \<Rightarrow> nat \<Rightarrow> bool" where
  "should_rotate_by_size enc max_bytes d m new_size \<longleftrightarrow>
     (case map_of (sd_segments d) (mf_active_segment m) of
        None \<Rightarrow> False | Some s \<Rightarrow> segment_bytes enc (sg_lines s) + new_size > max_bytes)"

definition add_line :: "string \<Rightarrow> log_line \<Rightarrow> session_dir \<Rightarrow> session_dir" where
  "add_line n l d =
     (let s = (case map_of (sd_segments d) n of Some s \<Rightarrow> s | None \<Rightarrow> \<lparr>sg_lines = [], sg_writable = True\<rparr>)
      in d\<lparr>sd_segments := AList.update n (s\<lparr>sg_lines := sg_lines s @ [l]\<rparr>) (sd_segments d)\<rparr>)"

text \<open>The record is numbered, a full segment is rotated, the line is written, then the manifest.\<close>

definition write_record ::
  "(transcript_record \<Rightarrow> nat) \<Rightarrow> nat \<Rightarrow> fault \<Rightarrow> transcript_record \<Rightarrow> transcript_manifest \<Rightarrow> session_dir
     \<Rightarrow> (transcript_error + transcript_record) \<times> session_dir" where
  "write_record enc max_bytes flt r m d =
     (let r' = r\<lparr>ts_schema_version := TRANSCRIPT_SCHEMA_VERSION, ts_event_seq := saturating_succ (mf_last_event_seq m),
                 ts_session_id := mf_session_id m\<rparr>;
          rotated = (if should_rotate_by_size enc max_bytes d m (enc r' + 1)
                     then map_sum id (\<lambda>n. m\<lparr>mf_active_segment := n\<rparr>) (next_segment_name (mf_active_segment m))
                     else Inr m)
      in case rotated of
           Inl e \<Rightarrow> (Inl e, d)
         | Inr m1 \<Rightarrow>
             (case rotate_if_active_segment_unwritable m1 d of
                (Inl e, d2) \<Rightarrow> (Inl e, d2)
              | (Inr m2, d2) \<Rightarrow>
                  (let n = mf_active_segment m2
                   in case flt of
                        BeforeRecord \<Rightarrow> (Inl (RecordNotWritten n), d2)
                      | InRecord b \<Rightarrow> (Inl (RecordNotWritten n), add_line n (Torn b) d2)
                      | BeforeManifest \<Rightarrow> (Inl ManifestNotWritten, add_line n (Line r') d2)
                      | NoFault \<Rightarrow>
                          (Inr r', write_manifest (m2\<lparr>mf_last_event_seq := ts_event_seq r',
                             mf_last_turn_seq := ts_turn_seq r', mf_updated_at := ts_timestamp r'\<rparr>)
                             (add_line n (Line r') d2)))))"

definition append_record ::
  "(transcript_record \<Rightarrow> nat) \<Rightarrow> nat \<Rightarrow> fault \<Rightarrow> transcript_record \<Rightarrow> session_dir
     \<Rightarrow> (transcript_error + transcript_record) \<times> session_dir" where
  "append_record enc max_bytes flt r d =
     (let m = (case sd_manifest d of Some m \<Rightarrow> m | None \<Rightarrow> manifest_new_empty (ts_session_id r) (ts_timestamp r))
      in case recover_manifest_from_tail m d of
           Inl e \<Rightarrow> (Inl e, d)
         | Inr (m1, d1) \<Rightarrow>
             (case rotate_if_active_segment_unwritable m1 d1 of
                (Inl e, d2) \<Rightarrow> (Inl e, d2)
              | (Inr m2, d2) \<Rightarrow> write_record enc max_bytes flt r m2 d2))"

section \<open>Replaying\<close>

definition segment_order :: "session_dir \<Rightarrow> (string \<times> segment) list" where
  "segment_order d =
     sort_key (\<lambda>(n, s). the (parse_segment_index n))
       (filter (\<lambda>(n, s). parse_segment_index n \<noteq> None) (sd_segments d))"

fun read_lines :: "string \<Rightarrow> log_line list \<Rightarrow> transcript_error + transcript_record list" where
  "read_lines n [] = Inr []"
| "read_lines n (Torn b # ls) = Inl (LineUnparsable n)"
| "read_lines n (Line r # ls) = map_sum id ((#) r) (read_lines n ls)"

fun read_segments :: "(string \<times> segment) list \<Rightarrow> transcript_error + transcript_record list" where
  "read_segments [] = Inr []"
| "read_segments ((n, s) # ss) =
     (case read_lines n (sg_lines s) of
        Inl e \<Rightarrow> Inl e | Inr rs \<Rightarrow> map_sum id ((@) rs) (read_segments ss))"

definition replay :: "nat option \<Rightarrow> session_dir \<Rightarrow> transcript_error + transcript_record list" where
  "replay after d =
     (case sd_manifest d of
        None \<Rightarrow> Inr []
      | Some m \<Rightarrow>
          map_sum id (filter (\<lambda>r. ts_session_id r = mf_session_id m
              \<and> (case after of Some k \<Rightarrow> ts_event_seq r > k | None \<Rightarrow> True)))
            (read_segments (segment_order d)))"

section \<open>The store: all sessions\<close>

text \<open>\<open>parse_time\<close> reads an RFC 3339 time as nanoseconds; a session whose time does not parse is kept.\<close>

type_synonym transcript_store = "(string \<times> session_dir) list"

definition recover_manifest_from_active_segment_tail :: "session_dir \<Rightarrow> transcript_error + session_dir" where
  "recover_manifest_from_active_segment_tail d =
     (case sd_manifest d of None \<Rightarrow> Inr d | Some m \<Rightarrow> map_sum id snd (recover_manifest_from_tail m d))"

definition rotate_when_active_segment_unwritable :: "session_dir \<Rightarrow> transcript_error option \<times> session_dir" where
  "rotate_when_active_segment_unwritable d =
     (case sd_manifest d of
        None \<Rightarrow> (None, d)
      | Some m \<Rightarrow> (case rotate_if_active_segment_unwritable m d of
            (Inl e, d') \<Rightarrow> (Some e, d') | (Inr _, d') \<Rightarrow> (None, d')))"

definition gc :: "(string \<Rightarrow> int option) \<Rightarrow> int \<Rightarrow> nat \<Rightarrow> transcript_store \<Rightarrow> transcript_store" where
  "gc parse_time now retention_days st =
     (let cutoff = now - int retention_days * 86400 * 10 ^ 9
      in filter (\<lambda>(sid, d). case sd_manifest d of
            None \<Rightarrow> True
          | Some m \<Rightarrow> (case parse_time (mf_updated_at m) of None \<Rightarrow> True | Some t \<Rightarrow> \<not> t < cutoff)) st)"

definition delete_session :: "string \<Rightarrow> transcript_store \<Rightarrow> transcript_store" where
  "delete_session sid st = AList.delete sid st"

definition append_to ::
  "(transcript_record \<Rightarrow> nat) \<Rightarrow> nat \<Rightarrow> fault \<Rightarrow> transcript_record \<Rightarrow> transcript_store
     \<Rightarrow> (transcript_error + transcript_record) \<times> transcript_store" where
  "append_to enc max_bytes flt r st =
     (let (res, d) = append_record enc max_bytes flt r (case map_of st (ts_session_id r) of Some d \<Rightarrow> d | None \<Rightarrow> empty_dir)
      in (res, AList.update (ts_session_id r) d st))"

section \<open>Lemmas\<close>

lemma digits_value_zeros: "digits_value (replicate n (CHR ''0'') @ s) = digits_value s"
  by (induction n) (simp_all add: digits_value_def Prelude.code_def)

lemma parse_segment_index_name [simp]: "i < 2 ^ 64 \<Longrightarrow> parse_segment_index (segment_name i) = Some i"
proof -
  assume i: "i < 2 ^ 64"
  let ?d = "replicate (6 - length (dec_of_nat i)) (CHR ''0'') @ dec_of_nat i"
  have digits: "?d \<noteq> []" "list_all is_digit ?d" "digits_value ?d = i"
    using dec_of_nat_digits [of i] digits_value_zeros
    by (auto simp: list_all_iff is_digit_def Prelude.code_def)
  have "parse_u64 ?d = Some i"
  proof -
    obtain c t where ct: "?d = c # t" using digits(1) by (cases ?d) blast+
    then have "c \<noteq> CHR ''+''" using digits(2) by (auto simp: is_digit_def Prelude.code_def)
    then have "(case ?d of c # t \<Rightarrow> if c = CHR ''+'' then t else ?d | [] \<Rightarrow> ?d) = ?d" using ct by simp
    moreover have "parse_digits ?d = Some i" unfolding parse_digits_def using digits by simp
    ultimately show ?thesis unfolding parse_u64_def using i by (simp only:) simp
  qed
  moreover have "take (length (segment_name i) - length segment_suffix - length segment_prefix)
      (drop (length segment_prefix) (segment_name i)) = ?d"
    by (simp add: segment_name_def)
  moreover have "starts_with (segment_name i) segment_prefix" "suffix segment_suffix (segment_name i)"
    by (simp_all add: starts_with_def segment_name_def suffix_def)
  ultimately show ?thesis by (simp only: parse_segment_index_def simp_thms if_True)
qed

lemma segment_name_inj: "i < 2 ^ 64 \<Longrightarrow> j < 2 ^ 64 \<Longrightarrow> segment_name i = segment_name j \<longleftrightarrow> i = j"
  by (metis option.inject parse_segment_index_name)

lemma next_segment_name_name: "i < 2 ^ 64 \<Longrightarrow> next_segment_name (segment_name i) = Inr (segment_name (i + 1))"
  by (simp add: next_segment_name_def)

lemma first_segment_name: "FIRST_SEGMENT_FILE = segment_name 1"
  by code_simp

text \<open>The records on the disk, in the order of the segments; \<open>named i ss\<close> are segments \<open>i\<close>, \<open>i + 1\<close>, ...\<close>

definition segment_records :: "segment \<Rightarrow> transcript_record list" where
  "segment_records s = concat (map (\<lambda>l. case l of Line r \<Rightarrow> [r] | Torn _ \<Rightarrow> []) (sg_lines s))"

definition disk_records :: "session_dir \<Rightarrow> transcript_record list" where
  "disk_records d = concat (map (segment_records \<circ> snd) (sd_segments d))"

fun named :: "nat \<Rightarrow> segment list \<Rightarrow> (string \<times> segment) list" where
  "named i [] = []"
| "named i (s # ss) = (segment_name i, s) # named (Suc i) ss"

lemma named_lookup:
  "k + length ss < 2 ^ 64 \<Longrightarrow> k \<le> i \<Longrightarrow> i < 2 ^ 64 \<Longrightarrow>
   map_of (named k ss) (segment_name i) = (if i < k + length ss then Some (ss ! (i - k)) else None)"
proof (induction ss arbitrary: k)
  case (Cons s ss)
  show ?case
  proof (cases "i = k")
    case False
    then have "segment_name i \<noteq> segment_name k" using segment_name_inj [of i k] Cons.prems by auto
    moreover have "i - k = Suc (i - Suc k)" using False Cons.prems by arith
    ultimately show ?thesis using Cons.IH [of "Suc k"] Cons.prems False by simp
  qed simp
qed simp

lemma named_update:
  "k + length ss < 2 ^ 64 \<Longrightarrow> k \<le> i \<Longrightarrow> i < k + length ss \<Longrightarrow>
   AList.update (segment_name i) v (named k ss) = named k (ss[i - k := v])"
proof (induction ss arbitrary: k)
  case (Cons s ss)
  show ?case
  proof (cases "i = k")
    case False
    then have "segment_name k \<noteq> segment_name i" using segment_name_inj [of i k] Cons.prems by auto
    moreover have "i - k = Suc (i - Suc k)" using False Cons.prems by arith
    ultimately show ?thesis using Cons.IH [of "Suc k"] Cons.prems False by simp
  qed simp
qed simp

lemma named_insert:
  "k + length ss < 2 ^ 64 \<Longrightarrow>
   AList.update (segment_name (k + length ss)) v (named k ss) = named k (ss @ [v])"
proof (induction ss arbitrary: k)
  case (Cons s ss)
  then have "segment_name k \<noteq> segment_name (Suc (k + length ss))"
    using segment_name_inj [of k "Suc (k + length ss)"] by auto
  then show ?case using Cons.IH [of "Suc k"] Cons.prems by simp
qed simp

lemma snd_named [simp]: "map (f \<circ> snd) (named k ss) = map f ss"
  by (induction ss arbitrary: k) simp_all

lemma named_ordered:
  "k + length ss < 2 ^ 64 \<Longrightarrow>
   sort_key (\<lambda>(n, s). the (parse_segment_index n)) (filter (\<lambda>(n, s). parse_segment_index n \<noteq> None) (named k ss))
     = named k ss"
proof -
  assume k: "k + length ss < 2 ^ 64"
  have keys: "(\<forall>(n, s) \<in> set (named k ss). parse_segment_index n \<noteq> None \<and> k \<le> the (parse_segment_index n))
      \<and> sorted (map (\<lambda>(n, s). the (parse_segment_index n)) (named k ss))"
    using k
  proof (induction ss arbitrary: k)
    case (Cons s ss)
    have "k < 2 ^ 64" using Cons.prems by simp
    then show ?case using Cons.IH [of "Suc k"] Cons.prems by fastforce
  qed simp
  then have "filter (\<lambda>(n, s). parse_segment_index n \<noteq> None) (named k ss) = named k ss"
    by (intro filter_True) auto
  then show ?thesis using keys by (simp add: sort_key_id_if_sorted)
qed

text \<open>A disk in order: the segments are \<open>1, 2, ...\<close>, all writable and without torn lines, \<open>a\<close> is the active
  one and at most one segment follows it, which is empty; the records belong to the session and are numbered from 1;
  and the manifest, if it is behind, can read the last number off the active segment. \<open>n\<close> bounds the appends
  made.\<close>

definition segment_ok :: "segment \<Rightarrow> bool" where
  "segment_ok s \<longleftrightarrow> sg_writable s \<and> (\<forall>l \<in> set (sg_lines s). \<exists>r. l = Line r)"

definition ends_with_number :: "segment list \<Rightarrow> nat \<Rightarrow> nat \<Rightarrow> bool" where
  "ends_with_number ss a q \<longleftrightarrow>
     a \<le> length ss \<and> sg_lines (ss ! (a - 1)) \<noteq> [] \<and> (\<exists>r. last (sg_lines (ss ! (a - 1))) = Line r \<and> ts_event_seq r = q)"

definition records_of :: "segment list \<Rightarrow> transcript_record list" where
  "records_of ss = concat (map segment_records ss)"

definition log_shape :: "string \<Rightarrow> nat \<Rightarrow> nat \<Rightarrow> segment list \<Rightarrow> bool" where
  "log_shape sid n a ss \<longleftrightarrow>
     (\<forall>s \<in> set ss. segment_ok s) \<and> 1 \<le> a \<and> a \<le> n + 1 \<and> length ss \<le> a + 1
     \<and> (\<forall>s \<in> set (drop a ss). sg_lines s = []) \<and> length (records_of ss) \<le> n
     \<and> (a \<le> length ss \<or> ss = [] \<and> a = 1)
     \<and> (\<forall>r \<in> set (records_of ss). ts_session_id r = sid)
     \<and> map ts_event_seq (records_of ss) = [1..<Suc (length (records_of ss))]"

definition manifest_ok :: "string \<Rightarrow> nat \<Rightarrow> segment list \<Rightarrow> transcript_manifest \<Rightarrow> bool" where
  "manifest_ok sid a ss m \<longleftrightarrow>
     mf_session_id m = sid \<and> mf_active_segment m = segment_name a
     \<and> (mf_last_event_seq m = length (records_of ss)
        \<or> mf_last_event_seq m < length (records_of ss) \<and> ends_with_number ss a (length (records_of ss)))"

definition empty_segment :: segment where
  "empty_segment = \<lparr>sg_lines = [], sg_writable = True\<rparr>"

definition ensure :: "nat \<Rightarrow> segment list \<Rightarrow> segment list" where
  "ensure a ss = (if a \<le> length ss then ss else ss @ [empty_segment])"

definition disk :: "transcript_manifest option \<Rightarrow> segment list \<Rightarrow> session_dir" where
  "disk mo ss = \<lparr>sd_manifest = mo, sd_segments = named 1 ss\<rparr>"

lemma disk_simps [simp]:
  "sd_manifest (disk mo ss) = mo" "sd_segments (disk mo ss) = named 1 ss"
  "write_manifest m (disk mo ss) = disk (Some m) ss" "disk_records (disk mo ss) = records_of ss"
  "empty_dir = disk None []"
  by (simp_all add: disk_def write_manifest_def disk_records_def records_of_def empty_dir_def)

lemma segment_records_empty [simp]: "segment_records empty_segment = []"
  by (simp add: segment_records_def empty_segment_def)

lemma records_of_ensure [simp]: "records_of (ensure a ss) = records_of ss"
  by (simp add: ensure_def records_of_def)

lemma disk_lookup:
  "1 + length ss < 2 ^ 64 \<Longrightarrow> 1 \<le> a \<Longrightarrow> a < 2 ^ 64 \<Longrightarrow>
   map_of (sd_segments (disk mo ss)) (segment_name a) = (if a \<le> length ss then Some (ss ! (a - 1)) else None)"
  by (auto simp: named_lookup)

lemma segment_lines_disk:
  "1 + length ss < 2 ^ 64 \<Longrightarrow> 1 \<le> a \<Longrightarrow> a < 2 ^ 64 \<Longrightarrow>
   segment_lines (disk mo ss) (segment_name a) = (if a \<le> length ss then sg_lines (ss ! (a - 1)) else [])"
  by (simp only: segment_lines_def disk_lookup) simp

lemma open_append_disk:
  assumes "2 + length ss < 2 ^ 64" "1 \<le> a" "a \<le> length ss + 1" "\<forall>s \<in> set ss. segment_ok s"
  shows "open_append (segment_name a) (disk mo ss) = (True, disk mo (ensure a ss))"
proof (cases "a \<le> length ss")
  case True
  then have "map_of (sd_segments (disk mo ss)) (segment_name a) = Some (ss ! (a - 1))"
    using disk_lookup [of ss a mo] assms by simp
  moreover have "segment_ok (ss ! (a - 1))" using assms True by simp
  ultimately show ?thesis using True by (simp add: open_append_def ensure_def segment_ok_def)
next
  case False
  then have a: "a = 1 + length ss" using assms by simp
  then have "map_of (sd_segments (disk mo ss)) (segment_name a) = None"
    using disk_lookup [of ss a mo] assms by simp
  moreover have "AList.update (segment_name a) empty_segment (named 1 ss) = named 1 (ss @ [empty_segment])"
    using named_insert [of 1 ss empty_segment] assms a by simp
  ultimately show ?thesis using False
    by (simp add: open_append_def ensure_def disk_def empty_segment_def)
qed

lemma rotate_unneeded:
  assumes "2 + length ss < 2 ^ 64" "1 \<le> a" "a \<le> length ss + 1" "\<forall>s \<in> set ss. segment_ok s"
    and "mf_active_segment m = segment_name a"
  shows "rotate_if_active_segment_unwritable m (disk mo ss) = (Inr m, disk mo (ensure a ss))"
  using open_append_disk [OF assms(1-4), of mo] assms(5)
  by (simp add: rotate_if_active_segment_unwritable_def)

definition put_line :: "nat \<Rightarrow> transcript_record \<Rightarrow> segment list \<Rightarrow> segment list" where
  "put_line a r ss = ss[a - 1 := (ss ! (a - 1))\<lparr>sg_lines := sg_lines (ss ! (a - 1)) @ [Line r]\<rparr>]"

lemma add_line_disk:
  assumes "1 + length ss < 2 ^ 64" "1 \<le> a" "a \<le> length ss"
  shows "add_line (segment_name a) (Line r) (disk mo ss) = disk mo (put_line a r ss)"
proof -
  have "map_of (sd_segments (disk mo ss)) (segment_name a) = Some (ss ! (a - 1))"
    using disk_lookup [of ss a mo] assms by simp
  moreover have "AList.update (segment_name a) v (named 1 ss) = named 1 (ss[a - 1 := v])" for v
    using named_update [of 1 ss a v] assms by simp
  ultimately show ?thesis by (simp add: add_line_def put_line_def disk_def Let_def)
qed

lemma records_put_line:
  assumes "1 \<le> a" "a \<le> length ss" "\<forall>s \<in> set (drop a ss). sg_lines s = []"
  shows "records_of (put_line a r ss) = records_of ss @ [r]"
proof -
  let ?s = "ss ! (a - 1)"
  have ss: "ss = take (a - 1) ss @ ?s # drop a ss"
    using assms(1,2) id_take_nth_drop [of "a - 1" ss] by simp
  have empty: "concat (map segment_records (drop a ss)) = []"
    using assms(3) by (simp add: segment_records_def)
  have "put_line a r ss = take (a - 1) ss @ ?s\<lparr>sg_lines := sg_lines ?s @ [Line r]\<rparr> # drop a ss"
    using assms(1,2) upd_conv_take_nth_drop [of "a - 1" ss] by (simp add: put_line_def)
  moreover have "segment_records (?s\<lparr>sg_lines := sg_lines ?s @ [Line r]\<rparr>) = segment_records ?s @ [r]"
    by (simp add: segment_records_def)
  moreover have "records_of ss = concat (map segment_records (take (a - 1) ss)) @ segment_records ?s"
    using arg_cong [OF ss, of records_of] empty by (simp add: records_of_def)
  ultimately show ?thesis using empty by (simp add: records_of_def)
qed

lemma put_line_facts:
  assumes "1 \<le> a" "a \<le> length ss"
  shows "length (put_line a r ss) = length ss" "drop a (put_line a r ss) = drop a ss"
    "(\<forall>s \<in> set ss. segment_ok s) \<Longrightarrow> \<forall>s \<in> set (put_line a r ss). segment_ok s"
    "ends_with_number (put_line a r ss) a (ts_event_seq r)"
proof -
  have i: "a - 1 < length ss" using assms by simp
  show "length (put_line a r ss) = length ss" "drop a (put_line a r ss) = drop a ss"
    "ends_with_number (put_line a r ss) a (ts_event_seq r)"
    using assms i by (simp_all add: put_line_def ends_with_number_def)
  assume ok: "\<forall>s \<in> set ss. segment_ok s"
  then have "segment_ok (ss ! (a - 1))" using i by simp
  then show "\<forall>s \<in> set (put_line a r ss). segment_ok s"
    using ok by (auto simp: put_line_def segment_ok_def dest!: set_update_subset_insert [THEN subsetD])
qed

lemma tail_in_records:
  assumes "\<forall>s \<in> set ss. segment_ok s" "1 \<le> a" "a \<le> length ss" "sg_lines (ss ! (a - 1)) \<noteq> []"
  obtains r where "last (sg_lines (ss ! (a - 1))) = Line r" "r \<in> set (records_of ss)"
proof -
  let ?s = "ss ! (a - 1)"
  have s: "?s \<in> set ss" using assms(2,3) by simp
  then obtain r where r: "last (sg_lines ?s) = Line r"
    using assms(1,4) last_in_set [of "sg_lines ?s"] unfolding segment_ok_def by blast
  then have "Line r \<in> set (sg_lines ?s)" using assms(4) last_in_set [of "sg_lines ?s"] by simp
  then have "r \<in> set (segment_records ?s)" by (force simp: segment_records_def)
  then show thesis using that r s by (auto simp: records_of_def)
qed

lemma log_shape_seq:
  "log_shape sid n a ss \<Longrightarrow> r \<in> set (records_of ss) \<Longrightarrow> ts_event_seq r \<le> length (records_of ss)"
proof -
  assume shape: "log_shape sid n a ss" and r: "r \<in> set (records_of ss)"
  have "ts_event_seq r \<in> set (map ts_event_seq (records_of ss))" using r by simp
  then have "ts_event_seq r \<in> set [1..<Suc (length (records_of ss))]"
    using shape by (simp only: log_shape_def)
  then show ?thesis by (auto split: if_splits)
qed

text \<open>Recovering leaves a manifest that carries the last number on the disk.\<close>

definition manifest_current :: "string \<Rightarrow> nat \<Rightarrow> segment list \<Rightarrow> transcript_manifest \<Rightarrow> bool" where
  "manifest_current sid a ss m \<longleftrightarrow>
     mf_session_id m = sid \<and> mf_active_segment m = segment_name a \<and> mf_last_event_seq m = length (records_of ss)"

lemma recover_disk:
  assumes shape: "log_shape sid n a ss" and n: "n + 4 < 2 ^ 64" and m: "manifest_ok sid a ss m"
  obtains m' mo' where "recover_manifest_from_tail m (disk mo ss) = Inr (m', disk mo' ss)"
    "manifest_current sid a ss m'" "m' = m \<and> mo' = mo \<or> mo' = Some m'"
proof -
  let ?n = "length (records_of ss)"
  have a: "1 \<le> a" "a < 2 ^ 64" "1 + length ss < 2 ^ 64" "\<forall>s \<in> set ss. segment_ok s"
    using shape n by (auto simp: log_shape_def)
  have active: "mf_active_segment m = segment_name a" "mf_session_id m = sid" using m by (simp_all add: manifest_ok_def)
  have lines: "segment_lines (disk mo ss) (segment_name a) = (if a \<le> length ss then sg_lines (ss ! (a - 1)) else [])"
    by (rule segment_lines_disk [OF a(3,1,2)])
  show thesis
  proof (cases "segment_lines (disk mo ss) (segment_name a) = []")
    case True
    then have "mf_last_event_seq m = ?n"
      using m lines by (auto simp: manifest_ok_def ends_with_number_def split: if_splits)
    moreover have "recover_manifest_from_tail m (disk mo ss) = Inr (m, disk mo ss)"
      using True active by (simp add: recover_manifest_from_tail_def read_segment_tail_def)
    ultimately show thesis using that active by (simp add: manifest_current_def)
  next
    case False
    then have here: "a \<le> length ss" "sg_lines (ss ! (a - 1)) \<noteq> []" using lines by (auto split: if_splits)
    obtain r where r: "last (sg_lines (ss ! (a - 1))) = Line r" "r \<in> set (records_of ss)"
      by (rule tail_in_records [OF a(4,1) here])
    have tail: "read_segment_tail (disk mo ss) (mf_active_segment m) = Inr (Some r)"
      using False lines here r active by (simp add: read_segment_tail_def)
    have le: "ts_event_seq r \<le> ?n" by (rule log_shape_seq [OF shape r(2)])
    show thesis
    proof (cases "ts_event_seq r > mf_last_event_seq m")
      case True
      then have "ts_event_seq r = ?n" using m le r here by (auto simp: manifest_ok_def ends_with_number_def)
      then show thesis
        using that tail True active by (simp add: recover_manifest_from_tail_def manifest_current_def Let_def)
    next
      case False
      then have "mf_last_event_seq m = ?n" using m r here by (auto simp: manifest_ok_def ends_with_number_def)
      then show thesis using that tail False active by (simp add: recover_manifest_from_tail_def manifest_current_def)
    qed
  qed
qed

definition numbered :: "string \<Rightarrow> nat \<Rightarrow> transcript_record \<Rightarrow> transcript_record" where
  "numbered sid q r = r\<lparr>ts_schema_version := TRANSCRIPT_SCHEMA_VERSION, ts_event_seq := q, ts_session_id := sid\<rparr>"

lemma log_shape_ensure: "log_shape sid n a ss \<Longrightarrow> log_shape sid n a (ensure a ss)"
  by (auto simp: log_shape_def ensure_def segment_ok_def empty_segment_def records_of_def segment_records_def
      simp del: upt_Suc)

text \<open>An append on a disk in order, written out: \<open>a'\<close> is the segment the record goes to.\<close>

definition append_outcome ::
  "string \<Rightarrow> nat \<Rightarrow> transcript_record \<Rightarrow> transcript_manifest \<Rightarrow> transcript_manifest option \<Rightarrow> nat \<Rightarrow> segment list
     \<Rightarrow> fault \<Rightarrow> (transcript_error + transcript_record) \<times> session_dir" where
  "append_outcome sid q r m mo a ss flt =
     (let r' = numbered sid q r
      in case flt of
           BeforeRecord \<Rightarrow> (Inl (RecordNotWritten (segment_name a)), disk mo ss)
         | InRecord b \<Rightarrow> (Inl (RecordNotWritten (segment_name a)), add_line (segment_name a) (Torn b) (disk mo ss))
         | BeforeManifest \<Rightarrow> (Inl ManifestNotWritten, disk mo (put_line a r' ss))
         | NoFault \<Rightarrow>
             (Inr r', disk (Some (m\<lparr>mf_active_segment := segment_name a, mf_last_event_seq := ts_event_seq r',
                mf_last_turn_seq := ts_turn_seq r', mf_updated_at := ts_timestamp r'\<rparr>)) (put_line a r' ss)))"

lemma write_record_disk:
  fixes r :: transcript_record and enc :: "transcript_record \<Rightarrow> nat" and mb :: nat
    and mo :: "transcript_manifest option"
  assumes shape: "log_shape sid n a ss" "a \<le> length ss" "n + 4 < 2 ^ 64" and m: "manifest_current sid a ss m"
  defines "r' \<equiv> numbered sid (Suc (length (records_of ss))) r"
  defines "a' \<equiv> (if should_rotate_by_size enc mb (disk mo ss) m (enc r' + 1) then a + 1 else a)"
  shows "write_record enc mb flt r m (disk mo ss)
    = append_outcome sid (Suc (length (records_of ss))) r m mo a' (ensure a' ss) flt"
proof -
  have b: "a < 2 ^ 64" "2 + length ss < 2 ^ 64" "1 \<le> a" "\<forall>s \<in> set ss. segment_ok s" "length (records_of ss) + 1 < 2 ^ 64"
    using shape by (auto simp: log_shape_def)
  have a': "1 \<le> a'" "a' \<le> length ss + 1" using b shape(2) by (auto simp: a'_def)
  have r': "r\<lparr>ts_schema_version := TRANSCRIPT_SCHEMA_VERSION,
      ts_event_seq := saturating_succ (mf_last_event_seq m), ts_session_id := mf_session_id m\<rparr> = r'"
    using m b(5) by (simp add: r'_def numbered_def saturating_succ_def manifest_current_def)
  let ?m = "m\<lparr>mf_active_segment := segment_name a'\<rparr>"
  have rotated: "(if should_rotate_by_size enc mb (disk mo ss) m (enc r' + 1)
      then map_sum id (\<lambda>n. m\<lparr>mf_active_segment := n\<rparr>) (next_segment_name (mf_active_segment m)) else Inr m) = Inr ?m"
    using m next_segment_name_name [OF b(1)] by (simp add: a'_def manifest_current_def)
  have unw: "rotate_if_active_segment_unwritable ?m (disk mo ss) = (Inr ?m, disk mo (ensure a' ss))"
    by (rule rotate_unneeded [OF b(2) a' b(4)]) simp
  have len: "1 + length (ensure a' ss) < 2 ^ 64" "a' \<le> length (ensure a' ss)"
    using b a' by (auto simp: ensure_def)
  show ?thesis
    unfolding write_record_def append_outcome_def Let_def r' rotated r'_def [symmetric]
    by (cases flt) (simp_all add: unw add_line_disk [OF len(1) a'(1) len(2)])
qed

text \<open>A fault is survivable when it tears no line, and falls between the record and the manifest only where
  the append does not start a new segment.\<close>

definition active_of :: "session_dir \<Rightarrow> string" where
  "active_of d = (case sd_manifest d of None \<Rightarrow> FIRST_SEGMENT_FILE | Some m \<Rightarrow> mf_active_segment m)"

definition survivable :: "(transcript_record \<Rightarrow> nat) \<Rightarrow> nat \<Rightarrow> fault \<Rightarrow> transcript_record \<Rightarrow> session_dir \<Rightarrow> bool" where
  "survivable enc mb flt r d =
     (case flt of
        NoFault \<Rightarrow> True | BeforeRecord \<Rightarrow> True | InRecord _ \<Rightarrow> False
      | BeforeManifest \<Rightarrow> active_of (snd (append_record enc mb NoFault r d)) = active_of d)"

definition log_ok :: "string \<Rightarrow> nat \<Rightarrow> session_dir \<Rightarrow> bool" where
  "log_ok sid n d \<longleftrightarrow>
     (\<exists>a ss mo. d = disk mo ss \<and> log_shape sid n a ss
        \<and> (case mo of Some m \<Rightarrow> manifest_ok sid a ss m | None \<Rightarrow> \<forall>t. manifest_ok sid a ss (manifest_new_empty sid t)))"

lemma log_ok_empty: "log_ok sid 0 empty_dir"
proof -
  have "manifest_ok sid 1 [] (manifest_new_empty sid t)" for t
    by (simp add: manifest_ok_def manifest_new_empty_def records_of_def first_segment_name)
  then show ?thesis
    unfolding log_ok_def by (intro exI [of _ 1] exI [of _ "[]"] exI [of _ None]) (simp add: log_shape_def records_of_def)
qed

definition stored_manifest_ok :: "string \<Rightarrow> nat \<Rightarrow> segment list \<Rightarrow> transcript_manifest option \<Rightarrow> bool" where
  "stored_manifest_ok sid a ss mo \<longleftrightarrow>
     (case mo of Some m \<Rightarrow> manifest_ok sid a ss m | None \<Rightarrow> \<forall>t. manifest_ok sid a ss (manifest_new_empty sid t))"

lemma log_ok_alt:
  "log_ok sid n d \<longleftrightarrow> (\<exists>a ss mo. d = disk mo ss \<and> log_shape sid n a ss \<and> stored_manifest_ok sid a ss mo)"
  by (simp add: log_ok_def stored_manifest_ok_def)

lemma log_shape_ensure_next: "log_shape sid n a ss \<Longrightarrow> a \<le> length ss \<Longrightarrow> log_shape sid n a (ensure (a + 1) ss)"
  by (auto simp: log_shape_def ensure_def segment_ok_def empty_segment_def records_of_def segment_records_def
      simp del: upt_Suc)

lemma log_shape_mono: "log_shape sid n a ss \<Longrightarrow> log_shape sid (Suc n) a ss"
  by (simp add: log_shape_def)

lemma manifest_ok_ensure: "manifest_ok sid a ss m \<Longrightarrow> 1 \<le> a \<Longrightarrow> manifest_ok sid a (ensure b ss) m"
  by (auto simp: manifest_ok_def ends_with_number_def ensure_def nth_append records_of_def)

lemma stored_ensure: "stored_manifest_ok sid a ss mo \<Longrightarrow> 1 \<le> a \<Longrightarrow> stored_manifest_ok sid a (ensure b ss) mo"
  by (auto simp: stored_manifest_ok_def manifest_ok_ensure split: option.splits)

lemma manifest_current_ok: "manifest_current sid a ss m \<Longrightarrow> manifest_ok sid a ss m"
  by (simp add: manifest_ok_def manifest_current_def)

lemma log_shape_put:
  fixes r :: transcript_record
  assumes shape: "log_shape sid n a ss" and a': "a' = a \<or> a' = a + 1" "a' \<le> length ss"
  defines "r' \<equiv> numbered sid (Suc (length (records_of ss))) r"
  shows "log_shape sid (Suc n) a' (put_line a' r' ss)" "records_of (put_line a' r' ss) = records_of ss @ [r']"
proof -
  have one: "1 \<le> a'" using shape a' by (auto simp: log_shape_def)
  have "set (drop a' ss) \<subseteq> set (drop a ss)" using a' set_drop_subset_set_drop [of a a' ss] by auto
  then have empty: "\<forall>s \<in> set (drop a' ss). sg_lines s = []" using shape unfolding log_shape_def by blast
  show recs: "records_of (put_line a' r' ss) = records_of ss @ [r']"
    by (rule records_put_line [OF one a'(2) empty])
  have "ts_event_seq r' = Suc (length (records_of ss))" "ts_session_id r' = sid"
    by (simp_all add: r'_def numbered_def)
  then show "log_shape sid (Suc n) a' (put_line a' r' ss)"
    using shape a' one empty put_line_facts [OF one a'(2), of r'] unfolding log_shape_def recs by auto
qed

lemma manifest_ok_put:
  assumes "manifest_ok sid a ss m" "log_shape sid n a ss" "a \<le> length ss"
    and "ts_event_seq r = Suc (length (records_of ss))"
  shows "manifest_ok sid a (put_line a r ss) m"
proof -
  have a: "1 \<le> a" "\<forall>s \<in> set (drop a ss). sg_lines s = []" using assms(2) by (simp_all add: log_shape_def)
  show ?thesis
    using assms put_line_facts(4) [OF a(1) assms(3), of r] records_put_line [OF a(1) assms(3) a(2), of r]
    by (auto simp: manifest_ok_def)
qed

lemma stored_put:
  "stored_manifest_ok sid a ss mo \<Longrightarrow> log_shape sid n a ss \<Longrightarrow> a \<le> length ss \<Longrightarrow>
   ts_event_seq r = Suc (length (records_of ss)) \<Longrightarrow> stored_manifest_ok sid a (put_line a r ss) mo"
  by (auto simp: stored_manifest_ok_def manifest_ok_put split: option.splits)

lemma append_record_disk:
  fixes enc :: "transcript_record \<Rightarrow> nat" and mb :: nat and r :: transcript_record
  assumes shape: "log_shape sid n a ss" and n: "n + 4 < 2 ^ 64" and stored: "stored_manifest_ok sid a ss mo"
    and r: "ts_session_id r = sid"
  obtains m mo' a' ss' where
    "log_shape sid n a ss'" "a \<le> length ss'" "records_of ss' = records_of ss" "a' = a \<or> a' = a + 1" "a' \<le> length ss'"
    "stored_manifest_ok sid a ss' mo'" "manifest_current sid a ss m"
    "\<forall>flt. append_record enc mb flt r (disk mo ss) =
       append_outcome sid (Suc (length (records_of ss))) r m mo' a' ss' flt"
proof -
  define m0 where "m0 = (case mo of Some m \<Rightarrow> m | None \<Rightarrow> manifest_new_empty (ts_session_id r) (ts_timestamp r))"
  have m0: "manifest_ok sid a ss m0" using stored r by (auto simp: m0_def stored_manifest_ok_def split: option.splits)
  obtain m mo1 where m: "recover_manifest_from_tail m0 (disk mo ss) = Inr (m, disk mo1 ss)"
      "manifest_current sid a ss m" "m = m0 \<and> mo1 = mo \<or> mo1 = Some m"
    by (rule recover_disk [OF shape n m0])
  have one: "1 \<le> a" "2 + length ss < 2 ^ 64" "a \<le> length ss + 1" "\<forall>s \<in> set ss. segment_ok s"
    using shape n by (auto simp: log_shape_def)
  have unw: "rotate_if_active_segment_unwritable m (disk mo1 ss) = (Inr m, disk mo1 (ensure a ss))"
    using m(2) by (intro rotate_unneeded [OF one(2,1,3,4)]) (simp add: manifest_current_def)
  have s1: "stored_manifest_ok sid a (ensure a ss) mo1"
    using m(2,3) stored one by (auto intro!: stored_ensure) (simp add: stored_manifest_ok_def manifest_current_ok)
  let ?r = "numbered sid (Suc (length (records_of ss))) r"
  define a' where "a' = (if should_rotate_by_size enc mb (disk mo1 (ensure a ss)) m (enc ?r + 1) then a + 1 else a)"
  let ?ss = "ensure a' (ensure a ss)"
  have sh1: "log_shape sid n a (ensure a ss)" by (rule log_shape_ensure [OF shape])
  have len1: "a \<le> length (ensure a ss)" using one by (simp add: ensure_def)
  have cur: "manifest_current sid a (ensure a ss) m" using m(2) by (simp add: manifest_current_def)
  have len: "a \<le> length ?ss" "a' \<le> length ?ss" using len1 by (auto simp: ensure_def a'_def)
  have sh: "log_shape sid n a ?ss"
  proof (cases "a' = a")
    case True then show ?thesis using log_shape_ensure [OF sh1] by simp
  next
    case False
    then have "a' = a + 1" by (simp add: a'_def split: if_splits)
    then show ?thesis using log_shape_ensure_next [OF sh1 len1] by simp
  qed
  have app: "append_record enc mb flt r (disk mo ss) = write_record enc mb flt r m (disk mo1 (ensure a ss))" for flt
    using m(1) unw by (simp add: append_record_def m0_def)
  show thesis
  proof (rule that [OF sh len(1) _ _ len(2)])
    show "records_of ?ss = records_of ss" by simp
    show "a' = a \<or> a' = a + 1" by (simp add: a'_def)
    show "stored_manifest_ok sid a ?ss mo1" by (rule stored_ensure [OF s1 one(1)])
    show "manifest_current sid a ss m" by (rule m(2))
    show "\<forall>flt. append_record enc mb flt r (disk mo ss) =
       append_outcome sid (Suc (length (records_of ss))) r m mo1 a' ?ss flt"
      using write_record_disk [OF sh1 len1 n cur, of enc mb _ r mo1] unfolding app a'_def records_of_ensure by blast
  qed
qed

lemma log_okI: "log_shape sid n a ss \<Longrightarrow> manifest_ok sid a ss m \<Longrightarrow> log_ok sid n (disk (Some m) ss)"
  unfolding log_ok_def by (metis option.simps(5))

lemma append_step:
  assumes d: "log_ok sid n d" and n: "n + 4 < 2 ^ 64" and r: "ts_session_id r = sid"
    and survives: "survivable enc mb flt r d" and run: "append_record enc mb flt r d = (res, d')"
  defines "r' \<equiv> numbered sid (Suc (length (disk_records d))) r"
  shows "log_ok sid (Suc n) d'"
    and "disk_records d' = disk_records d @ (if flt = BeforeRecord then [] else [r'])"
    and "flt = NoFault \<Longrightarrow> res = Inr r' \<and> sd_manifest d' \<noteq> None"
proof -
  obtain a ss mo where d': "d = disk mo ss" and shape: "log_shape sid n a ss" and stored: "stored_manifest_ok sid a ss mo"
    using d by (auto simp: log_ok_alt)
  obtain m mo' a' ss' where sh: "log_shape sid n a ss'" "a \<le> length ss'" "records_of ss' = records_of ss"
      "a' = a \<or> a' = a + 1" "a' \<le> length ss'" "stored_manifest_ok sid a ss' mo'" "manifest_current sid a ss m"
    and app: "\<forall>flt. append_record enc mb flt r (disk mo ss) =
       append_outcome sid (Suc (length (records_of ss))) r m mo' a' ss' flt"
    using append_record_disk [OF shape n stored r, of enc mb] by metis
  have r'_ss: "r' = numbered sid (Suc (length (records_of ss'))) r" using sh(3) d' by (simp add: r'_def)
  have seq: "ts_event_seq r' = Suc (length (records_of ss'))" by (simp add: r'_ss numbered_def)
  note put = log_shape_put [OF sh(1,4,5), of r, folded r'_ss]
  have ab: "a < 2 ^ 64" "a' < 2 ^ 64" using shape n sh(4) by (auto simp: log_shape_def)
  have same: "flt = BeforeManifest \<Longrightarrow> a' = a"
  proof -
    assume "flt = BeforeManifest"
    then have "active_of d = segment_name a'"
      using survives app [THEN spec, of NoFault] d' by (simp add: survivable_def active_of_def append_outcome_def Let_def)
    moreover have "active_of d = segment_name a"
      using stored d' by (auto simp: active_of_def stored_manifest_ok_def manifest_ok_def manifest_new_empty_def
          split: option.splits)
    ultimately show "a' = a" using segment_name_inj [OF ab] by simp
  qed
  have next_ok: "manifest_ok sid a' (put_line a' r' ss') (m\<lparr>mf_active_segment := segment_name a',
      mf_last_event_seq := ts_event_seq r', mf_last_turn_seq := t, mf_updated_at := u\<rparr>)" for t u
    using sh(7) put(2) seq by (simp add: manifest_ok_def manifest_current_def)
  have all: "log_ok sid (Suc n) d' \<and> disk_records d' = disk_records d @ (if flt = BeforeRecord then [] else [r'])
      \<and> (flt = NoFault \<longrightarrow> res = Inr r' \<and> sd_manifest d' \<noteq> None)"
  proof (cases flt)
    case NoFault
    then have "res = Inr r'" "d' = disk (Some (m\<lparr>mf_active_segment := segment_name a', mf_last_event_seq := ts_event_seq r',
        mf_last_turn_seq := ts_turn_seq r', mf_updated_at := ts_timestamp r'\<rparr>)) (put_line a' r' ss')"
      using run app [THEN spec, of NoFault] d' r'_ss sh(3) by (simp_all add: append_outcome_def Let_def)
    moreover have "log_ok sid (Suc n) d'"
      using calculation(2) put(1) next_ok by (simp add: log_okI)
    ultimately show ?thesis using NoFault put(2) sh(3) d' by simp
  next
    case BeforeRecord
    then have "d' = disk mo' ss'" using run app [THEN spec, of BeforeRecord] d' by (simp add: append_outcome_def)
    then show ?thesis using BeforeRecord sh log_shape_mono [OF sh(1)] d' by (auto simp: log_ok_alt)
  next
    case (InRecord b)
    then show ?thesis using survives by (simp add: survivable_def)
  next
    case BeforeManifest
    then have eq: "d' = disk mo' (put_line a r' ss')"
      using run app [THEN spec, of BeforeManifest] d' r'_ss sh(3) same by (simp add: append_outcome_def)
    have "log_ok sid (Suc n) d'"
      unfolding log_ok_alt using eq put(1) same BeforeManifest stored_put [OF sh(6,1,2) seq] by auto
    then show ?thesis using eq put(2) same BeforeManifest sh(3) d' by simp
  qed
  then show "log_ok sid (Suc n) d'"
    and "disk_records d' = disk_records d @ (if flt = BeforeRecord then [] else [r'])"
    and "flt = NoFault \<Longrightarrow> res = Inr r' \<and> sd_manifest d' \<noteq> None" by blast+
qed

section \<open>Replaying a log in order\<close>

lemma read_lines_ok:
  "segment_ok s \<Longrightarrow> read_lines n (sg_lines s) = Inr (segment_records s)"
proof -
  have "\<forall>l \<in> set ls. \<exists>r. l = Line r \<Longrightarrow>
      read_lines n ls = Inr (concat (map (\<lambda>l. case l of Line r \<Rightarrow> [r] | Torn _ \<Rightarrow> []) ls))" for ls
    by (induction ls) auto
  then show "segment_ok s \<Longrightarrow> read_lines n (sg_lines s) = Inr (segment_records s)"
    by (simp add: segment_ok_def segment_records_def)
qed

lemma read_segments_ok: "\<forall>s \<in> set ss. segment_ok s \<Longrightarrow> read_segments (named k ss) = Inr (records_of ss)"
  by (induction ss arbitrary: k) (simp_all add: read_lines_ok records_of_def)

lemma numbers_filter: "map f xs = [1..<Suc (length xs)] \<Longrightarrow> filter (\<lambda>r. f r > k) xs = drop k (xs :: 'a list)"
proof (induction xs rule: rev_induct)
  case (snoc x xs)
  then have "map f xs = [1..<Suc (length xs)]" "f x = Suc (length xs)" by simp_all
  then show ?case using snoc.IH by simp
qed simp

lemma replay_log:
  assumes "log_ok sid n d" "n + 4 < 2 ^ 64" "sd_manifest d \<noteq> None"
  shows "replay None d = Inr (disk_records d)" and "replay (Some k) d = Inr (drop k (disk_records d))"
    and "map ts_event_seq (disk_records d) = [1..<Suc (length (disk_records d))]"
proof -
  obtain a ss m where d: "d = disk (Some m) ss" and shape: "log_shape sid n a ss" and m: "manifest_ok sid a ss m"
    using assms(1,3) by (auto simp: log_ok_def split: option.splits)
  have order: "segment_order d = named 1 ss"
    using named_ordered [of 1 ss] shape assms(2) d by (simp add: segment_order_def log_shape_def)
  have read: "read_segments (segment_order d) = Inr (records_of ss)"
    using shape read_segments_ok [of ss 1] by (simp add: order log_shape_def)
  have sid: "\<forall>r \<in> set (records_of ss). ts_session_id r = mf_session_id m"
    using shape m by (simp add: log_shape_def manifest_ok_def)
  have seqs: "map ts_event_seq (records_of ss) = [1..<Suc (length (records_of ss))]"
    using shape by (simp only: log_shape_def)
  show "replay None d = Inr (disk_records d)"
    using read sid by (simp add: replay_def d filter_id_conv)
  have "filter (\<lambda>r. ts_session_id r = mf_session_id m \<and> ts_event_seq r > k) (records_of ss)
      = filter (\<lambda>r. ts_event_seq r > k) (records_of ss)"
    using sid by (intro filter_cong) auto
  then show "replay (Some k) d = Inr (drop k (disk_records d))"
    using read numbers_filter [OF seqs] by (simp add: replay_def d)
  show "map ts_event_seq (disk_records d) = [1..<Suc (length (disk_records d))]" using seqs by (simp add: d)
qed

section \<open>Runs of appends\<close>

fun append_all ::
  "(transcript_record \<Rightarrow> nat) \<Rightarrow> nat \<Rightarrow> (transcript_record \<times> fault) list \<Rightarrow> session_dir
     \<Rightarrow> (transcript_error + transcript_record) list \<times> session_dir" where
  "append_all enc mb [] d = ([], d)"
| "append_all enc mb ((r, flt) # ops) d =
     (let (res, d1) = append_record enc mb flt r d; (rest, d2) = append_all enc mb ops d1 in (res # rest, d2))"

fun all_survivable ::
  "(transcript_record \<Rightarrow> nat) \<Rightarrow> nat \<Rightarrow> (transcript_record \<times> fault) list \<Rightarrow> session_dir \<Rightarrow> bool" where
  "all_survivable enc mb [] d \<longleftrightarrow> True"
| "all_survivable enc mb ((r, flt) # ops) d \<longleftrightarrow>
     survivable enc mb flt r d \<and> all_survivable enc mb ops (snd (append_record enc mb flt r d))"

text \<open>The log as a client counts it: the records that reached the disk, numbered from \<open>q\<close>.\<close>

fun numbered_from :: "string \<Rightarrow> nat \<Rightarrow> (transcript_record \<times> fault) list \<Rightarrow> transcript_record list" where
  "numbered_from sid q [] = []"
| "numbered_from sid q ((r, flt) # ops) =
     (if flt = BeforeRecord then numbered_from sid q ops else numbered sid q r # numbered_from sid (Suc q) ops)"

lemma append_all_ok:
  assumes "log_ok sid n d" "n + length ops + 4 < 2 ^ 64" "list_all (\<lambda>(r, flt). ts_session_id r = sid) ops"
    and "all_survivable enc mb ops d" "append_all enc mb ops d = (results, d')"
  shows "log_ok sid (n + length ops) d'
    \<and> disk_records d' = disk_records d @ numbered_from sid (Suc (length (disk_records d))) ops"
  using assms
proof (induction ops arbitrary: n d results)
  case (Cons op ops)
  obtain r flt where op: "op = (r, flt)" by (cases op)
  obtain res d1 where step: "append_record enc mb flt r d = (res, d1)" by (cases "append_record enc mb flt r d")
  obtain rest where rest: "append_all enc mb ops d1 = (rest, d')"
    using Cons.prems(5) op step by (auto split: prod.splits)
  have r: "ts_session_id r = sid" and n: "n + 4 < 2 ^ 64" and s: "survivable enc mb flt r d"
    using Cons.prems op by simp_all
  note here = append_step [OF Cons.prems(1) n r s step]
  have "log_ok sid (Suc n + length ops) d'
      \<and> disk_records d' = disk_records d1 @ numbered_from sid (Suc (length (disk_records d1))) ops"
    using Cons.IH [OF here(1) _ _ _ rest] Cons.prems op step by simp
  then show ?case using here(2) op by simp
qed simp

definition sample_record :: "string \<Rightarrow> transcript_record" where
  "sample_record ty =
     \<lparr>ts_schema_version = 1, ts_session_id = ''s'', ts_event_seq = 0, ts_turn_seq = 1, ts_turn_id = None,
      ts_event_type = ty, ts_stream_source = ''live'', ts_timestamp = ''t'', ts_payload = JNull, ts_request_id = ''q''\<rparr>"

text \<open>Four appends with room for two records in a segment: the second is lost before its record, the third
  after it.\<close>

definition sample_ops :: "(transcript_record \<times> fault) list" where
  "sample_ops = [(sample_record ''a'', NoFault), (sample_record ''b'', BeforeRecord),
     (sample_record ''c'', BeforeManifest), (sample_record ''d'', NoFault)]"



text \<open>An append that starts a new segment and stops between the record and the manifest makes the next one
  reuse its sequence number: the manifest still names the full segment, whose tail does not show the record, and the
  replayed log counts 1, 2, 2.\<close>

theorem interrupted_rotation_repeats_a_number:
  "(case append_all (\<lambda>_. 10) 15
      [(sample_record ''a'', NoFault), (sample_record ''b'', BeforeManifest), (sample_record ''c'', NoFault)] empty_dir of
      (_, d) \<Rightarrow> map_sum id (map (\<lambda>r. (ts_event_type r, ts_event_seq r))) (replay None d)
        = Inr [(''a'', 1), (''b'', 2), (''c'', 2)])"
  by code_simp

text \<open>A torn line at the end of the active segment is final: every later append to the session fails and
  changes nothing, and every replay that reads the segment fails, for the log has no step that drops or passes over
  the line.\<close>

theorem torn_line_is_final:
  assumes "sd_manifest d = Some m" "map_of (sd_segments d) (mf_active_segment m) = Some s"
    and "sg_lines s = ls @ [Torn b]"
  shows "append_record enc mb flt r d = (Inl (TailUnparsable (mf_active_segment m)), d)"
  using assms by (simp add: append_record_def recover_manifest_from_tail_def read_segment_tail_def segment_lines_def)

theorem torn_line_is_final_witness:
  "(let d = snd (append_all (\<lambda>_. 10) 25 [(sample_record ''a'', InRecord 4)] empty_dir)
        \<lparr>sd_manifest := Some (manifest_new_empty ''s'' ''t'')\<rparr>
    in append_record (\<lambda>_. 10) 25 NoFault (sample_record ''b'') d = (Inl (TailUnparsable FIRST_SEGMENT_FILE), d))"
proof -
  let ?m = "manifest_new_empty ''s'' ''t''"
  let ?d = "snd (append_all (\<lambda>_. 10) 25 [(sample_record ''a'', InRecord 4)] empty_dir)\<lparr>sd_manifest := Some ?m\<rparr>"
  have "append_record (\<lambda>_. 10) 25 NoFault (sample_record ''b'') ?d = (Inl (TailUnparsable (mf_active_segment ?m)), ?d)"
  proof (rule torn_line_is_final)
    show "sd_manifest ?d = Some ?m" by simp
    show "map_of (sd_segments ?d) (mf_active_segment ?m) = Some \<lparr>sg_lines = [] @ [Torn 4], sg_writable = True\<rparr>"
      by code_simp
  qed simp
  then show ?thesis by (simp add: manifest_new_empty_def)
qed

end
