(* ===== verification/Gateway.thy ===== *)
theory Gateway
  imports SessionRuntime Transcript
begin

text \<open>
  What a gateway does with the events of a session: \<open>state/core_projection.rs\<close>, \<open>state/publish_pipeline.rs\<close>,
  \<open>state/turn_orchestrator.rs\<close>, the event log part of \<open>state/events.rs\<close>, and the turn, compact, clear and
  abort handlers of \<open>handlers/session.rs\<close>, all under \<open>openjax-gateway/src\<close>. An event is appended to the
  transcript of the session before it is published; a restarted gateway builds the session from the transcript.
\<close>

section \<open>Errors and environment\<close>

record api_error =
  ap_status :: nat
  ap_code :: string
  ap_message :: string
  ap_retryable :: bool
  ap_details :: json

definition api_internal :: "string \<Rightarrow> api_error" where
  "api_internal message =
     \<lparr>ap_status = 500, ap_code = ''INTERNAL'', ap_message = message, ap_retryable = False, ap_details = json_obj []\<rparr>"

definition api_conflict :: "string \<Rightarrow> json \<Rightarrow> api_error" where
  "api_conflict message details =
     \<lparr>ap_status = 409, ap_code = ''CONFLICT'', ap_message = message, ap_retryable = False, ap_details = details\<rparr>"

definition api_not_found :: "string \<Rightarrow> json \<Rightarrow> api_error" where
  "api_not_found message details =
     \<lparr>ap_status = 404, ap_code = ''NOT_FOUND'', ap_message = message, ap_retryable = False, ap_details = details\<rparr>"

definition api_invalid_argument :: "string \<Rightarrow> json \<Rightarrow> api_error" where
  "api_invalid_argument message details =
     \<lparr>ap_status = 400, ap_code = ''INVALID_ARGUMENT'', ap_message = message, ap_retryable = False, ap_details = details\<rparr>"

definition api_upstream_unavailable :: "string \<Rightarrow> json \<Rightarrow> api_error" where
  "api_upstream_unavailable message details =
     \<lparr>ap_status = 502, ap_code = ''UPSTREAM_UNAVAILABLE'', ap_message = message, ap_retryable = True, ap_details = details\<rparr>"

text \<open>The size of a record as a line, the size of a segment, the clock, and the texts of numbers and errors.\<close>

record gateway_env =
  ge_enc :: "transcript_record \<Rightarrow> nat"
  ge_segment_max_bytes :: nat
  ge_now :: string
  ge_ratio_json :: "nat \<times> nat \<Rightarrow> json"
  ge_error_text :: "transcript_error \<Rightarrow> string"

text \<open>A session with its transcript on disk; the faults the next appends meet; and the messages table of the
  store (turn, role, content).\<close>

record 'ag gateway =
  gw_session :: "'ag session_runtime"
  gw_dir :: session_dir
  gw_faults :: "fault list"
  gw_messages :: "(string option \<times> string \<times> string) list"

definition on_session :: "('ag session_runtime \<Rightarrow> 'ag session_runtime) \<Rightarrow> 'ag gateway \<Rightarrow> 'ag gateway" where
  "on_session f g = g\<lparr>gw_session := f (gw_session g)\<rparr>"

section \<open>Append, then publish\<close>

definition record_of :: "stream_event_envelope \<Rightarrow> transcript_record" where
  "record_of e =
     \<lparr>ts_schema_version = TRANSCRIPT_SCHEMA_VERSION, ts_session_id = se_session_id e, ts_event_seq = se_event_seq e,
      ts_turn_seq = se_turn_seq e, ts_turn_id = se_turn_id e, ts_event_type = se_event_type e,
      ts_stream_source = se_stream_source e, ts_timestamp = se_timestamp e, ts_payload = se_payload e,
      ts_request_id = se_request_id e\<rparr>"

definition envelope_of :: "transcript_record \<Rightarrow> stream_event_envelope" where
  "envelope_of r =
     \<lparr>se_request_id = ts_request_id r, se_session_id = ts_session_id r, se_turn_id = ts_turn_id r,
      se_event_seq = ts_event_seq r, se_turn_seq = ts_turn_seq r, se_timestamp = ts_timestamp r,
      se_event_type = ts_event_type r, se_stream_source = ts_stream_source r, se_payload = ts_payload r\<rparr>"

text \<open>The refresh of the session index that follows a successful append only logs its errors and is left out.\<close>

definition append_event ::
  "gateway_env \<Rightarrow> stream_event_envelope \<Rightarrow> 'ag gateway \<Rightarrow> (api_error + stream_event_envelope) \<times> 'ag gateway" where
  "append_event env e g =
     (let flt = (case gw_faults g of [] \<Rightarrow> NoFault | f # _ \<Rightarrow> f);
          (res, d) = append_record (ge_enc env) (ge_segment_max_bytes env) flt (record_of e) (gw_dir g)
      in (map_sum (\<lambda>err. api_internal (ge_error_text env err)) envelope_of res,
          g\<lparr>gw_dir := d, gw_faults := tl (gw_faults g)\<rparr>))"

definition append_then_publish ::
  "gateway_env \<Rightarrow> stream_event_envelope \<Rightarrow> 'ag gateway \<Rightarrow> api_error option \<times> 'ag gateway" where
  "append_then_publish env e g =
     (case append_event env e g of
        (Inl err, g') \<Rightarrow> (Some err, g')
      | (Inr persisted, g') \<Rightarrow> (None, on_session (publish_event persisted) g'))"

definition TRANSCRIPT_APPEND_FAILED_CODE :: string where
  "TRANSCRIPT_APPEND_FAILED_CODE = ''TRANSCRIPT_APPEND_FAILED''"

definition create_event ::
  "gateway_env \<Rightarrow> string \<Rightarrow> string \<Rightarrow> string option \<Rightarrow> string \<Rightarrow> json \<Rightarrow> string option \<Rightarrow> 'ag gateway
     \<Rightarrow> stream_event_envelope \<times> 'ag gateway" where
  "create_event env request_id session_id turn_id ty payload source g =
     (let (e, s) = create_gateway_event (ge_now env) request_id session_id turn_id ty payload source (gw_session g)
      in (e, g\<lparr>gw_session := s\<rparr>))"

definition turn_of :: "'ag session_runtime \<Rightarrow> string \<Rightarrow> turn_runtime" where
  "turn_of s t = (case map_of (sr_turns s) t of Some x \<Rightarrow> x | None \<Rightarrow> turn_queued)"

definition set_turn :: "string \<Rightarrow> turn_runtime \<Rightarrow> 'ag session_runtime \<Rightarrow> 'ag session_runtime" where
  "set_turn t x s = s\<lparr>sr_turns := AList.update t x (sr_turns s)\<rparr>"

definition append_failed_details :: "stream_event_envelope \<Rightarrow> api_error \<Rightarrow> json" where
  "append_failed_details key_event err =
     json_obj [(''failed_event_type'', JString (se_event_type key_event)),
       (''failed_event_seq'', json_nat (se_event_seq key_event)), (''failed_turn_seq'', json_nat (se_turn_seq key_event)),
       (''append_error_code'', JString (ap_code err)), (''append_error_message'', JString (ap_message err)),
       (''append_error_details'', ap_details err)]"

definition append_failed_payload :: "stream_event_envelope \<Rightarrow> api_error \<Rightarrow> json" where
  "append_failed_payload key_event err =
     json_obj [(''code'', JString TRANSCRIPT_APPEND_FAILED_CODE),
       (''message'', JString ''failed to append event to transcript''), (''retryable'', JBool (ap_retryable err)),
       (''failed_event_type'', JString (se_event_type key_event)),
       (''failed_event_seq'', json_nat (se_event_seq key_event)), (''append_error_code'', JString (ap_code err))]"

definition handle_key_event_append_failure ::
  "gateway_env \<Rightarrow> stream_event_envelope \<Rightarrow> api_error \<Rightarrow> 'ag gateway \<Rightarrow> api_error option \<times> 'ag gateway" where
  "handle_key_event_append_failure env key_event err g =
     (let g1 = (case se_turn_id key_event of
            None \<Rightarrow> g
          | Some t \<Rightarrow>
              on_session (\<lambda>s. set_turn t ((turn_of s t)\<lparr>tr_status := TFailed,
                tr_error := Some \<lparr>te_code = TRANSCRIPT_APPEND_FAILED_CODE,
                  te_message = ''failed to append event to transcript'', te_retryable = ap_retryable err,
                  te_details = append_failed_details key_event err\<rparr>\<rparr>) s) g);
          (e, g2) = create_event env (se_request_id key_event) (se_session_id key_event) (se_turn_id key_event)
            ''response_error'' (append_failed_payload key_event err) (Some ''synthetic'') g1
      in append_then_publish env e g2)"

section \<open>Projecting an event of the agent\<close>

definition apply_turn_runtime_event :: "string \<Rightarrow> json \<Rightarrow> turn_runtime \<Rightarrow> turn_runtime" where
  "apply_turn_runtime_event ty payload t =
     (if ty = ''turn_started'' then t\<lparr>tr_status := TRunning\<rparr>
      else if ty = ''turn_completed'' then (if tr_status t = TFailed then t else t\<lparr>tr_status := TCompleted\<rparr>)
      else if ty = ''response_error'' \<or> ty = ''error''
      then t\<lparr>tr_status := TFailed, tr_error := Some
             \<lparr>te_code = (case str_field payload ''code'' of Some c \<Rightarrow> c | None \<Rightarrow> ''UPSTREAM_ERROR''),
              te_message = (case str_field payload ''message'' of Some m \<Rightarrow> m | None \<Rightarrow> ''response failed''),
              te_retryable = (case Option.bind (json_get payload ''retryable'') as_bool of Some b \<Rightarrow> b | None \<Rightarrow> False),
              te_details = payload\<rparr>\<rparr>
      else if ty = ''turn_interrupted''
      then t\<lparr>tr_status := TFailed, tr_error := Some
             \<lparr>te_code = ''TURN_ABORTED'', te_message = ''turn aborted by user'', te_retryable = False,
              te_details = payload\<rparr>\<rparr>
      else if ty = ''assistant_message'' then t
      else if ty = ''response_completed''
      then (case str_field payload ''content'' of
              Some c \<Rightarrow> t\<lparr>tr_assistant_message := Some c, tr_status := TCompleted\<rparr> | None \<Rightarrow> t)
      else t)"

text \<open>The sender that answers the request with the turn is used by the first event that names one; see
  \<open>run_turn_task\<close>.\<close>

definition project_turn :: "string \<Rightarrow> string \<Rightarrow> json \<Rightarrow> 'ag gateway \<Rightarrow> 'ag gateway" where
  "project_turn t ty payload g =
     (let turn = apply_turn_runtime_event ty payload (turn_of (gw_session g) t);
          content = (if ty = ''response_completed'' then str_field payload ''content'' else None);
          turn' = (case content of Some c \<Rightarrow> turn\<lparr>tr_assistant_message := Some c\<rparr> | None \<Rightarrow> turn)
      in g\<lparr>gw_session := set_turn t turn' (gw_session g),
           gw_messages := gw_messages g @ (case content of Some c \<Rightarrow> [(Some t, ''assistant'', c)] | None \<Rightarrow> [])\<rparr>)"

definition map_core_event ::
  "gateway_env \<Rightarrow> string \<Rightarrow> string \<Rightarrow> event \<Rightarrow> 'ag gateway \<Rightarrow> string option \<times> 'ag gateway" where
  "map_core_event env session_id request_id ev g =
     (case map_core_event_payload_result (ge_ratio_json env) ev of
        IgnoredInternal \<Rightarrow> (None, g)
      | Unmapped _ \<Rightarrow> (None, g)
      | Mapped m \<Rightarrow>
          (let ty = cm_event_type m;
               (public, s1) = (case cm_core_turn_id m of
                   None \<Rightarrow> (None, gw_session g)
                 | Some t \<Rightarrow> map_prod Some id (get_or_create_public_turn_id t (gw_session g)));
               (payload, s2) = assign_stream_node_ids public ty (cm_payload m) s1;
               g3 = (case public of
                   None \<Rightarrow> g\<lparr>gw_session := s2\<rparr> | Some t \<Rightarrow> project_turn t ty payload (g\<lparr>gw_session := s2\<rparr>));
               (e, g4) = create_event env request_id session_id public ty payload (cm_stream_source m) g3;
               (failed, g5) = append_then_publish env e g4
           in (public,
               case failed of
                 Some err \<Rightarrow>
                   (if public \<noteq> None \<and> ty \<noteq> ''response_error''
                    then snd (handle_key_event_append_failure env e err g5) else g5)
               | None \<Rightarrow> g5)))"

text \<open>\<open>publish_event_for_session\<close> drops an event it cannot append.\<close>

definition publish_event_for_session :: "gateway_env \<Rightarrow> stream_event_envelope \<Rightarrow> 'ag gateway \<Rightarrow> 'ag gateway" where
  "publish_event_for_session env e g = snd (append_then_publish env e g)"

definition create_and_publish ::
  "gateway_env \<Rightarrow> string \<Rightarrow> string \<Rightarrow> string option \<Rightarrow> string \<Rightarrow> json \<Rightarrow> string option \<Rightarrow> 'ag gateway \<Rightarrow> 'ag gateway" where
  "create_and_publish env request_id session_id turn_id ty payload source g =
     (let (e, g1) = create_event env request_id session_id turn_id ty payload source g
      in publish_event_for_session env e g1)"

section \<open>A turn from its submission to its end\<close>

definition map_store_error :: "string \<Rightarrow> api_error" where
  "map_store_error err =
     (if str_contains err ''UNIQUE constraint failed''
      then api_conflict ''duplicate resource'' (json_obj [(''reason'', JString err)]) else api_internal err)"

text \<open>Submitting a turn, up to the start of its task: \<open>store\<close> is the error of the store when it does not take the
  message.\<close>

definition submit_turn ::
  "gateway_env \<Rightarrow> string option \<Rightarrow> string \<Rightarrow> string \<Rightarrow> string \<Rightarrow> 'ag gateway
     \<Rightarrow> (api_error + string) \<times> 'ag gateway" where
  "submit_turn env store session_id request_id text_input g =
     (let input = trim text_input; s = gw_session g;
          running = filter (\<lambda>(_, t). tr_status t = TRunning) (sr_turns s)
      in if sr_status s = Closed \<or> sr_status s = Closing
         then (Inl (api_conflict ''session is not active'' (json_obj [(''session_id'', JString session_id)])), g)
         else if sr_turn_submit_in_flight s \<or> sr_turn_task s
         then (Inl (api_conflict ''another turn is still running'' (json_obj [(''session_id'', JString session_id)])), g)
         else if running \<noteq> []
         then (Inl (api_conflict ''another turn is still running''
                 (json_obj [(''session_id'', JString session_id), (''turn_id'', JString (fst (hd running)))])), g)
         else
           (let g1 = on_session (\<lambda>s. s\<lparr>sr_turn_abort_requested := False, sr_turn_submit_in_flight := True\<rparr>) g
            in if input = [] then (Inr input, g1)
               else if store \<noteq> None then (Inl (map_store_error (the store)), g1)
               else (Inr input, create_and_publish env request_id session_id None ''user_message''
                       (json_obj [(''content'', JString input)]) (Some ''synthetic'')
                       (g1\<lparr>gw_messages := gw_messages g1 @ [(None, ''user'', input)]\<rparr>))))"

text \<open>How the task of the agent ends: with the events of the turn, cancelled, or by a panic.\<close>

datatype task_end = TaskDone "event list" | TaskCancelled | TaskPanicked

fun map_core_events ::
  "gateway_env \<Rightarrow> string \<Rightarrow> string \<Rightarrow> event list \<Rightarrow> 'ag gateway \<Rightarrow> string list \<times> 'ag gateway" where
  "map_core_events env session_id request_id [] g = ([], g)"
| "map_core_events env session_id request_id (ev # evs) g =
     (let (public, g1) = map_core_event env session_id request_id ev g;
          (rest, g2) = map_core_events env session_id request_id evs g1
      in ((case public of Some t \<Rightarrow> [t] | None \<Rightarrow> []) @ rest, g2))"

definition interrupt_turn :: "gateway_env \<Rightarrow> string \<Rightarrow> string \<Rightarrow> string option \<Rightarrow> 'ag gateway \<Rightarrow> 'ag gateway" where
  "interrupt_turn env session_id request_id public g =
     (let details = json_obj [(''reason'', JString ''user_abort'')];
          g1 = (case public of
             None \<Rightarrow> g
           | Some t \<Rightarrow>
               (case map_of (sr_turns (gw_session g)) t of
                  None \<Rightarrow> g
                | Some turn \<Rightarrow>
                    if tr_status turn = TQueued \<or> tr_status turn = TRunning
                    then on_session (set_turn t (turn\<lparr>tr_status := TFailed, tr_error := Some
                           \<lparr>te_code = ''TURN_ABORTED'', te_message = ''turn aborted by user'', te_retryable = False,
                            te_details = details\<rparr>\<rparr>)) g
                    else g))
      in create_and_publish env request_id session_id public ''turn_interrupted'' details (Some ''synthetic'') g1)"

text \<open>The task that runs a turn: the events it receives are mapped one by one; the request is answered with the
  turn of the first event that has one, or at the end.\<close>

definition start_turn_task :: "'ag gateway \<Rightarrow> bool \<times> 'ag gateway" where
  "start_turn_task g =
     (sr_turn_abort_requested (gw_session g),
      on_session (\<lambda>s. s\<lparr>sr_turn_task := True, sr_turn_submit_in_flight := False\<rparr>) g)"

definition end_turn_task :: "'ag gateway \<Rightarrow> 'ag gateway" where
  "end_turn_task g =
     on_session (\<lambda>s. s\<lparr>sr_turn_task := False, sr_turn_submit_in_flight := False, sr_turn_abort_requested := False\<rparr>) g"

definition run_turn_task ::
  "gateway_env \<Rightarrow> string \<Rightarrow> string \<Rightarrow> event list \<Rightarrow> task_end \<Rightarrow> 'ag gateway \<Rightarrow> (api_error + string) \<times> 'ag gateway" where
  "run_turn_task env session_id request_id evs task_end g =
     (let (named, g1) = map_core_events env session_id request_id evs (snd (start_turn_task g));
          g2 = end_turn_task g1
      in case task_end of
           TaskDone events \<Rightarrow>
             (case named of
                t # _ \<Rightarrow> (Inr t, g2)
              | [] \<Rightarrow>
                  (case first_turn_id events of
                     Some t \<Rightarrow>
                       (let (p, s) = get_or_create_public_turn_id t (gw_session g2) in (Inr p, g2\<lparr>gw_session := s\<rparr>))
                   | None \<Rightarrow> (Inl (api_internal ''failed to infer turn id''), g2)))
         | TaskCancelled \<Rightarrow>
             (let public = (if named \<noteq> [] then Some (last named)
                    else (case filter (\<lambda>(_, t). tr_status t = TRunning) (sr_turns (gw_session g2)) of
                            (t, _) # _ \<Rightarrow> Some t | [] \<Rightarrow> None))
              in (case named of
                    t # _ \<Rightarrow> Inr t
                  | [] \<Rightarrow> Inl (api_conflict ''turn aborted by user'' (json_obj [(''reason'', JString ''user_abort'')])),
                  interrupt_turn env session_id request_id public g2))
         | TaskPanicked \<Rightarrow>
             (case named of
                t # _ \<Rightarrow> Inr t
              | [] \<Rightarrow> Inl (api_upstream_unavailable ''core execution task failed'' (json_obj [])),
              g2))"

section \<open>Session actions\<close>

text \<open>Aborting takes the handle of the running task; the result says whether a task is aborted.\<close>

definition abort_action :: "'ag gateway \<Rightarrow> bool \<times> 'ag gateway" where
  "abort_action g =
     (let had = sr_turn_task (gw_session g)
      in (had, on_session (\<lambda>s. s\<lparr>sr_turn_task := False,
              sr_turn_abort_requested := (if had then True else sr_turn_abort_requested s)\<rparr>) g))"

definition clear_runtime :: "'ag \<Rightarrow> 'ag gateway \<Rightarrow> 'ag gateway" where
  "clear_runtime agent g = on_session (clear_context_with_config agent) g"

definition publish_mapped ::
  "gateway_env \<Rightarrow> string \<Rightarrow> string \<Rightarrow> string \<Rightarrow> event \<Rightarrow> 'ag gateway \<Rightarrow> 'ag gateway" where
  "publish_mapped env session_id request_id turn_id ev g =
     (case map_core_event_payload (ge_ratio_json env) ev of
        None \<Rightarrow> g
      | Some m \<Rightarrow>
          create_and_publish env request_id session_id (Some turn_id) (cm_event_type m) (cm_payload m)
            (cm_stream_source m) g)"

text \<open>\<open>events\<close> are what the agent emits when it compacts its history.\<close>

definition handle_compact_action ::
  "gateway_env \<Rightarrow> string \<Rightarrow> string \<Rightarrow> string \<Rightarrow> event list \<Rightarrow> 'ag gateway \<Rightarrow> 'ag gateway" where
  "handle_compact_action env session_id request_id turn_id events g =
     (let done_turn = \<lparr>tr_status = TCompleted, tr_assistant_message = Some ''context compacted'', tr_error = None\<rparr>;
          g1 = on_session (set_turn turn_id done_turn) g;
          g2 = create_and_publish env request_id session_id (Some turn_id) ''turn_started'' (json_obj []) None g1;
          g3 = fold (publish_mapped env session_id request_id turn_id) events g2;
          (response, g4) = create_event env request_id session_id (Some turn_id) ''response_completed''
            (json_obj [(''content'', JString ''context compacted''), (''stream_source'', JString ''synthetic'')])
            (Some ''synthetic'') g3;
          (completed, g5) = create_event env request_id session_id (Some turn_id) ''turn_completed'' (json_obj []) None g4;
          g6 = publish_event_for_session env completed (publish_event_for_session env response g5)
      in g6\<lparr>gw_messages := gw_messages g6 @ [(Some turn_id, ''assistant'', ''context compacted'')]\<rparr>)"

definition normalize_session_action :: "string \<Rightarrow> string" where
  "normalize_session_action a =
     dropWhile (\<lambda>c. c = CHR '':'') (dropWhile (\<lambda>c. c = CHR ''/'') a)"

definition parse_session_action :: "string \<Rightarrow> api_error + string \<times> string" where
  "parse_session_action p =
     (case split_once p '':'' of
        Some (sid, action) \<Rightarrow> Inr (sid, action)
      | None \<Rightarrow> Inl (api_not_found ''invalid session action route'' (json_obj [(''session_action'', JString p)])))"

definition session_action ::
  "gateway_env \<Rightarrow> string \<Rightarrow> string \<Rightarrow> string \<Rightarrow> string \<Rightarrow> event list \<Rightarrow> 'ag \<Rightarrow> 'ag gateway
     \<Rightarrow> (api_error + string) \<times> 'ag gateway" where
  "session_action env session_id action request_id turn_id events agent g =
     (let normalized = normalize_session_action action
      in if normalized = ''compact''
         then (Inr ''compacted'', handle_compact_action env session_id request_id turn_id events g)
         else if normalized = ''abort'' then (Inr ''aborted'', snd (abort_action g))
         else if normalized \<noteq> ''clear''
         then (Inl (api_not_found ''invalid session action route'' (json_obj [(''action'', JString action)])), g)
         else (Inr ''cleared'', clear_runtime agent g))"

definition resolve_approval :: "string \<Rightarrow> 'ag gateway \<Rightarrow> (api_error + string) \<times> 'ag gateway" where
  "resolve_approval aid g =
     (if aid \<in> set (sr_resolved_approvals (gw_session g))
      then (Inl (api_conflict ''approval already resolved'' (json_obj [(''approval_id'', JString aid)])), g)
      else
        (let (ok, s) = handler_resolve aid (gw_session g)
         in if \<not> ok
            then (Inl (api_not_found ''approval not found'' (json_obj [(''approval_id'', JString aid)])), g\<lparr>gw_session := s\<rparr>)
            else (Inr ''resolved'', g\<lparr>gw_session := s\<lparr>sr_resolved_approvals := aid # sr_resolved_approvals s\<rparr>\<rparr>)))"

section \<open>Building a session from its transcript\<close>

definition recover_row :: "transcript_record \<Rightarrow> 'ag session_runtime \<Rightarrow> 'ag session_runtime" where
  "recover_row r s =
     (let s1 = s\<lparr>sr_event_log := snd (rb_push (envelope_of r) (sr_event_log s))\<rparr>
      in case ts_turn_id r of
           None \<Rightarrow> s1
         | Some t \<Rightarrow>
             (let s2 = observe_stream_node_ids (Some t) (ts_event_type r) (ts_payload r) s1;
                  s3 = set_turn t (apply_turn_runtime_event (ts_event_type r) (ts_payload r) (turn_of s2 t)) s2
              in s3\<lparr>sr_turn_event_seq := AList.update t (ts_turn_seq r) (sr_turn_event_seq s3)\<rparr>))"

definition build_session_runtime ::
  "'ag \<Rightarrow> nat \<Rightarrow> string option \<Rightarrow> session_dir \<Rightarrow> transcript_error + 'ag session_runtime" where
  "build_session_runtime agent capacity provider d =
     (case replay None d of
        Inl e \<Rightarrow> Inl e
      | Inr rows \<Rightarrow>
          (let s0 = (session_runtime_new agent capacity)\<lparr>sr_active_provider_id := provider\<rparr>;
               s1 = (if rows = [] then s0 else s0\<lparr>sr_next_event_seq := saturating_succ (ts_event_seq (last rows))\<rparr>)
           in Inr (fold recover_row rows s1)))"

section \<open>The transcript mirrors the session\<close>

text \<open>The session a gateway would build from what is on the disk.\<close>

definition rebuilt :: "'ag session_runtime \<Rightarrow> session_dir \<Rightarrow> 'ag session_runtime" where
  "rebuilt s d = fold recover_row (disk_records d) (session_runtime_new (sr_agent s) (sr_replay_capacity s))"

definition same_numbering :: "'ag session_runtime \<Rightarrow> 'ag session_runtime \<Rightarrow> bool" where
  "same_numbering s r \<longleftrightarrow> map_of (sr_turn_event_seq s) = map_of (sr_turn_event_seq r)"

text \<open>Nothing of what the clients of the session can ask for is lost by a restart: its turns, the numbers its
  next events get, the segments it is in, and its window of events. \<open>X\<close> are turns for which the first and the
  third do not hold yet.\<close>

definition mirrored :: "string \<Rightarrow> nat \<Rightarrow> string set \<Rightarrow> 'ag gateway \<Rightarrow> bool" where
  "mirrored sid m X g \<longleftrightarrow>
     (let s = gw_session g; d = gw_dir g; r = rebuilt s d
      in log_ok sid m d \<and> length (disk_records d) = m \<and> gw_faults g = []
         \<and> (m = 0 \<or> sd_manifest d \<noteq> None)
         \<and> (\<forall>t. t \<notin> X \<longrightarrow> map_of (sr_turns s) t = map_of (sr_turns r) t
              \<and> node_of (sr_turn_stream_nodes s) t = node_of (sr_turn_stream_nodes r) t)
         \<and> same_numbering s r \<and> sr_event_log s = sr_event_log r
         \<and> sr_next_event_seq s = Suc m
         \<and> (\<forall>t. node_ok m (node_of (sr_turn_stream_nodes s) t))
         \<and> (\<forall>t. map_of (sr_turn_stream_nodes s) t \<noteq> None \<longrightarrow> map_of (sr_turns s) t \<noteq> None))"

lemma node_default_ok: "node_ok m node_default"
  by (simp add: node_ok_def node_default_def below_counter_def)

definition fresh_gateway :: "'ag \<Rightarrow> nat \<Rightarrow> 'ag gateway" where
  "fresh_gateway agent capacity =
     \<lparr>gw_session = session_runtime_new agent capacity, gw_dir = empty_dir, gw_faults = [], gw_messages = []\<rparr>"

lemma mirrored_fresh: "mirrored sid 0 X (fresh_gateway agent capacity)"
  using log_ok_empty [of sid] node_default_ok
  by (simp add: mirrored_def fresh_gateway_def rebuilt_def session_runtime_new_def same_numbering_def records_of_def node_of_def
      del: disk_simps(5)) (simp add: disk_records_def empty_dir_def)

text \<open>One event appended and published.\<close>

lemma append_no_fault:
  assumes g: "log_ok sid m (gw_dir g)" "length (disk_records (gw_dir g)) = m" "gw_faults g = []"
    and bound: "m + 5 < 2 ^ 64" and e: "se_session_id e = sid"
  obtains d where "append_then_publish env e g =
      (None, g\<lparr>gw_session := publish_event (e\<lparr>se_event_seq := Suc m\<rparr>) (gw_session g), gw_dir := d\<rparr>)"
    "log_ok sid (Suc m) d" "sd_manifest d \<noteq> None"
    "disk_records d = disk_records (gw_dir g) @ [record_of (e\<lparr>se_event_seq := Suc m\<rparr>)]"
proof -
  obtain res d where run: "append_record (ge_enc env) (ge_segment_max_bytes env) NoFault (record_of e) (gw_dir g) = (res, d)"
    by (cases "append_record (ge_enc env) (ge_segment_max_bytes env) NoFault (record_of e) (gw_dir g)")
  have num: "numbered sid (Suc m) (record_of e) = record_of (e\<lparr>se_event_seq := Suc m\<rparr>)"
    using e by (simp add: numbered_def record_of_def)
  note step = append_step [OF g(1) _ _ _ run, unfolded g(2) num]
  have s: "log_ok sid (Suc m) d" "disk_records d = disk_records (gw_dir g) @ [record_of (e\<lparr>se_event_seq := Suc m\<rparr>)]"
      "res = Inr (record_of (e\<lparr>se_event_seq := Suc m\<rparr>)) \<and> sd_manifest d \<noteq> None"
    using step bound e by (simp_all add: survivable_def record_of_def)
  have "envelope_of (record_of (e\<lparr>se_event_seq := Suc m\<rparr>)) = e\<lparr>se_event_seq := Suc m\<rparr>"
    by (simp add: envelope_of_def record_of_def)
  then have "append_then_publish env e g =
      (None, g\<lparr>gw_session := publish_event (e\<lparr>se_event_seq := Suc m\<rparr>) (gw_session g), gw_dir := d\<rparr>)"
    using run s(3) g(3) by (simp add: append_then_publish_def append_event_def on_session_def)
  then show thesis using that s by blast
qed

text \<open>The record an event leaves, once numbered.\<close>

definition row_of ::
  "gateway_env \<Rightarrow> string \<Rightarrow> string \<Rightarrow> string option \<Rightarrow> string \<Rightarrow> json \<Rightarrow> string option \<Rightarrow> nat \<Rightarrow> nat \<Rightarrow> transcript_record" where
  "row_of env request_id session_id turn_id ty payload source turn_seq q =
     record_of \<lparr>se_request_id = request_id, se_session_id = session_id, se_turn_id = turn_id, se_event_seq = q,
       se_turn_seq = turn_seq, se_timestamp = ge_now env, se_event_type = ty,
       se_stream_source = (case source of Some x \<Rightarrow> x | None \<Rightarrow> ''synthetic''), se_payload = payload\<rparr>"

definition next_turn_seq :: "'ag session_runtime \<Rightarrow> string option \<Rightarrow> nat" where
  "next_turn_seq s turn_id =
     (case turn_id of
        None \<Rightarrow> 0 | Some t \<Rightarrow> (case map_of (sr_turn_event_seq s) t of Some q \<Rightarrow> q | None \<Rightarrow> 0) + 1)"

lemma recover_row_fields:
  "sr_event_log (recover_row r s) = snd (rb_push (envelope_of r) (sr_event_log s))"
  "map_of (sr_turn_event_seq (recover_row r s))
     = (case ts_turn_id r of None \<Rightarrow> map_of (sr_turn_event_seq s) | Some t \<Rightarrow> (map_of (sr_turn_event_seq s))(t \<mapsto> ts_turn_seq r))"
  "map_of (sr_turns (recover_row r s))
     = (case ts_turn_id r of None \<Rightarrow> map_of (sr_turns s)
        | Some t \<Rightarrow> (map_of (sr_turns s))(t \<mapsto> apply_turn_runtime_event (ts_event_type r) (ts_payload r) (turn_of s t)))"
  "sr_turn_stream_nodes (recover_row r s)
     = (case ts_turn_id r of None \<Rightarrow> sr_turn_stream_nodes s
        | Some t \<Rightarrow> store_node t (ts_event_type r)
            (observe_node (ts_event_type r) (ts_payload r) (node_of (sr_turn_stream_nodes s) t)) (sr_turn_stream_nodes s))"
  by (cases "ts_turn_id r";
      simp add: recover_row_def observe_stream_node_ids_def set_turn_def turn_of_def update_conv' Let_def)+

lemma node_of_store:
  "node_of (store_node t ty n nodes) u
     = (if u = t then if ty = ''turn_completed'' then node_default else n else node_of nodes u)"
  by (simp add: node_of_def store_node_def update_conv' delete_conv')

text \<open>Everything of \<open>mirrored\<close> but the turns and their segments.\<close>

definition log_mirrored :: "string \<Rightarrow> nat \<Rightarrow> 'ag gateway \<Rightarrow> bool" where
  "log_mirrored sid m g \<longleftrightarrow>
     (let s = gw_session g; d = gw_dir g; r = rebuilt s d
      in log_ok sid m d \<and> length (disk_records d) = m \<and> gw_faults g = []
         \<and> (m = 0 \<or> sd_manifest d \<noteq> None) \<and> same_numbering s r \<and> sr_event_log s = sr_event_log r
         \<and> sr_next_event_seq s = Suc m)"

definition turns_mirrored :: "nat \<Rightarrow> string set \<Rightarrow> 'ag session_runtime \<Rightarrow> 'ag session_runtime \<Rightarrow> bool" where
  "turns_mirrored m X s r \<longleftrightarrow>
     (\<forall>t. t \<notin> X \<longrightarrow> map_of (sr_turns s) t = map_of (sr_turns r) t
              \<and> node_of (sr_turn_stream_nodes s) t = node_of (sr_turn_stream_nodes r) t)
     \<and> (\<forall>t. node_ok m (node_of (sr_turn_stream_nodes s) t))
     \<and> (\<forall>t. map_of (sr_turn_stream_nodes s) t \<noteq> None \<longrightarrow> map_of (sr_turns s) t \<noteq> None)"

lemma mirrored_split:
  "mirrored sid m X g \<longleftrightarrow> log_mirrored sid m g \<and> turns_mirrored m X (gw_session g) (rebuilt (gw_session g) (gw_dir g))"
  by (auto simp: mirrored_def log_mirrored_def turns_mirrored_def Let_def)

lemma turns_mirroredD:
  assumes "turns_mirrored m X s r"
  shows "t \<notin> X \<Longrightarrow> map_of (sr_turns s) t = map_of (sr_turns r) t"
    "t \<notin> X \<Longrightarrow> node_of (sr_turn_stream_nodes s) t = node_of (sr_turn_stream_nodes r) t"
    "node_ok m (node_of (sr_turn_stream_nodes s) t)"
    "map_of (sr_turns s) t = None \<Longrightarrow> map_of (sr_turn_stream_nodes s) t = None"
  using assms unfolding turns_mirrored_def by blast+

text \<open>Creating and publishing one event, from a session that may already have other turns and segments.\<close>

lemma publish_step:
  assumes m: "log_mirrored sid m g" and bound: "m + 5 < 2 ^ 64"
    and s1: "sr_event_log s1 = sr_event_log (gw_session g)" "sr_next_event_seq s1 = sr_next_event_seq (gw_session g)"
      "sr_turn_event_seq s1 = sr_turn_event_seq (gw_session g)" "sr_agent s1 = sr_agent (gw_session g)"
      "sr_replay_capacity s1 = sr_replay_capacity (gw_session g)"
    and create: "create_event env rid sid tid ty payload src (g\<lparr>gw_session := s1, gw_messages := ms\<rparr>) = (e, g2)"
  obtains g3 where "append_then_publish env e g2 = (None, g3)" "log_mirrored sid (Suc m) g3"
    "sr_turns (gw_session g3) = sr_turns s1" "sr_turn_stream_nodes (gw_session g3) = sr_turn_stream_nodes s1"
    "rebuilt (gw_session g3) (gw_dir g3)
       = recover_row (row_of env rid sid tid ty payload src (next_turn_seq s1 tid) (Suc m)) (rebuilt (gw_session g) (gw_dir g))"
proof -
  let ?r = "rebuilt (gw_session g) (gw_dir g)"
  let ?row = "row_of env rid sid tid ty payload src (next_turn_seq s1 tid) (Suc m)"
  have g: "log_ok sid m (gw_dir g)" "length (disk_records (gw_dir g)) = m" "gw_faults g = []"
      "same_numbering (gw_session g) ?r" "sr_event_log (gw_session g) = sr_event_log ?r" "sr_next_event_seq (gw_session g) = Suc m"
    using m by (simp_all add: log_mirrored_def Let_def)
  define seqs where "seqs = (case tid of None \<Rightarrow> sr_turn_event_seq s1
      | Some t \<Rightarrow> AList.update t (next_turn_seq s1 tid) (sr_turn_event_seq s1))"
  have e: "se_session_id e = sid" "e\<lparr>se_event_seq := Suc m\<rparr> = e" "record_of e = ?row"
    using create s1(2) g(6)
    by (auto simp: create_event_def create_gateway_event_def row_of_def next_turn_seq_def Let_def split: option.splits)
  have g2: "g2 = g\<lparr>gw_session := s1\<lparr>sr_turn_event_seq := seqs, sr_next_event_seq := Suc (Suc m)\<rparr>, gw_messages := ms\<rparr>"
    using create s1(2) g(6)
    by (auto simp: create_event_def create_gateway_event_def seqs_def next_turn_seq_def Let_def split: option.splits)
  have pre: "log_ok sid m (gw_dir g2)" "length (disk_records (gw_dir g2)) = m" "gw_faults g2 = []"
    using g by (simp_all add: g2)
  obtain d where d: "append_then_publish env e g2 = (None, g2\<lparr>gw_session := publish_event e (gw_session g2), gw_dir := d\<rparr>)"
      "log_ok sid (Suc m) d" "sd_manifest d \<noteq> None" "disk_records d = disk_records (gw_dir g) @ [?row]"
    using append_no_fault [OF pre bound e(1), of env] unfolding e(2,3) by (auto simp: g2)
  let ?g3 = "g2\<lparr>gw_session := publish_event e (gw_session g2), gw_dir := d\<rparr>"
  have rebuilt: "rebuilt (gw_session ?g3) d = recover_row ?row ?r"
    using s1(4,5) d(4) by (simp add: rebuilt_def g2 publish_event_def)
  have env_row: "envelope_of ?row = e" using e(3) by (simp add: envelope_of_def record_of_def flip: e(3))
  have num: "same_numbering (gw_session ?g3) (recover_row ?row ?r)"
    using g(4) s1(3)
    by (cases tid) (simp_all add: same_numbering_def recover_row_fields g2 publish_event_def seqs_def row_of_def record_of_def
        update_conv')
  have log: "sr_event_log (gw_session ?g3) = sr_event_log (recover_row ?row ?r)"
    using g(5) s1(1) env_row by (simp add: recover_row_fields g2 publish_event_def)
  have "log_mirrored sid (Suc m) ?g3"
    using d num log g rebuilt unfolding log_mirrored_def Let_def by (simp add: g2 publish_event_def)
  then show thesis using that [of ?g3] d(1) rebuilt by (simp add: g2 publish_event_def)
qed

section \<open>Every operation keeps the mirror\<close>

lemma mapped_bare: "map_core_event_payload_result rj ev = Mapped m \<Longrightarrow> bare_payload (cm_payload m)"
  by (cases ev) (auto simp: map_core_event_payload_result_def or_else_def mapping_def bare_payload_def response_key_def
      reasoning_key_def)

lemma project_same: "(case (if ty = ''response_completed'' then str_field payload ''content'' else None) of
     Some c \<Rightarrow> (apply_turn_runtime_event ty payload t)\<lparr>tr_assistant_message := Some c\<rparr>
   | None \<Rightarrow> apply_turn_runtime_event ty payload t) = apply_turn_runtime_event ty payload t"
  by (auto simp: apply_turn_runtime_event_def split: option.splits)

lemma node_ok_all: "\<forall>t. node_ok m (node_of nodes t) \<Longrightarrow> \<forall>t. node_ok (Suc m) (node_of nodes t)"
  using node_ok_mono by blast

text \<open>An event without a turn leaves turns and segments alone.\<close>

lemma session_event_mirrored:
  assumes m: "mirrored sid m X g" and bound: "m + 5 < 2 ^ 64"
    and create: "create_event env rid sid None ty payload src (g\<lparr>gw_messages := ms\<rparr>) = (e, g2)"
  obtains g3 where "append_then_publish env e g2 = (None, g3)" "mirrored sid (Suc m) X g3"
proof -
  have lm: "log_mirrored sid m g" and tm: "turns_mirrored m X (gw_session g) (rebuilt (gw_session g) (gw_dir g))"
    using m by (simp_all add: mirrored_split)
  have create': "create_event env rid sid None ty payload src (g\<lparr>gw_session := gw_session g, gw_messages := ms\<rparr>) = (e, g2)"
    using create by simp
  obtain g3 where g3: "append_then_publish env e g2 = (None, g3)" "log_mirrored sid (Suc m) g3"
      "sr_turns (gw_session g3) = sr_turns (gw_session g)"
      "sr_turn_stream_nodes (gw_session g3) = sr_turn_stream_nodes (gw_session g)"
      "rebuilt (gw_session g3) (gw_dir g3) = recover_row (row_of env rid sid None ty payload src
         (next_turn_seq (gw_session g) None) (Suc m)) (rebuilt (gw_session g) (gw_dir g))"
    by (rule publish_step [OF lm bound refl refl refl refl refl create'])
  have "turns_mirrored (Suc m) X (gw_session g3) (rebuilt (gw_session g3) (gw_dir g3))"
    using tm g3(3,4) node_ok_all unfolding turns_mirrored_def g3(5)
    by (auto simp: recover_row_fields row_of_def record_of_def)
  then show thesis using that g3(1,2) by (simp add: mirrored_split)
qed

text \<open>An event of a turn: what the session made of the turn and its segments before the event was created has to
  be what the row will make of them, unless the turn stays excepted.\<close>

definition row_turn :: "string \<Rightarrow> json \<Rightarrow> 'ag session_runtime \<Rightarrow> string \<Rightarrow> turn_runtime" where
  "row_turn ty payload r t = apply_turn_runtime_event ty payload (turn_of r t)"

definition row_node :: "string \<Rightarrow> json \<Rightarrow> 'ag session_runtime \<Rightarrow> string \<Rightarrow> node_state" where
  "row_node ty payload r t =
     (if ty = ''turn_completed'' then node_default else observe_node ty payload (node_of (sr_turn_stream_nodes r) t))"

lemma turn_row_mirrored:
  assumes m: "mirrored sid m X g" and bound: "m + 5 < 2 ^ 64"
    and s1: "sr_event_log s1 = sr_event_log (gw_session g)" "sr_next_event_seq s1 = sr_next_event_seq (gw_session g)"
      "sr_turn_event_seq s1 = sr_turn_event_seq (gw_session g)" "sr_agent s1 = sr_agent (gw_session g)"
      "sr_replay_capacity s1 = sr_replay_capacity (gw_session g)"
    and turns: "\<forall>u. u \<noteq> t \<longrightarrow> map_of (sr_turns s1) u = map_of (sr_turns (gw_session g)) u"
      "map_of (sr_turns s1) t \<noteq> None"
    and nodes: "\<forall>u. u \<noteq> t \<longrightarrow> map_of (sr_turn_stream_nodes s1) u = map_of (sr_turn_stream_nodes (gw_session g)) u"
      "node_ok (Suc m) (node_of (sr_turn_stream_nodes s1) t)"
    and here: "t \<in> Y \<or> map_of (sr_turns s1) t = Some (row_turn ty payload (rebuilt (gw_session g) (gw_dir g)) t)
        \<and> node_of (sr_turn_stream_nodes s1) t = row_node ty payload (rebuilt (gw_session g) (gw_dir g)) t"
    and X: "X \<subseteq> insert t Y"
    and create: "create_event env rid sid (Some t) ty payload src (g\<lparr>gw_session := s1, gw_messages := ms\<rparr>) = (e, g2)"
  obtains g3 where "append_then_publish env e g2 = (None, g3)" "mirrored sid (Suc m) Y g3"
    "sr_turns (gw_session g3) = sr_turns s1" "sr_turn_stream_nodes (gw_session g3) = sr_turn_stream_nodes s1"
    "turn_of (rebuilt (gw_session g3) (gw_dir g3)) t = row_turn ty payload (rebuilt (gw_session g) (gw_dir g)) t"
    "node_of (sr_turn_stream_nodes (rebuilt (gw_session g3) (gw_dir g3))) t
       = row_node ty payload (rebuilt (gw_session g) (gw_dir g)) t"
proof -
  let ?s = "gw_session g" and ?r = "rebuilt (gw_session g) (gw_dir g)"
  have lm: "log_mirrored sid m g" and tm: "turns_mirrored m X ?s ?r"
    using m by (simp_all add: mirrored_split)
  obtain g3 where g3: "append_then_publish env e g2 = (None, g3)" "log_mirrored sid (Suc m) g3"
      "sr_turns (gw_session g3) = sr_turns s1" "sr_turn_stream_nodes (gw_session g3) = sr_turn_stream_nodes s1"
      "rebuilt (gw_session g3) (gw_dir g3) = recover_row (row_of env rid sid (Some t) ty payload src
         (next_turn_seq s1 (Some t)) (Suc m)) ?r"
    by (rule publish_step [OF lm bound s1(1-5) create])
  let ?r3 = "rebuilt (gw_session g3) (gw_dir g3)"
  have rec: "map_of (sr_turns ?r3) = (map_of (sr_turns ?r))(t \<mapsto> row_turn ty payload ?r t)"
    "node_of (sr_turn_stream_nodes ?r3) u = (if u = t then row_node ty payload ?r t else node_of (sr_turn_stream_nodes ?r) u)" for u
    unfolding g3(5) row_turn_def row_node_def
    by (simp_all add: recover_row_fields row_of_def record_of_def node_of_store)
  have other: "node_of (sr_turn_stream_nodes s1) u = node_of (sr_turn_stream_nodes ?s) u" if "u \<noteq> t" for u
    using nodes(1) that by (simp add: node_of_def)
  have "node_ok (Suc m) (node_of (sr_turn_stream_nodes s1) u)" for u
    using nodes(2) other [of u] tm node_ok_mono by (cases "u = t") (auto simp: turns_mirrored_def)
  moreover have "map_of (sr_turns s1) u \<noteq> None" if "map_of (sr_turn_stream_nodes s1) u \<noteq> None" for u
    using that turns nodes(1) tm by (cases "u = t") (auto simp: turns_mirrored_def)
  moreover have "map_of (sr_turns s1) u = map_of (sr_turns ?r3) u
      \<and> node_of (sr_turn_stream_nodes s1) u = node_of (sr_turn_stream_nodes ?r3) u" if "u \<notin> Y" for u
  proof (cases "u = t")
    case True
    then show ?thesis using here that by (simp add: rec)
  next
    case False
    then have "u \<notin> X" using X that by auto
    then show ?thesis using False turns(1) other [OF False] tm by (simp add: rec turns_mirrored_def)
  qed
  ultimately have "turns_mirrored (Suc m) Y (gw_session g3) ?r3"
    unfolding turns_mirrored_def g3(3,4) by blast
  then show thesis using that [of g3] g3 rec by (simp add: mirrored_split turn_of_def)
qed

lemma turn_event_mirrored:
  assumes m: "mirrored sid m {} g" and bound: "m + 5 < 2 ^ 64"
    and bare: "bare_payload payload"
    and assign: "assign_node ty payload (node_of (sr_turn_stream_nodes (gw_session g)) t) = (payload', n')"
    and s1: "sr_event_log s1 = sr_event_log (gw_session g)" "sr_next_event_seq s1 = sr_next_event_seq (gw_session g)"
      "sr_turn_event_seq s1 = sr_turn_event_seq (gw_session g)" "sr_agent s1 = sr_agent (gw_session g)"
      "sr_replay_capacity s1 = sr_replay_capacity (gw_session g)"
      "sr_turn_stream_nodes s1 = store_node t ty n' (sr_turn_stream_nodes (gw_session g))"
      "sr_turns s1 = AList.update t (apply_turn_runtime_event ty payload' (turn_of (gw_session g) t)) (sr_turns (gw_session g))"
    and create: "create_event env rid sid (Some t) ty payload' src (g\<lparr>gw_session := s1, gw_messages := ms\<rparr>) = (e, g2)"
  obtains g3 where "append_then_publish env e g2 = (None, g3)" "mirrored sid (Suc m) {} g3"
proof -
  let ?s = "gw_session g" and ?r = "rebuilt (gw_session g) (gw_dir g)"
  have tm: "turns_mirrored m {} ?s ?r" using m by (simp add: mirrored_split)
  have at: "turn_of ?r t = turn_of ?s t" "node_of (sr_turn_stream_nodes ?r) t = node_of (sr_turn_stream_nodes ?s) t"
    using tm by (simp_all add: turns_mirrored_def turn_of_def)
  have ok: "node_ok m (node_of (sr_turn_stream_nodes ?s) t)" using tm unfolding turns_mirrored_def by blast
  have suc: "Suc m < 2 ^ 64" using bound by simp
  note obs = observe_assigned [OF ok suc bare assign]
  have nodes: "\<forall>u. u \<noteq> t \<longrightarrow> map_of (sr_turn_stream_nodes s1) u = map_of (sr_turn_stream_nodes ?s) u"
      "node_of (sr_turn_stream_nodes s1) t = row_node ty payload' ?r t" "node_ok (Suc m) (node_of (sr_turn_stream_nodes s1) t)"
    using obs at(2) node_default_ok
    by (simp_all add: s1(6) node_of_store row_node_def) (simp add: store_node_def update_conv' delete_conv')
  have turns: "\<forall>u. u \<noteq> t \<longrightarrow> map_of (sr_turns s1) u = map_of (sr_turns ?s) u"
      "map_of (sr_turns s1) t = Some (row_turn ty payload' ?r t)"
    by (simp_all add: s1(7) update_conv' row_turn_def at(1))
  show thesis
  proof (rule turn_row_mirrored [OF m bound s1(1-5) turns(1) _ nodes(1,3) _ _ create])
    show "map_of (sr_turns s1) t \<noteq> None" by (simp add: turns(2))
    show "t \<in> {} \<or> map_of (sr_turns s1) t = Some (row_turn ty payload' ?r t)
        \<and> node_of (sr_turn_stream_nodes s1) t = row_node ty payload' ?r t" using turns(2) nodes(2) by blast
  qed (use that in auto)
qed

lemma map_core_event_mirrored:
  assumes m: "mirrored sid m {} g" and bound: "m + 5 < 2 ^ 64" and run: "map_core_event env sid rid ev g = (public, g')"
  shows "mirrored sid (if internal_event ev then m else Suc m) {} g'"
proof (cases "map_core_event_payload_result (ge_ratio_json env) ev")
  case (Mapped cm)
  have ne: "\<not> internal_event ev"
    using Mapped by (cases ev) (simp_all add: map_core_event_payload_result_def or_else_def)
  note bare = mapped_bare [OF Mapped]
  show ?thesis
  proof (cases "cm_core_turn_id cm")
    case None
    obtain e g2 where c: "create_event env rid sid None (cm_event_type cm) (cm_payload cm) (cm_stream_source cm) g = (e, g2)"
      by (cases "create_event env rid sid None (cm_event_type cm) (cm_payload cm) (cm_stream_source cm) g")
    then have c': "create_event env rid sid None (cm_event_type cm) (cm_payload cm) (cm_stream_source cm)
        (g\<lparr>gw_messages := gw_messages g\<rparr>) = (e, g2)" by simp
    obtain g3 where g3: "append_then_publish env e g2 = (None, g3)" "mirrored sid (Suc m) {} g3"
      by (rule session_event_mirrored [OF m bound c'])
    have "g' = g3"
      using run Mapped None c g3(1) by (simp add: map_core_event_def assign_stream_node_ids_def)
    then show ?thesis using g3(2) ne by simp
  next
    case (Some k)
    let ?ty = "cm_event_type cm"
    obtain p s1 where p: "get_or_create_public_turn_id k (gw_session g) = (p, s1)"
      by (cases "get_or_create_public_turn_id k (gw_session g)")
    have s1: "sr_event_log s1 = sr_event_log (gw_session g)" "sr_next_event_seq s1 = sr_next_event_seq (gw_session g)"
      "sr_turn_event_seq s1 = sr_turn_event_seq (gw_session g)" "sr_agent s1 = sr_agent (gw_session g)"
      "sr_replay_capacity s1 = sr_replay_capacity (gw_session g)" "sr_turns s1 = sr_turns (gw_session g)"
      "sr_turn_stream_nodes s1 = sr_turn_stream_nodes (gw_session g)"
      using p by (auto simp: get_or_create_public_turn_id_def Let_def split: option.splits)
    obtain payload n where a: "assign_node ?ty (cm_payload cm) (node_of (sr_turn_stream_nodes (gw_session g)) p) = (payload, n)"
      by (cases "assign_node ?ty (cm_payload cm) (node_of (sr_turn_stream_nodes (gw_session g)) p)")
    define s2 where "s2 = s1\<lparr>sr_turn_stream_nodes := store_node p ?ty n (sr_turn_stream_nodes s1)\<rparr>"
    define g3 where "g3 = project_turn p ?ty payload (g\<lparr>gw_session := s2\<rparr>)"
    have same_turn: "turn_of s2 p = turn_of (gw_session g) p" by (simp add: turn_of_def s2_def s1)
    define s3 where "s3 = set_turn p (apply_turn_runtime_event ?ty payload (turn_of (gw_session g) p)) s2"
    define ms where "ms = gw_messages g3"
    have g3: "g3 = g\<lparr>gw_session := s3, gw_messages := ms\<rparr>"
      by (simp add: ms_def s3_def g3_def project_turn_def Let_def project_same same_turn)
    obtain e g4 where c: "create_event env rid sid (Some p) ?ty payload (cm_stream_source cm)
        (g\<lparr>gw_session := s3, gw_messages := ms\<rparr>) = (e, g4)"
      by (cases "create_event env rid sid (Some p) ?ty payload (cm_stream_source cm) (g\<lparr>gw_session := s3, gw_messages := ms\<rparr>)")
    obtain g5 where g5: "append_then_publish env e g4 = (None, g5)" "mirrored sid (Suc m) {} g5"
      by (rule turn_event_mirrored [OF m bound bare a _ _ _ _ _ _ _ c]) (simp_all add: s3_def set_turn_def s2_def s1)
    have pt: "project_turn p ?ty payload (g\<lparr>gw_session := s1\<lparr>sr_turn_stream_nodes :=
        store_node p ?ty n (sr_turn_stream_nodes (gw_session g))\<rparr>\<rparr>) = g\<lparr>gw_session := s3, gw_messages := ms\<rparr>"
      unfolding g3 [symmetric] g3_def s2_def s1(7) ..
    have "g' = g5"
      using run Mapped Some p a c g5(1) s1(7)
      by (simp add: map_core_event_def assign_stream_node_ids_def pt Let_def)
    then show ?thesis using g5(2) ne by simp
  qed
next
  case IgnoredInternal
  then have "internal_event ev"
    by (cases ev) (simp_all add: map_core_event_payload_result_def or_else_def)
  then show ?thesis using m run IgnoredInternal by (simp add: map_core_event_def)
next
  case (Unmapped v)
  then have False by (cases ev) (simp_all add: map_core_event_payload_result_def or_else_def)
  then show ?thesis ..
qed

lemma user_message_mirrored:
  assumes m: "mirrored sid m X g" and bound: "m + 5 < 2 ^ 64"
  shows "mirrored sid (Suc m) X (create_and_publish env rid sid None ty payload src (g\<lparr>gw_messages := ms\<rparr>))"
proof -
  obtain e g2 where c: "create_event env rid sid None ty payload src (g\<lparr>gw_messages := ms\<rparr>) = (e, g2)"
    by (cases "create_event env rid sid None ty payload src (g\<lparr>gw_messages := ms\<rparr>)")
  obtain g3 where "append_then_publish env e g2 = (None, g3)" "mirrored sid (Suc m) X g3"
    by (rule session_event_mirrored [OF m bound c])
  then show ?thesis using c by (simp add: create_and_publish_def publish_event_for_session_def)
qed

text \<open>A handler that publishes an event of a turn directly.\<close>

lemma direct_event_mirrored:
  assumes m: "mirrored sid m X g" and bound: "m + 5 < 2 ^ 64"
    and turn: "map_of (sr_turns (gw_session g)) t \<noteq> None"
    and here: "t \<in> Y \<or> map_of (sr_turns (gw_session g)) t = Some (row_turn ty payload (rebuilt (gw_session g) (gw_dir g)) t)
        \<and> node_of (sr_turn_stream_nodes (gw_session g)) t = row_node ty payload (rebuilt (gw_session g) (gw_dir g)) t"
    and X: "X \<subseteq> insert t Y"
    and g3: "g3 = create_and_publish env rid sid (Some t) ty payload src g"
  shows "mirrored sid (Suc m) Y g3" "sr_turns (gw_session g3) = sr_turns (gw_session g)"
    "sr_turn_stream_nodes (gw_session g3) = sr_turn_stream_nodes (gw_session g)"
    "turn_of (rebuilt (gw_session g3) (gw_dir g3)) t = row_turn ty payload (rebuilt (gw_session g) (gw_dir g)) t"
    "node_of (sr_turn_stream_nodes (rebuilt (gw_session g3) (gw_dir g3))) t
       = row_node ty payload (rebuilt (gw_session g) (gw_dir g)) t"
proof -
  obtain e g2 where c: "create_event env rid sid (Some t) ty payload src g = (e, g2)"
    by (cases "create_event env rid sid (Some t) ty payload src g")
  then have c': "create_event env rid sid (Some t) ty payload src
      (g\<lparr>gw_session := gw_session g, gw_messages := gw_messages g\<rparr>) = (e, g2)" by simp
  have node: "node_ok (Suc m) (node_of (sr_turn_stream_nodes (gw_session g)) t)"
    using m node_ok_mono unfolding mirrored_split turns_mirrored_def by blast
  obtain g4 where g4: "append_then_publish env e g2 = (None, g4)" "mirrored sid (Suc m) Y g4"
    "sr_turns (gw_session g4) = sr_turns (gw_session g)"
    "sr_turn_stream_nodes (gw_session g4) = sr_turn_stream_nodes (gw_session g)"
    "turn_of (rebuilt (gw_session g4) (gw_dir g4)) t = row_turn ty payload (rebuilt (gw_session g) (gw_dir g)) t"
    "node_of (sr_turn_stream_nodes (rebuilt (gw_session g4) (gw_dir g4))) t
       = row_node ty payload (rebuilt (gw_session g) (gw_dir g)) t"
    by (rule turn_row_mirrored [OF m bound refl refl refl refl refl _ turn _ node here X c']) simp_all
  have "g3 = g4" using g3 c g4(1) by (simp add: create_and_publish_def publish_event_for_session_def)
  then show "mirrored sid (Suc m) Y g3" "sr_turns (gw_session g3) = sr_turns (gw_session g)"
    "sr_turn_stream_nodes (gw_session g3) = sr_turn_stream_nodes (gw_session g)"
    "turn_of (rebuilt (gw_session g3) (gw_dir g3)) t = row_turn ty payload (rebuilt (gw_session g) (gw_dir g)) t"
    "node_of (sr_turn_stream_nodes (rebuilt (gw_session g3) (gw_dir g3))) t
       = row_node ty payload (rebuilt (gw_session g) (gw_dir g)) t" using g4 by simp_all
qed

lemma create_publish_commute:
  "create_event env rid sid tid ty payload src (publish_event_for_session env e g)
     = (fst (create_event env rid sid tid ty payload src g),
        publish_event_for_session env e (snd (create_event env rid sid tid ty payload src g)))"
proof -
  define flt where "flt = (case gw_faults g of [] \<Rightarrow> NoFault | f # _ \<Rightarrow> f)"
  obtain res d where a: "append_record (ge_enc env) (ge_segment_max_bytes env) flt (record_of e) (gw_dir g) = (res, d)"
    by (cases "append_record (ge_enc env) (ge_segment_max_bytes env) flt (record_of e) (gw_dir g)")
  show ?thesis
    by (cases res; cases tid) (simp_all add: publish_event_for_session_def append_then_publish_def append_event_def create_event_def
      create_gateway_event_def on_session_def publish_event_def Let_def a flip: flt_def)
qed

text \<open>Compaction events leave the turn and the segments they are published under alone.\<close>

fun compaction_event :: "event \<Rightarrow> bool" where
  "compaction_event (ContextCompacted _ _ _ _) \<longleftrightarrow> True"
| "compaction_event _ \<longleftrightarrow> False"

definition opened :: "turn_status \<Rightarrow> turn_runtime" where
  "opened st = \<lparr>tr_status = st, tr_assistant_message = None, tr_error = None\<rparr>"

lemma row_unaffected:
  "row_turn ''context_compacted'' payload r t = turn_of r t"
  "bare_payload payload \<Longrightarrow> row_node ''context_compacted'' payload r t = node_of (sr_turn_stream_nodes r) t"
  "bare_payload payload \<Longrightarrow> row_node ''turn_started'' payload r t = node_of (sr_turn_stream_nodes r) t"
  using bare_fields(1,2) [of payload]
  by (auto simp: row_turn_def row_node_def apply_turn_runtime_event_def observe_node_def opens_response_def
      extends_response_def closes_segments_def observe_payload_ids_def Let_def)

definition compacting :: "string \<Rightarrow> nat \<Rightarrow> string \<Rightarrow> turn_runtime \<Rightarrow> turn_runtime \<Rightarrow> 'ag gateway \<Rightarrow> bool" where
  "compacting sid m t live row g \<longleftrightarrow>
     mirrored sid m {t} g \<and> map_of (sr_turns (gw_session g)) t = Some live
     \<and> node_of (sr_turn_stream_nodes (gw_session g)) t = node_default
     \<and> turn_of (rebuilt (gw_session g) (gw_dir g)) t = row
     \<and> node_of (sr_turn_stream_nodes (rebuilt (gw_session g) (gw_dir g))) t = node_default"

lemma compacting_event:
  assumes c: "compacting sid m t live row g" and bound: "m + 5 < 2 ^ 64" and ev: "compaction_event ev"
  shows "compacting sid (Suc m) t live row (publish_mapped env sid rid t ev g)"
proof -
  obtain k a b p where ev: "ev = ContextCompacted k a b p" using ev by (cases ev) auto
  obtain cm where cm: "map_core_event_payload_result (ge_ratio_json env) ev = Mapped cm" "cm_event_type cm = ''context_compacted''"
    by (simp add: ev map_core_event_payload_result_def or_else_def mapping_def)
  define g3 where "g3 = create_and_publish env rid sid (Some t) (cm_event_type cm) (cm_payload cm) (cm_stream_source cm) g"
  have m: "mirrored sid m {t} g" using c by (simp add: compacting_def)
  have "publish_mapped env sid rid t ev g = g3" by (simp add: publish_mapped_def map_core_event_payload_def cm g3_def)
  moreover note direct_event_mirrored [OF m bound _ _ _ g3_def, of "{t}"]
  ultimately show ?thesis
    using c mapped_bare [OF cm(1)] by (simp add: compacting_def cm(2) row_unaffected(1,2))
qed

lemma compacting_events:
  "compacting sid m t live row g \<Longrightarrow> m + length evs + 5 < 2 ^ 64 \<Longrightarrow> list_all compaction_event evs \<Longrightarrow>
   compacting sid (m + length evs) t live row (fold (publish_mapped env sid rid t) evs g)"
proof (induction evs arbitrary: m g)
  case (Cons ev evs)
  then have "compacting sid (Suc m) t live row (publish_mapped env sid rid t ev g)" by (intro compacting_event) simp_all
  then show ?case using Cons.IH [of "Suc m" "publish_mapped env sid rid t ev g"] Cons.prems by simp
qed simp

lemma mirrored_messages: "mirrored sid m X (g\<lparr>gw_messages := ms\<rparr>) = mirrored sid m X g"
  by (simp add: mirrored_def)

lemma handle_compact_mirrored:
  assumes m: "mirrored sid m {} g" and bound: "m + length evs + 8 < 2 ^ 64" and evs: "list_all compaction_event evs"
    and fresh: "map_of (sr_turns (gw_session g)) t = None"
  shows "mirrored sid (m + length evs + 3) {} (handle_compact_action env sid rid t evs g)"
proof -
  let ?done = "\<lparr>tr_status = TCompleted, tr_assistant_message = Some ''context compacted'', tr_error = None\<rparr>"
  define content where "content = json_obj [(''content'', JString ''context compacted''), (''stream_source'', JString ''synthetic'')]"
  have tm: "turns_mirrored m {} (gw_session g) (rebuilt (gw_session g) (gw_dir g))" using m by (simp add: mirrored_split)
  have none: "map_of (sr_turn_stream_nodes (gw_session g)) t = None"
    using fresh tm by (auto simp: turns_mirrored_def)
  have r0: "turn_of (rebuilt (gw_session g) (gw_dir g)) t = turn_queued"
      "node_of (sr_turn_stream_nodes (rebuilt (gw_session g) (gw_dir g))) t = node_default"
    using fresh none turns_mirroredD(1) [OF tm, of t, symmetric] turns_mirroredD(2) [OF tm, of t, symmetric]
    by (simp_all add: turn_of_def) (simp add: node_of_def)
  have bare: "bare_payload (json_obj [])" by (simp add: bare_payload_def)
  define g1 where "g1 = on_session (set_turn t ?done) g"
  have lm: "log_mirrored sid m g1"
    using m by (simp add: mirrored_split log_mirrored_def g1_def on_session_def set_turn_def rebuilt_def same_numbering_def Let_def)
  have m1: "mirrored sid m {t} g1"
    using tm lm by (auto simp: mirrored_split turns_mirrored_def g1_def on_session_def set_turn_def rebuilt_def update_conv')
  have g1: "map_of (sr_turns (gw_session g1)) t = Some ?done" "sr_turn_stream_nodes (gw_session g1) = sr_turn_stream_nodes (gw_session g)"
      "rebuilt (gw_session g1) (gw_dir g1) = rebuilt (gw_session g) (gw_dir g)"
    by (simp_all add: g1_def on_session_def set_turn_def rebuilt_def update_conv')
  define g2 where "g2 = create_and_publish env rid sid (Some t) ''turn_started'' (json_obj []) None g1"
  have "compacting sid (Suc m) t ?done (opened TRunning) g2"
    using direct_event_mirrored [OF m1 _ _ _ _ g2_def, of "{t}"] bound g1 r0 none
    by (simp add: compacting_def row_unaffected(3) [OF bare] node_of_def)
      (simp add: row_turn_def apply_turn_runtime_event_def r0 opened_def turn_queued_def)
  then have "compacting sid (Suc m + length evs) t ?done (opened TRunning) (fold (publish_mapped env sid rid t) evs g2)"
    using bound evs by (intro compacting_events) simp_all
  moreover define g3 where "g3 = fold (publish_mapped env sid rid t) evs g2"
  ultimately have c3: "compacting sid (Suc m + length evs) t ?done (opened TRunning) g3" by simp
  define g4 where "g4 = create_and_publish env rid sid (Some t) ''response_completed'' content (Some ''synthetic'') g3"
  have m3: "mirrored sid (Suc m + length evs) {t} g3" and b3: "Suc m + length evs + 5 < 2 ^ 64"
    using c3 bound by (simp_all add: compacting_def)
  note d4 = direct_event_mirrored [OF m3 b3 _ _ _ g4_def, of "{t}"]
  have t3: "map_of (sr_turns (gw_session g3)) t \<noteq> None" using c3 by (simp add: compacting_def)
  have r4: "turn_of (rebuilt (gw_session g4) (gw_dir g4)) t = ?done"
    using d4(4) [OF t3] c3
    by (simp add: compacting_def row_turn_def apply_turn_runtime_event_def opened_def content_def str_field_def as_str_def)
  define g5 where "g5 = create_and_publish env rid sid (Some t) ''turn_completed'' (json_obj []) None g4"
  have m4: "mirrored sid (Suc (Suc m + length evs)) {t} g4" by (rule d4(1) [OF t3]) simp_all
  have b4: "Suc (Suc m + length evs) + 5 < 2 ^ 64" using bound by simp
  have t4: "map_of (sr_turns (gw_session g4)) t = Some ?done" "node_of (sr_turn_stream_nodes (gw_session g4)) t = node_default"
    using d4(2,3) [OF t3] c3 by (simp_all add: compacting_def)
  have here: "t \<in> {} \<or> map_of (sr_turns (gw_session g4)) t
        = Some (row_turn ''turn_completed'' (json_obj []) (rebuilt (gw_session g4) (gw_dir g4)) t)
      \<and> node_of (sr_turn_stream_nodes (gw_session g4)) t
        = row_node ''turn_completed'' (json_obj []) (rebuilt (gw_session g4) (gw_dir g4)) t"
    by (simp add: t4 row_turn_def row_node_def r4 apply_turn_runtime_event_def)
  have "mirrored sid (Suc (Suc (Suc m + length evs))) {} g5"
    by (rule direct_event_mirrored(1) [OF m4 b4 _ here _ g5_def]) (simp_all add: t4)
  moreover have "handle_compact_action env sid rid t evs g
      = g5\<lparr>gw_messages := gw_messages g5 @ [(Some t, ''assistant'', ''context compacted'')]\<rparr>"
    by (simp add: handle_compact_action_def Let_def case_prod_beta g5_def create_and_publish_def g4_def
        create_publish_commute content_def g3_def g2_def g1_def)
  ultimately show ?thesis by (simp only: mirrored_messages) (simp add: eval_nat_numeral)
qed

lemma interrupt_mirrored:
  assumes m: "mirrored sid m {} g" and bound: "m + 5 < 2 ^ 64"
    and live: "\<And>t. public = Some t \<Longrightarrow> \<exists>x. map_of (sr_turns (gw_session g)) t = Some x \<and> (tr_status x = TQueued \<or> tr_status x = TRunning)"
  shows "mirrored sid (Suc m) {} (interrupt_turn env sid rid public g)"
proof (cases public)
  case None
  then show ?thesis
    using user_message_mirrored [OF m bound, of env rid "''turn_interrupted''" "json_obj [(''reason'', JString ''user_abort'')]"
        "Some ''synthetic''" "gw_messages g"]
    by (simp add: interrupt_turn_def Let_def)
next
  case (Some t)
  let ?d = "json_obj [(''reason'', JString ''user_abort'')]" and ?ty = "''turn_interrupted''"
  obtain x where x: "map_of (sr_turns (gw_session g)) t = Some x" "tr_status x = TQueued \<or> tr_status x = TRunning"
    using live [OF Some] by blast
  let ?x = "x\<lparr>tr_status := TFailed, tr_error := Some \<lparr>te_code = ''TURN_ABORTED'', te_message = ''turn aborted by user'',
      te_retryable = False, te_details = ?d\<rparr>\<rparr>"
  let ?r = "rebuilt (gw_session g) (gw_dir g)"
  define s1 where "s1 = set_turn t ?x (gw_session g)"
  have tm: "turns_mirrored m {} (gw_session g) ?r" using m by (simp add: mirrored_split)
  have bare: "bare_payload ?d" by (simp add: bare_payload_def response_key_def reasoning_key_def)
  obtain e g2 where c: "create_event env rid sid (Some t) ?ty ?d (Some ''synthetic'')
      (g\<lparr>gw_session := s1, gw_messages := gw_messages g\<rparr>) = (e, g2)"
    by (cases "create_event env rid sid (Some t) ?ty ?d (Some ''synthetic'') (g\<lparr>gw_session := s1, gw_messages := gw_messages g\<rparr>)")
  have turns: "map_of (sr_turns s1) = (map_of (sr_turns (gw_session g)))(t \<mapsto> ?x)"
    by (simp add: s1_def set_turn_def update_conv')
  have "turn_of ?r t = x" using x tm by (simp add: turns_mirrored_def turn_of_def)
  then have row: "row_turn ?ty ?d ?r t = ?x" by (simp add: row_turn_def apply_turn_runtime_event_def)
  have "row_node ?ty ?d ?r t = node_of (sr_turn_stream_nodes ?r) t"
    using bare_fields(1,2) [OF bare]
    by (simp add: row_node_def observe_node_def opens_response_def extends_response_def closes_segments_def
        observe_payload_ids_def Let_def)
  then have node: "node_of (sr_turn_stream_nodes s1) t = row_node ?ty ?d ?r t"
    using tm by (simp add: s1_def set_turn_def turns_mirrored_def)
  have ok: "node_ok (Suc m) (node_of (sr_turn_stream_nodes s1) t)"
    using node_ok_mono [OF turns_mirroredD(3) [OF tm, of t]] by (simp add: s1_def set_turn_def)
  have here: "t \<in> {} \<or> map_of (sr_turns s1) t = Some (row_turn ?ty ?d ?r t)
      \<and> node_of (sr_turn_stream_nodes s1) t = row_node ?ty ?d ?r t"
    using node by (simp add: turns row)
  have s1: "sr_event_log s1 = sr_event_log (gw_session g)" "sr_next_event_seq s1 = sr_next_event_seq (gw_session g)"
      "sr_turn_event_seq s1 = sr_turn_event_seq (gw_session g)" "sr_agent s1 = sr_agent (gw_session g)"
      "sr_replay_capacity s1 = sr_replay_capacity (gw_session g)"
      "\<forall>u. u \<noteq> t \<longrightarrow> map_of (sr_turns s1) u = map_of (sr_turns (gw_session g)) u" "map_of (sr_turns s1) t \<noteq> None"
      "\<forall>u. u \<noteq> t \<longrightarrow> map_of (sr_turn_stream_nodes s1) u = map_of (sr_turn_stream_nodes (gw_session g)) u"
    unfolding turns by (simp_all add: s1_def set_turn_def)
  obtain g3 where g3: "append_then_publish env e g2 = (None, g3)" "mirrored sid (Suc m) {} g3"
    by (rule turn_row_mirrored [OF m bound s1 ok here _ c]) simp_all
  have "interrupt_turn env sid rid public g = g3"
    using Some x c g3(1)
    by (auto simp: interrupt_turn_def Let_def create_and_publish_def publish_event_for_session_def on_session_def s1_def)
  then show ?thesis using g3(2) by simp
qed

section \<open>A restart loses nothing\<close>

text \<open>What happens to a session while its gateway runs: events of the agent, messages and compactions of the user,
  and turns aborted while they are queued or running.\<close>

datatype gateway_op = AgentEvent string event | UserMessage string string | Compaction string string "event list" | Interruption string "string option"

fun gateway_step :: "gateway_env \<Rightarrow> string \<Rightarrow> gateway_op \<Rightarrow> 'ag gateway \<Rightarrow> 'ag gateway" where
  "gateway_step env sid (AgentEvent rid ev) g = snd (map_core_event env sid rid ev g)"
| "gateway_step env sid (UserMessage rid input) g =
     create_and_publish env rid sid None ''user_message'' (json_obj [(''content'', JString input)]) (Some ''synthetic'')
       (g\<lparr>gw_messages := gw_messages g @ [(None, ''user'', input)]\<rparr>)"
| "gateway_step env sid (Compaction rid t evs) g = handle_compact_action env sid rid t evs g"
| "gateway_step env sid (Interruption rid public) g = interrupt_turn env sid rid public g"

fun gateway_step_ok :: "gateway_op \<Rightarrow> 'ag gateway \<Rightarrow> bool" where
  "gateway_step_ok (AgentEvent _ _) g \<longleftrightarrow> True"
| "gateway_step_ok (UserMessage _ _) g \<longleftrightarrow> True"
| "gateway_step_ok (Compaction _ t evs) g \<longleftrightarrow> list_all compaction_event evs \<and> map_of (sr_turns (gw_session g)) t = None"
| "gateway_step_ok (Interruption _ public) g \<longleftrightarrow>
     (case public of
        None \<Rightarrow> True
      | Some t \<Rightarrow> (case map_of (sr_turns (gw_session g)) t of
            None \<Rightarrow> False | Some x \<Rightarrow> tr_status x = TQueued \<or> tr_status x = TRunning))"

fun gateway_run :: "gateway_env \<Rightarrow> string \<Rightarrow> gateway_op list \<Rightarrow> 'ag gateway \<Rightarrow> 'ag gateway" where
  "gateway_run env sid [] g = g"
| "gateway_run env sid (x # xs) g = gateway_run env sid xs (gateway_step env sid x g)"

fun gateway_run_ok :: "gateway_env \<Rightarrow> string \<Rightarrow> gateway_op list \<Rightarrow> 'ag gateway \<Rightarrow> bool" where
  "gateway_run_ok env sid [] g \<longleftrightarrow> True"
| "gateway_run_ok env sid (x # xs) g \<longleftrightarrow> gateway_step_ok x g \<and> gateway_run_ok env sid xs (gateway_step env sid x g)"

fun events_of :: "gateway_op \<Rightarrow> nat" where
  "events_of (AgentEvent _ ev) = (if internal_event ev then 0 else 1)"
| "events_of (UserMessage _ _) = 1"
| "events_of (Compaction _ _ evs) = length evs + 3"
| "events_of (Interruption _ _) = 1"

lemma step_mirrored:
  assumes m: "mirrored sid m {} g" and ok: "gateway_step_ok x g" and bound: "m + events_of x + 5 < 2 ^ 64"
  shows "mirrored sid (m + events_of x) {} (gateway_step env sid x g)"
proof (cases x)
  case (AgentEvent rid ev)
  obtain p g' where run: "map_core_event env sid rid ev g = (p, g')" by (cases "map_core_event env sid rid ev g")
  have "m + 5 < 2 ^ 64" using bound by simp
  then show ?thesis using map_core_event_mirrored [OF m _ run] AgentEvent run by (cases "internal_event ev") simp_all
next
  case (UserMessage rid input)
  then show ?thesis using user_message_mirrored [OF m] bound by simp
next
  case (Compaction rid t evs)
  then show ?thesis using handle_compact_mirrored [OF m, of evs t env rid] ok bound by (simp add: algebra_simps)
next
  case (Interruption rid public)
  have "\<exists>x. map_of (sr_turns (gw_session g)) t = Some x \<and> (tr_status x = TQueued \<or> tr_status x = TRunning)"
    if "public = Some t" for t using that ok Interruption by (auto split: option.splits)
  then show ?thesis using interrupt_mirrored [OF m, of public env rid] bound Interruption by simp
qed

lemma run_mirrored:
  "mirrored sid m {} g \<Longrightarrow> gateway_run_ok env sid xs g \<Longrightarrow> m + sum_list (map events_of xs) + 5 < 2 ^ 64 \<Longrightarrow>
   mirrored sid (m + sum_list (map events_of xs)) {} (gateway_run env sid xs g)"
proof (induction xs arbitrary: m g)
  case (Cons x xs)
  have "mirrored sid (m + events_of x) {} (gateway_step env sid x g)"
    using Cons.prems by (intro step_mirrored) simp_all
  then show ?case using Cons.IH [of "m + events_of x"] Cons.prems by (simp add: add.assoc)
qed simp

lemma recover_rows_frame:
  "sr_turns (fold recover_row rows (s\<lparr>sr_active_provider_id := p, sr_next_event_seq := q\<rparr>))
     = sr_turns (fold recover_row rows s)
   \<and> sr_turn_stream_nodes (fold recover_row rows (s\<lparr>sr_active_provider_id := p, sr_next_event_seq := q\<rparr>))
     = sr_turn_stream_nodes (fold recover_row rows s)
   \<and> sr_event_log (fold recover_row rows (s\<lparr>sr_active_provider_id := p, sr_next_event_seq := q\<rparr>))
     = sr_event_log (fold recover_row rows s)
   \<and> sr_turn_event_seq (fold recover_row rows (s\<lparr>sr_active_provider_id := p, sr_next_event_seq := q\<rparr>))
     = sr_turn_event_seq (fold recover_row rows s)
   \<and> sr_next_event_seq (fold recover_row rows (s\<lparr>sr_active_provider_id := p, sr_next_event_seq := q\<rparr>)) = q"
proof (induction rows arbitrary: s)
  case (Cons r rows)
  have "recover_row r (s\<lparr>sr_active_provider_id := p, sr_next_event_seq := q\<rparr>)
      = (recover_row r s)\<lparr>sr_active_provider_id := p, sr_next_event_seq := q\<rparr>"
    by (cases "ts_turn_id r")
      (simp_all add: recover_row_def observe_stream_node_ids_def set_turn_def turn_of_def Let_def)
  then show ?case using Cons.IH by simp
qed simp

definition sample_gateway_env :: gateway_env where
  "sample_gateway_env =
     \<lparr>ge_enc = (\<lambda>_. 10), ge_segment_max_bytes = 25, ge_now = ''t'', ge_ratio_json = (\<lambda>_. JNull), ge_error_text = (\<lambda>_. ''e'')\<rparr>"

definition sample_gateway_ops :: "gateway_op list" where
  "sample_gateway_ops =
     [AgentEvent ''q'' (TurnStarted 1), AgentEvent ''q'' (AssistantMessage 1 ''old''),
      AgentEvent ''q'' (ResponseCompleted 1 ''ok'' ModelLive)]"

text \<open>C23: (Recovery) A session whose appends succeed is found by a restarted gateway as it was left, however agent
  events, user messages, compactions under turn ids not in use and interruptions of live turns follow each other in
  it: the session built from its transcript has the same turns with the same status, message and error, hands out
  the same next event number and the same number within each turn, is in the same response and reasoning segments,
  and replays the same events from any point. Not among these operations are clearing, which keeps the transcript
  of what it forgets, and the interruption of a turn that is completed, which a restart reads as a failure.\<close>

theorem restart_restores_session:
  assumes ok: "gateway_run_ok env sid ops (fresh_gateway agent capacity)"
    and bound: "sum_list (map events_of ops) + 5 < 2 ^ 64" and some: "sum_list (map events_of ops) > 0"
  defines "g \<equiv> gateway_run env sid ops (fresh_gateway agent capacity)"
  defines "s \<equiv> gw_session g"
  assumes config: "sr_agent s = agent'" "sr_replay_capacity s = capacity'"
  shows "\<exists>r. build_session_runtime agent' capacity' provider (gw_dir g) = Inr r
    \<and> map_of (sr_turns r) = map_of (sr_turns s) \<and> sr_next_event_seq r = sr_next_event_seq s
    \<and> map_of (sr_turn_event_seq r) = map_of (sr_turn_event_seq s)
    \<and> (\<forall>t. node_of (sr_turn_stream_nodes r) t = node_of (sr_turn_stream_nodes s) t)
    \<and> replay_from k r = replay_from k s"
proof -
  obtain n where n: "sum_list (map events_of ops) = n" by blast
  have "mirrored sid (0 + sum_list (map events_of ops)) {} g"
    using run_mirrored [OF mirrored_fresh ok] bound by (simp add: g_def)
  then have lm: "log_mirrored sid n g" and tm: "turns_mirrored n {} s (rebuilt s (gw_dir g))"
    by (simp_all add: mirrored_split s_def n)
  note bound = bound [unfolded n] and some = some [unfolded n]
  let ?d = "gw_dir g"
  have d: "log_ok sid n ?d" "length (disk_records ?d) = n" "sd_manifest ?d \<noteq> None"
      "sr_next_event_seq s = Suc n" "same_numbering s (rebuilt s ?d)" "sr_event_log s = sr_event_log (rebuilt s ?d)"
    using lm some by (simp_all add: log_mirrored_def s_def Let_def)
  have replayed: "replay None ?d = Inr (disk_records ?d)"
    and seqs: "map ts_event_seq (disk_records ?d) = [1..<Suc n]"
    using replay_log [OF d(1) _ d(3)] bound d(2) by simp_all
  have ne: "disk_records ?d \<noteq> []" using d(2) some by auto
  have "ts_event_seq (last (disk_records ?d)) = last [1..<Suc n]" using ne seqs by (metis last_map)
  then have last: "saturating_succ (ts_event_seq (last (disk_records ?d))) = Suc n"
    using some bound by (simp add: saturating_succ_def)
  define r where "r = fold recover_row (disk_records ?d)
      ((session_runtime_new agent' capacity')\<lparr>sr_active_provider_id := provider, sr_next_event_seq := Suc n\<rparr>)"
  have build: "build_session_runtime agent' capacity' provider ?d = Inr r"
    using replayed ne last by (simp add: build_session_runtime_def r_def Let_def)
  note f = recover_rows_frame [where rows = "disk_records ?d" and s = "session_runtime_new agent' capacity'"
      and q = "Suc n" and p = provider, folded r_def]
  have base: "fold recover_row (disk_records ?d) (session_runtime_new agent' capacity') = rebuilt s ?d"
    using config by (simp add: rebuilt_def)
  have "map_of (sr_turns r) = map_of (sr_turns s)"
    using f turns_mirroredD(1) [OF tm] by (intro ext) (simp add: base)
  moreover have "map_of (sr_turn_event_seq r) = map_of (sr_turn_event_seq s)"
    using f d(5) by (simp add: base same_numbering_def)
  moreover have "node_of (sr_turn_stream_nodes r) t = node_of (sr_turn_stream_nodes s) t" for t
    using f turns_mirroredD(2) [OF tm] by (simp add: base)
  moreover have "replay_from k r = replay_from k s" using f d(6) by (simp add: base replay_from_def)
  moreover have "sr_next_event_seq r = sr_next_event_seq s" using f d(4) by simp
  ultimately show ?thesis using build by blast
qed

theorem restart_restores_session_witness:
  "\<exists>r. build_session_runtime () 4 None (gw_dir (gateway_run sample_gateway_env ''s'' sample_gateway_ops (fresh_gateway () 4))) = Inr r
     \<and> map_of (sr_turns r) ''turn_1'' = Some \<lparr>tr_status = TCompleted, tr_assistant_message = Some ''ok'', tr_error = None\<rparr>"
proof -
  let ?s = "gw_session (gateway_run sample_gateway_env ''s'' sample_gateway_ops (fresh_gateway () 4))"
  have "gateway_run_ok sample_gateway_env ''s'' sample_gateway_ops (fresh_gateway () 4)"
    by (simp add: sample_gateway_ops_def)
  moreover have "sum_list (map events_of sample_gateway_ops) = 2" by (simp add: sample_gateway_ops_def)
  moreover have run: "sr_replay_capacity ?s = 4 \<and> map_of (sr_turns ?s) ''turn_1''
      = Some \<lparr>tr_status = TCompleted, tr_assistant_message = Some ''ok'', tr_error = None\<rparr>" by code_simp
  ultimately obtain r where r: "build_session_runtime () 4 None
      (gw_dir (gateway_run sample_gateway_env ''s'' sample_gateway_ops (fresh_gateway () 4))) = Inr r"
      "map_of (sr_turns r) = map_of (sr_turns ?s)"
    using restart_restores_session [of sample_gateway_env "''s''" sample_gateway_ops "()" 4 "()" 4 None None] by auto
  then show ?thesis using run by auto
qed

section \<open>What goes wrong when the store or the disk fails\<close>

lemma append_before_record: "\<exists>err. fst (append_record enc mb BeforeRecord r d) = Inl err"
proof -
  have "\<exists>err. fst (write_record enc mb BeforeRecord r m d) = Inl err" for m d
    by (auto simp: write_record_def Let_def split: sum.splits prod.splits)
  then show ?thesis
    by (auto simp: append_record_def Let_def split: sum.splits prod.splits)
qed

text \<open>Publishing adds at most the event itself, under the number of the transcript.\<close>

lemma append_then_publish_sent:
  assumes "append_then_publish env e g = (failed, g')"
  shows "sr_turns (gw_session g') = sr_turns (gw_session g)" "gw_faults g' = tl (gw_faults g)"
    "sr_sent (gw_session g') = sr_sent (gw_session g)
     \<or> (\<exists>q sid. sr_sent (gw_session g') = sr_sent (gw_session g) @ [e\<lparr>se_event_seq := q, se_session_id := sid\<rparr>])"
proof -
  have "\<exists>q sid. envelope_of r' = e\<lparr>se_event_seq := q, se_session_id := sid\<rparr>"
    if "append_record (ge_enc env) (ge_segment_max_bytes env) flt (record_of e) (gw_dir g) = (Inr r', d)" for flt r' d
  proof -
    have "\<exists>q sid. r' = (record_of e)\<lparr>ts_schema_version := TRANSCRIPT_SCHEMA_VERSION, ts_event_seq := q, ts_session_id := sid\<rparr>"
      using that
      by (auto simp: append_record_def write_record_def Let_def split: sum.splits prod.splits fault.splits)
    then obtain q sid where "r' = (record_of e)\<lparr>ts_schema_version := TRANSCRIPT_SCHEMA_VERSION, ts_event_seq := q,
        ts_session_id := sid\<rparr>" by blast
    then have "envelope_of r' = e\<lparr>se_event_seq := q, se_session_id := sid\<rparr>"
      by (cases e) (simp add: envelope_of_def record_of_def)
    then show ?thesis by blast
  qed
  note envelope = this
  define flt where "flt = (case gw_faults g of [] \<Rightarrow> NoFault | f # _ \<Rightarrow> f)"
  obtain res d where res: "append_record (ge_enc env) (ge_segment_max_bytes env) flt (record_of e) (gw_dir g) = (res, d)"
    by (cases "append_record (ge_enc env) (ge_segment_max_bytes env) flt (record_of e) (gw_dir g)")
  have "sr_turns (gw_session g') = sr_turns (gw_session g) \<and> gw_faults g' = tl (gw_faults g)
    \<and> (sr_sent (gw_session g') = sr_sent (gw_session g)
     \<or> (\<exists>q sid. sr_sent (gw_session g') = sr_sent (gw_session g) @ [e\<lparr>se_event_seq := q, se_session_id := sid\<rparr>]))"
  proof (cases res)
    case (Inl x)
    then have "g' = g\<lparr>gw_dir := d, gw_faults := tl (gw_faults g)\<rparr>"
      using assms res by (simp add: append_then_publish_def append_event_def Let_def flip: flt_def)
    then show ?thesis by simp
  next
    case (Inr r')
    then have "g' = on_session (publish_event (envelope_of r')) (g\<lparr>gw_dir := d, gw_faults := tl (gw_faults g)\<rparr>)"
      using assms res by (simp add: append_then_publish_def append_event_def Let_def flip: flt_def)
    moreover obtain q sid where "envelope_of r' = e\<lparr>se_event_seq := q, se_session_id := sid\<rparr>"
      using envelope [of flt r' d] res Inr by blast
    ultimately show ?thesis by (auto simp: on_session_def publish_event_def)
  qed
  then show "sr_turns (gw_session g') = sr_turns (gw_session g)" "gw_faults g' = tl (gw_faults g)"
    "sr_sent (gw_session g') = sr_sent (gw_session g)
     \<or> (\<exists>q sid. sr_sent (gw_session g') = sr_sent (gw_session g) @ [e\<lparr>se_event_seq := q, se_session_id := sid\<rparr>])"
    by blast+
qed



text \<open>A session whose store refuses one message never accepts a turn again: the submission has already marked a
  turn as being submitted when it returns the error of the store, so every later submission is answered with a
  conflict, although no turn runs.\<close>

theorem store_failure_locks_session:
  assumes idle: "sr_status (gw_session g) = Active" "\<not> sr_turn_submit_in_flight (gw_session g)" "\<not> sr_turn_task (gw_session g)"
      "filter (\<lambda>(_, t). tr_status t = TRunning) (sr_turns (gw_session g)) = []"
    and input: "trim message \<noteq> []" and run: "submit_turn env (Some reason) sid rid message g = (res, g')"
  shows "res = Inl (map_store_error reason) \<and>
    submit_turn env' store' sid rid' message' g'
      = (Inl (api_conflict ''another turn is still running'' (json_obj [(''session_id'', JString sid)])), g')"
  using assms by (auto simp: submit_turn_def on_session_def Let_def)

theorem store_failure_locks_session_witness:
  "let g' = snd (submit_turn sample_gateway_env (Some ''disk full'') ''s'' ''q'' ''hi'' (fresh_gateway () 4))
   in submit_turn sample_gateway_env None ''s'' ''q'' ''hi'' g'
     = (Inl (api_conflict ''another turn is still running'' (json_obj [(''session_id'', JString ''s'')])), g')"
proof -
  let ?g = "fresh_gateway () 4"
  obtain res g' where run: "submit_turn sample_gateway_env (Some ''disk full'') ''s'' ''q'' ''hi'' ?g = (res, g')"
    by (cases "submit_turn sample_gateway_env (Some ''disk full'') ''s'' ''q'' ''hi'' ?g")
  have idle: "sr_status (gw_session ?g) = Active" "\<not> sr_turn_submit_in_flight (gw_session ?g)" "\<not> sr_turn_task (gw_session ?g)"
      "filter (\<lambda>(_, t). tr_status t = TRunning) (sr_turns (gw_session ?g)) = []"
    by (simp_all add: fresh_gateway_def session_runtime_new_def)
  have "trim ''hi'' \<noteq> []" by code_simp
  from store_failure_locks_session [OF idle this run] run show ?thesis by simp
qed

end
