(* ===== verification/EventStream.thy ===== *)
theory EventStream
  imports Gateway
begin

text \<open>
  The server-sent event stream of a session, \<open>openjax-gateway/src/handlers/stream.rs\<close>: a client first gets what
  the transcript holds after the point it resumes from, then what the broadcast channel delivers; when it falls
  behind the channel, the stream reads what it missed from the transcript. The channel is a list of receipts.
\<close>

section \<open>The stream\<close>

text \<open>The query parameter wins over the header; a header that is not a number is ignored.\<close>

definition resolve_resume_seq :: "nat option \<Rightarrow> string option \<Rightarrow> nat option" where
  "resolve_resume_seq after last_event_id =
     (case after of Some k \<Rightarrow> Some k | None \<Rightarrow> Option.bind last_event_id parse_u64)"

definition should_emit_broadcast_event :: "nat \<Rightarrow> nat \<Rightarrow> bool" where
  "should_emit_broadcast_event last_sent q \<longleftrightarrow> q > last_sent"

text \<open>The environment of a stream: the replay limit and the text of a disk error.\<close>

definition replay_events_from_transcript ::
  "gateway_env \<Rightarrow> nat \<Rightarrow> session_dir \<Rightarrow> nat option \<Rightarrow> api_error + stream_event_envelope list" where
  "replay_events_from_transcript env limit d after =
     (case replay None d of
        Inl e \<Rightarrow> Inl (api_internal (ge_error_text env e))
      | Inr persisted \<Rightarrow>
          if persisted = [] then Inr []
          else
            (let max_seq = ts_event_seq (last persisted); min_allowed = max_seq - limit
             in if (case after of Some k \<Rightarrow> k < min_allowed | None \<Rightarrow> False)
                then Inl (api_invalid_argument ''replay point is outside retention window''
                       (json_obj [(''after_event_seq'', json_nat (the after)), (''min_allowed'', json_nat min_allowed)]))
                else
                  (let floor = (case after of Some k \<Rightarrow> k | None \<Rightarrow> min_allowed)
                   in Inr (map envelope_of (filter (\<lambda>r. ts_event_seq r > floor) persisted)))))"

text \<open>What the receiver reports: an event, that it lagged (with the transcript as it is then), or the end.\<close>

datatype receipt = Received stream_event_envelope | Lagged session_dir | ChannelClosed

definition recovery_error :: "gateway_env \<Rightarrow> string \<Rightarrow> string \<Rightarrow> nat \<Rightarrow> stream_event_envelope" where
  "recovery_error env request_id session_id last_sent =
     \<lparr>se_request_id = request_id, se_session_id = session_id, se_turn_id = None, se_event_seq = saturating_succ last_sent,
      se_turn_seq = 0, se_timestamp = ge_now env, se_event_type = ''response_error'', se_stream_source = ''replay'',
      se_payload = json_obj [(''code'', JString ''REPLAY_WINDOW_EXCEEDED''),
        (''message'', JString ''event replay window exceeded; reconnect required''), (''retryable'', JBool True)]\<rparr>"

fun send_missed :: "nat \<Rightarrow> stream_event_envelope list \<Rightarrow> stream_event_envelope list \<times> nat" where
  "send_missed last_sent [] = ([], last_sent)"
| "send_missed last_sent (e # es) =
     (if se_event_seq e \<le> last_sent then send_missed last_sent es
      else (let (out, n) = send_missed (se_event_seq e) es in (e # out, n)))"

fun sse_loop ::
  "gateway_env \<Rightarrow> nat \<Rightarrow> string \<Rightarrow> string \<Rightarrow> nat \<Rightarrow> receipt list \<Rightarrow> stream_event_envelope list" where
  "sse_loop env limit rid sid last_sent [] = []"
| "sse_loop env limit rid sid last_sent (Received e # rs) =
     (if should_emit_broadcast_event last_sent (se_event_seq e)
      then e # sse_loop env limit rid sid (se_event_seq e) rs else sse_loop env limit rid sid last_sent rs)"
| "sse_loop env limit rid sid last_sent (Lagged d # rs) =
     (case replay_events_from_transcript env limit d (Some last_sent) of
        Inl _ \<Rightarrow> [recovery_error env rid sid last_sent]
      | Inr missed \<Rightarrow>
          if missed = [] then [recovery_error env rid sid last_sent]
          else (let (out, n) = send_missed last_sent missed in out @ sse_loop env limit rid sid n rs))"
| "sse_loop env limit rid sid last_sent (ChannelClosed # rs) = []"

text \<open>\<open>d\<close> is the transcript when the request is answered; the receiver was subscribed before.\<close>

definition stream_events ::
  "gateway_env \<Rightarrow> nat \<Rightarrow> string \<Rightarrow> string \<Rightarrow> nat option \<Rightarrow> string option \<Rightarrow> session_dir \<Rightarrow> receipt list
     \<Rightarrow> api_error + stream_event_envelope list" where
  "stream_events env limit rid sid after last_event_id d rs =
     (case replay_events_from_transcript env limit d (resolve_resume_seq after last_event_id) of
        Inl e \<Rightarrow> Inl e
      | Inr replayed \<Rightarrow>
          Inr (replayed @ sse_loop env limit rid sid (if replayed = [] then 0 else se_event_seq (last replayed)) rs))"

definition list_session_timeline ::
  "gateway_env \<Rightarrow> nat option \<Rightarrow> session_dir \<Rightarrow> api_error + stream_event_envelope list" where
  "list_session_timeline env after d =
     map_sum (\<lambda>e. api_internal (ge_error_text env e)) (map envelope_of) (replay after d)"

section \<open>Gap-free delivery\<close>

text \<open>A log whose records are numbered from 1; a transcript holds a prefix of it.\<close>

definition log_numbered :: "transcript_record list \<Rightarrow> bool" where
  "log_numbered L \<longleftrightarrow> map ts_event_seq L = [1..<Suc (length L)]"

definition holds :: "session_dir \<Rightarrow> transcript_record list \<Rightarrow> nat \<Rightarrow> bool" where
  "holds d L n \<longleftrightarrow> n \<le> length L \<and> replay None d = Inr (take n L)"

text \<open>A channel that delivers the log from position \<open>p\<close> on: an event is published after it was appended, in order,
  and a lag skips events that are in the transcript.\<close>

inductive feed :: "transcript_record list \<Rightarrow> nat \<Rightarrow> receipt list \<Rightarrow> bool" for L where
  feed_done: "feed L p []"
| feed_event: "p < length L \<Longrightarrow> feed L (Suc p) rs \<Longrightarrow> feed L p (Received (envelope_of (L ! p)) # rs)"
| feed_lag: "holds d L n \<Longrightarrow> p < q \<Longrightarrow> q \<le> n \<Longrightarrow> feed L q rs \<Longrightarrow> feed L p (Lagged d # rs)"
| feed_close: "feed L p (ChannelClosed # rs)"

inductive_cases feed_eventE: "feed L p (Received e # rs)"
inductive_cases feed_lagE: "feed L p (Lagged d # rs)"

lemma log_numbered_nth: "log_numbered L \<Longrightarrow> p < length L \<Longrightarrow> ts_event_seq (L ! p) = Suc p"
proof -
  assume L: "log_numbered L" "p < length L"
  then have "map ts_event_seq L ! p = [1..<Suc (length L)] ! p" by (simp only: log_numbered_def)
  then show ?thesis using L(2) by (simp del: upt_Suc)
qed

lemma log_numbered_take: "log_numbered L \<Longrightarrow> log_numbered (take n L)"
  by (simp add: log_numbered_def take_map [symmetric] take_upt min_def del: upt_Suc)

lemma log_numbered_last: "log_numbered L \<Longrightarrow> L \<noteq> [] \<Longrightarrow> ts_event_seq (last L) = length L"
  using log_numbered_nth [of L "length L - 1"] by (simp add: last_conv_nth)

lemma envelope_seq [simp]: "se_event_seq (envelope_of r) = ts_event_seq r"
  by (simp add: envelope_of_def)

lemma replay_window:
  assumes "log_numbered L" "holds d L n"
  shows "replay_events_from_transcript env limit d (Some k) =
    (if n = 0 then Inr []
     else if k < n - limit
     then Inl (api_invalid_argument ''replay point is outside retention window''
            (json_obj [(''after_event_seq'', json_nat k), (''min_allowed'', json_nat (n - limit))]))
     else Inr (map envelope_of (drop k (take n L))))"
proof -
  let ?l = "take n L"
  have l: "log_numbered ?l" "length ?l = n" "replay None d = Inr ?l"
    using assms log_numbered_take by (simp_all add: holds_def)
  have "filter (\<lambda>r. ts_event_seq r > k) ?l = drop k ?l"
    using numbers_filter [of ts_event_seq ?l] l(1) by (simp add: log_numbered_def)
  moreover have "?l = [] \<longleftrightarrow> n = 0" using l(2) by (metis length_0_conv)
  moreover have "?l \<noteq> [] \<Longrightarrow> ts_event_seq (last ?l) = n" using log_numbered_last [OF l(1)] l(2) by simp
  ultimately show ?thesis using l(3) by (simp add: replay_events_from_transcript_def Let_def)
qed

lemma send_missed_log:
  "log_numbered L \<Longrightarrow> c \<le> n \<Longrightarrow> n \<le> length L \<Longrightarrow> send_missed c (map envelope_of (drop c (take n L)))
     = (map envelope_of (drop c (take n L)), n)"
proof (induction "n - c" arbitrary: c)
  case (Suc k)
  then have "drop c (take n L) = L ! c # drop (Suc c) (take n L)"
    by (subst Cons_nth_drop_Suc [symmetric]) simp_all
  moreover have "ts_event_seq (L ! c) = Suc c" using log_numbered_nth [of L c] Suc.prems Suc.hyps(2) by simp
  moreover have "send_missed (Suc c) (map envelope_of (drop (Suc c) (take n L)))
      = (map envelope_of (drop (Suc c) (take n L)), n)"
    using Suc.hyps(1) [of "Suc c"] Suc.hyps(2) Suc.prems by simp
  ultimately show ?case by simp
qed simp

text \<open>What a stream that has delivered \<open>c\<close> events of the log goes on to deliver.\<close>

definition delivers :: "gateway_env \<Rightarrow> string \<Rightarrow> string \<Rightarrow> transcript_record list \<Rightarrow> nat \<Rightarrow> stream_event_envelope list \<Rightarrow> bool" where
  "delivers env rid sid L c out \<longleftrightarrow>
     (\<exists>m. c \<le> m \<and> m \<le> length L
        \<and> (out = map envelope_of (drop c (take m L))
           \<or> out = map envelope_of (drop c (take m L)) @ [recovery_error env rid sid m]))"

lemma delivers_more:
  assumes "delivers env rid sid L c' out" "c \<le> c'" "c' \<le> length L"
  shows "delivers env rid sid L c (map envelope_of (drop c (take c' L)) @ out)"
proof -
  obtain m where m: "c' \<le> m" "m \<le> length L"
      "out = map envelope_of (drop c' (take m L)) \<or> out = map envelope_of (drop c' (take m L)) @ [recovery_error env rid sid m]"
    using assms(1) by (auto simp: delivers_def)
  have "drop c (take c' L) @ drop c' (take m L) = drop c (take m L)"
  proof -
    have "take m L = take c' L @ drop c' (take m L)"
      using m(1) append_take_drop_id [of c' "take m L"] by (simp add: min_def)
    then show ?thesis using assms(2,3) by (metis drop_append diff_is_0_eq' drop_0 length_take min.absorb2)
  qed
  then have "map envelope_of (drop c (take c' L)) @ map envelope_of (drop c' (take m L)) = map envelope_of (drop c (take m L))"
    by (metis map_append)
  then show ?thesis using m assms(2) unfolding delivers_def by (intro exI [of _ m]) auto
qed

lemma sse_delivers:
  assumes L: "log_numbered L"
  shows "feed L p rs \<Longrightarrow> p \<le> c \<Longrightarrow> c \<le> length L \<Longrightarrow> delivers env rid sid L c (sse_loop env limit rid sid c rs)"
proof (induction rs arbitrary: p c)
  case Nil
  then show ?case by (auto simp: delivers_def)
next
  case (Cons r rs)
  show ?case
  proof (cases r)
    case (Received e)
    have p: "p < length L" "e = envelope_of (L ! p)" "feed L (Suc p) rs"
      using Cons.prems(1) Received by (auto elim: feed_eventE)
    have seq: "se_event_seq e = Suc p" using log_numbered_nth [OF L p(1)] p(2) by simp
    show ?thesis
    proof (cases "p = c")
      case True
      have "delivers env rid sid L (Suc c) (sse_loop env limit rid sid (Suc c) rs)"
        using Cons.IH [OF p(3), of "Suc c"] p(1) True by simp
      moreover have "drop c (take (Suc c) L) = [L ! c]" using p(1) True by (simp add: take_Suc_conv_app_nth)
      ultimately show ?thesis
        using delivers_more [of env rid sid L "Suc c" _ c] p True seq Received by (simp add: should_emit_broadcast_event_def)
    next
      case False
      then have "Suc p \<le> c" using Cons.prems(2) by simp
      then show ?thesis using Cons.IH [OF p(3)] Cons.prems(3) seq Received by (simp add: should_emit_broadcast_event_def)
    qed
  next
    case (Lagged d)
    obtain n q where n: "holds d L n" "p < q" "q \<le> n" "feed L q rs"
      using Cons.prems(1) Lagged by (auto elim: feed_lagE)
    have stop: "delivers env rid sid L c [recovery_error env rid sid c]"
      using Cons.prems(3) by (auto simp: delivers_def)
    show ?thesis
    proof (cases "c < n \<and> n - limit \<le> c")
      case True
      then have cn: "c < n" "n \<le> length L" using n(1) by (simp_all add: holds_def)
      have missed: "replay_events_from_transcript env limit d (Some c) = Inr (map envelope_of (drop c (take n L)))"
        using replay_window [OF L n(1), of env limit c] True by auto
      moreover have "drop c (take n L) \<noteq> []" using cn by simp
      moreover have "delivers env rid sid L n (sse_loop env limit rid sid n rs)"
        using Cons.IH [OF n(4)] n(3) cn by simp
      ultimately show ?thesis
        using delivers_more [of env rid sid L n _ c] send_missed_log [OF L, of c n] cn Lagged by simp
    next
      case False
      then have "replay_events_from_transcript env limit d (Some c) = Inr []
          \<or> (\<exists>e. replay_events_from_transcript env limit d (Some c) = Inl e)"
        using replay_window [OF L n(1), of env limit c] by auto
      then show ?thesis using stop Lagged by auto
    qed
  next
    case ChannelClosed
    then show ?thesis using Cons.prems(3) by (auto simp: delivers_def)
  qed
qed

definition log_of_three :: "transcript_record list" where
  "log_of_three = map (\<lambda>q. numbered ''s'' q (sample_record ''e'')) [1, 2, 3]"

definition disk_of_three :: session_dir where
  "disk_of_three =
     \<lparr>sd_manifest = Some (manifest_new_empty ''s'' ''t''),
      sd_segments = [(FIRST_SEGMENT_FILE, \<lparr>sg_lines = map Line log_of_three, sg_writable = True\<rparr>)]\<rparr>"

text \<open>C24: (Ordering) A client that resumes a stream after event \<open>k\<close>, with at least one event to catch up on, receives
  the events \<open>k + 1\<close>, \<open>k + 2\<close>, ... of the session, each once and none left out, however the transcript it catches
  up from, the channel it was subscribed to before and the lags of the channel overlap; the only thing that can
  follow is one error event that asks it to reconnect.\<close>

theorem stream_without_gaps:
  assumes log: "log_numbered L" "holds d L n" "k < n" and channel: "feed L p rs" "p \<le> n"
    and run: "stream_events env limit rid sid (Some k) header d rs = Inr out"
  shows "\<exists>m. n \<le> m \<and> m \<le> length L
    \<and> (out = map envelope_of (drop k (take m L)) \<or> out = map envelope_of (drop k (take m L)) @ [recovery_error env rid sid m])"
proof -
  have n: "n \<le> length L" using log(2) by (simp add: holds_def)
  let ?r = "map envelope_of (drop k (take n L))"
  have ne: "?r \<noteq> []" using log(3) n by simp
  have resume: "resolve_resume_seq (Some k) header = Some k" by (simp add: resolve_resume_seq_def)
  have "replay_events_from_transcript env limit d (Some k) = Inr ?r"
    using run replay_window [OF log(1,2), of env limit k] log(3) resume by (auto simp: stream_events_def split: if_splits)
  moreover have "se_event_seq (last ?r) = n"
  proof -
    have "last ?r = envelope_of (last (drop k (take n L)))" using ne by (simp add: last_map)
    also have "last (drop k (take n L)) = L ! (n - 1)"
      using log(3) n by (simp add: last_conv_nth nth_append)
    finally show ?thesis using log_numbered_nth [OF log(1), of "n - 1"] log(3) n by simp
  qed
  ultimately have out: "out = ?r @ sse_loop env limit rid sid n rs"
    using run ne resume by (auto simp: stream_events_def)
  obtain m where m: "n \<le> m" "m \<le> length L" "sse_loop env limit rid sid n rs = map envelope_of (drop n (take m L))
      \<or> sse_loop env limit rid sid n rs = map envelope_of (drop n (take m L)) @ [recovery_error env rid sid m]"
    using sse_delivers [OF log(1) channel n, of env rid sid limit] by (auto simp: delivers_def)
  have "drop k (take n L) @ drop n (take m L) = drop k (take m L)"
  proof -
    have "take m L = take n L @ drop n (take m L)"
      using m(1) append_take_drop_id [of n "take m L"] by (simp add: min_def)
    then show ?thesis using log(3) n by (metis drop_append diff_is_0_eq' drop_0 length_take min.absorb2 less_imp_le)
  qed
  then have "?r @ map envelope_of (drop n (take m L)) = map envelope_of (drop k (take m L))" by (metis map_append)
  then show ?thesis using out m by (intro exI [of _ m]) auto
qed

theorem stream_without_gaps_witness:
  "map_sum ap_code (map se_event_seq)
     (stream_events sample_gateway_env 2 ''q'' ''s'' (Some 1) None disk_of_three [Received (envelope_of (log_of_three ! 2)), ChannelClosed])
   = Inr [2, 3]"
proof -
  let ?rs = "[Received (envelope_of (log_of_three ! 2)), ChannelClosed]"
  have len: "length log_of_three = 3" by (simp add: log_of_three_def)
  have L: "log_numbered log_of_three" by (simp add: log_numbered_def log_of_three_def numbered_def upt_rec)
  have "replay None disk_of_three = Inr log_of_three" by code_simp
  then have d: "holds disk_of_three log_of_three 3" by (simp add: holds_def len)
  have feed: "feed log_of_three 2 ?rs" by (rule feed_event) (simp_all add: len feed_close)
  have "replay_events_from_transcript sample_gateway_env 2 disk_of_three (Some 1) = Inr (map envelope_of (drop 1 (take 3 log_of_three)))"
    using replay_window [OF L d, of sample_gateway_env 2 1] by simp
  then obtain out where out: "stream_events sample_gateway_env 2 ''q'' ''s'' (Some 1) None disk_of_three ?rs = Inr out"
    by (simp add: stream_events_def resolve_resume_seq_def)
  obtain m where "3 \<le> m" "m \<le> length log_of_three" "out = map envelope_of (drop 1 (take m log_of_three))
      \<or> out = map envelope_of (drop 1 (take m log_of_three)) @ [recovery_error sample_gateway_env ''q'' ''s'' m]"
    using stream_without_gaps [OF L d _ feed _ out] by auto
  moreover have "map_sum ap_code (map se_event_seq) (stream_events sample_gateway_env 2 ''q'' ''s'' (Some 1) None disk_of_three ?rs) = Inr [2, 3]"
    by code_simp
  ultimately show ?thesis by simp
qed

text \<open>(Bug) A client that is up to date when it connects is remembered as having received nothing: when the channel lags
  before the first event, the transcript is read again from the start.\<close>

theorem lag_after_empty_resume_repeats:
  "map_sum ap_code (map se_event_seq)
     (stream_events sample_gateway_env 8 ''q'' ''s'' (Some 2) None
        (disk_of_three\<lparr>sd_segments := [(FIRST_SEGMENT_FILE, \<lparr>sg_lines = map Line (take 2 log_of_three), sg_writable = True\<rparr>)]\<rparr>)
        [Lagged disk_of_three, ChannelClosed])
   = Inr [1, 2, 3]"
  by code_simp

end
