(* ===== verification/SessionIndex.thy ===== *)
theory SessionIndex
  imports Prelude "HOL-Library.AList"
begin

text \<open>
  The session index of the gateway (\<open>openjax-gateway/src/transcript/session_index_store.rs\<close> and
  \<open>session_index_types.rs\<close>): the list of sessions kept in memory, sorted with the newest first, and
  its durable form, a snapshot file with a log of operations behind it, beside one directory with a
  metadata file per session. Every step on the file system can fail; the failures of an operation
  are an argument of it. The lemmas say what a restart finds on the disk that the operations left.

  Times are RFC 3339 texts: \<open>norm\<close> parses one and prints it in UTC with milliseconds
  (\<open>normalize_rfc3339_utc_millis\<close>, over the crate \<open>time\<close>), the current time is an argument.
\<close>

section \<open>Entries, log records and files\<close>

record index_entry =
  ie_session_id :: string
  ie_title :: "string option"
  ie_created_at :: string
  ie_updated_at :: string
  ie_last_event_seq :: nat
  ie_last_preview :: string

definition SESSION_INDEX_SCHEMA_VERSION :: nat where
  "SESSION_INDEX_SCHEMA_VERSION = 1"

datatype index_log_op = UpsertSession | DeleteSession

record index_log_record =
  il_op :: index_log_op
  il_session_id :: string
  il_ts :: string
  il_payload :: "index_entry option"

text \<open>What a log file holds: the JSON text of a record, a proper prefix of one (of so many bytes)
  left by a write that failed, and line ends.\<close>

datatype log_chunk = Rec index_log_record | Torn nat | Eol

type_synonym index_log = "log_chunk list"

datatype snapshot_file = Snapshot nat "index_entry list" | UnreadableSnapshot

record session_metadata =
  sm_schema_version :: nat
  sm_session_id :: string
  sm_title :: "string option"
  sm_created_at :: string
  sm_updated_at :: string
  sm_tags :: "string list"

datatype metadata_file = NoMetadata | Metadata session_metadata | UnreadableMetadata
datatype manifest_seq = NoManifestFile | ManifestSeq nat | UnreadableManifest

record meta_dir =
  md_metadata :: metadata_file
  md_manifest :: manifest_seq

text \<open>The directory \<open>sessions\<close>: the files of the index, the session directories by name, and
  the directories being prepared under \<open>.staging\<close>.\<close>

record index_disk =
  id_snapshot :: "snapshot_file option"
  id_log :: "index_log option"
  id_bak :: "index_log option"
  id_marker :: bool
  id_staging :: "(string \<times> meta_dir) list"
  id_dirs :: "(string \<times> meta_dir) list"

datatype index_health = Healthy | RepairRequired

record index_store =
  ix_entries :: "index_entry list"
  ix_health :: index_health
  ix_disk :: index_disk

datatype index_error =
    IndexRepairRequired | SessionMissing | BadTimestamp | AppendFailed | StagingFailed
  | PublishRolledBack | RemoveRolledBack | CompactFailed | MarkerFailed | LoadFailed

text \<open>\<open>map_session_index_error\<close>: does the text of the error name \<open>index_repair_required\<close>?\<close>

definition names_repair :: "index_error \<Rightarrow> bool" where
  "names_repair e = (e = IndexRepairRequired)"

section \<open>Failures of the file system\<close>

text \<open>A write of one log line: not opened, the JSON text cut, the line end missing, or everything
  written and the flush or the sync failed. An atomic write of a JSON file: nothing replaced, or the
  file replaced and the directory not synced.\<close>

datatype append_fault = AppendOk | AppendNotOpened | AppendTorn nat | AppendNoEol | AppendNotSynced
datatype write_fault = WriteOk | WriteFails | WriteNotSynced

record rotate_faults =
  rf_tmp :: bool
  rf_stale_bak :: bool
  rf_to_bak :: bool
  rf_publish :: bool
  rf_rollback :: bool
  rf_sync :: bool
  rf_cleanup :: bool
  rf_remove_live :: bool
  rf_restore :: bool
  rf_restore_sync :: bool

record compact_faults =
  kf_read :: bool
  kf_snapshot :: write_fault
  kf_rotate :: rotate_faults
  kf_marker :: write_fault

record update_faults =
  uf_append :: append_fault
  uf_metadata :: write_fault
  uf_marker :: write_fault
  uf_compact :: compact_faults

record create_faults =
  cf_unstage :: bool
  cf_mkdir :: bool
  cf_metadata :: write_fault
  cf_append :: append_fault
  cf_publish :: bool
  cf_compensation :: append_fault
  cf_marker :: write_fault
  cf_cleanup :: bool
  cf_compact :: compact_faults

text \<open>Removing a session directory fails before or after its metadata file is gone.\<close>

datatype remove_fault = RemoveOk | RemoveFails | RemovePartly

record delete_faults =
  df_append :: append_fault
  df_remove :: remove_fault
  df_compensation :: append_fault
  df_marker :: write_fault
  df_compact :: compact_faults

section \<open>The list in memory\<close>

text \<open>\<open>sort_entries_desc\<close>: by time, then by id, the greatest first; a stable sort.\<close>

definition sort_entry_key :: "index_entry \<Rightarrow> string list" where
  "sort_entry_key e = [ie_updated_at e, ie_session_id e]"

definition sort_entries_desc :: "index_entry list \<Rightarrow> index_entry list" where
  "sort_entries_desc es = rev (sort_key sort_entry_key (rev es))"

definition find_entry :: "string \<Rightarrow> index_store \<Rightarrow> index_entry option" where
  "find_entry sid st = find (\<lambda>e. ie_session_id e = sid) (ix_entries st)"

fun replace_first :: "('a \<Rightarrow> bool) \<Rightarrow> 'a \<Rightarrow> 'a list \<Rightarrow> 'a list" where
  "replace_first p y [] = [y]"
| "replace_first p y (x # xs) = (if p x then y # xs else x # replace_first p y xs)"

definition upsert_memory_entry :: "index_entry \<Rightarrow> index_store \<Rightarrow> index_store" where
  "upsert_memory_entry e st =
     st\<lparr>ix_entries :=
       sort_entries_desc (replace_first (\<lambda>x. ie_session_id x = ie_session_id e) e (ix_entries st))\<rparr>"

definition remove_memory_entry :: "string \<Rightarrow> index_store \<Rightarrow> index_store" where
  "remove_memory_entry sid st =
     st\<lparr>ix_entries := sort_entries_desc (filter (\<lambda>e. ie_session_id e \<noteq> sid) (ix_entries st))\<rparr>"

section \<open>The log\<close>

definition append_chunks :: "append_fault \<Rightarrow> index_log_record \<Rightarrow> log_chunk list" where
  "append_chunks f r = (case f of
     AppendOk \<Rightarrow> [Rec r, Eol]
   | AppendNotOpened \<Rightarrow> []
   | AppendTorn n \<Rightarrow> if n = 0 then [] else [Torn n]
   | AppendNoEol \<Rightarrow> [Rec r]
   | AppendNotSynced \<Rightarrow> [Rec r, Eol])"

definition append_log_record_to_path :: "append_fault \<Rightarrow> index_log_record \<Rightarrow> index_disk \<Rightarrow> bool \<times> index_disk" where
  "append_log_record_to_path f r d =
     (f = AppendOk,
      if f = AppendNotOpened then d
      else d\<lparr>id_log := Some ((case id_log d of None \<Rightarrow> [] | Some l \<Rightarrow> l) @ append_chunks f r)\<rparr>)"

definition on_disk :: "(index_disk \<Rightarrow> index_disk) \<Rightarrow> index_store \<Rightarrow> index_store" where
  "on_disk f st = st\<lparr>ix_disk := f (ix_disk st)\<rparr>"

definition append_log_record :: "append_fault \<Rightarrow> index_log_record \<Rightarrow> index_store \<Rightarrow> bool \<times> index_store" where
  "append_log_record f r st =
     (let (ok, d) = append_log_record_to_path f r (ix_disk st) in (ok, st\<lparr>ix_disk := d\<rparr>))"

fun log_lines_from :: "log_chunk list \<Rightarrow> index_log \<Rightarrow> log_chunk list list" where
  "log_lines_from acc [] = (if acc = [] then [] else [acc])"
| "log_lines_from acc (c # cs) =
     (if c = Eol then acc # log_lines_from [] cs else log_lines_from (acc @ [c]) cs)"

definition log_lines :: "index_log \<Rightarrow> log_chunk list list" where
  "log_lines l = log_lines_from [] l"

definition count_log_lines :: "index_log \<Rightarrow> nat" where
  "count_log_lines l = length (filter (\<lambda>x. x \<noteq> []) (log_lines l))"

text \<open>The bytes of a log, over the length \<open>rlen\<close> of a record's JSON text.\<close>

fun chunk_bytes :: "(index_log_record \<Rightarrow> nat) \<Rightarrow> log_chunk \<Rightarrow> nat" where
  "chunk_bytes rlen (Rec r) = rlen r"
| "chunk_bytes rlen (Torn n) = n"
| "chunk_bytes rlen Eol = 1"

definition log_bytes :: "(index_log_record \<Rightarrow> nat) \<Rightarrow> index_log \<Rightarrow> nat" where
  "log_bytes rlen l = sum_list (map (chunk_bytes rlen) l)"

section \<open>Repair mark and metadata files\<close>

definition mark_repair_required :: "write_fault \<Rightarrow> index_store \<Rightarrow> bool \<times> index_store" where
  "mark_repair_required f st =
     (f = WriteOk,
      st\<lparr>ix_health := RepairRequired,
         ix_disk := (ix_disk st)\<lparr>id_marker := id_marker (ix_disk st) \<or> f \<noteq> WriteFails\<rparr>\<rparr>)"

text \<open>Marking and then failing with the error that names the repair.\<close>

definition fail_for_repair :: "write_fault \<Rightarrow> index_store \<Rightarrow> index_store \<times> (index_error + 'a)" where
  "fail_for_repair f st =
     (let (ok, st) = mark_repair_required f st
      in (st, Inl (if ok then IndexRepairRequired else MarkerFailed)))"

definition metadata_of_entry :: "index_entry \<Rightarrow> session_metadata" where
  "metadata_of_entry e =
     \<lparr>sm_schema_version = SESSION_INDEX_SCHEMA_VERSION, sm_session_id = ie_session_id e,
      sm_title = ie_title e, sm_created_at = ie_created_at e, sm_updated_at = ie_updated_at e,
      sm_tags = []\<rparr>"

definition write_session_metadata ::
    "write_fault \<Rightarrow> string \<Rightarrow> (session_metadata \<Rightarrow> session_metadata) \<Rightarrow> index_store \<Rightarrow> bool \<times> index_store" where
  "write_session_metadata f sid mutate st =
     (case map_of (id_dirs (ix_disk st)) sid of
        None \<Rightarrow> (False, st)
      | Some dir \<Rightarrow>
          (case md_metadata dir of
             Metadata m \<Rightarrow>
               if f = WriteFails then (False, st)
               else (f = WriteOk,
                     on_disk (\<lambda>d. d\<lparr>id_dirs := AList.update sid (dir\<lparr>md_metadata := Metadata (mutate m)\<rparr>) (id_dirs d)\<rparr>) st)
           | _ \<Rightarrow> (False, st)))"

section \<open>Compaction\<close>

definition COMPACT_MAX_LINES :: nat where "COMPACT_MAX_LINES = 1000"
definition COMPACT_MAX_BYTES :: nat where "COMPACT_MAX_BYTES = 4 * 1024 * 1024"

definition below_compaction :: "nat \<Rightarrow> nat \<Rightarrow> bool" where
  "below_compaction bytes lines \<longleftrightarrow> bytes < COMPACT_MAX_BYTES \<and> lines < COMPACT_MAX_LINES"

lemma below_compaction_int [code]: "below_compaction bytes lines \<longleftrightarrow> int bytes < 4194304 \<and> int lines < 1000"
  by (simp add: below_compaction_def COMPACT_MAX_BYTES_def COMPACT_MAX_LINES_def)

datatype rotate_outcome = Rotated | RotateFailed | RotateNeedsRepair

text \<open>The live log is moved to the backup, an empty log takes its place, and the backup is
  removed; a step that fails is rolled back when it can be.\<close>

definition rotate_log_tmp_bak :: "rotate_faults \<Rightarrow> index_disk \<Rightarrow> rotate_outcome \<times> index_disk" where
  "rotate_log_tmp_bak f d =
     (if rf_tmp f then (RotateFailed, d)
      else if id_log d \<noteq> None \<and> id_bak d \<noteq> None \<and> rf_stale_bak f then (RotateFailed, d)
      else
        (let d1 = (if id_log d \<noteq> None then d\<lparr>id_bak := None\<rparr> else d)
         in if id_log d1 \<noteq> None \<and> rf_to_bak f then (RotateFailed, d1)
         else
           (let d2 = (if id_log d1 \<noteq> None then d1\<lparr>id_bak := id_log d1, id_log := None\<rparr> else d1)
            in if rf_publish f then
                 (if rf_rollback f \<and> id_bak d2 \<noteq> None then (RotateNeedsRepair, d2)
                  else if id_bak d2 \<noteq> None then (RotateFailed, d2\<lparr>id_log := id_bak d2, id_bak := None\<rparr>)
                  else (RotateFailed, d2))
               else
                 (let d3 = d2\<lparr>id_log := Some []\<rparr>
                  in if rf_sync f then (RotateFailed, d3)
                  else if id_bak d3 = None then (Rotated, d3)
                  else if \<not> rf_cleanup f then (Rotated, d3\<lparr>id_bak := None\<rparr>)
                  else if rf_remove_live f then (RotateNeedsRepair, d3)
                  else if rf_restore f then (RotateNeedsRepair, d3\<lparr>id_log := None\<rparr>)
                  else (if rf_restore_sync f then RotateNeedsRepair else RotateFailed,
                        d3\<lparr>id_log := id_bak d3, id_bak := None\<rparr>)))))"

definition maybe_compact ::
    "(index_log_record \<Rightarrow> nat) \<Rightarrow> compact_faults \<Rightarrow> index_store \<Rightarrow> index_store \<times> (index_error + unit)" where
  "maybe_compact rlen f st =
     (case id_log (ix_disk st) of
        None \<Rightarrow> (st, Inr ())
      | Some l \<Rightarrow>
          if kf_read f then (st, Inl CompactFailed)
          else if below_compaction (log_bytes rlen l) (count_log_lines l) then (st, Inr ())
          else if kf_snapshot f = WriteFails then (st, Inl CompactFailed)
          else
            (let st = on_disk (\<lambda>d. d\<lparr>id_snapshot := Some (Snapshot SESSION_INDEX_SCHEMA_VERSION (ix_entries st))\<rparr>) st
             in if kf_snapshot f = WriteNotSynced then (st, Inl CompactFailed)
             else
               (let (res, d) = rotate_log_tmp_bak (kf_rotate f) (ix_disk st);
                    st = st\<lparr>ix_disk := d\<rparr>
                in (case res of
                      Rotated \<Rightarrow> (st, Inr ())
                    | RotateFailed \<Rightarrow> (st, Inl CompactFailed)
                    | RotateNeedsRepair \<Rightarrow> fail_for_repair (kf_marker f) st))))"


section \<open>Operations\<close>

abbreviation write_refused :: "index_store \<Rightarrow> bool" where
  "write_refused st \<equiv> ix_health st = RepairRequired"

definition upsert_record :: "index_entry \<Rightarrow> string \<Rightarrow> index_log_record" where
  "upsert_record e now =
     \<lparr>il_op = UpsertSession, il_session_id = ie_session_id e, il_ts = now, il_payload = Some e\<rparr>"

definition delete_record :: "string \<Rightarrow> string \<Rightarrow> index_log_record" where
  "delete_record sid now =
     \<lparr>il_op = DeleteSession, il_session_id = sid, il_ts = now, il_payload = None\<rparr>"

text \<open>Creation: the metadata is staged, the log names the session, the staged directory is moved
  into place. When the move fails, a deletion is logged against the entry. A move onto a directory
  that is there fails.\<close>

definition create_session_index_entry ::
    "(string \<Rightarrow> string option) \<Rightarrow> (index_log_record \<Rightarrow> nat) \<Rightarrow> create_faults \<Rightarrow> string \<Rightarrow> index_entry \<Rightarrow>
     index_store \<Rightarrow> index_store \<times> (index_error + unit)" where
  "create_session_index_entry norm rlen f now entry st =
     (if write_refused st then (st, Inl IndexRepairRequired)
      else (case norm (ie_updated_at entry) of
        None \<Rightarrow> (st, Inl BadTimestamp)
      | Some t \<Rightarrow>
          (let e = entry\<lparr>ie_updated_at := t\<rparr>;
               sid = ie_session_id e;
               staged = \<lparr>md_metadata = Metadata (metadata_of_entry e), md_manifest = NoManifestFile\<rparr>
           in if map_of (id_staging (ix_disk st)) sid \<noteq> None \<and> cf_unstage f then (st, Inl StagingFailed)
           else
             (let st = on_disk (\<lambda>d. d\<lparr>id_staging := AList.delete sid (id_staging d)\<rparr>) st
              in if cf_mkdir f then (st, Inl StagingFailed)
              else
                (let st = on_disk (\<lambda>d. d\<lparr>id_staging := AList.update sid
                            (if cf_metadata f = WriteFails then \<lparr>md_metadata = NoMetadata, md_manifest = NoManifestFile\<rparr>
                             else staged) (id_staging d)\<rparr>) st
                 in if cf_metadata f \<noteq> WriteOk then (st, Inl StagingFailed)
                 else
                   (let (ok, st) = append_log_record (cf_append f) (upsert_record e now) st
                    in if \<not> ok then (st, Inl AppendFailed)
                    else
                      (let st = upsert_memory_entry e st
                       in if cf_publish f \<or> map_of (id_dirs (ix_disk st)) sid \<noteq> None then
                            (let (ok, st) = append_log_record (cf_compensation f) (delete_record sid now) st
                             in if \<not> ok then fail_for_repair (cf_marker f) st
                             else
                               (let st = remove_memory_entry sid st;
                                    st = (if cf_cleanup f then st
                                          else on_disk (\<lambda>d. d\<lparr>id_staging := AList.delete sid (id_staging d)\<rparr>) st)
                                in (st, Inl PublishRolledBack)))
                          else
                            maybe_compact rlen (cf_compact f)
                              (on_disk (\<lambda>d. d\<lparr>id_staging := AList.delete sid (id_staging d),
                                             id_dirs := AList.update sid staged (id_dirs d)\<rparr>) st))))))))"

text \<open>What the updates share: the log names the new entry, then the metadata file changes, then
  the list in memory. A metadata file that cannot be changed asks for a repair.\<close>

definition log_and_update ::
    "(index_log_record \<Rightarrow> nat) \<Rightarrow> update_faults \<Rightarrow> string \<Rightarrow> index_entry \<Rightarrow>
     (session_metadata \<Rightarrow> session_metadata) \<Rightarrow> index_store \<Rightarrow> index_store \<times> (index_error + unit)" where
  "log_and_update rlen f now next mutate st =
     (let (ok, st) = append_log_record (uf_append f) (upsert_record next now) st
      in if \<not> ok then (st, Inl AppendFailed)
      else
        (let (ok, st) = write_session_metadata (uf_metadata f) (ie_session_id next) mutate st
         in if \<not> ok then fail_for_repair (uf_marker f) st
         else maybe_compact rlen (uf_compact f) (upsert_memory_entry next st)))"

definition upsert_session_index_entry ::
    "(string \<Rightarrow> string option) \<Rightarrow> (index_log_record \<Rightarrow> nat) \<Rightarrow> update_faults \<Rightarrow> string \<Rightarrow> index_entry \<Rightarrow>
     index_store \<Rightarrow> index_store \<times> (index_error + unit)" where
  "upsert_session_index_entry norm rlen f now entry st =
     (if write_refused st then (st, Inl IndexRepairRequired)
      else (case norm (ie_updated_at entry) of
        None \<Rightarrow> (st, Inl BadTimestamp)
      | Some t \<Rightarrow>
          log_and_update rlen f now (entry\<lparr>ie_updated_at := t\<rparr>)
            (\<lambda>m. m\<lparr>sm_title := ie_title entry, sm_created_at := ie_created_at entry, sm_updated_at := t\<rparr>) st))"

definition touch_session_index_entry ::
    "(string \<Rightarrow> string option) \<Rightarrow> (index_log_record \<Rightarrow> nat) \<Rightarrow> update_faults \<Rightarrow> string \<Rightarrow> string \<Rightarrow> string \<Rightarrow>
     nat \<Rightarrow> string \<Rightarrow> index_store \<Rightarrow> index_store \<times> (index_error + unit)" where
  "touch_session_index_entry norm rlen f now sid updated_at last_event_seq last_preview st =
     (if write_refused st then (st, Inl IndexRepairRequired)
      else (case norm updated_at of
        None \<Rightarrow> (st, Inl BadTimestamp)
      | Some t \<Rightarrow>
          (case find_entry sid st of
             None \<Rightarrow> (st, Inl SessionMissing)
           | Some base \<Rightarrow>
               log_and_update rlen f now
                 (base\<lparr>ie_updated_at := t, ie_last_event_seq := last_event_seq, ie_last_preview := last_preview\<rparr>)
                 (\<lambda>m. m\<lparr>sm_updated_at := t\<rparr>) st)))"

definition update_session_title ::
    "(index_log_record \<Rightarrow> nat) \<Rightarrow> update_faults \<Rightarrow> string \<Rightarrow> string \<Rightarrow> string option \<Rightarrow>
     index_store \<Rightarrow> index_store \<times> (index_error + unit)" where
  "update_session_title rlen f now sid title st =
     (if write_refused st then (st, Inl IndexRepairRequired)
      else (case find_entry sid st of
        None \<Rightarrow> (st, Inl SessionMissing)
      | Some base \<Rightarrow>
          log_and_update rlen f now (base\<lparr>ie_title := title, ie_updated_at := now\<rparr>)
            (\<lambda>m. m\<lparr>sm_title := title, sm_updated_at := now\<rparr>) st))"

definition update_session_title_if_empty ::
    "(index_log_record \<Rightarrow> nat) \<Rightarrow> update_faults \<Rightarrow> string \<Rightarrow> string \<Rightarrow> string \<Rightarrow>
     index_store \<Rightarrow> index_store \<times> (index_error + bool)" where
  "update_session_title_if_empty rlen f now sid title st =
     (if write_refused st then (st, Inl IndexRepairRequired)
      else (case find_entry sid st of
        None \<Rightarrow> (st, Inl SessionMissing)
      | Some base \<Rightarrow>
          if (case ie_title base of None \<Rightarrow> False | Some v \<Rightarrow> trim v \<noteq> []) then (st, Inr False)
          else if trim title = [] then (st, Inr False)
          else
            (let (st, res) = log_and_update rlen f now (base\<lparr>ie_title := Some (trim title), ie_updated_at := now\<rparr>)
                   (\<lambda>m. m\<lparr>sm_title := Some (trim title), sm_updated_at := now\<rparr>) st
             in (st, map_sum id (\<lambda>_. True) res))))"

definition update_session_tags ::
    "(index_log_record \<Rightarrow> nat) \<Rightarrow> update_faults \<Rightarrow> string \<Rightarrow> string \<Rightarrow> string list \<Rightarrow>
     index_store \<Rightarrow> index_store \<times> (index_error + unit)" where
  "update_session_tags rlen f now sid tags st =
     (if write_refused st then (st, Inl IndexRepairRequired)
      else (case find_entry sid st of
        None \<Rightarrow> (st, Inl SessionMissing)
      | Some base \<Rightarrow>
          log_and_update rlen f now (base\<lparr>ie_updated_at := now\<rparr>)
            (\<lambda>m. m\<lparr>sm_tags := tags, sm_updated_at := now\<rparr>) st))"

text \<open>\<open>fs::remove_dir_all\<close>: a directory that is not there is an error.\<close>

definition remove_session_dir :: "remove_fault \<Rightarrow> string \<Rightarrow> index_store \<Rightarrow> bool \<times> index_store" where
  "remove_session_dir f sid st =
     (case map_of (id_dirs (ix_disk st)) sid of
        None \<Rightarrow> (False, st)
      | Some dir \<Rightarrow>
          (case f of
             RemoveOk \<Rightarrow> (True, on_disk (\<lambda>d. d\<lparr>id_dirs := AList.delete sid (id_dirs d)\<rparr>) st)
           | RemoveFails \<Rightarrow> (False, st)
           | RemovePartly \<Rightarrow>
               (False, on_disk (\<lambda>d. d\<lparr>id_dirs := AList.update sid (dir\<lparr>md_metadata := NoMetadata\<rparr>) (id_dirs d)\<rparr>) st)))"

definition delete_session_index_entry ::
    "(index_log_record \<Rightarrow> nat) \<Rightarrow> delete_faults \<Rightarrow> string \<Rightarrow> string \<Rightarrow>
     index_store \<Rightarrow> index_store \<times> (index_error + unit)" where
  "delete_session_index_entry rlen f now sid st =
     (if write_refused st then (st, Inl IndexRepairRequired)
      else
        (let original = find_entry sid st;
             (ok, st) = append_log_record (df_append f) (delete_record sid now) st
         in if \<not> ok then (st, Inl AppendFailed)
         else
           (let (removed, st) = remove_session_dir (df_remove f) sid (remove_memory_entry sid st)
            in if removed then maybe_compact rlen (df_compact f) st
            else (case original of
                    None \<Rightarrow> (st, Inl RemoveRolledBack)
                  | Some e \<Rightarrow>
                      (let (ok, st) = append_log_record (df_compensation f) (upsert_record e now) st
                       in if \<not> ok then fail_for_repair (df_marker f) st
                       else (upsert_memory_entry e st, Inl RemoveRolledBack))))))"

section \<open>Loading\<close>

text \<open>A \<open>HashMap\<close> of entries is an association list by session id.\<close>

type_synonym index_map = "(string \<times> index_entry) list"

definition normalized_entry :: "(string \<Rightarrow> string option) \<Rightarrow> index_entry \<Rightarrow> index_entry option" where
  "normalized_entry norm e = map_option (\<lambda>t. e\<lparr>ie_updated_at := t\<rparr>) (norm (ie_updated_at e))"

definition put_entry :: "index_entry \<Rightarrow> index_map \<Rightarrow> index_map" where
  "put_entry e m = AList.update (ie_session_id e) e m"

definition load_snapshot :: "(string \<Rightarrow> string option) \<Rightarrow> index_disk \<Rightarrow> index_map option" where
  "load_snapshot norm d = (case id_snapshot d of
     None \<Rightarrow> Some []
   | Some UnreadableSnapshot \<Rightarrow> None
   | Some (Snapshot version es) \<Rightarrow>
       if version \<noteq> SESSION_INDEX_SCHEMA_VERSION then None
       else map_option (\<lambda>es'. fold put_entry es' []) (those (map (normalized_entry norm) es)))"

text \<open>One line of the log: a blank one is skipped, one that is not a single record is an error.\<close>

fun replay_line :: "(string \<Rightarrow> string option) \<Rightarrow> log_chunk list \<Rightarrow> index_map \<Rightarrow> index_map option" where
  "replay_line norm [] m = Some m"
| "replay_line norm [Rec r] m = (case il_op r of
     UpsertSession \<Rightarrow>
       (case il_payload r of
          None \<Rightarrow> None
        | Some e \<Rightarrow> map_option (\<lambda>e'. put_entry e' m) (normalized_entry norm e))
   | DeleteSession \<Rightarrow> Some (AList.delete (il_session_id r) m))"
| "replay_line norm _ m = None"

fun replay_lines :: "(string \<Rightarrow> string option) \<Rightarrow> log_chunk list list \<Rightarrow> index_map \<Rightarrow> index_map option" where
  "replay_lines norm [] m = Some m"
| "replay_lines norm (l # ls) m =
     (case replay_line norm l m of None \<Rightarrow> None | Some m' \<Rightarrow> replay_lines norm ls m')"

definition replay_index_log :: "(string \<Rightarrow> string option) \<Rightarrow> index_disk \<Rightarrow> index_map \<Rightarrow> index_map option" where
  "replay_index_log norm d m =
     (case id_log d of None \<Rightarrow> Some m | Some l \<Rightarrow> replay_lines norm (log_lines l) m)"

definition load_entries_snapshot_and_log :: "(string \<Rightarrow> string option) \<Rightarrow> index_disk \<Rightarrow> index_map option" where
  "load_entries_snapshot_and_log norm d =
     (case load_snapshot norm d of None \<Rightarrow> None | Some m \<Rightarrow> replay_index_log norm d m)"

text \<open>What a session directory says of the session: no entry without a metadata file that names
  the directory, an error when a file cannot be read.\<close>

definition scan_dir :: "(string \<Rightarrow> string option) \<Rightarrow> string \<times> meta_dir \<Rightarrow> index_entry option option" where
  "scan_dir norm nd = (case md_metadata (snd nd) of
     NoMetadata \<Rightarrow> Some None
   | UnreadableMetadata \<Rightarrow> None
   | Metadata m \<Rightarrow>
       if sm_session_id m \<noteq> fst nd then Some None
       else
         (case (case md_manifest (snd nd) of NoManifestFile \<Rightarrow> Some 0 | ManifestSeq n \<Rightarrow> Some n | UnreadableManifest \<Rightarrow> None) of
            None \<Rightarrow> None
          | Some n \<Rightarrow>
              (case norm (sm_updated_at m) of
                 None \<Rightarrow> None
               | Some t \<Rightarrow>
                   Some (Some \<lparr>ie_session_id = sm_session_id m, ie_title = sm_title m, ie_created_at = sm_created_at m,
                               ie_updated_at = t, ie_last_event_seq = n, ie_last_preview = []\<rparr>))))"

fun scan_dirs :: "(string \<Rightarrow> string option) \<Rightarrow> (string \<times> meta_dir) list \<Rightarrow> index_map option" where
  "scan_dirs norm [] = Some []"
| "scan_dirs norm (nd # nds) =
     (case (scan_dir norm nd, scan_dirs norm nds) of
        (Some None, Some m) \<Rightarrow> Some m
      | (Some (Some e), Some m) \<Rightarrow> Some ((ie_session_id e, e) # m)
      | _ \<Rightarrow> None)"

text \<open>The failures of a start: creating the directory, the files of a rebuild, the lines the audit
  logs (by session) and removing the mark. \<open>lf_stale\<close> are the staging directories old enough to
  go.\<close>

record load_faults =
  lf_root :: bool
  lf_stale :: "string list"
  lf_snapshot :: write_fault
  lf_rotate :: rotate_faults
  lf_audit :: "string \<Rightarrow> append_fault"
  lf_unmark :: bool

definition rebuild_from_sessions_dir ::
    "(string \<Rightarrow> string option) \<Rightarrow> load_faults \<Rightarrow> index_disk \<Rightarrow> index_disk \<times> index_map option" where
  "rebuild_from_sessions_dir norm f d =
     (case scan_dirs norm (id_dirs d) of
        None \<Rightarrow> (d, None)
      | Some m \<Rightarrow>
          if lf_snapshot f = WriteFails then (d, None)
          else
            (let d = d\<lparr>id_snapshot := Some (Snapshot SESSION_INDEX_SCHEMA_VERSION (map snd m))\<rparr>
             in if lf_snapshot f = WriteNotSynced then (d, None)
             else
               (let (res, d) = rotate_log_tmp_bak (lf_rotate f) d
                in (d, if res = Rotated then Some m else None))))"

text \<open>The audit: an indexed session without a directory goes, a directory without an entry comes
  in; each is logged.\<close>

fun audit_missing ::
    "load_faults \<Rightarrow> string \<Rightarrow> index_map \<Rightarrow> string list \<Rightarrow> index_disk \<Rightarrow> index_map \<Rightarrow> index_disk \<times> index_map option" where
  "audit_missing f now found [] d m = (d, Some m)"
| "audit_missing f now found (sid # sids) d m =
     (if map_of found sid = None then
        (let (ok, d) = append_log_record_to_path (lf_audit f sid) (delete_record sid now) d
         in if ok then audit_missing f now found sids d (AList.delete sid m) else (d, None))
      else audit_missing f now found sids d m)"

fun audit_found ::
    "load_faults \<Rightarrow> string \<Rightarrow> index_map \<Rightarrow> index_disk \<Rightarrow> index_map \<Rightarrow> index_disk \<times> index_map option" where
  "audit_found f now [] d m = (d, Some m)"
| "audit_found f now ((sid, e) # found) d m =
     (if map_of m sid = None then
        (let (ok, d) = append_log_record_to_path (lf_audit f sid)
                         \<lparr>il_op = UpsertSession, il_session_id = sid, il_ts = now, il_payload = Some e\<rparr> d
         in if ok then audit_found f now found d (AList.update sid e m) else (d, None))
      else audit_found f now found d m)"

definition startup_audit ::
    "(string \<Rightarrow> string option) \<Rightarrow> load_faults \<Rightarrow> string \<Rightarrow> index_disk \<Rightarrow> index_map \<Rightarrow> index_disk \<times> index_map option" where
  "startup_audit norm f now d m =
     (case scan_dirs norm (id_dirs d) of
        None \<Rightarrow> (d, None)
      | Some found \<Rightarrow>
          (case audit_missing f now found (map fst m) d m of
             (d, None) \<Rightarrow> (d, None)
           | (d, Some m) \<Rightarrow> audit_found f now found d m))"

definition load_with_recovery_or_fail ::
    "(string \<Rightarrow> string option) \<Rightarrow> load_faults \<Rightarrow> string \<Rightarrow> index_disk \<Rightarrow> index_disk \<times> (index_error + index_entry list)" where
  "load_with_recovery_or_fail norm f now d =
     (if lf_root f then (d, Inl LoadFailed)
      else
        (let d = d\<lparr>id_staging := filter (\<lambda>nd. fst nd \<notin> set (lf_stale f)) (id_staging d)\<rparr>;
             marked = id_marker d;
             (d, loaded) = (if marked then rebuild_from_sessions_dir norm f d
                            else (case load_entries_snapshot_and_log norm d of
                                    Some m \<Rightarrow> (d, Some m)
                                  | None \<Rightarrow> rebuild_from_sessions_dir norm f d))
         in (case loaded of
               None \<Rightarrow> (d, Inl LoadFailed)
             | Some m \<Rightarrow>
                 (case startup_audit norm f now d m of
                    (d, None) \<Rightarrow> (d, Inl LoadFailed)
                  | (d, Some m) \<Rightarrow>
                      if marked \<and> lf_unmark f then (d, Inl LoadFailed)
                      else (d\<lparr>id_marker := False\<rparr>, Inr (sort_entries_desc (map snd m)))))))"

definition index_store_new ::
    "(string \<Rightarrow> string option) \<Rightarrow> load_faults \<Rightarrow> string \<Rightarrow> index_disk \<Rightarrow> index_disk \<times> (index_error + index_store)" where
  "index_store_new norm f now d =
     (case load_with_recovery_or_fail norm f now d of
        (d', Inl e) \<Rightarrow> (d', Inl e)
      | (d', Inr es) \<Rightarrow> (d', Inr \<lparr>ix_entries = es, ix_health = Healthy, ix_disk = d'\<rparr>))"


section \<open>Runs of the store\<close>

datatype index_op =
    CreateEntry create_faults string index_entry
  | UpsertEntry update_faults string index_entry
  | TouchEntry update_faults string string string nat string
  | SetTitle update_faults string string "string option"
  | SetTitleIfEmpty update_faults string string string
  | SetTags update_faults string string "string list"
  | DeleteEntry delete_faults string string
  | TranscriptManifest string nat

text \<open>The transcript store writes its manifest into the same session directories.\<close>

definition put_manifest :: "string \<Rightarrow> nat \<Rightarrow> index_disk \<Rightarrow> index_disk" where
  "put_manifest sid n d =
     d\<lparr>id_dirs := AList.update sid
         (case map_of (id_dirs d) sid of
            None \<Rightarrow> \<lparr>md_metadata = NoMetadata, md_manifest = ManifestSeq n\<rparr>
          | Some dir \<Rightarrow> dir\<lparr>md_manifest := ManifestSeq n\<rparr>) (id_dirs d)\<rparr>"

fun index_step ::
    "(string \<Rightarrow> string option) \<Rightarrow> (index_log_record \<Rightarrow> nat) \<Rightarrow> index_op \<Rightarrow> index_store \<Rightarrow> index_store" where
  "index_step norm rlen (CreateEntry f now e) st = fst (create_session_index_entry norm rlen f now e st)"
| "index_step norm rlen (UpsertEntry f now e) st = fst (upsert_session_index_entry norm rlen f now e st)"
| "index_step norm rlen (TouchEntry f now sid t n p) st = fst (touch_session_index_entry norm rlen f now sid t n p st)"
| "index_step norm rlen (SetTitle f now sid t) st = fst (update_session_title rlen f now sid t st)"
| "index_step norm rlen (SetTitleIfEmpty f now sid t) st = fst (update_session_title_if_empty rlen f now sid t st)"
| "index_step norm rlen (SetTags f now sid ts) st = fst (update_session_tags rlen f now sid ts st)"
| "index_step norm rlen (DeleteEntry f now sid) st = fst (delete_session_index_entry rlen f now sid st)"
| "index_step norm rlen (TranscriptManifest sid n) st = on_disk (put_manifest sid n) st"

text \<open>A log write that happened entirely or not at all, and the operations and starts all of whose
  log writes are such and whose clock gives normalized times.\<close>

definition whole :: "append_fault \<Rightarrow> bool" where
  "whole f \<longleftrightarrow> f = AppendOk \<or> f = AppendNotOpened"

fun whole_op :: "(string \<Rightarrow> string option) \<Rightarrow> index_op \<Rightarrow> bool" where
  "whole_op norm (CreateEntry f now e) \<longleftrightarrow> whole (cf_append f) \<and> whole (cf_compensation f)"
| "whole_op norm (UpsertEntry f now e) \<longleftrightarrow> whole (uf_append f)"
| "whole_op norm (TouchEntry f now sid t n p) \<longleftrightarrow> whole (uf_append f)"
| "whole_op norm (SetTitle f now sid t) \<longleftrightarrow> whole (uf_append f) \<and> norm now = Some now"
| "whole_op norm (SetTitleIfEmpty f now sid t) \<longleftrightarrow> whole (uf_append f) \<and> norm now = Some now"
| "whole_op norm (SetTags f now sid ts) \<longleftrightarrow> whole (uf_append f) \<and> norm now = Some now"
| "whole_op norm (DeleteEntry f now sid) \<longleftrightarrow> whole (df_append f) \<and> whole (df_compensation f)"
| "whole_op norm (TranscriptManifest sid n) \<longleftrightarrow> True"

definition empty_disk :: index_disk where
  "empty_disk = \<lparr>id_snapshot = None, id_log = None, id_bak = None, id_marker = False, id_staging = [], id_dirs = []\<rparr>"

text \<open>The disks a store can be started on and the stores that run, over any number of starts,
  failed starts, operations and stops.\<close>

inductive disk_reached :: "(string \<Rightarrow> string option) \<Rightarrow> (index_log_record \<Rightarrow> nat) \<Rightarrow> index_disk \<Rightarrow> bool"
  and store_reached :: "(string \<Rightarrow> string option) \<Rightarrow> (index_log_record \<Rightarrow> nat) \<Rightarrow> index_store \<Rightarrow> bool"
  for norm rlen where
  empty: "disk_reached norm rlen empty_disk"
| started: "disk_reached norm rlen d \<Longrightarrow> \<forall>sid. whole (lf_audit f sid) \<Longrightarrow>
    index_store_new norm f now d = (d', Inr st) \<Longrightarrow> store_reached norm rlen st"
| failed: "disk_reached norm rlen d \<Longrightarrow> \<forall>sid. whole (lf_audit f sid) \<Longrightarrow>
    index_store_new norm f now d = (d', Inl err) \<Longrightarrow> disk_reached norm rlen d'"
| step: "store_reached norm rlen st \<Longrightarrow> whole_op norm op \<Longrightarrow> store_reached norm rlen (index_step norm rlen op st)"
| stopped: "store_reached norm rlen st \<Longrightarrow> disk_reached norm rlen (ix_disk st)"

section \<open>Memory\<close>

lemma sort_entry_key_inj: "sort_entry_key e = sort_entry_key e' \<Longrightarrow> ie_session_id e = ie_session_id e'"
  by (simp add: sort_entry_key_def)

definition newest_first :: "index_entry list \<Rightarrow> bool" where
  "newest_first es \<longleftrightarrow> sorted_wrt (\<lambda>a b. sort_entry_key b < sort_entry_key a) es"

definition entry_map :: "index_entry list \<Rightarrow> string \<Rightarrow> index_entry option" where
  "entry_map es = map_of (map (\<lambda>e. (ie_session_id e, e)) es)"

lemma set_sort_entries_desc [simp]: "set (sort_entries_desc es) = set es"
  by (simp add: sort_entries_desc_def)

lemma ids_sort_entries_desc [simp]:
  "distinct (map ie_session_id (sort_entries_desc es)) = distinct (map ie_session_id es)"
proof -
  have "mset (sort_entries_desc es) = mset es" by (simp add: sort_entries_desc_def)
  then have "mset (map ie_session_id (sort_entries_desc es)) = mset (map ie_session_id es)" by simp
  then show ?thesis by (rule mset_eq_imp_distinct_iff)
qed

lemma entry_map_Some:
  "distinct (map ie_session_id es) \<Longrightarrow> entry_map es sid = Some e \<longleftrightarrow> e \<in> set es \<and> ie_session_id e = sid"
  by (auto simp: entry_map_def map_of_eq_Some_iff comp_def)

lemma entry_map_cong:
  assumes "distinct (map ie_session_id es)" "distinct (map ie_session_id es')" "set es = set es'"
  shows "entry_map es = entry_map es'"
proof
  fix sid
  have "entry_map es sid = Some e \<longleftrightarrow> entry_map es' sid = Some e" for e
    by (simp only: entry_map_Some [OF assms(1)] entry_map_Some [OF assms(2)] assms(3))
  then show "entry_map es sid = entry_map es' sid"
    by (metis option.exhaust)
qed

lemma newest_first_sort:
  assumes "distinct (map ie_session_id es)"
  shows "newest_first (sort_entries_desc es)"
proof -
  let ?s = "sort_key sort_entry_key (rev es)"
  have "sorted (map sort_entry_key ?s)" by simp
  moreover have "distinct (map sort_entry_key ?s)"
  proof -
    have "distinct (map ie_session_id ?s)" using ids_sort_entries_desc [of es] assms
      by (simp add: sort_entries_desc_def flip: rev_map)
    then show ?thesis by (auto simp: distinct_map inj_on_def dest: sort_entry_key_inj)
  qed
  ultimately have "sorted_wrt (<) (map sort_entry_key ?s)" by (simp add: strict_sorted_iff)
  then show ?thesis by (simp add: newest_first_def sort_entries_desc_def sorted_wrt_rev sorted_wrt_map)
qed

text \<open>The operations on the list are the operations on the map it stands for.\<close>

lemma set_replace_first:
  "distinct (map ie_session_id es) \<Longrightarrow>
   set (replace_first (\<lambda>x. ie_session_id x = ie_session_id e) e es) = insert e {x \<in> set es. ie_session_id x \<noteq> ie_session_id e}"
  by (induction es) (auto simp: image_iff)

lemma ids_replace_first:
  "distinct (map ie_session_id es) \<Longrightarrow>
   distinct (map ie_session_id (replace_first (\<lambda>x. ie_session_id x = ie_session_id e) e es))"
proof (induction es)
  case (Cons x es)
  then show ?case using set_replace_first [of es e] by (auto simp: image_iff)
qed simp

definition memory_ok :: "(string \<Rightarrow> string option) \<Rightarrow> index_entry list \<Rightarrow> bool" where
  "memory_ok norm es \<longleftrightarrow> distinct (map ie_session_id es) \<and> newest_first es
     \<and> (\<forall>e \<in> set es. norm (ie_updated_at e) = Some (ie_updated_at e))"

lemma upsert_memory:
  assumes "memory_ok norm (ix_entries st)" "norm (ie_updated_at e) = Some (ie_updated_at e)"
  shows "memory_ok norm (ix_entries (upsert_memory_entry e st))"
    and "entry_map (ix_entries (upsert_memory_entry e st)) = (entry_map (ix_entries st))(ie_session_id e \<mapsto> e)"
proof -
  let ?es = "ix_entries st" and ?es' = "replace_first (\<lambda>x. ie_session_id x = ie_session_id e) e (ix_entries st)"
  have d: "distinct (map ie_session_id ?es)" "distinct (map ie_session_id ?es')"
    using assms(1) ids_replace_first [of ?es e] by (simp_all add: memory_ok_def)
  then show "memory_ok norm (ix_entries (upsert_memory_entry e st))"
    using assms by (auto simp: memory_ok_def upsert_memory_entry_def newest_first_sort set_replace_first)
  have "entry_map (sort_entries_desc ?es') = entry_map ?es'" using d by (intro entry_map_cong) simp_all
  moreover have "entry_map ?es' sid = Some x \<longleftrightarrow> ((entry_map ?es)(ie_session_id e \<mapsto> e)) sid = Some x" for sid x
    using d by (auto simp: entry_map_Some set_replace_first)
  then have "entry_map ?es' sid = ((entry_map ?es)(ie_session_id e \<mapsto> e)) sid" for sid
    by (metis option.exhaust)
  ultimately show "entry_map (ix_entries (upsert_memory_entry e st)) = (entry_map ?es)(ie_session_id e \<mapsto> e)"
    by (simp add: upsert_memory_entry_def fun_eq_iff)
qed

lemma remove_memory:
  assumes "memory_ok norm (ix_entries st)"
  shows "memory_ok norm (ix_entries (remove_memory_entry sid st))"
    and "entry_map (ix_entries (remove_memory_entry sid st)) = (entry_map (ix_entries st))(sid := None)"
proof -
  let ?es = "ix_entries st" and ?es' = "filter (\<lambda>e. ie_session_id e \<noteq> sid) (ix_entries st)"
  have d: "distinct (map ie_session_id ?es)" "distinct (map ie_session_id ?es')"
    using assms by (simp_all add: memory_ok_def distinct_map_filter)
  then show "memory_ok norm (ix_entries (remove_memory_entry sid st))"
    using assms by (auto simp: memory_ok_def remove_memory_entry_def newest_first_sort)
  have "entry_map (sort_entries_desc ?es') = entry_map ?es'" using d by (intro entry_map_cong) simp_all
  moreover have "entry_map ?es' k = Some x \<longleftrightarrow> ((entry_map ?es)(sid := None)) k = Some x" for k x
    using d by (auto simp: entry_map_Some)
  then have "entry_map ?es' k = ((entry_map ?es)(sid := None)) k" for k
    by (metis option.exhaust)
  ultimately show "entry_map (ix_entries (remove_memory_entry sid st)) = (entry_map ?es)(sid := None)"
    by (simp add: remove_memory_entry_def fun_eq_iff)
qed


section \<open>What the files of the index say\<close>

definition good_entry :: "(string \<Rightarrow> string option) \<Rightarrow> index_entry \<Rightarrow> bool" where
  "good_entry norm e \<longleftrightarrow> norm (ie_updated_at e) = Some (ie_updated_at e)"

definition good_record :: "(string \<Rightarrow> string option) \<Rightarrow> index_log_record \<Rightarrow> bool" where
  "good_record norm r \<longleftrightarrow>
     (il_op r = UpsertSession \<longrightarrow> (\<exists>e. il_payload r = Some e \<and> good_entry norm e \<and> ie_session_id e = il_session_id r))"

definition apply_log_record :: "index_log_record \<Rightarrow> (string \<Rightarrow> index_entry option) \<Rightarrow> string \<Rightarrow> index_entry option" where
  "apply_log_record r M = M(il_session_id r := (case il_op r of UpsertSession \<Rightarrow> il_payload r | DeleteSession \<Rightarrow> None))"

definition log_of :: "index_log_record list \<Rightarrow> index_log" where
  "log_of rs = concat (map (\<lambda>r. [Rec r, Eol]) rs)"

definition log_holds :: "index_log option \<Rightarrow> index_log_record list \<Rightarrow> bool" where
  "log_holds l rs \<longleftrightarrow> (case l of None \<Rightarrow> rs = [] | Some l \<Rightarrow> l = log_of rs)"

definition snapshot_holds :: "snapshot_file option \<Rightarrow> index_entry list \<Rightarrow> bool" where
  "snapshot_holds s es \<longleftrightarrow> (case s of None \<Rightarrow> es = [] | Some s \<Rightarrow> s = Snapshot SESSION_INDEX_SCHEMA_VERSION es)"

text \<open>Snapshot and log are well formed and stand for the map \<open>M\<close>.\<close>

definition disk_says :: "(string \<Rightarrow> string option) \<Rightarrow> index_disk \<Rightarrow> (string \<Rightarrow> index_entry option) \<Rightarrow> bool" where
  "disk_says norm d M \<longleftrightarrow>
     (\<exists>es rs. snapshot_holds (id_snapshot d) es \<and> distinct (map ie_session_id es) \<and> list_all (good_entry norm) es
        \<and> log_holds (id_log d) rs \<and> list_all (good_record norm) rs \<and> M = fold apply_log_record rs (entry_map es))"

lemma log_of_simps [simp]: "log_of [] = []" "log_of (r # rs) = Rec r # Eol # log_of rs" "log_of (rs @ rs') = log_of rs @ log_of rs'"
  by (simp_all add: log_of_def)

lemma log_lines_of: "log_lines (log_of rs) = map (\<lambda>r. [Rec r]) rs"
  unfolding log_lines_def by (induction rs) simp_all

lemma disk_says_frame:
  "id_snapshot d' = id_snapshot d \<Longrightarrow> id_log d' = id_log d \<Longrightarrow> disk_says norm d' M = disk_says norm d M"
  by (simp add: disk_says_def)

lemma disk_says_update [simp]:
  "disk_says norm (d\<lparr>id_marker := b\<rparr>) M = disk_says norm d M" "disk_says norm (d\<lparr>id_staging := x\<rparr>) M = disk_says norm d M"
  "disk_says norm (d\<lparr>id_dirs := y\<rparr>) M = disk_says norm d M"
  by (simp_all add: disk_says_def)

lemma disk_says_empty: "disk_says norm empty_disk (\<lambda>_. None)"
  by (simp add: disk_says_def empty_disk_def snapshot_holds_def log_holds_def entry_map_def)

lemma disk_says_append:
  assumes "disk_says norm d M" "good_record norm r" "whole f" "append_log_record_to_path f r d = (ok, d')"
  shows "disk_says norm d' (if ok then apply_log_record r M else M)"
proof (cases "f = AppendOk")
  case True
  obtain es rs where e: "snapshot_holds (id_snapshot d) es" "distinct (map ie_session_id es)" "list_all (good_entry norm) es"
      "log_holds (id_log d) rs" "list_all (good_record norm) rs" "M = fold apply_log_record rs (entry_map es)"
    using assms(1) by (auto simp: disk_says_def)
  have "log_holds (id_log d') (rs @ [r])" and d': "ok" "id_snapshot d' = id_snapshot d"
    using True assms(4) e(4)
    by (auto simp: append_log_record_to_path_def append_chunks_def log_holds_def split: option.splits)
  then show ?thesis
    using e assms(2) by (auto simp: disk_says_def intro!: exI [of _ es] exI [of _ "rs @ [r]"])
qed (use assms in \<open>auto simp: whole_def append_log_record_to_path_def\<close>)

text \<open>Replaying the log on top of what it leads to changes nothing, so a snapshot may be written
  before the log is emptied.\<close>

lemma replay_outside: "sid \<notin> il_session_id ` set rs \<Longrightarrow> fold apply_log_record rs M sid = M sid"
  by (induction rs arbitrary: M) (auto simp: apply_log_record_def)

lemma replay_inside: "sid \<in> il_session_id ` set rs \<Longrightarrow> fold apply_log_record rs M sid = fold apply_log_record rs M' sid"
proof (induction rs arbitrary: M M')
  case (Cons r rs)
  show ?case
  proof (cases "sid \<in> il_session_id ` set rs")
    case False
    then have "sid = il_session_id r" using Cons.prems by simp
    then show ?thesis using False by (simp add: replay_outside) (simp add: apply_log_record_def)
  qed (simp add: Cons.IH)
qed simp

lemma replay_idempotent: "fold apply_log_record rs (fold apply_log_record rs M) = fold apply_log_record rs M"
proof
  fix sid
  show "fold apply_log_record rs (fold apply_log_record rs M) sid = fold apply_log_record rs M sid"
    by (cases "sid \<in> il_session_id ` set rs") (auto intro: replay_inside simp: replay_outside)
qed

lemma disk_says_snapshot:
  assumes "disk_says norm d (entry_map es)" "distinct (map ie_session_id es)" "list_all (good_entry norm) es"
  shows "disk_says norm (d\<lparr>id_snapshot := Some (Snapshot SESSION_INDEX_SCHEMA_VERSION es)\<rparr>) (entry_map es)"
  using assms replay_idempotent unfolding disk_says_def snapshot_holds_def by fastforce

lemma disk_says_resnapshot:
  assumes "disk_says norm d M" "distinct (map ie_session_id es)" "list_all (good_entry norm) es"
  shows "\<exists>M'. disk_says norm (d\<lparr>id_snapshot := Some (Snapshot SESSION_INDEX_SCHEMA_VERSION es)\<rparr>) M'"
  using assms unfolding disk_says_def snapshot_holds_def by fastforce

lemma disk_says_no_log:
  assumes "id_snapshot d = Some (Snapshot SESSION_INDEX_SCHEMA_VERSION es)" "id_log d = None \<or> id_log d = Some []"
    and "distinct (map ie_session_id es)" "list_all (good_entry norm) es"
  shows "disk_says norm d (entry_map es)"
  using assms unfolding disk_says_def snapshot_holds_def log_holds_def
  by (auto intro!: exI [of _ es] exI [of _ "[] :: index_log_record list"])

lemma rotate_log_frame:
  assumes "rotate_log_tmp_bak f d = (res, d')"
  shows "id_snapshot d' = id_snapshot d" "id_dirs d' = id_dirs d" "id_marker d' = id_marker d"
    and "id_log d' = id_log d \<or> id_log d' = None \<or> id_log d' = Some [] \<or> id_log d = None \<and> id_log d' = id_bak d"
    and "id_bak d' = id_bak d \<or> id_bak d' = id_log d \<or> id_bak d' = None"
    and "res = Rotated \<Longrightarrow> id_log d' = Some []"
  using assms by (auto simp: rotate_log_tmp_bak_def Let_def split: if_splits)

definition log_good :: "(string \<Rightarrow> string option) \<Rightarrow> index_log option \<Rightarrow> bool" where
  "log_good norm l \<longleftrightarrow> (\<exists>rs. log_holds l rs \<and> list_all (good_record norm) rs)"

lemma log_good_simps [simp]: "log_good norm None" "log_good norm (Some [])"
  by (auto simp: log_good_def log_holds_def intro!: exI [of _ "[] :: index_log_record list"])

lemma disk_says_log_good: "disk_says norm d M \<Longrightarrow> log_good norm (id_log d)"
  by (auto simp: disk_says_def log_good_def)

text \<open>The session directories can all be read.\<close>

definition dirs_ok :: "(string \<Rightarrow> string option) \<Rightarrow> (string \<times> meta_dir) list \<Rightarrow> bool" where
  "dirs_ok norm dirs \<longleftrightarrow> distinct (map fst dirs) \<and> (\<forall>nd \<in> set dirs. scan_dir norm nd \<noteq> None)"

definition disk_ok :: "(string \<Rightarrow> string option) \<Rightarrow> index_disk \<Rightarrow> bool" where
  "disk_ok norm d \<longleftrightarrow> (\<exists>M. disk_says norm d M) \<and> log_good norm (id_bak d) \<and> dirs_ok norm (id_dirs d)"

lemma rotate_disk_ok:
  assumes "rotate_log_tmp_bak f d = (res, d')" "disk_ok norm d"
  shows "disk_ok norm d'"
proof -
  note fr = rotate_log_frame [OF assms(1)]
  obtain es rs where e: "snapshot_holds (id_snapshot d) es" "distinct (map ie_session_id es)" "list_all (good_entry norm) es"
      "log_holds (id_log d) rs" "list_all (good_record norm) rs"
    using assms(2) by (auto simp: disk_ok_def disk_says_def)
  have "log_good norm (id_log d)" "log_good norm (id_bak d)"
    using e(4,5) assms(2) by (auto simp: log_good_def disk_ok_def)
  then have "log_good norm (id_log d')" "log_good norm (id_bak d')" using fr(4,5) by auto
  then show ?thesis
    using assms(2) e(1-3) fr(1,2) by (auto simp: disk_ok_def disk_says_def log_good_def)
qed

lemma rotate_keeps:
  assumes "rotate_log_tmp_bak f d = (res, d')" "disk_says norm d (entry_map es)" "id_log d \<noteq> None"
    and "id_snapshot d = Some (Snapshot SESSION_INDEX_SCHEMA_VERSION es)"
    and "distinct (map ie_session_id es)" "list_all (good_entry norm) es"
  shows "disk_says norm d' (entry_map es)"
proof (cases "id_log d' = id_log d")
  case True
  then show ?thesis using assms(2) rotate_log_frame(1) [OF assms(1)] disk_says_frame by metis
next
  case False
  then show ?thesis using rotate_log_frame(1,4) [OF assms(1)] assms(3-6) by (intro disk_says_no_log) auto
qed

text \<open>A store whose files are well formed, and one that also agrees with its files.\<close>

definition store_ok :: "(string \<Rightarrow> string option) \<Rightarrow> index_store \<Rightarrow> bool" where
  "store_ok norm st \<longleftrightarrow> memory_ok norm (ix_entries st) \<and> disk_ok norm (ix_disk st)"

definition synced :: "(string \<Rightarrow> string option) \<Rightarrow> index_store \<Rightarrow> bool" where
  "synced norm st \<longleftrightarrow> store_ok norm st \<and> disk_says norm (ix_disk st) (entry_map (ix_entries st))
     \<and> \<not> id_marker (ix_disk st)"

definition index_ok :: "(string \<Rightarrow> string option) \<Rightarrow> index_store \<Rightarrow> bool" where
  "index_ok norm st \<longleftrightarrow> store_ok norm st \<and> (ix_health st = Healthy \<longrightarrow> synced norm st)"

lemma synced_index_ok: "synced norm st \<Longrightarrow> index_ok norm st"
  by (simp add: synced_def index_ok_def)

lemma fail_for_repair_ok: "store_ok norm st \<Longrightarrow> index_ok norm (fst (fail_for_repair f st))"
  by (simp add: fail_for_repair_def mark_repair_required_def index_ok_def store_ok_def disk_ok_def)

lemma memory_good: "memory_ok norm es \<Longrightarrow> distinct (map ie_session_id es) \<and> list_all (good_entry norm) es"
  by (simp add: memory_ok_def list_all_iff good_entry_def)

lemma maybe_compact_ok:
  assumes "synced norm st"
  shows "index_ok norm (fst (maybe_compact rlen f st))"
proof (cases "maybe_compact rlen f st = (st, snd (maybe_compact rlen f st))")
  case True
  then show ?thesis using synced_index_ok [OF assms] by (metis fst_conv)
next
  case False
  let ?es = "ix_entries st"
  let ?d = "(ix_disk st)\<lparr>id_snapshot := Some (Snapshot SESSION_INDEX_SCHEMA_VERSION ?es)\<rparr>"
  let ?st = "st\<lparr>ix_disk := ?d\<rparr>"
  have mem: "distinct (map ie_session_id ?es)" "list_all (good_entry norm) ?es"
    using assms memory_good by (auto simp: synced_def store_ok_def)
  have says: "disk_says norm ?d (entry_map ?es)"
    using assms mem by (intro disk_says_snapshot) (simp_all add: synced_def)
  then have d: "disk_ok norm ?d" using assms by (auto simp: disk_ok_def synced_def store_ok_def)
  have new: "synced norm ?st"
    using assms says d by (simp add: synced_def store_ok_def)
  obtain res d' where r: "rotate_log_tmp_bak (kf_rotate f) ?d = (res, d')"
    by (cases "rotate_log_tmp_bak (kf_rotate f) ?d")
  have l: "id_log (ix_disk st) \<noteq> None" using False by (auto simp: maybe_compact_def split: option.splits)
  have "disk_says norm d' (entry_map ?es)" by (rule rotate_keeps [OF r says _ _ mem]) (use l in simp_all)
  then have rot: "synced norm (st\<lparr>ix_disk := d'\<rparr>)"
    using assms rotate_disk_ok [OF r d] rotate_log_frame(3) [OF r] by (simp add: synced_def store_ok_def)
  have "fst (maybe_compact rlen f st) = ?st \<or> fst (maybe_compact rlen f st) = st\<lparr>ix_disk := d'\<rparr>
      \<or> fst (maybe_compact rlen f st) = fst (fail_for_repair (kf_marker f) (st\<lparr>ix_disk := d'\<rparr>) :: _ \<times> (_ + unit))"
    using False r l by (auto simp: maybe_compact_def on_disk_def Let_def split: option.splits if_splits rotate_outcome.splits)
  then show ?thesis
    using synced_index_ok [OF new] synced_index_ok [OF rot] fail_for_repair_ok [of norm "st\<lparr>ix_disk := d'\<rparr>"] rot
    by (auto simp: synced_def)
qed


section \<open>The operations keep memory and files together\<close>

text \<open>Printing a parsed time in UTC with milliseconds gives a text that parses to itself.\<close>

definition times_ok :: "(string \<Rightarrow> string option) \<Rightarrow> bool" where
  "times_ok norm \<longleftrightarrow> (\<forall>t u. norm t = Some u \<longrightarrow> norm u = Some u)"

lemma set_update_subset: "set (AList.update k v al) \<subseteq> insert (k, v) (set al)"
  by (induction al) auto

lemma dirs_ok_update: "dirs_ok norm dirs \<Longrightarrow> scan_dir norm (sid, dir) \<noteq> None \<Longrightarrow> dirs_ok norm (AList.update sid dir dirs)"
  using set_update_subset [of sid dir dirs] by (auto simp: dirs_ok_def distinct_update)

lemma dirs_ok_delete: "dirs_ok norm dirs \<Longrightarrow> dirs_ok norm (AList.delete sid dirs)"
  using distinct_delete [of dirs sid] by (auto simp: dirs_ok_def AList.delete_eq)

lemma dirs_ok_lookup: "dirs_ok norm dirs \<Longrightarrow> map_of dirs sid = Some dir \<Longrightarrow> scan_dir norm (sid, dir) \<noteq> None"
  using map_of_SomeD by (fastforce simp: dirs_ok_def)

lemma apply_records [simp]:
  "apply_log_record (upsert_record e now) M = M(ie_session_id e \<mapsto> e)"
  "apply_log_record (delete_record sid now) M = M(sid := None)"
  by (simp_all add: apply_log_record_def upsert_record_def delete_record_def)

lemma good_records [simp]:
  "good_record norm (delete_record sid now)"
  "good_record norm (upsert_record e now) \<longleftrightarrow> good_entry norm e"
  by (auto simp: good_record_def upsert_record_def delete_record_def)

text \<open>Two stores that differ only in files the index does not read back.\<close>

definition same_index :: "index_store \<Rightarrow> index_store \<Rightarrow> bool" where
  "same_index st st' \<longleftrightarrow> ix_entries st' = ix_entries st \<and> ix_health st' = ix_health st
     \<and> id_snapshot (ix_disk st') = id_snapshot (ix_disk st) \<and> id_log (ix_disk st') = id_log (ix_disk st)
     \<and> id_bak (ix_disk st') = id_bak (ix_disk st) \<and> id_marker (ix_disk st') = id_marker (ix_disk st)"

lemma same_index_synced:
  "same_index st st' \<Longrightarrow> dirs_ok norm (id_dirs (ix_disk st')) \<Longrightarrow> synced norm st \<Longrightarrow> synced norm st'"
  by (simp add: same_index_def synced_def store_ok_def disk_ok_def disk_says_def)

lemma append_record_step:
  assumes "synced norm st" "good_record norm r" "whole f" "append_log_record f r st = (ok, st')"
  shows "\<not> ok \<Longrightarrow> st' = st"
    and "ok \<Longrightarrow> store_ok norm st' \<and> ix_entries st' = ix_entries st \<and> id_marker (ix_disk st') = id_marker (ix_disk st)
      \<and> id_dirs (ix_disk st') = id_dirs (ix_disk st) \<and> ix_health st' = ix_health st
      \<and> disk_says norm (ix_disk st') (apply_log_record r (entry_map (ix_entries st)))"
proof -
  obtain d' where d': "append_log_record_to_path f r (ix_disk st) = (ok, d')" "st' = st\<lparr>ix_disk := d'\<rparr>"
    using assms(4) by (auto simp: append_log_record_def split: prod.splits)
  have fr: "id_marker d' = id_marker (ix_disk st)" "id_dirs d' = id_dirs (ix_disk st)" "id_bak d' = id_bak (ix_disk st)"
    using d'(1) by (auto simp: append_log_record_to_path_def split: if_splits)
  show "\<not> ok \<Longrightarrow> st' = st" using d' assms(3) by (auto simp: append_log_record_to_path_def whole_def)
  assume ok
  then have "disk_says norm d' (apply_log_record r (entry_map (ix_entries st)))"
    using disk_says_append [OF _ assms(2,3) d'(1)] assms(1) by (simp add: synced_def)
  then show "store_ok norm st' \<and> ix_entries st' = ix_entries st \<and> id_marker (ix_disk st') = id_marker (ix_disk st)
      \<and> id_dirs (ix_disk st') = id_dirs (ix_disk st) \<and> ix_health st' = ix_health st
      \<and> disk_says norm (ix_disk st') (apply_log_record r (entry_map (ix_entries st)))"
    using assms(1) d'(2) fr by (auto simp: synced_def store_ok_def disk_ok_def)
qed

lemma upsert_synced:
  assumes "store_ok norm st" "\<not> id_marker (ix_disk st)" "good_entry norm e"
    and "disk_says norm (ix_disk st) ((entry_map (ix_entries st))(ie_session_id e \<mapsto> e))"
  shows "synced norm (upsert_memory_entry e st)"
proof -
  have m: "memory_ok norm (ix_entries st)" "norm (ie_updated_at e) = Some (ie_updated_at e)"
    using assms by (simp_all add: store_ok_def good_entry_def)
  have "ix_disk (upsert_memory_entry e st) = ix_disk st" by (simp add: upsert_memory_entry_def)
  then show ?thesis using upsert_memory [OF m] assms by (simp add: synced_def store_ok_def)
qed

lemma remove_synced:
  assumes "store_ok norm st" "\<not> id_marker (ix_disk st)"
    and "disk_says norm (ix_disk st) ((entry_map (ix_entries st))(sid := None))"
  shows "synced norm (remove_memory_entry sid st)"
proof -
  have m: "memory_ok norm (ix_entries st)" using assms by (simp add: store_ok_def)
  have "ix_disk (remove_memory_entry sid st) = ix_disk st" by (simp add: remove_memory_entry_def)
  then show ?thesis using remove_memory [OF m] assms by (simp add: synced_def store_ok_def)
qed

lemma append_upsert:
  assumes "synced norm st" "good_entry norm e" "whole f" "append_log_record f (upsert_record e now) st = (True, st')"
  shows "synced norm (upsert_memory_entry e st')"
proof -
  note ap = append_record_step(2) [OF assms(1) _ assms(3,4)]
  show ?thesis by (rule upsert_synced) (use ap assms(1,2) in \<open>simp_all add: synced_def\<close>)
qed

lemma append_delete:
  assumes "synced norm st" "whole f" "append_log_record f (delete_record sid now) st = (True, st')"
  shows "synced norm (remove_memory_entry sid st')"
proof -
  note ap = append_record_step(2) [OF assms(1) good_records(1) assms(2,3)]
  show ?thesis by (rule remove_synced) (use ap assms(1) in \<open>simp_all add: synced_def\<close>)
qed

lemma write_metadata_step:
  assumes "write_session_metadata f sid mutate st = (ok, st')" "store_ok norm st"
    and "\<And>m. sm_session_id (mutate m) = sm_session_id m \<and> norm (sm_updated_at (mutate m)) \<noteq> None"
  shows "store_ok norm st' \<and> same_index st st'"
proof (cases "st' = st")
  case True
  then show ?thesis using assms(2) by (simp add: same_index_def)
next
  case False
  then obtain dir m where dir: "map_of (id_dirs (ix_disk st)) sid = Some dir" "md_metadata dir = Metadata m"
    and st': "st' = on_disk (\<lambda>d. d\<lparr>id_dirs := AList.update sid (dir\<lparr>md_metadata := Metadata (mutate m)\<rparr>) (id_dirs d)\<rparr>) st"
    using assms(1) by (auto simp: write_session_metadata_def split: option.splits metadata_file.splits if_splits)
  have "scan_dir norm (sid, dir) \<noteq> None"
    using dirs_ok_lookup [OF _ dir(1)] assms(2) by (simp add: store_ok_def disk_ok_def)
  then have "scan_dir norm (sid, dir\<lparr>md_metadata := Metadata (mutate m)\<rparr>) \<noteq> None"
    using dir(2) assms(3) by (auto simp: scan_dir_def split: option.splits manifest_seq.splits if_splits)
  then have "dirs_ok norm (AList.update sid (dir\<lparr>md_metadata := Metadata (mutate m)\<rparr>) (id_dirs (ix_disk st)))"
    using assms(2) by (intro dirs_ok_update) (simp_all add: store_ok_def disk_ok_def)
  then show ?thesis using assms(2) by (auto simp: st' on_disk_def store_ok_def disk_ok_def same_index_def)
qed

lemma log_and_update_ok:
  assumes "synced norm st" "whole (uf_append f)" "good_entry norm next"
    and "\<And>m. sm_session_id (mutate m) = sm_session_id m \<and> norm (sm_updated_at (mutate m)) \<noteq> None"
  shows "index_ok norm (fst (log_and_update rlen f now next mutate st))"
proof -
  obtain ok st1 where a: "append_log_record (uf_append f) (upsert_record next now) st = (ok, st1)"
    by (cases "append_log_record (uf_append f) (upsert_record next now) st")
  obtain ok2 st2 where w: "write_session_metadata (uf_metadata f) (ie_session_id next) mutate st1 = (ok2, st2)"
    by (cases "write_session_metadata (uf_metadata f) (ie_session_id next) mutate st1")
  note ap = append_record_step [OF assms(1) _ assms(2) a]
  show ?thesis
  proof (cases ok)
    case True
    then have s1: "store_ok norm st1" "\<not> id_marker (ix_disk st1)"
        "disk_says norm (ix_disk st1) ((entry_map (ix_entries st1))(ie_session_id next \<mapsto> next))"
      using ap(2) assms(1,3) by (simp_all add: synced_def)
    note s2 = write_metadata_step [OF w s1(1) assms(4)]
    have "synced norm (upsert_memory_entry next st2)"
      using s1 s2 assms(3) by (intro upsert_synced) (auto simp: same_index_def disk_says_def)
    then show ?thesis using True s2 by (simp add: log_and_update_def a w fail_for_repair_ok maybe_compact_ok)
  qed (use ap(1) assms in \<open>simp add: log_and_update_def a synced_index_ok\<close>)
qed


lemma synced_on_staging [simp]: "synced norm (on_disk (\<lambda>d. d\<lparr>id_staging := g d\<rparr>) st) = synced norm st"
  by (simp add: synced_def store_ok_def disk_ok_def on_disk_def)

lemma find_entry_Some: "find_entry sid st = Some e \<Longrightarrow> e \<in> set (ix_entries st) \<and> ie_session_id e = sid"
  by (auto simp: find_entry_def find_Some_iff)

lemma synced_entry_good: "synced norm st \<Longrightarrow> find_entry sid st = Some e \<Longrightarrow> good_entry norm e"
  by (auto simp: synced_def store_ok_def memory_ok_def good_entry_def dest!: find_entry_Some)

lemma norm_good: "times_ok norm \<Longrightarrow> norm t = Some u \<Longrightarrow> good_entry norm (e\<lparr>ie_updated_at := u\<rparr>)"
  by (auto simp: times_ok_def good_entry_def)

lemma create_ok:
  assumes "synced norm st" "times_ok norm" "whole (cf_append f)" "whole (cf_compensation f)"
  shows "index_ok norm (fst (create_session_index_entry norm rlen f now entry st))"
proof (cases "norm (ie_updated_at entry)")
  case None
  then show ?thesis using assms(1) by (simp add: create_session_index_entry_def synced_index_ok index_ok_def synced_def)
next
  case (Some t)
  let ?e = "entry\<lparr>ie_updated_at := t\<rparr>"
  let ?sid = "ie_session_id entry"
  let ?staged = "\<lparr>md_metadata = Metadata (metadata_of_entry ?e), md_manifest = NoManifestFile\<rparr>"
  have good: "good_entry norm ?e" using norm_good [OF assms(2) Some] .
  define st2 where "st2 = on_disk (\<lambda>d. d\<lparr>id_staging := AList.update ?sid ?staged (id_staging d)\<rparr>)
    (on_disk (\<lambda>d. d\<lparr>id_staging := AList.delete ?sid (id_staging d)\<rparr>) st)"
  have s2: "synced norm st2" using assms(1) by (simp add: st2_def)
  obtain ok st3 where a: "append_log_record (cf_append f) (upsert_record ?e now) st2 = (ok, st3)"
    by (cases "append_log_record (cf_append f) (upsert_record ?e now) st2")
  note ap = append_record_step [OF s2 _ assms(3) a]
  define st4 where "st4 = upsert_memory_entry ?e st3"
  obtain ok5 st5 where c: "append_log_record (cf_compensation f) (delete_record ?sid now) st4 = (ok5, st5)"
    by (cases "append_log_record (cf_compensation f) (delete_record ?sid now) st4")
  define st6 where "st6 = remove_memory_entry ?sid st5"
  define st7 where "st7 = on_disk (\<lambda>d. d\<lparr>id_staging := AList.delete ?sid (id_staging d), id_dirs := AList.update ?sid ?staged (id_dirs d)\<rparr>) st4"
  have s4: "synced norm st4" if ok
    using append_upsert [OF s2 good assms(3)] a that by (simp add: st4_def)
  have s6: "synced norm st6" if ok ok5
    using append_delete [OF s4 [OF that(1)] assms(4)] c that(2) by (simp add: st6_def)
  have "scan_dir norm (?sid, ?staged) \<noteq> None"
    using good by (simp add: scan_dir_def metadata_of_entry_def good_entry_def)
  then have s7: "synced norm st7" if ok
    using s4 [OF that] by (auto simp: st7_def on_disk_def synced_def store_ok_def disk_ok_def intro!: dirs_ok_update)
  have s5: "store_ok norm st5" if ok
    using append_record_step [OF s4 [OF that] good_records(1) assms(4) c] s4 [OF that]
    by (cases ok5) (simp_all add: synced_def)
  note oks = s2 s4 s6 s7 s5 assms(1)
  show ?thesis
  proof (cases "ix_health st = RepairRequired \<or> map_of (id_staging (ix_disk st)) ?sid \<noteq> None \<and> cf_unstage f \<or> cf_mkdir f
      \<or> cf_metadata f \<noteq> WriteOk")
    case True
    then show ?thesis using assms(1)
      by (auto simp: create_session_index_entry_def Let_def Some synced_index_ok)
  next
    case False
    then have eq: "create_session_index_entry norm rlen f now entry st =
        (if \<not> ok then (st3, Inl AppendFailed)
         else if cf_publish f \<or> map_of (id_dirs (ix_disk st4)) ?sid \<noteq> None then
           (if \<not> ok5 then fail_for_repair (cf_marker f) st5
            else (if cf_cleanup f then st6 else on_disk (\<lambda>d. d\<lparr>id_staging := AList.delete ?sid (id_staging d)\<rparr>) st6, Inl PublishRolledBack))
         else maybe_compact rlen (cf_compact f) st7)"
      using a c by (auto simp: create_session_index_entry_def Let_def Some st2_def st4_def st6_def st7_def)
    show ?thesis unfolding eq
      using oks ap(1) good by (auto simp: synced_index_ok maybe_compact_ok fail_for_repair_ok)
  qed
qed

lemma update_ok:
  assumes "index_ok norm st" "times_ok norm"
  shows "whole (uf_append f) \<Longrightarrow> index_ok norm (fst (upsert_session_index_entry norm rlen f now e st))"
    and "whole (uf_append f) \<Longrightarrow> index_ok norm (fst (touch_session_index_entry norm rlen f now sid t n p st))"
    and "whole (uf_append f) \<Longrightarrow> norm now = Some now \<Longrightarrow> index_ok norm (fst (update_session_title rlen f now sid title st))"
    and "whole (uf_append f) \<Longrightarrow> norm now = Some now \<Longrightarrow> index_ok norm (fst (update_session_title_if_empty rlen f now sid txt st))"
    and "whole (uf_append f) \<Longrightarrow> norm now = Some now \<Longrightarrow> index_ok norm (fst (update_session_tags rlen f now sid tags st))"
proof -
  have upd: "index_ok norm (fst (log_and_update rlen f now' x mutate st))"
    if "ix_health st = Healthy" "whole (uf_append f)" "good_entry norm x"
      "\<And>m. sm_session_id (mutate m) = sm_session_id m \<and> norm (sm_updated_at (mutate m)) \<noteq> None" for x mutate now'
    using assms(1) that by (intro log_and_update_ok) (auto simp: index_ok_def)
  have again: "norm u \<noteq> None" if "norm v = Some u" for u v using assms(2) that by (auto simp: times_ok_def)
  have h: "ix_health st = Healthy" if "\<not> write_refused st" using that by (cases "ix_health st") auto
  have now: "good_entry norm (x\<lparr>ie_updated_at := now\<rparr>)" if "norm now = Some now" for x using that by (simp add: good_entry_def)
  show "whole (uf_append f) \<Longrightarrow> index_ok norm (fst (upsert_session_index_entry norm rlen f now e st))"
    using assms(1) h again norm_good [OF assms(2)]
    by (auto simp: upsert_session_index_entry_def split: option.splits intro!: upd)
  show "whole (uf_append f) \<Longrightarrow> index_ok norm (fst (touch_session_index_entry norm rlen f now sid t n p st))"
    using assms(1) h again norm_good [OF assms(2)]
    by (auto simp: touch_session_index_entry_def good_entry_def split: option.splits intro!: upd)
  show "whole (uf_append f) \<Longrightarrow> norm now = Some now \<Longrightarrow> index_ok norm (fst (update_session_title rlen f now sid title st))"
    using assms(1) h now
    by (auto simp: update_session_title_def split: option.splits intro!: upd)
  show "whole (uf_append f) \<Longrightarrow> norm now = Some now \<Longrightarrow> index_ok norm (fst (update_session_title_if_empty rlen f now sid txt st))"
    using assms(1) h now
    by (auto simp: update_session_title_if_empty_def case_prod_beta split: option.splits intro!: upd)
  show "whole (uf_append f) \<Longrightarrow> norm now = Some now \<Longrightarrow> index_ok norm (fst (update_session_tags rlen f now sid tags st))"
    using assms(1) h now
    by (auto simp: update_session_tags_def split: option.splits intro!: upd)
qed


lemma delete_ok:
  assumes "synced norm st" "whole (df_append f)" "whole (df_compensation f)"
  shows "index_ok norm (fst (delete_session_index_entry rlen f now sid st))"
proof -
  obtain ok st1 where a: "append_log_record (df_append f) (delete_record sid now) st = (ok, st1)"
    by (cases "append_log_record (df_append f) (delete_record sid now) st")
  define st2 where "st2 = remove_memory_entry sid st1"
  obtain removed st3 where r: "remove_session_dir (df_remove f) sid st2 = (removed, st3)"
    by (cases "remove_session_dir (df_remove f) sid st2")
  have s2: "synced norm st2" if ok using append_delete [OF assms(1,2)] a that by (simp add: st2_def)
  have s3: "synced norm st3" if ok
  proof -
    have dirs: "dirs_ok norm (id_dirs (ix_disk st2))" using s2 [OF that] by (simp add: synced_def store_ok_def disk_ok_def)
    have "dirs_ok norm (id_dirs (ix_disk st3))"
      using r dirs dirs_ok_delete [OF dirs] dirs_ok_update [OF dirs]
      by (auto simp: remove_session_dir_def on_disk_def scan_dir_def split: option.splits remove_fault.splits)
    moreover have "same_index st2 st3"
      using r by (auto simp: remove_session_dir_def on_disk_def same_index_def split: option.splits remove_fault.splits)
    ultimately show ?thesis using same_index_synced s2 [OF that] by blast
  qed
  show ?thesis
  proof (cases "ix_health st = RepairRequired \<or> \<not> ok")
    case True
    then have "fst (delete_session_index_entry rlen f now sid st) = st"
      using append_record_step(1) [OF assms(1) good_records(1) assms(2) a] by (auto simp: delete_session_index_entry_def a)
    then show ?thesis using synced_index_ok [OF assms(1)] by simp
  next
    case False
    show ?thesis
    proof (cases "removed \<or> find_entry sid st = None")
      case True
      then show ?thesis
        using False r s3 maybe_compact_ok [of norm st3] synced_index_ok [of norm st3]
        by (auto simp: delete_session_index_entry_def a st2_def)
    next
      case no: False
      then obtain e where e: "find_entry sid st = Some e" by auto
      obtain ok4 st4 where c: "append_log_record (df_compensation f) (upsert_record e now) st3 = (ok4, st4)"
        by (cases "append_log_record (df_compensation f) (upsert_record e now) st3")
      have good: "good_entry norm e" using synced_entry_good [OF assms(1) e] .
      have s: "synced norm st3" using s3 False by simp
      have "fst (delete_session_index_entry rlen f now sid st) =
          (if \<not> ok4 then fst (fail_for_repair (df_marker f) st4 :: _ \<times> (_ + unit)) else upsert_memory_entry e st4)"
        using False no e c r by (auto simp: delete_session_index_entry_def a st2_def)
      moreover have "store_ok norm st4" if "\<not> ok4"
        using append_record_step(1) [OF s _ assms(3) c that] good s by (simp add: synced_def)
      ultimately show ?thesis
        using append_upsert [OF s good assms(3)] c by (auto simp: fail_for_repair_ok synced_index_ok)
    qed
  qed
qed

lemma put_manifest_ok: "index_ok norm st \<Longrightarrow> index_ok norm (on_disk (put_manifest sid n) st)"
proof -
  assume ok: "index_ok norm st"
  then have dirs: "dirs_ok norm (id_dirs (ix_disk st))" by (simp add: index_ok_def store_ok_def disk_ok_def)
  have "scan_dir norm (sid, dir\<lparr>md_manifest := ManifestSeq n\<rparr>) \<noteq> None" if "map_of (id_dirs (ix_disk st)) sid = Some dir" for dir
    using dirs_ok_lookup [OF dirs that] by (auto simp: scan_dir_def split: metadata_file.splits option.splits manifest_seq.splits)
  moreover have "scan_dir norm (sid, \<lparr>md_metadata = NoMetadata, md_manifest = ManifestSeq n\<rparr>) \<noteq> None"
    by (simp add: scan_dir_def)
  ultimately have "dirs_ok norm (id_dirs (put_manifest sid n (ix_disk st)))"
    using dirs_ok_update [OF dirs] by (simp add: put_manifest_def split: option.splits)
  then show ?thesis using ok by (simp add: index_ok_def store_ok_def synced_def disk_ok_def on_disk_def put_manifest_def)
qed

lemma index_step_ok:
  assumes "index_ok norm st" "times_ok norm" "whole_op norm op"
  shows "index_ok norm (index_step norm rlen op st)"
proof -
  have s: "synced norm st" if "ix_health st \<noteq> RepairRequired" using assms(1) that by (cases "ix_health st") (auto simp: index_ok_def)
  show ?thesis
  proof (cases op)
    case (CreateEntry f now e)
    then show ?thesis
      using create_ok [OF s assms(2)] assms by (cases "ix_health st = RepairRequired") (auto simp: create_session_index_entry_def)
  next
    case (DeleteEntry f now sid)
    then show ?thesis
      using delete_ok [OF s] assms by (cases "ix_health st = RepairRequired") (auto simp: delete_session_index_entry_def)
  qed (use assms update_ok [OF assms(1,2)] put_manifest_ok in auto)
qed

section \<open>Starting a store\<close>

text \<open>What the session directories alone say.\<close>

definition recorded :: "(string \<Rightarrow> string option) \<Rightarrow> (string \<times> meta_dir) list \<Rightarrow> string \<Rightarrow> index_entry option" where
  "recorded norm dirs sid = (case map_of dirs sid of None \<Rightarrow> None | Some dir \<Rightarrow> (case scan_dir norm (sid, dir) of Some r \<Rightarrow> r | None \<Rightarrow> None))"

text \<open>The well-formed association lists of entries.\<close>

definition map_ok :: "(string \<Rightarrow> string option) \<Rightarrow> index_map \<Rightarrow> bool" where
  "map_ok norm m \<longleftrightarrow> distinct (map fst m) \<and> (\<forall>(k, e) \<in> set m. ie_session_id e = k \<and> good_entry norm e)"

lemma map_ok_update: "map_ok norm m \<Longrightarrow> good_entry norm e \<Longrightarrow> map_ok norm (AList.update (ie_session_id e) e m)"
  using set_update_subset [of "ie_session_id e" e m] by (auto simp: map_ok_def distinct_update)

lemma map_ok_delete: "map_ok norm m \<Longrightarrow> map_ok norm (AList.delete sid m)"
  using distinct_delete [of m sid] by (auto simp: map_ok_def AList.delete_eq)

lemma map_ok_values:
  assumes "map_ok norm m"
  shows "map (\<lambda>e. (ie_session_id e, e)) (map snd m) = m" "map ie_session_id (map snd m) = map fst m"
    "list_all (good_entry norm) (map snd m)"
  using assms by (auto simp: map_ok_def list_all_iff intro!: map_idI) 

lemma map_ok_ids: "map_ok norm m \<Longrightarrow> distinct (map fst m)"
  by (simp add: map_ok_def)

lemma map_ok_entries: "map_ok norm m \<Longrightarrow> entry_map (map snd m) = map_of m"
  using map_ok_values(1) [of norm m] by (simp add: entry_map_def)

lemma scan_dir_entry:
  "times_ok norm \<Longrightarrow> scan_dir norm nd = Some (Some e) \<Longrightarrow> ie_session_id e = fst nd \<and> good_entry norm e"
  by (auto simp: scan_dir_def times_ok_def good_entry_def split: metadata_file.splits option.splits if_splits manifest_seq.splits)

lemma scan_dirs_ok:
  assumes "dirs_ok norm dirs" "times_ok norm"
  obtains m where "scan_dirs norm dirs = Some m" "map_ok norm m" "map_of m = recorded norm dirs"
proof -
  have "\<exists>m. scan_dirs norm dirs = Some m \<and> map_ok norm m \<and> map_of m = recorded norm dirs \<and> fst ` set m \<subseteq> fst ` set dirs"
    using assms(1)
  proof (induction dirs)
    case Nil
    then show ?case by (simp add: map_ok_def recorded_def fun_eq_iff)
  next
    case (Cons nd nds)
    then obtain m where m: "scan_dirs norm nds = Some m" "map_ok norm m" "map_of m = recorded norm nds" "fst ` set m \<subseteq> fst ` set nds"
      by (auto simp: dirs_ok_def)
    obtain r where r: "scan_dir norm nd = Some r" using Cons.prems by (auto simp: dirs_ok_def)
    have new: "fst nd \<notin> fst ` set nds" using Cons.prems by (simp add: dirs_ok_def)
    have none: "recorded norm nds (fst nd) = None" using new map_of_eq_None_iff [of nds "fst nd"] by (simp add: recorded_def)
    have rec: "recorded norm (nd # nds) = (recorded norm nds)(fst nd := r)"
      using r by (cases nd) (auto simp: recorded_def fun_eq_iff)
    show ?case
    proof (cases r)
      case None
      then show ?thesis using m r rec none by auto
    next
      case (Some e)
      then have e: "ie_session_id e = fst nd" "good_entry norm e" using scan_dir_entry assms(2) r by blast+
      have "fst nd \<notin> fst ` set m" using new m(4) by auto
      then have "map_ok norm ((ie_session_id e, e) # m)" using m(2) e by (auto simp: map_ok_def)
      then show ?thesis using m r rec Some e by auto
    qed
  qed
  then show ?thesis using that by blast
qed


lemma those_good: "list_all (good_entry norm) es \<Longrightarrow> those (map (normalized_entry norm) es) = Some es"
  by (induction es) (simp_all add: good_entry_def normalized_entry_def)

lemma put_entries:
  assumes "list_all (good_entry norm) es" "map_ok norm m"
  shows "map_ok norm (fold put_entry es m) \<and> map_of (fold put_entry es m) = map_of m ++ map_of (rev (map (\<lambda>e. (ie_session_id e, e)) es))"
  using assms
proof (induction es arbitrary: m)
  case (Cons e es)
  then have "map_ok norm (put_entry e m)" using map_ok_update by (simp add: put_entry_def)
  then show ?case using Cons by (simp add: put_entry_def update_conv' map_add_assoc [symmetric] map_add_upd_left) 
qed simp

lemma load_snapshot_ok:
  assumes "snapshot_holds (id_snapshot d) es" "distinct (map ie_session_id es)" "list_all (good_entry norm) es"
  obtains m where "load_snapshot norm d = Some m" "map_ok norm m" "map_of m = entry_map es"
proof -
  have m0: "map_ok norm []" by (simp add: map_ok_def)
  have "map_of (rev (map (\<lambda>e. (ie_session_id e, e)) es)) = entry_map es"
    using entry_map_cong [of "rev es" es] assms(2) by (simp add: entry_map_def flip: rev_map)
  then show ?thesis
    using that assms those_good [OF assms(3)] put_entries [OF assms(3) m0]
    by (cases "id_snapshot d") (auto simp: load_snapshot_def snapshot_holds_def SESSION_INDEX_SCHEMA_VERSION_def entry_map_def map_ok_def)
qed

lemma replay_lines_ok:
  assumes "list_all (good_record norm) rs" "map_ok norm m"
  shows "\<exists>m'. replay_lines norm (map (\<lambda>r. [Rec r]) rs) m = Some m' \<and> map_ok norm m' \<and> map_of m' = fold apply_log_record rs (map_of m)"
  using assms
proof (induction rs arbitrary: m)
  case (Cons r rs)
  have "\<exists>m1. replay_line norm [Rec r] m = Some m1 \<and> map_ok norm m1 \<and> map_of m1 = apply_log_record r (map_of m)"
  proof (cases "il_op r")
    case UpsertSession
    then obtain e where "il_payload r = Some e" "good_entry norm e" "ie_session_id e = il_session_id r"
      using Cons.prems(1) by (auto simp: good_record_def)
    then show ?thesis using UpsertSession Cons.prems(2) map_ok_update [of norm m e]
      by (simp add: apply_log_record_def normalized_entry_def good_entry_def put_entry_def update_conv')
  next
    case DeleteSession
    then show ?thesis using Cons.prems(2) map_ok_delete by (simp add: apply_log_record_def delete_conv')
  qed
  then show ?case using Cons by fastforce
qed simp

lemma load_says:
  assumes "disk_says norm d M"
  obtains m where "load_entries_snapshot_and_log norm d = Some m" "map_ok norm m" "map_of m = M"
proof -
  obtain es rs where e: "snapshot_holds (id_snapshot d) es" "distinct (map ie_session_id es)" "list_all (good_entry norm) es"
      "log_holds (id_log d) rs" "list_all (good_record norm) rs" "M = fold apply_log_record rs (entry_map es)"
    using assms by (auto simp: disk_says_def)
  obtain m where m: "load_snapshot norm d = Some m" "map_ok norm m" "map_of m = entry_map es"
    using load_snapshot_ok [OF e(1-3)] .
  obtain m' where m': "replay_lines norm (map (\<lambda>r. [Rec r]) rs) m = Some m'" "map_ok norm m'" "map_of m' = M"
    using replay_lines_ok [OF e(5) m(2)] m(3) e(6) by auto
  have "replay_index_log norm d m = Some m'"
    using e(4) m'(1) by (cases "id_log d") (auto simp: replay_index_log_def log_holds_def log_lines_of)
  then show ?thesis using that m(1) m'(2,3) by (simp add: load_entries_snapshot_and_log_def)
qed


text \<open>The audit, on the map the association list stands for.\<close>

definition same_files :: "index_disk \<Rightarrow> index_disk \<Rightarrow> bool" where
  "same_files d d' \<longleftrightarrow> id_snapshot d' = id_snapshot d \<and> id_bak d' = id_bak d \<and> id_marker d' = id_marker d
     \<and> id_dirs d' = id_dirs d"

definition audit_done ::
    "(string \<Rightarrow> string option) \<Rightarrow> load_faults \<Rightarrow> index_disk \<Rightarrow> index_disk \<Rightarrow> index_map option \<Rightarrow> (string \<Rightarrow> index_entry option) \<Rightarrow> bool" where
  "audit_done norm f d d' r M \<longleftrightarrow> same_files d d' \<and> (\<exists>M'. disk_says norm d' M')
     \<and> (\<forall>m'. r = Some m' \<longrightarrow> map_ok norm m' \<and> map_of m' = M \<and> disk_says norm d' M)
     \<and> ((\<forall>sid. lf_audit f sid = AppendOk) \<longrightarrow> r \<noteq> None)"

lemma append_audit:
  assumes "disk_says norm d M" "good_record norm r" "whole (lf_audit f sid)"
    and "append_log_record_to_path (lf_audit f sid) r d = (ok, d')"
  shows "same_files d d'" "\<exists>M'. disk_says norm d' M'" "ok \<Longrightarrow> disk_says norm d' (apply_log_record r M)"
    "lf_audit f sid = AppendOk \<Longrightarrow> ok"
  using disk_says_append [OF assms] assms(3,4)
  by (auto simp: same_files_def append_log_record_to_path_def split: if_splits)

lemma audit_missing_done:
  assumes "\<forall>sid. whole (lf_audit f sid)" "map_ok norm m" "disk_says norm d (map_of m)"
    and "audit_missing f now found sids d m = (d', r)"
  shows "audit_done norm f d d' r (\<lambda>sid. if sid \<in> set sids \<and> map_of found sid = None then None else map_of m sid)"
  using assms
proof (induction sids arbitrary: d m)
  case Nil
  then show ?case by (auto simp: audit_done_def same_files_def)
next
  case (Cons sid sids)
  show ?case
  proof (cases "map_of found sid")
    case (Some e)
    have eq: "(\<lambda>k. if k \<in> set (sid # sids) \<and> map_of found k = None then None else map_of m k)
        = (\<lambda>k. if k \<in> set sids \<and> map_of found k = None then None else map_of m k)"
      using Some by (intro ext) auto
    show ?thesis unfolding eq using Cons.IH [OF Cons.prems(1-3)] Cons.prems(4) Some by simp
  next
    case None
    obtain ok d1 where a: "append_log_record_to_path (lf_audit f sid) (delete_record sid now) d = (ok, d1)"
      by (cases "append_log_record_to_path (lf_audit f sid) (delete_record sid now) d")
    have w: "whole (lf_audit f sid)" using Cons.prems(1) by simp
    note ap = append_audit [OF Cons.prems(3) good_records(1) w a]
    show ?thesis
    proof (cases ok)
      case True
      have m1: "map_ok norm (AList.delete sid m)" "disk_says norm d1 (map_of (AList.delete sid m))"
        using map_ok_delete [OF Cons.prems(2)] ap(3) [OF True] by (simp_all add: delete_conv')
      have eq: "(\<lambda>k. if k \<in> set (sid # sids) \<and> map_of found k = None then None else map_of m k)
          = (\<lambda>k. if k \<in> set sids \<and> map_of found k = None then None else map_of (AList.delete sid m) k)"
        using None by (intro ext) (auto simp: delete_conv')
      have "audit_missing f now found sids d1 (AList.delete sid m) = (d', r)"
        using Cons.prems(4) True None a by simp
      then have "audit_done norm f d1 d' r (\<lambda>k. if k \<in> set sids \<and> map_of found k = None then None else map_of (AList.delete sid m) k)"
        by (rule Cons.IH [OF Cons.prems(1) m1])
      then show ?thesis unfolding eq using ap(1) by (simp add: audit_done_def same_files_def)
    next
      case False
      then have "(d', r) = (d1, None)" using Cons.prems(4) None a by simp
      then show ?thesis using False ap by (auto simp: audit_done_def)
    qed
  qed
qed

lemma audit_found_done:
  assumes "\<forall>sid. whole (lf_audit f sid)" "map_ok norm m" "disk_says norm d (map_of m)" "map_ok norm found"
    and "audit_found f now found d m = (d', r)"
  shows "audit_done norm f d d' r (\<lambda>sid. case map_of m sid of Some e \<Rightarrow> Some e | None \<Rightarrow> map_of found sid)"
  using assms
proof (induction found arbitrary: d m)
  case Nil
  have "(\<lambda>k. case map_of m k of Some e \<Rightarrow> Some e | None \<Rightarrow> map_of [] k) = map_of m"
    by (auto simp: fun_eq_iff split: option.splits)
  then show ?case using Nil by (auto simp: audit_done_def same_files_def)
next
  case (Cons se found)
  obtain sid e where se: "se = (sid, e)" by (cases se)
  have e: "ie_session_id e = sid" "good_entry norm e" and found: "map_ok norm found" "map_of found sid = None"
    using Cons.prems(4) by (auto simp: se map_ok_def map_of_eq_None_iff)
  show ?case
  proof (cases "map_of m sid")
    case (Some x)
    have eq: "(\<lambda>k. case map_of m k of Some e \<Rightarrow> Some e | None \<Rightarrow> map_of (se # found) k)
        = (\<lambda>k. case map_of m k of Some e \<Rightarrow> Some e | None \<Rightarrow> map_of found k)"
      using Some by (auto simp: se fun_eq_iff split: option.splits)
    show ?thesis unfolding eq using Cons.IH [OF Cons.prems(1-3) found(1)] Cons.prems(5) Some by (simp add: se)
  next
    case None
    let ?r = "upsert_record e now"
    obtain ok d1 where a: "append_log_record_to_path (lf_audit f sid) ?r d = (ok, d1)"
      by (cases "append_log_record_to_path (lf_audit f sid) ?r d")
    have w: "whole (lf_audit f sid)" using Cons.prems(1) by simp
    have g: "good_record norm ?r" using e by simp
    note ap = append_audit [OF Cons.prems(3) g w a]
    have run: "audit_found f now (se # found) d m = (if ok then audit_found f now found d1 (AList.update sid e m) else (d1, None))"
      using None a e by (simp add: se upsert_record_def)
    show ?thesis
    proof (cases ok)
      case True
      have m1: "map_ok norm (AList.update sid e m)" "disk_says norm d1 (map_of (AList.update sid e m))"
        using map_ok_update [OF Cons.prems(2) e(2)] ap(3) [OF True] e by (simp_all add: update_conv')
      have eq: "(\<lambda>k. case map_of m k of Some e \<Rightarrow> Some e | None \<Rightarrow> map_of (se # found) k)
          = (\<lambda>k. case map_of (AList.update sid e m) k of Some e \<Rightarrow> Some e | None \<Rightarrow> map_of found k)"
        using None found(2) by (auto simp: se fun_eq_iff update_conv' split: option.splits)
      show ?thesis unfolding eq using Cons.IH [OF Cons.prems(1) m1 found(1)] Cons.prems(5) run True ap(1)
        by (simp add: audit_done_def same_files_def)
    next
      case False
      then have "(d', r) = (d1, None)" using Cons.prems(5) run by simp
      then show ?thesis using False ap by (auto simp: audit_done_def)
    qed
  qed
qed


text \<open>What a start makes of an indexed map and the session directories: an indexed session keeps
  its entry as long as its directory tells of it, and every other directory that tells of a session
  comes in with what it says.\<close>

definition audited ::
    "(string \<Rightarrow> string option) \<Rightarrow> (string \<times> meta_dir) list \<Rightarrow> (string \<Rightarrow> index_entry option) \<Rightarrow> string \<Rightarrow> index_entry option" where
  "audited norm dirs M sid =
     (case recorded norm dirs sid of None \<Rightarrow> None | Some e \<Rightarrow> (case M sid of Some e' \<Rightarrow> Some e' | None \<Rightarrow> Some e))"

lemma startup_audit_done:
  assumes "dirs_ok norm (id_dirs d)" "times_ok norm" "\<forall>sid. whole (lf_audit f sid)" "map_ok norm m"
    and "disk_says norm d (map_of m)" "startup_audit norm f now d m = (d', r)"
  shows "audit_done norm f d d' r (audited norm (id_dirs d) (map_of m))"
proof -
  obtain found where found: "scan_dirs norm (id_dirs d) = Some found" "map_ok norm found" "map_of found = recorded norm (id_dirs d)"
    using scan_dirs_ok [OF assms(1,2)] .
  obtain d1 r1 where a: "audit_missing f now found (map fst m) d m = (d1, r1)"
    by (cases "audit_missing f now found (map fst m) d m")
  let ?M = "\<lambda>sid. if sid \<in> set (map fst m) \<and> map_of found sid = None then None else map_of m sid"
  have done1: "audit_done norm f d d1 r1 ?M" using audit_missing_done [OF assms(3-5) a] .
  show ?thesis
  proof (cases r1)
    case None
    then have "(d', r) = (d1, None)" using assms(6) found(1) a by (simp add: startup_audit_def)
    then show ?thesis using done1 None by (auto simp: audit_done_def)
  next
    case (Some m1)
    then have m1: "map_ok norm m1" "map_of m1 = ?M" "disk_says norm d1 (map_of m1)" using done1 by (simp_all add: audit_done_def)
    have "audit_found f now found d1 m1 = (d', r)" using assms(6) found(1) a Some by (simp add: startup_audit_def)
    from audit_found_done [OF assms(3) m1(1,3) found(2) this]
    have "audit_done norm f d1 d' r (\<lambda>sid. case map_of m1 sid of Some e \<Rightarrow> Some e | None \<Rightarrow> map_of found sid)" .
    moreover have "(\<lambda>sid. case map_of m1 sid of Some e \<Rightarrow> Some e | None \<Rightarrow> map_of found sid) = audited norm (id_dirs d) (map_of m)"
    proof
      fix sid
      have out: "sid \<notin> fst ` set m \<Longrightarrow> map_of m sid = None" by (simp add: map_of_eq_None_iff)
      show "(case map_of m1 sid of Some e \<Rightarrow> Some e | None \<Rightarrow> map_of found sid) = audited norm (id_dirs d) (map_of m) sid"
        using out by (cases "map_of found sid"; cases "map_of m sid") (auto simp: audited_def m1(2) found(3))
    qed
    ultimately show ?thesis using done1 by (simp add: audit_done_def same_files_def)
  qed
qed

lemma rebuild_done:
  assumes "disk_ok norm d" "times_ok norm" "rebuild_from_sessions_dir norm f d = (d', r)"
  shows "disk_ok norm d' \<and> id_dirs d' = id_dirs d \<and> (\<forall>m. r = Some m \<longrightarrow> map_ok norm m \<and> disk_says norm d' (map_of m))"
proof -
  have dirs: "dirs_ok norm (id_dirs d)" using assms(1) by (simp add: disk_ok_def)
  obtain m where m: "scan_dirs norm (id_dirs d) = Some m" "map_ok norm m"
    using scan_dirs_ok [OF dirs assms(2)] .
  let ?es = "map snd m"
  let ?d = "d\<lparr>id_snapshot := Some (Snapshot SESSION_INDEX_SCHEMA_VERSION ?es)\<rparr>"
  have es: "distinct (map ie_session_id ?es)" "list_all (good_entry norm) ?es" "entry_map ?es = map_of m"
    using map_ok_values(2,3) [OF m(2)] map_ok_entries [OF m(2)] map_ok_ids [OF m(2)] by (simp_all del: map_map)
  obtain M where "disk_says norm d M" using assms(1) by (auto simp: disk_ok_def)
  then have d1: "disk_ok norm ?d" using disk_says_resnapshot [OF _ es(1,2)] assms(1) by (simp add: disk_ok_def)
  obtain res d2 where r: "rotate_log_tmp_bak (lf_rotate f) ?d = (res, d2)"
    by (cases "rotate_log_tmp_bak (lf_rotate f) ?d")
  note fr = rotate_log_frame [OF r]
  have d2: "disk_ok norm d2" using rotate_disk_ok [OF r d1] .
  have "disk_says norm d2 (map_of m)" if "res = Rotated"
    using disk_says_no_log [of d2 ?es norm] fr(1) fr(6) [OF that] es by simp
  then show ?thesis
    using assms(1,3) m r d1 d2 fr(2)
    by (auto simp: rebuild_from_sessions_dir_def Let_def split: if_splits)
qed

lemma load_done:
  assumes "disk_ok norm d" "times_ok norm" "\<forall>sid. whole (lf_audit f sid)"
    and "index_store_new norm f now d = (d', r)"
  shows "disk_ok norm d' \<and> (\<forall>st. r = Inr st \<longrightarrow> synced norm st)"
proof (cases "lf_root f")
  case True
  then show ?thesis using assms by (auto simp: index_store_new_def load_with_recovery_or_fail_def)
next
  case False
  let ?d = "d\<lparr>id_staging := filter (\<lambda>nd. fst nd \<notin> set (lf_stale f)) (id_staging d)\<rparr>"
  obtain d1 loaded where l: "(if id_marker d then rebuild_from_sessions_dir norm f ?d
      else (case load_entries_snapshot_and_log norm ?d of Some m \<Rightarrow> (?d, Some m) | None \<Rightarrow> rebuild_from_sessions_dir norm f ?d)) = (d1, loaded)"
    by fastforce
  have d: "disk_ok norm ?d" using assms(1) by (simp add: disk_ok_def)
  then obtain M where M: "disk_says norm ?d M" by (auto simp: disk_ok_def)
  have l1: "disk_ok norm d1 \<and> id_dirs d1 = id_dirs ?d \<and> (\<forall>m. loaded = Some m \<longrightarrow> map_ok norm m \<and> disk_says norm d1 (map_of m))"
  proof (cases "id_marker d")
    case True
    then show ?thesis using l rebuild_done [OF d assms(2)] by simp
  next
    case False
    obtain m where "load_entries_snapshot_and_log norm ?d = Some m" "map_ok norm m" "map_of m = M" using load_says [OF M] .
    then show ?thesis using l False d M by auto
  qed
  have run: "load_with_recovery_or_fail norm f now d =
      (case loaded of None \<Rightarrow> (d1, Inl LoadFailed)
       | Some m \<Rightarrow> (case startup_audit norm f now d1 m of
            (d, None) \<Rightarrow> (d, Inl LoadFailed)
          | (d2, Some m) \<Rightarrow> if id_marker d \<and> lf_unmark f then (d2, Inl LoadFailed)
              else (d2\<lparr>id_marker := False\<rparr>, Inr (sort_entries_desc (map snd m)))))"
    using False l by (simp add: load_with_recovery_or_fail_def Let_def)
  show ?thesis
  proof (cases loaded)
    case None
    then show ?thesis using run assms(4) l1 by (auto simp: index_store_new_def)
  next
    case (Some m)
    then have m: "map_ok norm m" "disk_says norm d1 (map_of m)" "dirs_ok norm (id_dirs d1)"
      using l1 unfolding disk_ok_def by blast+
    obtain d2 r2 where a: "startup_audit norm f now d1 m = (d2, r2)" by (cases "startup_audit norm f now d1 m")
    note au = startup_audit_done [OF m(3) assms(2,3) m(1,2) a]
    have d2: "disk_ok norm d2" using au l1 by (auto simp: audit_done_def same_files_def disk_ok_def)
    show ?thesis
    proof (cases r2)
      case None
      then show ?thesis using run assms(4) Some a d2 by (auto simp: index_store_new_def)
    next
      case m2: (Some m2)
      let ?es = "sort_entries_desc (map snd m2)"
      have g: "map_ok norm m2" "disk_says norm d2 (map_of m2)" using au m2 by (auto simp: audit_done_def)
      have ids: "distinct (map ie_session_id (map snd m2))" using map_ok_values(2) [OF g(1)] map_ok_ids [OF g(1)] by (simp del: map_map)
      then have mem: "memory_ok norm ?es"
        using map_ok_values(3) [OF g(1)] by (auto simp: memory_ok_def newest_first_sort list_all_iff good_entry_def simp del: map_map)
      have "entry_map ?es = map_of m2"
        using entry_map_cong [of ?es "map snd m2"] ids map_ok_entries [OF g(1)] by simp
      then have "synced norm \<lparr>ix_entries = ?es, ix_health = Healthy, ix_disk = d2\<lparr>id_marker := False\<rparr>\<rparr>"
        using mem d2 g(2) by (simp add: synced_def store_ok_def disk_ok_def)
      then show ?thesis using run assms(4) Some a m2 d2 by (auto simp: index_store_new_def disk_ok_def split: if_splits)
    qed
  qed
qed


lemma reached_ok:
  assumes "times_ok norm"
  shows "disk_reached norm rlen d \<Longrightarrow> disk_ok norm d" and "store_reached norm rlen st \<Longrightarrow> index_ok norm st"
proof (induction rule: disk_reached_store_reached.inducts)
  case empty
  show ?case using disk_says_empty [of norm] by (auto simp: disk_ok_def empty_disk_def dirs_ok_def)
next
  case (started d f now d' st)
  then show ?case using load_done [OF _ assms] synced_index_ok by blast
next
  case (failed d f now d' err)
  then show ?case using load_done [OF _ assms] by blast
next
  case (step st op)
  then show ?case using index_step_ok [OF _ assms] by blast
next
  case (stopped st)
  then show ?case by (simp add: index_ok_def store_ok_def)
qed

lemma reached_fold:
  "list_all (whole_op norm) ops \<Longrightarrow> store_reached norm rlen st \<Longrightarrow> store_reached norm rlen (fold (index_step norm rlen) ops st)"
  by (induction ops arbitrary: st) (auto intro: disk_reached_store_reached.step)

definition no_rotate_faults :: rotate_faults where
  "no_rotate_faults = \<lparr>rf_tmp = False, rf_stale_bak = False, rf_to_bak = False, rf_publish = False, rf_rollback = False,
     rf_sync = False, rf_cleanup = False, rf_remove_live = False, rf_restore = False, rf_restore_sync = False\<rparr>"

definition no_load_faults :: load_faults where
  "no_load_faults = \<lparr>lf_root = False, lf_stale = [], lf_snapshot = WriteOk, lf_rotate = no_rotate_faults,
     lf_audit = (\<lambda>_. AppendOk), lf_unmark = False\<rparr>"

lemma synced_restart:
  assumes "synced norm st" "times_ok norm"
  shows "\<exists>d' es. load_with_recovery_or_fail norm no_load_faults now (ix_disk st) = (d', Inr es) \<and> newest_first es
    \<and> entry_map es = audited norm (id_dirs (ix_disk st)) (entry_map (ix_entries st))"
proof -
  let ?d = "(ix_disk st)\<lparr>id_staging := filter (\<lambda>nd. fst nd \<notin> set (lf_stale no_load_faults)) (id_staging (ix_disk st))\<rparr>"
  have s: "disk_says norm ?d (entry_map (ix_entries st))" "\<not> id_marker (ix_disk st)" "dirs_ok norm (id_dirs ?d)"
    using assms(1) by (simp_all add: synced_def store_ok_def disk_ok_def)
  obtain m where m: "load_entries_snapshot_and_log norm ?d = Some m" "map_ok norm m" "map_of m = entry_map (ix_entries st)"
    using load_says [OF s(1)] .
  obtain d2 r where a: "startup_audit norm no_load_faults now ?d m = (d2, r)"
    by (cases "startup_audit norm no_load_faults now ?d m")
  have ok: "\<forall>sid. lf_audit no_load_faults sid = AppendOk" by (simp add: no_load_faults_def)
  then have w: "\<forall>sid. whole (lf_audit no_load_faults sid)" by (simp add: whole_def)
  have says: "disk_says norm ?d (map_of m)" using s(1) m(3) by simp
  note au = startup_audit_done [OF s(3) assms(2) w m(2) says a]
  then obtain m2 where m2: "r = Some m2" "map_ok norm m2" "map_of m2 = audited norm (id_dirs (ix_disk st)) (entry_map (ix_entries st))"
    using ok m(3) by (auto simp: audit_done_def)
  have ids: "distinct (map ie_session_id (map snd m2))"
    using map_ok_values(2) [OF m2(2)] map_ok_ids [OF m2(2)] by (simp del: map_map)
  have "entry_map (sort_entries_desc (map snd m2)) = map_of m2"
    using entry_map_cong [of "sort_entries_desc (map snd m2)" "map snd m2"] ids map_ok_entries [OF m2(2)] by simp
  moreover have "lf_root no_load_faults = False" "lf_unmark no_load_faults = False" by (simp_all add: no_load_faults_def)
  ultimately show ?thesis
    using m(1) s(2) a m2 newest_first_sort [OF ids] by (simp add: load_with_recovery_or_fail_def Let_def)
qed

text \<open>C29: (Recovery) Whatever operations on the session index run, over whatever starts and restarts, and however
  their metadata writes, directory moves and removals, compactions and their rollbacks fail, as long as a log write
  happens entirely or not at all: while the index is not marked for repair, the next start finds for every session
  whose directory still tells of it exactly the entry that was in memory, preview and position included, drops the
  entries whose directory is gone, adds the directories that had no entry, and lists them newest first.\<close>

theorem index_survives_restart:
  assumes "times_ok norm" and "store_reached norm rlen st" and "ix_health st = Healthy"
  shows "\<exists>d' es. load_with_recovery_or_fail norm no_load_faults now (ix_disk st) = (d', Inr es) \<and> newest_first es
    \<and> entry_map es = audited norm (id_dirs (ix_disk st)) (entry_map (ix_entries st))"
proof -
  have "index_ok norm st" using reached_ok(2) [OF assms(1,2)] .
  then have "synced norm st" using assms(3) by (simp add: index_ok_def)
  then show ?thesis using synced_restart assms(1) by blast
qed

text \<open>One session created, a touch of it whose log write never opened the file, a touch that works.\<close>

definition no_compact_faults :: compact_faults where
  "no_compact_faults = \<lparr>kf_read = False, kf_snapshot = WriteOk, kf_rotate = no_rotate_faults, kf_marker = WriteOk\<rparr>"

definition no_create_faults :: create_faults where
  "no_create_faults = \<lparr>cf_unstage = False, cf_mkdir = False, cf_metadata = WriteOk, cf_append = AppendOk, cf_publish = False,
     cf_compensation = AppendOk, cf_marker = WriteOk, cf_cleanup = False, cf_compact = no_compact_faults\<rparr>"

definition append_fails :: "append_fault \<Rightarrow> update_faults" where
  "append_fails f = \<lparr>uf_append = f, uf_metadata = WriteOk, uf_marker = WriteOk, uf_compact = no_compact_faults\<rparr>"

definition sample_entry :: index_entry where
  "sample_entry = \<lparr>ie_session_id = ''s1'', ie_title = None, ie_created_at = ''t0'', ie_updated_at = ''t0'',
     ie_last_event_seq = 0, ie_last_preview = ''''\<rparr>"

definition sample_index_ops :: "append_fault \<Rightarrow> index_op list" where
  "sample_index_ops f =
     [CreateEntry no_create_faults ''t0'' sample_entry,
      TouchEntry (append_fails f) ''t1'' ''s1'' ''t1'' 1 ''lost'',
      TouchEntry (append_fails AppendOk) ''t2'' ''s1'' ''t2'' 2 ''kept'']"

definition empty_store :: index_store where
  "empty_store = \<lparr>ix_entries = [], ix_health = Healthy, ix_disk = empty_disk\<rparr>"

definition sample_index_store :: "append_fault \<Rightarrow> index_store" where
  "sample_index_store f = fold (index_step Some (\<lambda>_. 100)) (sample_index_ops f) empty_store"

definition previews :: "index_disk \<times> (index_error + index_entry list) \<Rightarrow> (string \<times> string) list" where
  "previews r = (case snd r of Inl _ \<Rightarrow> [] | Inr es \<Rightarrow> map (\<lambda>e. (ie_session_id e, ie_last_preview e)) es)"

lemma sample_index_reached: "store_reached Some (\<lambda>_. 100) (sample_index_store AppendNotOpened)"
proof -
  have "index_store_new Some no_load_faults ''t0'' empty_disk = (empty_disk, Inr empty_store)" by code_simp
  moreover have "\<forall>sid. whole (lf_audit no_load_faults sid)" by (simp add: no_load_faults_def whole_def)
  ultimately have "store_reached Some (\<lambda>_. 100) empty_store" using disk_reached_store_reached.started disk_reached_store_reached.empty by blast
  moreover have "list_all (whole_op Some) (sample_index_ops AppendNotOpened)"
    by (simp add: sample_index_ops_def no_create_faults_def append_fails_def whole_def)
  ultimately show ?thesis using reached_fold unfolding sample_index_store_def by blast
qed

theorem index_survives_restart_witness:
  "\<exists>d' es. load_with_recovery_or_fail Some no_load_faults ''t3'' (ix_disk (sample_index_store AppendNotOpened)) = (d', Inr es)
    \<and> newest_first es \<and> map_option ie_last_preview (entry_map es ''s1'') = Some ''kept''"
proof -
  have "ix_health (sample_index_store AppendNotOpened) = Healthy" by code_simp
  moreover have "map_option ie_last_preview (audited Some (id_dirs (ix_disk (sample_index_store AppendNotOpened)))
      (entry_map (ix_entries (sample_index_store AppendNotOpened))) ''s1'') = Some ''kept''" by code_simp
  moreover have "times_ok Some" by (simp add: times_ok_def)
  ultimately show ?thesis using index_survives_restart [OF _ sample_index_reached] by metis
qed

text \<open>A log write cut short leaves the store writable: the next record lands on the torn line, the following start
  cannot parse the log, rebuilds the index from the directories, and the previews are gone.\<close>

theorem torn_index_write_loses_previews:
  "ix_health (sample_index_store (AppendTorn 7)) = Healthy
   \<and> map ie_last_preview (ix_entries (sample_index_store (AppendTorn 7))) = [''kept'']
   \<and> previews (load_with_recovery_or_fail Some no_load_faults ''t3'' (ix_disk (sample_index_store (AppendTorn 7)))) = [(''s1'', '''')]"
  by code_simp

text \<open>Creating a session over an existing directory takes the existing session out of the index.\<close>

theorem create_over_existing_drops_entry:
  "(let st = sample_index_store AppendOk;
        (st', res) = create_session_index_entry Some (\<lambda>_. 100) no_create_faults ''t4'' sample_entry st
    in res = Inl PublishRolledBack \<and> length (ix_entries st) = 1 \<and> ix_entries st' = []
       \<and> map fst (id_dirs (ix_disk st')) = [''s1''])"
  by code_simp

end
