(* ===== verification/SessionList.thy ===== *)
theory SessionList
  imports Gateway SessionIndex
begin

text \<open>
  How the gateway uses the session index (\<open>state/events.rs\<close> and \<open>handlers/session.rs\<close> under
  \<open>openjax-gateway/src\<close>): creating and deleting sessions together with the store, the titles and
  previews taken from the user's messages with the cache that keeps a message from being looked at
  twice, and the pages of the session list. The lemmas: the cache answers like an unbounded record of
  the messages seen, and following the pages visits every session once.
\<close>

section \<open>Titles and previews\<close>

definition truncate_utf8_chars :: "string \<Rightarrow> nat \<Rightarrow> string" where
  "truncate_utf8_chars s n = (if length s \<le> n then s else take n s)"

definition message_content :: "string \<Rightarrow> json \<Rightarrow> string option" where
  "message_content ty payload =
     (if ty \<noteq> ''user_message'' then None else Option.bind (json_get payload ''content'') as_str)"

definition derive_last_preview :: "string \<Rightarrow> json \<Rightarrow> string option" where
  "derive_last_preview ty payload = map_option (\<lambda>c. truncate_utf8_chars (trim c) 120) (message_content ty payload)"

definition normalized_message :: "string \<Rightarrow> string" where
  "normalized_message raw = join '' '' (split_whitespace raw)"

definition MAX_TITLE_CHARS :: nat where "MAX_TITLE_CHARS = 24"

definition derive_session_title :: "string \<Rightarrow> json \<Rightarrow> string option" where
  "derive_session_title ty payload = (case message_content ty payload of
     None \<Rightarrow> None
   | Some raw \<Rightarrow>
       (let n = normalized_message raw
        in if n = [] then None
           else Some (if length n > MAX_TITLE_CHARS then take MAX_TITLE_CHARS n @ ellipsis else n)))"

text \<open>The key of a message in the cache, over the standard library's hash of its text.\<close>

definition build_auto_title_dedupe_key :: "(string \<Rightarrow> nat) \<Rightarrow> transcript_record \<Rightarrow> string option" where
  "build_auto_title_dedupe_key hash r = (case message_content (ts_event_type r) (ts_payload r) of
     None \<Rightarrow> None
   | Some raw \<Rightarrow>
       (let n = normalized_message raw
        in if n = [] then None
           else Some (join ''|'' [ts_session_id r, case ts_turn_id r of None \<Rightarrow> [] | Some t \<Rightarrow> t,
                                  dec_of_nat (ts_turn_seq r), ts_event_type r, dec_of_nat (hash n)])))"

section \<open>The cache of titled messages\<close>

record title_cache =
  tc_ttl :: nat
  tc_cap :: nat
  tc_expires_at :: "(string \<times> nat) list"
  tc_order :: "string list"

definition AUTO_TITLE_DEDUPE_TTL_MS :: nat where "AUTO_TITLE_DEDUPE_TTL_MS = 30000"
definition AUTO_TITLE_DEDUPE_MAX_KEYS :: nat where "AUTO_TITLE_DEDUPE_MAX_KEYS = 10000"

definition title_cache_new :: "nat \<Rightarrow> nat \<Rightarrow> title_cache" where
  "title_cache_new ttl cap = \<lparr>tc_ttl = ttl, tc_cap = max cap 1, tc_expires_at = [], tc_order = []\<rparr>"

fun evict_expired_loop :: "nat \<Rightarrow> (string \<times> nat) list \<Rightarrow> string list \<Rightarrow> string list \<Rightarrow> (string \<times> nat) list \<times> string list" where
  "evict_expired_loop now live kept [] = (live, kept)"
| "evict_expired_loop now live kept (k # ks) =
     (case map_of live k of
        None \<Rightarrow> evict_expired_loop now live kept ks
      | Some t \<Rightarrow>
          if t \<le> now then evict_expired_loop now (AList.delete k live) kept ks
          else evict_expired_loop now live (if k \<in> set kept then kept else kept @ [k]) ks)"

definition evict_expired :: "nat \<Rightarrow> title_cache \<Rightarrow> title_cache" where
  "evict_expired now c =
     (let (live, kept) = evict_expired_loop now (tc_expires_at c) [] (tc_order c)
      in c\<lparr>tc_expires_at := live, tc_order := kept\<rparr>)"

fun evict_overflow_loop :: "nat \<Rightarrow> (string \<times> nat) list \<Rightarrow> string list \<Rightarrow> (string \<times> nat) list \<times> string list" where
  "evict_overflow_loop cap live [] = (live, [])"
| "evict_overflow_loop cap live (k # ks) =
     (if length live > cap then evict_overflow_loop cap (AList.delete k live) ks else (live, k # ks))"

definition evict_overflow :: "title_cache \<Rightarrow> title_cache" where
  "evict_overflow c =
     (let (live, order) = evict_overflow_loop (tc_cap c) (tc_expires_at c) (tc_order c)
      in c\<lparr>tc_expires_at := live, tc_order := order\<rparr>)"

definition saturating_sum :: "nat \<Rightarrow> nat \<Rightarrow> nat" where
  "saturating_sum a b = (if fits_u64 (a + b) then a + b else 2 ^ 64 - 1)"

definition should_skip :: "string \<Rightarrow> nat \<Rightarrow> title_cache \<Rightarrow> bool \<times> title_cache" where
  "should_skip key now c =
     (let c = evict_expired now c
      in if (case map_of (tc_expires_at c) key of Some t \<Rightarrow> t > now | None \<Rightarrow> False) then (True, c)
         else
           (False, evict_overflow
              (c\<lparr>tc_expires_at := AList.update key (saturating_sum now (tc_ttl c)) (AList.delete key (tc_expires_at c)),
                 tc_order := filter (\<lambda>k. k \<noteq> key) (tc_order c) @ [key]\<rparr>)))"

section \<open>Sessions of the gateway\<close>

text \<open>\<open>map_session_index_error\<close>; \<open>text_of\<close> prints an error of the index.\<close>

definition map_session_index_error :: "(index_error \<Rightarrow> string) \<Rightarrow> index_error \<Rightarrow> api_error" where
  "map_session_index_error text_of e =
     (if names_repair e
      then \<lparr>ap_status = 503, ap_code = ''INDEX_REPAIR_REQUIRED'', ap_message = ''session index requires repair'',
            ap_retryable = False, ap_details = json_obj []\<rparr>
      else api_internal (text_of e))"

text \<open>The sessions loaded in memory beside the index; \<open>build\<close> builds one from its transcript.\<close>

record 'r session_service =
  ss_index :: index_store
  ss_loaded :: "(string \<times> 'r) list"

record service_env =
  sv_norm :: "string \<Rightarrow> string option"
  sv_len :: "index_log_record \<Rightarrow> nat"
  sv_text :: "index_error \<Rightarrow> string"
  sv_hash :: "string \<Rightarrow> nat"

definition new_entry :: "string \<Rightarrow> string \<Rightarrow> index_entry" where
  "new_entry sid now =
     \<lparr>ie_session_id = sid, ie_title = None, ie_created_at = now, ie_updated_at = now, ie_last_event_seq = 0, ie_last_preview = []\<rparr>"

text \<open>\<open>AppState::create_session\<close> with a fresh id; \<open>store\<close> is the error of the database, if any.\<close>

definition app_create_session ::
    "service_env \<Rightarrow> (string \<Rightarrow> string + 'r) \<Rightarrow> create_faults \<Rightarrow> delete_faults \<Rightarrow> string option \<Rightarrow> string \<Rightarrow> string \<Rightarrow>
     'r session_service \<Rightarrow> (api_error + string) \<times> 'r session_service" where
  "app_create_session env build cf df store sid now s =
     (case create_session_index_entry (sv_norm env) (sv_len env) cf now (new_entry sid now) (ss_index s) of
        (ix, Inl e) \<Rightarrow> (Inl (map_session_index_error (sv_text env) e), s\<lparr>ss_index := ix\<rparr>)
      | (ix, Inr ()) \<Rightarrow>
          (case store of
             Some err \<Rightarrow>
               (case delete_session_index_entry (sv_len env) df now sid ix of
                  (ix, Inl e) \<Rightarrow>
                    (Inl (api_internal (''create_session store failure rollback failed: store='' @ err @ ''; rollback='' @ sv_text env e)),
                     s\<lparr>ss_index := ix\<rparr>)
                | (ix, Inr ()) \<Rightarrow> (Inl (map_store_error err), s\<lparr>ss_index := ix\<rparr>))
           | None \<Rightarrow>
               (case build sid of
                  Inl err \<Rightarrow> (Inl (map_store_error err), s\<lparr>ss_index := ix\<rparr>)
                | Inr r \<Rightarrow> (Inr sid, s\<lparr>ss_index := ix, ss_loaded := AList.update sid r (ss_loaded s)\<rparr>))))"

definition app_get_session ::
    "(string \<Rightarrow> string + 'r) \<Rightarrow> string \<Rightarrow> 'r session_service \<Rightarrow> (api_error + 'r) \<times> 'r session_service" where
  "app_get_session build sid s = (case map_of (ss_loaded s) sid of
     Some r \<Rightarrow> (Inr r, s)
   | None \<Rightarrow>
       if \<not> list_ex (\<lambda>e. ie_session_id e = sid) (ix_entries (ss_index s))
       then (Inl (api_not_found ''session not found'' (json_obj [(''session_id'', JString sid)])), s)
       else (case build sid of
               Inl err \<Rightarrow> (Inl (map_store_error err), s)
             | Inr r \<Rightarrow> (Inr r, s\<lparr>ss_loaded := AList.update sid r (ss_loaded s)\<rparr>)))"

text \<open>\<open>AppState::delete_session\<close>: when the database refuses, the entry is created again.\<close>

definition app_delete_session ::
    "service_env \<Rightarrow> delete_faults \<Rightarrow> create_faults \<Rightarrow> string option \<Rightarrow> string \<Rightarrow> string \<Rightarrow>
     'r session_service \<Rightarrow> (api_error + unit) \<times> 'r session_service" where
  "app_delete_session env df cf store sid now s =
     (let s = s\<lparr>ss_loaded := AList.delete sid (ss_loaded s)\<rparr>;
          snapshot = find_entry sid (ss_index s)
      in case delete_session_index_entry (sv_len env) df now sid (ss_index s) of
        (ix, Inl e) \<Rightarrow> (Inl (map_session_index_error (sv_text env) e), s\<lparr>ss_index := ix\<rparr>)
      | (ix, Inr ()) \<Rightarrow>
          (case store of
             None \<Rightarrow> (Inr (), s\<lparr>ss_index := ix\<rparr>)
           | Some err \<Rightarrow>
               (case snapshot of
                  None \<Rightarrow> (Inl (map_store_error err), s\<lparr>ss_index := ix\<rparr>)
                | Some entry \<Rightarrow>
                    (case create_session_index_entry (sv_norm env) (sv_len env) cf now entry ix of
                       (ix, Inl e) \<Rightarrow>
                         (Inl (api_internal (''delete_session store failure rollback failed: store='' @ err @ ''; rollback='' @ sv_text env e)),
                          s\<lparr>ss_index := ix\<rparr>)
                     | (ix, Inr ()) \<Rightarrow> (Inl (map_store_error err), s\<lparr>ss_index := ix\<rparr>)))))"

text \<open>\<open>refresh_session_index_from_event\<close>: the first message of a session gives its title, the last
  its preview.\<close>

definition refresh_session_index_from_event ::
    "service_env \<Rightarrow> update_faults \<Rightarrow> update_faults \<Rightarrow> nat \<Rightarrow> string \<Rightarrow> transcript_record \<Rightarrow>
     index_store \<Rightarrow> title_cache \<Rightarrow> (index_error + unit) \<times> index_store \<times> title_cache" where
  "refresh_session_index_from_event env tf uf now_ms now r ix c =
     (let current = (case find_entry (ts_session_id r) ix of None \<Rightarrow> [] | Some e \<Rightarrow> ie_last_preview e);
          (skip, c) = (case derive_session_title (ts_event_type r) (ts_payload r) of
             None \<Rightarrow> (True, c)
           | Some _ \<Rightarrow> (case build_auto_title_dedupe_key (sv_hash env) r of
               None \<Rightarrow> (False, c) | Some key \<Rightarrow> should_skip key now_ms c));
          (ix, titled) = (case derive_session_title (ts_event_type r) (ts_payload r) of
             None \<Rightarrow> (ix, Inr False)
           | Some title \<Rightarrow>
               if skip then (ix, Inr False)
               else update_session_title_if_empty (sv_len env) tf now (ts_session_id r) title ix)
      in case titled of
           Inl e \<Rightarrow> (Inl e, ix, c)
         | Inr _ \<Rightarrow>
             (let (ix, res) = touch_session_index_entry (sv_norm env) (sv_len env) uf now (ts_session_id r) (ts_timestamp r)
                    (ts_event_seq r)
                    (case derive_last_preview (ts_event_type r) (ts_payload r) of None \<Rightarrow> current | Some p \<Rightarrow> p) ix
              in (res, ix, c)))"

section \<open>The pages of the session list\<close>

definition normalize_limit :: "nat option \<Rightarrow> nat" where
  "normalize_limit limit = min 100 (max 1 (case limit of None \<Rightarrow> 20 | Some n \<Rightarrow> n))"

type_synonym list_cursor = "string \<times> string"

definition list_persisted_sessions ::
    "list_cursor option \<Rightarrow> nat \<Rightarrow> index_store \<Rightarrow> api_error + index_entry list \<times> list_cursor option" where
  "list_persisted_sessions cursor limit ix =
     (if ix_health ix = RepairRequired then Inl (map_session_index_error (\<lambda>_. []) IndexRepairRequired)
      else
        (let included = (\<lambda>e. case cursor of
               None \<Rightarrow> True
             | Some (t, sid) \<Rightarrow> ie_updated_at e < t \<or> ie_updated_at e = t \<and> ie_session_id e < sid);
             sessions = take limit (filter included (ix_entries ix))
         in Inr (sessions,
                 if length sessions = limit
                 then (case rev sessions of [] \<Rightarrow> None | l # _ \<Rightarrow> Some (ie_updated_at l, ie_session_id l))
                 else None)))"

text \<open>Cursors as the client sees them: JSON in URL-safe base64, both from libraries.\<close>

record cursor_env =
  ce_to_json :: "list_cursor \<Rightarrow> string"
  ce_from_json :: "string \<Rightarrow> list_cursor option"
  ce_encode :: "string \<Rightarrow> string"
  ce_decode :: "string \<Rightarrow> string option"

definition invalid_cursor :: "string \<Rightarrow> api_error" where
  "invalid_cursor why = api_invalid_argument ''invalid cursor'' (json_obj [(''cursor'', JString why)])"

definition normalize_cursor_timestamp :: "(string \<Rightarrow> string option) \<Rightarrow> string \<Rightarrow> api_error + string" where
  "normalize_cursor_timestamp norm ts = (case norm ts of None \<Rightarrow> Inl (invalid_cursor ''ts_invalid'') | Some t \<Rightarrow> Inr t)"

definition decode_cursor ::
    "cursor_env \<Rightarrow> (string \<Rightarrow> string option) \<Rightarrow> string option \<Rightarrow> api_error + list_cursor option" where
  "decode_cursor ce norm cursor = (case cursor of
     None \<Rightarrow> Inr None
   | Some c \<Rightarrow>
       (case ce_decode ce c of
          None \<Rightarrow> Inl (invalid_cursor ''decode_failed'')
        | Some raw \<Rightarrow>
            (case ce_from_json ce raw of
               None \<Rightarrow> Inl (invalid_cursor ''json_invalid'')
             | Some (t, sid) \<Rightarrow> map_sum id (\<lambda>t'. Some (t', sid)) (normalize_cursor_timestamp norm t))))"

definition encode_cursor :: "cursor_env \<Rightarrow> (string \<Rightarrow> string option) \<Rightarrow> list_cursor \<Rightarrow> api_error + string" where
  "encode_cursor ce norm c =
     map_sum id (\<lambda>t. ce_encode ce (ce_to_json ce (t, snd c))) (normalize_cursor_timestamp norm (fst c))"

record session_summary =
  su_session_id :: string
  su_title :: "string option"
  su_created_at :: string
  su_updated_at :: string

definition summary_of :: "index_entry \<Rightarrow> session_summary" where
  "summary_of e = \<lparr>su_session_id = ie_session_id e, su_title = ie_title e, su_created_at = ie_created_at e,
     su_updated_at = ie_updated_at e\<rparr>"

definition list_sessions ::
    "cursor_env \<Rightarrow> (string \<Rightarrow> string option) \<Rightarrow> string option \<Rightarrow> nat option \<Rightarrow> index_store \<Rightarrow>
     api_error + session_summary list \<times> string option" where
  "list_sessions ce norm cursor limit ix =
     (case decode_cursor ce norm cursor of
        Inl e \<Rightarrow> Inl e
      | Inr decoded \<Rightarrow>
          (case list_persisted_sessions decoded (normalize_limit limit) ix of
             Inl e \<Rightarrow> Inl e
           | Inr (entries, None) \<Rightarrow> Inr (map summary_of entries, None)
           | Inr (entries, Some c) \<Rightarrow> map_sum id (\<lambda>c. (map summary_of entries, Some c)) (encode_cursor ce norm c)))"

text \<open>\<open>update_session_metadata\<close>: a title, tags, or both.\<close>

definition update_session_metadata ::
    "service_env \<Rightarrow> (string \<Rightarrow> string + 'r) \<Rightarrow> update_faults \<Rightarrow> update_faults \<Rightarrow> string \<Rightarrow> string \<Rightarrow> string option \<Rightarrow> string list option \<Rightarrow>
     'r session_service \<Rightarrow> (api_error + unit) \<times> 'r session_service" where
  "update_session_metadata env build tf gf now sid title tags s =
     (if title = None \<and> tags = None then
        (Inl (api_invalid_argument ''metadata update requires at least one field''
                (json_obj [(''required'', JArray [JString ''title'', JString ''tags''])])), s)
      else (case app_get_session build sid s of
        (Inl e, s) \<Rightarrow> (Inl e, s)
      | (Inr _, s) \<Rightarrow>
          (let (ix, res) = (case title of None \<Rightarrow> (ss_index s, Inr ()) | Some t \<Rightarrow> update_session_title (sv_len env) tf now sid (Some t) (ss_index s))
           in case res of
                Inl e \<Rightarrow> (Inl (map_session_index_error (sv_text env) e), s\<lparr>ss_index := ix\<rparr>)
              | Inr () \<Rightarrow>
                  (let (ix, res) = (case tags of None \<Rightarrow> (ix, Inr ()) | Some ts \<Rightarrow> update_session_tags (sv_len env) gf now sid ts ix)
                   in (map_sum (map_session_index_error (sv_text env)) id res, s\<lparr>ss_index := ix\<rparr>)))))"


section \<open>Following the pages\<close>

fun all_pages ::
    "cursor_env \<Rightarrow> (string \<Rightarrow> string option) \<Rightarrow> nat option \<Rightarrow> nat \<Rightarrow> string option \<Rightarrow> index_store \<Rightarrow> session_summary list option" where
  "all_pages ce norm limit 0 cursor ix = None"
| "all_pages ce norm limit (Suc n) cursor ix =
     (case list_sessions ce norm cursor limit ix of
        Inl _ \<Rightarrow> None
      | Inr (ss, None) \<Rightarrow> Some ss
      | Inr (ss, Some c) \<Rightarrow> map_option ((@) ss) (all_pages ce norm limit n (Some c) ix))"

definition cursor_laws :: "cursor_env \<Rightarrow> bool" where
  "cursor_laws ce \<longleftrightarrow> (\<forall>c. ce_from_json ce (ce_to_json ce c) = Some c) \<and> (\<forall>s. ce_decode ce (ce_encode ce s) = Some s)"

abbreviation after_cursor :: "list_cursor \<Rightarrow> index_entry \<Rightarrow> bool" where
  "after_cursor c e \<equiv> ie_updated_at e < fst c \<or> ie_updated_at e = fst c \<and> ie_session_id e < snd c"

definition cursor_of :: "index_entry \<Rightarrow> list_cursor" where
  "cursor_of e = (ie_updated_at e, ie_session_id e)"

lemma after_cursor_key: "after_cursor (cursor_of x) e \<longleftrightarrow> sort_entry_key e < sort_entry_key x"
  by (simp add: cursor_of_def sort_entry_key_def)

lemma filter_after:
  assumes "newest_first es" "k < length es"
  shows "filter (after_cursor (cursor_of (es ! k))) es = drop (Suc k) es"
proof -
  have split: "es = take k es @ es ! k # drop (Suc k) es" using assms(2) by (simp add: id_take_nth_drop)
  then have s: "sorted_wrt (\<lambda>a b. sort_entry_key b < sort_entry_key a) (take k es @ es ! k # drop (Suc k) es)"
    using assms(1) by (simp add: newest_first_def)
  have "filter (after_cursor (cursor_of (es ! k))) (take k es) = []"
    using s unfolding after_cursor_key by (auto simp: filter_empty_conv sorted_wrt_append dest: less_asym)
  moreover have "filter (after_cursor (cursor_of (es ! k))) (drop (Suc k) es) = drop (Suc k) es"
    using s unfolding after_cursor_key by (auto simp: filter_id_conv sorted_wrt_append)
  ultimately have "filter (after_cursor (cursor_of (es ! k))) (take k es @ es ! k # drop (Suc k) es) = drop (Suc k) es"
    unfolding filter_append by (simp add: cursor_of_def)
  then show ?thesis using split by metis
qed

text \<open>The cursor that stands before the entry number \<open>k\<close>.\<close>

definition cursor_at :: "cursor_env \<Rightarrow> index_entry list \<Rightarrow> nat \<Rightarrow> string option" where
  "cursor_at ce es k = (if k = 0 then None else Some (ce_encode ce (ce_to_json ce (cursor_of (es ! (k - 1))))))"

lemma normalize_limit_pos: "0 < normalize_limit limit"
  by (auto simp: normalize_limit_def)

lemma list_page:
  fixes limit :: "nat option"
  assumes "cursor_laws ce" "memory_ok norm (ix_entries ix)" "ix_health ix = Healthy" "k \<le> length (ix_entries ix)"
  defines "es \<equiv> ix_entries ix" and "n \<equiv> normalize_limit limit"
  shows "list_sessions ce norm (cursor_at ce es k) limit ix =
    Inr (map summary_of (take n (drop k es)), if k + n \<le> length es then cursor_at ce es (k + n) else None)"
proof -
  have sorted: "newest_first es" using assms(2) by (simp add: memory_ok_def es_def)
  have time: "norm (ie_updated_at (es ! i)) = Some (ie_updated_at (es ! i))" if "i < length es" for i
    using assms(2) that by (simp add: memory_ok_def es_def)
  have n: "0 < n" by (simp add: n_def normalize_limit_pos)
  have decoded: "decode_cursor ce norm (cursor_at ce es k) = Inr (if k = 0 then None else Some (cursor_of (es ! (k - 1))))"
    using assms(1,4) time [of "k - 1"]
    by (auto simp: decode_cursor_def cursor_at_def cursor_laws_def cursor_of_def normalize_cursor_timestamp_def es_def)
  have rest: "filter (\<lambda>e. case if k = 0 then None else Some (cursor_of (es ! (k - 1))) of None \<Rightarrow> True
      | Some (t, sid) \<Rightarrow> ie_updated_at e < t \<or> ie_updated_at e = t \<and> ie_session_id e < sid) es = drop k es"
    using filter_after [OF sorted, of "k - 1"] assms(4) by (cases k) (auto simp: cursor_of_def es_def)
  have len: "length (take n (drop k es)) = n \<longleftrightarrow> k + n \<le> length es" using assms(4) by (auto simp: es_def)
  have listed: "list_persisted_sessions (if k = 0 then None else Some (cursor_of (es ! (k - 1)))) n ix =
      Inr (take n (drop k es), if k + n \<le> length es then Some (cursor_of (es ! (k + n - 1))) else None)"
  proof (cases "k + n \<le> length es")
    case True
    have "take n (drop k es) \<noteq> []" "last (take n (drop k es)) = es ! (k + n - 1)"
      using n True by (auto simp: last_conv_nth)
    then have "(case rev (take n (drop k es)) of [] \<Rightarrow> None | l # _ \<Rightarrow> Some (ie_updated_at l, ie_session_id l)) = Some (cursor_of (es ! (k + n - 1)))"
      by (cases "take n (drop k es)" rule: rev_cases) (auto simp: cursor_of_def)
    then show ?thesis using True assms(3) rest len unfolding list_persisted_sessions_def Let_def es_def by simp
  next
    case False
    then show ?thesis using assms(3) rest len unfolding list_persisted_sessions_def Let_def es_def by simp
  qed
  show ?thesis
    using decoded listed n time [of "k + n - 1"]
    by (simp add: list_sessions_def n_def [symmetric] encode_cursor_def normalize_cursor_timestamp_def cursor_of_def cursor_at_def)
qed

lemma pages_from:
  assumes "cursor_laws ce" "memory_ok norm (ix_entries ix)" "ix_health ix = Healthy"
  shows "k \<le> length (ix_entries ix) \<Longrightarrow> length (ix_entries ix) - k < m \<Longrightarrow>
    all_pages ce norm limit m (cursor_at ce (ix_entries ix) k) ix = Some (map summary_of (drop k (ix_entries ix)))"
proof (induction m arbitrary: k)
  case (Suc m)
  let ?es = "ix_entries ix" and ?n = "normalize_limit limit"
  note page = list_page [OF assms Suc.prems(1), of limit]
  show ?case
  proof (cases "k + ?n \<le> length ?es")
    case True
    have c: "cursor_at ce ?es (k + ?n) = Some (ce_encode ce (ce_to_json ce (cursor_of (?es ! (k + ?n - 1)))))"
      using normalize_limit_pos [of limit] by (simp add: cursor_at_def)
    have "all_pages ce norm limit m (cursor_at ce ?es (k + ?n)) ix = Some (map summary_of (drop (k + ?n) ?es))"
      using Suc True normalize_limit_pos [of limit] by (intro Suc.IH) auto
    moreover have "map summary_of (take ?n (drop k ?es)) @ map summary_of (drop (k + ?n) ?es) = map summary_of (drop k ?es)"
      by (metis append_take_drop_id drop_drop add.commute map_append)
    ultimately show ?thesis using page c True by simp
  next
    case False
    then show ?thesis using page by simp
  qed
qed simp

text \<open>C30: (Termination) Following the cursors of the session list from the first page, whatever page size is asked for,
  ends after at most one page more than there are sessions and shows every session of the index exactly once, newest
  first, as long as the index does not change meanwhile; each answer's cursor survives its trip through JSON and base64.\<close>

theorem session_pages_cover_index:
  assumes "cursor_laws ce" and "times_ok norm" and "store_reached norm rlen ix" and "ix_health ix = Healthy"
  shows "all_pages ce norm limit (Suc (length (ix_entries ix))) None ix = Some (map summary_of (ix_entries ix))"
proof -
  have "memory_ok norm (ix_entries ix)" using reached_ok(2) [OF assms(2,3)] by (simp add: index_ok_def store_ok_def)
  then show ?thesis using pages_from [OF assms(1) _ assms(4), of norm 0 "Suc (length (ix_entries ix))" limit]
    by (simp add: cursor_at_def)
qed

definition sample_cursor_env :: cursor_env where
  "sample_cursor_env = \<lparr>ce_to_json = (\<lambda>c. dec_of_nat (length (fst c)) @ '':'' @ fst c @ snd c),
     ce_from_json = (\<lambda>s. case split_once s '':'' of None \<Rightarrow> None
        | Some (n, r) \<Rightarrow> map_option (\<lambda>n. (take n r, drop n r)) (parse_digits n)),
     ce_encode = rev, ce_decode = Some \<circ> rev\<rparr>"


lemma str_contains_char: "str_contains s [c] \<longleftrightarrow> c \<in> set s"
  by (induction s) auto

lemma sample_cursor_laws: "cursor_laws sample_cursor_env"
proof -
  have colon: "CHR '':'' \<notin> set (dec_of_nat n)" for n
  proof -
    have "\<not> is_digit (CHR '':'')" by code_simp
    then show ?thesis using dec_of_nat_digits [of n] by (auto simp: list_all_iff)
  qed
  have "split_once (dec_of_nat n @ '':'' @ r) '':'' = Some (dec_of_nat n, r)" for n r
    using colon [of n] by (intro split_once_first) (simp_all add: str_contains_char)
  then have "split_once (dec_of_nat n @ CHR '':'' # r) '':'' = Some (dec_of_nat n, r)" for n r by simp
  then show ?thesis by (auto simp: cursor_laws_def sample_cursor_env_def)
qed

theorem session_pages_cover_index_witness:
  "all_pages sample_cursor_env Some (Some 1) 2 None (sample_index_store AppendNotOpened)
     = Some (map summary_of (ix_entries (sample_index_store AppendNotOpened)))
   \<and> length (ix_entries (sample_index_store AppendNotOpened)) = 1"
proof -
  have one: "length (ix_entries (sample_index_store AppendNotOpened)) = 1" by code_simp
  have h: "ix_health (sample_index_store AppendNotOpened) = Healthy" by code_simp
  have "times_ok Some" by (simp add: times_ok_def)
  from session_pages_cover_index [OF sample_cursor_laws this sample_index_reached h, of "Some 1"]
  show ?thesis using one by (simp add: numeral_2_eq_2)
qed

section \<open>The cache answers like a record of every message\<close>

text \<open>The specification: a message is skipped when one of the last \<open>cap\<close> messages let through had its key, less
  than the time to live ago.\<close>

fun recent_skips :: "nat \<Rightarrow> nat \<Rightarrow> (string \<times> nat) list \<Rightarrow> (string \<times> nat) list \<Rightarrow> bool list" where
  "recent_skips ttl cap passed [] = []"
| "recent_skips ttl cap passed ((k, now) # rs) =
     (if \<exists>(k', t) \<in> set (take cap passed). k' = k \<and> now < t + ttl then True # recent_skips ttl cap passed rs
      else False # recent_skips ttl cap ((k, now) # passed) rs)"

fun cache_skips :: "title_cache \<Rightarrow> (string \<times> nat) list \<Rightarrow> bool list" where
  "cache_skips c [] = []"
| "cache_skips c ((k, now) # rs) = (let (b, c') = should_skip k now c in b # cache_skips c' rs)"

definition queue_ok :: "(string \<times> nat) list \<Rightarrow> string list \<Rightarrow> bool" where
  "queue_ok live order \<longleftrightarrow> distinct (map fst live) \<and> distinct order \<and> set order = fst ` set live"

lemma evict_expired_loop_eq:
  assumes "distinct (map fst live)" "distinct (kept @ ks)" "set kept \<union> set ks = fst ` set live"
    and "\<forall>k \<in> set kept. \<exists>t. map_of live k = Some t \<and> now < t"
  shows "evict_expired_loop now live kept ks =
    (filter (\<lambda>(k, t). now < t) live, kept @ filter (\<lambda>k. \<exists>t. map_of live k = Some t \<and> now < t) ks)"
  using assms
proof (induction ks arbitrary: live kept)
  case Nil
  have "now < t" if "(k, t) \<in> set live" for k t
  proof -
    have "k \<in> set kept" using Nil.prems(3) that by force
    then obtain t' where "map_of live k = Some t'" "now < t'" using Nil.prems(4) by blast
    then show ?thesis using map_of_is_SomeI [OF Nil.prems(1) that] by simp
  qed
  then have "filter (\<lambda>(k, t). now < t) live = live" by (auto simp: filter_id_conv)
  then show ?case by simp
next
  case (Cons k ks)
  obtain t where t: "map_of live k = Some t" using Cons.prems(3) by (metis UnI2 list.set_intros(1) map_of_eq_None_iff option.exhaust)
  show ?case
  proof (cases "t \<le> now")
    case True
    let ?l = "AList.delete k live"
    have d: "distinct (map fst ?l)" "fst ` set ?l = fst ` set live - {k}"
      using distinct_delete [OF Cons.prems(1)] by (auto simp: AList.delete_eq image_iff)
    have "evict_expired_loop now ?l kept ks =
        (filter (\<lambda>(k, t). now < t) ?l, kept @ filter (\<lambda>k. \<exists>t. map_of ?l k = Some t \<and> now < t) ks)"
      using Cons.prems d by (intro Cons.IH) (auto simp: delete_conv')
    moreover have "filter (\<lambda>(k, t). now < t) ?l = filter (\<lambda>(k, t). now < t) live"
      unfolding AList.delete_eq filter_filter
      by (rule filter_cong) (use t True map_of_is_SomeI [OF Cons.prems(1)] in auto)
    moreover have "filter (\<lambda>k. \<exists>t. map_of ?l k = Some t \<and> now < t) ks = filter (\<lambda>k. \<exists>t. map_of live k = Some t \<and> now < t) ks"
      using Cons.prems(2) by (intro filter_cong) (auto simp: delete_conv')
    ultimately show ?thesis using t True by simp
  next
    case False
    have "evict_expired_loop now live (kept @ [k]) ks =
        (filter (\<lambda>(k, t). now < t) live, (kept @ [k]) @ filter (\<lambda>k. \<exists>t. map_of live k = Some t \<and> now < t) ks)"
      using Cons.prems t False by (intro Cons.IH) auto
    then show ?thesis using t False Cons.prems(2) by auto
  qed
qed


lemma evict_expired_eq:
  assumes "queue_ok (tc_expires_at c) (tc_order c)"
  shows "evict_expired now c = c\<lparr>tc_expires_at := filter (\<lambda>(k, t). now < t) (tc_expires_at c),
    tc_order := filter (\<lambda>k. \<exists>t. map_of (tc_expires_at c) k = Some t \<and> now < t) (tc_order c)\<rparr>"
  using evict_expired_loop_eq [of "tc_expires_at c" "[]" "tc_order c" now] assms
  by (simp add: evict_expired_def queue_ok_def)

lemma map_of_unexpired:
  "distinct (map fst live) \<Longrightarrow>
   map_of (filter (\<lambda>(k, t). now < (t::nat)) live) k = (case map_of live k of Some t \<Rightarrow> if now < t then Some t else None | None \<Rightarrow> None)"
  by (induction live) (auto split: option.splits simp: map_of_eq_None_iff image_iff)

lemma queue_ok_unexpired:
  assumes "queue_ok live order"
  shows "queue_ok (filter (\<lambda>(k, t). now < t) live) (filter (\<lambda>k. \<exists>t. map_of live k = Some t \<and> now < t) order)"
proof -
  have d: "distinct (map fst live)" using assms by (simp add: queue_ok_def)
  then have "fst ` set (filter (\<lambda>(k, t). now < t) live) = {k \<in> fst ` set live. \<exists>t. map_of live k = Some t \<and> now < t}"
    by (auto simp: image_iff)
  then show ?thesis using assms by (auto simp: queue_ok_def distinct_map_filter)
qed

lemma queue_ok_put:
  assumes "queue_ok live order"
  shows "queue_ok (AList.update k e (AList.delete k live)) (filter (\<lambda>x. x \<noteq> k) order @ [k])"
proof -
  have "distinct (map fst (AList.update k e (AList.delete k live)))"
    using assms by (simp add: queue_ok_def distinct_update distinct_delete)
  moreover have "fst ` set (AList.update k e (AList.delete k live)) = insert k (fst ` set live)"
    by (auto simp: dom_update AList.delete_eq image_iff)
  ultimately show ?thesis using assms by (auto simp: queue_ok_def)
qed


text \<open>What the cache holds: the messages let through that are still fresh and among the last \<open>cap\<close>, newest first.\<close>

abbreviation fresh :: "nat \<Rightarrow> nat \<Rightarrow> string \<times> nat \<Rightarrow> bool" where
  "fresh ttl now \<equiv> \<lambda>(k, t). now < t + ttl"

definition cache_holds :: "nat \<Rightarrow> (string \<times> nat) list \<Rightarrow> (string \<times> nat) list \<Rightarrow> string list \<Rightarrow> bool" where
  "cache_holds ttl W live order \<longleftrightarrow> distinct (map fst W) \<and> order = rev (map fst W) \<and> queue_ok live order
     \<and> (\<forall>x. map_of live x = map_option (\<lambda>t. t + ttl) (map_of W x))"

definition cache_ok :: "nat \<Rightarrow> nat \<Rightarrow> nat \<Rightarrow> (string \<times> nat) list \<Rightarrow> title_cache \<Rightarrow> bool" where
  "cache_ok ttl cap now passed c \<longleftrightarrow> tc_ttl c = ttl \<and> tc_cap c = cap \<and> sorted (rev (map snd passed))
     \<and> (\<forall>(k, t) \<in> set passed. t \<le> now)
     \<and> (\<exists>W. cache_holds ttl W (tc_expires_at c) (tc_order c)
          \<and> (\<forall>later \<ge> now. filter (fresh ttl later) W = filter (fresh ttl later) (take cap passed)))"

lemma cache_holdsD:
  assumes "cache_holds ttl W live order"
  shows "distinct (map fst W)" "order = rev (map fst W)" "queue_ok live order"
    "map_of live x = map_option (\<lambda>t. t + ttl) (map_of W x)"
  using assms unfolding cache_holds_def by blast+

lemma queue_ok_length: "queue_ok live order \<Longrightarrow> length live = length order"
  by (metis distinct_card length_map list.set_map queue_ok_def)

lemma map_of_filter_value:
  "distinct (map fst W) \<Longrightarrow>
   map_of (filter (\<lambda>(k, t). P t) W) x = (case map_of W x of Some t \<Rightarrow> if P t then Some t else None | None \<Rightarrow> None)"
  by (induction W) (auto split: option.splits simp: map_of_eq_None_iff image_iff)

lemma filter_fresh_later: "now \<le> later \<Longrightarrow> filter (fresh ttl later) (filter (fresh ttl now) W) = filter (fresh ttl later) W"
  by (auto intro: filter_cong)

lemma cache_holds_unexpired:
  assumes "cache_holds ttl W live order"
  shows "cache_holds ttl (filter (fresh ttl now) W) (filter (\<lambda>(k, t). now < t) live)
    (filter (\<lambda>k. \<exists>t. map_of live k = Some t \<and> now < t) order)"
proof -
  note W = cache_holdsD(1-3) [OF assms] and look = cache_holdsD(4) [OF assms]
  have "filter (\<lambda>k. \<exists>t. map_of live k = Some t \<and> now < t) (map fst W) = map fst (filter (fresh ttl now) W)"
    unfolding filter_map comp_def
    by (intro arg_cong [where f = "map fst"] filter_cong) (auto simp: look map_of_is_SomeI [OF W(1)])
  then have order: "filter (\<lambda>k. \<exists>t. map_of live k = Some t \<and> now < t) order = rev (map fst (filter (fresh ttl now) W))"
    unfolding W(2) by (simp add: rev_filter [symmetric])
  have "map_of (filter (\<lambda>(k, t). now < t) live) x = map_option (\<lambda>t. t + ttl) (map_of (filter (fresh ttl now) W) x)" for x
    using W(3) map_of_filter_value [OF W(1), of "\<lambda>t. now < t + ttl" x] map_of_unexpired [of live now x] look [of x]
    by (cases "map_of W x") (simp_all add: queue_ok_def)
  then show ?thesis
    using queue_ok_unexpired [OF W(3), of now] W(1) order by (simp add: cache_holds_def distinct_map_filter)
qed

lemma cache_holds_put:
  assumes "cache_holds ttl W live order" "k \<notin> fst ` set W"
  shows "cache_holds ttl ((k, now) # W) (AList.update k (now + ttl) (AList.delete k live)) (filter (\<lambda>x. x \<noteq> k) order @ [k])"
proof -
  have "filter (\<lambda>x. x \<noteq> k) order = order" using assms by (auto simp: cache_holds_def filter_id_conv)
  then show ?thesis using assms queue_ok_put [of live order k "now + ttl"]
    by (auto simp: cache_holds_def update_conv' delete_conv')
qed

text \<open>One entry too many: the oldest goes.\<close>

lemma cache_holds_overflow:
  assumes "cache_holds ttl W live order" "length W \<le> Suc cap"
  defines "W' \<equiv> if length W = Suc cap then butlast W else W"
  shows "cache_holds ttl W' (fst (evict_overflow_loop cap live order)) (snd (evict_overflow_loop cap live order))"
proof (cases "length W = Suc cap")
  case False
  have "length live = length W" using queue_ok_length [OF cache_holdsD(3) [OF assms(1)]] cache_holdsD(2) [OF assms(1)] by simp
  then have "evict_overflow_loop cap live order = (live, order)" using False assms(2) by (cases order) simp_all
  then show ?thesis using assms(1) False by (simp add: W'_def)
next
  case True
  then obtain V k t where V: "W = V @ [(k, t)]" by (cases W rule: rev_cases) auto
  have W: "distinct (map fst W)" "order = k # rev (map fst V)" "queue_ok live order"
    and look: "map_of live x = map_option (\<lambda>t. t + ttl) (map_of W x)" for x
    using cache_holdsD [OF assms(1)] by (simp_all only: V map_append rev_append list.map fst_conv rev.simps append.simps)
  have "fst ` set (AList.delete k live) = fst ` set live - {k}" by (auto simp: AList.delete_eq image_iff)
  also have "fst ` set live = insert k (fst ` set V)" using W(2,3) by (simp add: queue_ok_def)
  also have "insert k (fst ` set V) - {k} = fst ` set V" using W(1) by (auto simp: V)
  finally have q: "queue_ok (AList.delete k live) (rev (map fst V))"
    using W(1,3) distinct_delete [of live k] by (simp add: queue_ok_def V)
  have len: "length live = Suc cap" "length (AList.delete k live) = cap"
    using queue_ok_length [OF W(3)] queue_ok_length [OF q] True W(2) by (simp_all add: V)
  have "evict_overflow_loop cap live order = (AList.delete k live, rev (map fst V))"
    using len by (cases "rev (map fst V)") (simp_all add: W(2))
  moreover have "map_of (AList.delete k live) x = map_option (\<lambda>t. t + ttl) (map_of V x)" for x
    using look [of x] W(1) by (auto simp: delete_conv' V map_add_def map_of_eq_None_iff split: option.splits)
  ultimately show ?thesis using q W(1) True by (simp add: cache_holds_def W'_def V)
qed

text \<open>Of the last \<open>cap\<close> messages the fresh ones come first, so a further message displaces the oldest fresh one
  only when all of them are fresh.\<close>

lemma fresh_displaced:
  assumes sorted: "sorted (rev (map snd passed))" and cap: "1 \<le> cap" and W: "W = filter (fresh ttl now) (take cap passed)"
  shows "filter (fresh ttl now) (take (cap - 1) passed) = (if length W = cap then butlast W else W)"
proof (cases "length W = cap")
  case True
  have "length W \<le> length (take cap passed)" unfolding W by (rule length_filter_le)
  then have len: "length (take cap passed) = cap" "cap \<le> length passed" using True by auto
  have all: "W = take cap passed"
    using True len(1) unfolding W by (metis filter_id_conv length_filter_less nat_neq_iff)
  have "\<forall>y \<in> set (take cap passed). fresh ttl now y" using trans [OF W [symmetric] all] unfolding filter_id_conv .
  then have "filter (fresh ttl now) (take (cap - 1) passed) = take (cap - 1) passed"
    using set_take_subset_set_take [OF diff_le_self [of cap 1], of passed] unfolding filter_id_conv by (meson subsetD)
  moreover have "butlast (take cap passed) = take (cap - 1) passed" using len(2) by (simp add: butlast_take)
  ultimately show ?thesis using True all by simp
next
  case False
  show ?thesis
  proof (cases "length passed < cap")
    case True
    then show ?thesis using False W by simp
  next
    case long: False
    define x where "x = passed ! (cap - 1)"
    have split: "take cap passed = take (cap - 1) passed @ [x]"
      using long cap take_Suc_conv_app_nth [of "cap - 1" passed] by (simp add: x_def)
    have oldest: "snd x \<le> snd y" if "y \<in> set (take cap passed)" for y
    proof -
      obtain i where i: "i < cap" "y = passed ! i" using \<open>y \<in> set (take cap passed)\<close> long by (auto simp: in_set_conv_nth)
      have "rev (map snd passed) ! (length passed - cap) \<le> rev (map snd passed) ! (length passed - Suc i)"
        by (rule sorted_nth_mono [OF sorted]) (use i cap long in auto)
      then show ?thesis using i cap long by (simp add: rev_nth x_def)
    qed
    have "\<not> fresh ttl now x"
    proof
      assume "fresh ttl now x"
      then have "\<forall>y \<in> set (take cap passed). fresh ttl now y" using oldest by (fastforce simp: case_prod_beta)
      then have "W = take cap passed" unfolding W by (simp add: filter_id_conv)
      then show False using False long by simp
    qed
    then show ?thesis using False by (simp add: W split)
  qed
qed

lemma should_skip_step:
  assumes c: "cache_ok ttl cap before passed c" and cap: "1 \<le> cap" and now: "before \<le> now" "now + ttl < 2 ^ 64"
    and run: "should_skip k now c = (hit, c')"
  shows "hit \<longleftrightarrow> (\<exists>(k', t) \<in> set (take cap passed). k' = k \<and> now < t + ttl)"
    and "cache_ok ttl cap now (if hit then passed else (k, now) # passed) c'"
proof -
  obtain W0 where W0: "cache_holds ttl W0 (tc_expires_at c) (tc_order c)"
    and look: "\<forall>later \<ge> before. filter (fresh ttl later) W0 = filter (fresh ttl later) (take cap passed)"
    using c by (auto simp: cache_ok_def)
  define W where "W = filter (fresh ttl now) W0"
  define live where "live = filter (\<lambda>(k, t). now < t) (tc_expires_at c)"
  define order where "order = filter (\<lambda>k. \<exists>t. map_of (tc_expires_at c) k = Some t \<and> now < t) (tc_order c)"
  have holds: "cache_holds ttl W live order"
    using cache_holds_unexpired [OF W0] by (simp add: W_def live_def order_def)
  have evicted: "evict_expired now c = c\<lparr>tc_expires_at := live, tc_order := order\<rparr>"
    using evict_expired_eq [OF cache_holdsD(3) [OF W0]] by (simp only: live_def order_def)
  have W: "W = filter (fresh ttl now) (take cap passed)" using look now(1) by (simp add: W_def)
  have later: "filter (fresh ttl later) W = filter (fresh ttl later) (take cap passed)" if "now \<le> later" for later
    unfolding W by (rule filter_fresh_later [OF that])
  have old: "tc_ttl c = ttl" "tc_cap c = cap" "\<forall>(k, t) \<in> set passed. t \<le> now" "sorted (rev (map snd passed))"
    using c now(1) by (auto simp: cache_ok_def)
  note keys = cache_holdsD(1,4) [OF holds]
  have "now < t + ttl" if "map_of W k = Some t" for t using map_of_SomeD [OF that] by (simp add: W)
  then have found: "(case map_of live k of Some t \<Rightarrow> t > now | None \<Rightarrow> False) \<longleftrightarrow> k \<in> fst ` set W"
    by (cases "map_of W k"; simp add: keys(2) [of k]) (simp add: map_of_eq_None_iff, force dest: map_of_SomeD)
  have hit: "hit \<longleftrightarrow> k \<in> fst ` set W"
    using run found by (simp add: should_skip_def Let_def evicted split: if_splits)
  then show "hit \<longleftrightarrow> (\<exists>(k', t) \<in> set (take cap passed). k' = k \<and> now < t + ttl)" by (force simp: W)
  show "cache_ok ttl cap now (if hit then passed else (k, now) # passed) c'"
  proof (cases hit)
    case True
    then have "c' = c\<lparr>tc_expires_at := live, tc_order := order\<rparr>"
      using run hit found by (simp add: should_skip_def Let_def evicted)
    then show ?thesis using True old holds later by (auto simp: cache_ok_def)
  next
    case False
    let ?new = "AList.update k (now + ttl) (AList.delete k live)" and ?queue = "filter (\<lambda>x. x \<noteq> k) order @ [k]"
    let ?W = "(k, now) # W"
    define W' where "W' = (if length ?W = Suc cap then butlast ?W else ?W)"
    have put: "cache_holds ttl ?W ?new ?queue" using cache_holds_put [OF holds] False hit by blast
    have "length W \<le> cap" unfolding W using length_filter_le [of "fresh ttl now" "take cap passed"] by simp
    then have holds': "cache_holds ttl W' (fst (evict_overflow_loop cap ?new ?queue)) (snd (evict_overflow_loop cap ?new ?queue))"
      using cache_holds_overflow [OF put, of cap] by (simp add: W'_def)
    have c': "c' = c\<lparr>tc_expires_at := fst (evict_overflow_loop cap ?new ?queue),
        tc_order := snd (evict_overflow_loop cap ?new ?queue)\<rparr>"
      using run hit found False old now(2)
      by (simp add: should_skip_def Let_def evicted evict_overflow_def saturating_sum_def case_prod_beta)
    have W': "W' = (k, now) # filter (fresh ttl now) (take (cap - 1) passed)"
      using fresh_displaced [OF old(4) cap W] cap by (cases W) (auto simp: W'_def)
    have "take cap ((k, now) # passed) = (k, now) # take (cap - 1) passed" using cap by (cases cap) simp_all
    then have "filter (fresh ttl later) W' = filter (fresh ttl later) (take cap ((k, now) # passed))" if "now \<le> later" for later
      using filter_fresh_later [OF that, of ttl "take (cap - 1) passed"] by (simp add: W')
    then show ?thesis using False old holds' unfolding c'
      by (auto simp: cache_ok_def sorted_append intro!: exI [of _ W'])
  qed
qed

lemma cache_skips_eq:
  assumes "cache_ok ttl cap before passed c" "1 \<le> cap"
    and "sorted (before # map snd rs)" "\<forall>(k, t) \<in> set rs. t + ttl < 2 ^ 64"
  shows "cache_skips c rs = recent_skips ttl cap passed rs"
  using assms
proof (induction rs arbitrary: before passed c)
  case (Cons r rs)
  obtain k now where r: "r = (k, now)" by (cases r)
  obtain hit c' where run: "should_skip k now c = (hit, c')" by (cases "should_skip k now c")
  have now: "before \<le> now" "now + ttl < 2 ^ 64" using Cons.prems(3,4) by (auto simp: r)
  note st = should_skip_step [OF Cons.prems(1,2) now run]
  have "cache_skips c' rs = recent_skips ttl cap (if hit then passed else (k, now) # passed) rs"
    using Cons.prems by (intro Cons.IH [OF st(2)]) (auto simp: r)
  then show ?case using st(1) run by (auto simp: r)
qed simp

text \<open>C31: (Equivalence) The cache that keeps a message from giving a title twice, with its time to live and its
  capacity, answers like a plain record of the messages it let through, as long as the clock does not run backwards
  (and stays a time to live away from the end of \<open>u64\<close>): a message is skipped if and only if one of the last \<open>cap\<close>
  messages let through had its key and came less than the time to live ago. So what does not fit is forgotten oldest
  first, and nothing else is.\<close>

theorem title_cache_exact:
  assumes "sorted (map snd rs)" and "\<forall>(k, t) \<in> set rs. t + ttl < 2 ^ 64"
  shows "cache_skips (title_cache_new ttl cap) rs = recent_skips ttl (max cap 1) [] rs"
proof -
  have "cache_ok ttl (max cap 1) 0 [] (title_cache_new ttl cap)"
    by (auto simp: cache_ok_def title_cache_new_def queue_ok_def cache_holds_def)
  then show ?thesis using assms by (intro cache_skips_eq) auto
qed

theorem title_cache_exact_witness:
  "cache_skips (title_cache_new 10 2) [(''a'', 0), (''a'', 9), (''b'', 9), (''c'', 9), (''b'', 9), (''a'', 9), (''b'', 9)]
   = [False, True, False, False, True, False, False]"
proof -
  let ?rs = "[(''a'', 0), (''a'', 9), (''b'', 9), (''c'', 9), (''b'', 9), (''a'', 9), (''b'', 9)] :: (string \<times> nat) list"
  have "cache_skips (title_cache_new 10 2) ?rs = recent_skips 10 (max 2 1) [] ?rs"
    by (rule title_cache_exact) simp_all
  also have "\<dots> = [False, True, False, False, True, False, False]" by code_simp
  finally show ?thesis .
qed


text \<open>A deletion the database refuses is rolled back in the index only: the entry is created again over a new
  directory, and the transcript that was in the old one is gone.\<close>

definition sample_service_env :: service_env where
  "sample_service_env = \<lparr>sv_norm = Some, sv_len = (\<lambda>_. 100), sv_text = (\<lambda>_. ''failed''), sv_hash = length\<rparr>"

definition no_delete_faults :: delete_faults where
  "no_delete_faults = \<lparr>df_append = AppendOk, df_remove = RemoveOk, df_compensation = AppendOk, df_marker = WriteOk,
     df_compact = no_compact_faults\<rparr>"

theorem refused_deletion_loses_transcript:
  "(let ix = on_disk (put_manifest ''s1'' 5) (sample_index_store AppendOk);
        (res, s) = app_delete_session sample_service_env no_delete_faults no_create_faults (Some ''locked'') ''s1'' ''t5''
                     \<lparr>ss_index = ix, ss_loaded = ([] :: (string \<times> unit) list)\<rparr>
    in res = Inl (api_internal ''locked'')
       \<and> map (\<lambda>e. (ie_session_id e, ie_last_event_seq e)) (ix_entries (ss_index s)) = [(''s1'', 2)]
       \<and> map (\<lambda>(n, dir). (n, md_manifest dir)) (id_dirs (ix_disk ix)) = [(''s1'', ManifestSeq 5)]
       \<and> map (\<lambda>(n, dir). (n, md_manifest dir)) (id_dirs (ix_disk (ss_index s))) = [(''s1'', NoManifestFile)])"
  by code_simp

end
