(* ===== verification/AuthStore.thy ===== *)
theory AuthStore
  imports Gateway
begin

text \<open>
  The database of logins of the gateway (\<open>openjax-gateway/src/auth/store.rs\<close>): the tables of
  sessions, access tokens and refresh tokens, each a list of rows in the order they were inserted,
  and the statements of every operation on them. Times are kept and compared as the RFC 3339 texts
  the code writes; the text of a time is an argument. What the database itself may do (fail before
  a transaction is committed, or fail to read afterwards) is the argument \<open>db_fault\<close>.
\<close>

section \<open>Tables\<close>

datatype auth_scope = Owner

definition scope_as_str :: "auth_scope \<Rightarrow> string" where
  "scope_as_str s = (case s of Owner \<Rightarrow> ''owner'')"

datatype auth_session_status = ActiveSession | RevokedSession | LoggedOut

definition session_status_as_str :: "auth_session_status \<Rightarrow> string" where
  "session_status_as_str s = (case s of ActiveSession \<Rightarrow> ''active'' | RevokedSession \<Rightarrow> ''revoked'' | LoggedOut \<Rightarrow> ''logged_out'')"

record session_record =
  sn_session_id :: string
  sn_device_id :: string
  sn_scope :: string
  sn_device_name :: "string option"
  sn_platform :: "string option"
  sn_user_agent :: "string option"
  sn_status :: string
  sn_created_at :: string
  sn_last_seen_at :: string
  sn_revoked_at :: "string option"

record access_row =
  ac_token_hash :: string
  ac_session_id :: string
  ac_expires_at :: string
  ac_created_at :: string
  ac_revoked_at :: "string option"

record refresh_row =
  rf_token_id :: string
  rf_session_id :: string
  rf_token_hash :: string
  rf_rotated_from :: "string option"
  rf_expires_at :: string
  rf_created_at :: string
  rf_revoked_at :: "string option"

record auth_db =
  db_sessions :: "session_record list"
  db_access :: "access_row list"
  db_refresh :: "refresh_row list"

text \<open>The tables of \<open>init_schema\<close>, created empty.\<close>

definition init_schema :: auth_db where
  "init_schema = \<lparr>db_sessions = [], db_access = [], db_refresh = []\<rparr>"

text \<open>A time is seconds and nanoseconds since the epoch; a lifetime is in seconds.\<close>

type_synonym time = "int \<times> int"

definition later :: "time \<Rightarrow> int \<Rightarrow> time" where
  "later t secs = (fst t + secs, snd t)"

text \<open>The readings of the clock during an operation (one as a time, one written out), and the text
  of a time.\<close>

record auth_clock =
  ck_now :: time
  ck_stamp :: time
  ck_rfc3339 :: "time \<Rightarrow> string"

abbreviation stamp :: "auth_clock \<Rightarrow> string" where "stamp c \<equiv> ck_rfc3339 c (ck_stamp c)"

text \<open>\<open>FailsInside\<close>: the transaction is not committed. \<open>FailsAfter\<close>: the reading after it fails.\<close>

datatype db_fault = Healthy | FailsInside | FailsAfter

section \<open>Statements\<close>

definition find_session :: "string \<Rightarrow> auth_db \<Rightarrow> session_record option" where
  "find_session i db = find (\<lambda>s. sn_session_id s = i) (db_sessions db)"

definition find_refresh :: "string \<Rightarrow> auth_db \<Rightarrow> refresh_row option" where
  "find_refresh h db = find (\<lambda>r. rf_token_hash r = h) (db_refresh db)"

definition find_access :: "string \<Rightarrow> string \<Rightarrow> auth_db \<Rightarrow> access_row option" where
  "find_access h now db =
     find (\<lambda>r. ac_token_hash r = h \<and> ac_revoked_at r = None \<and> now < ac_expires_at r) (db_access db)"

text \<open>\<open>INSERT\<close> refuses a second row with the same primary key or unique column.\<close>

definition insert_session :: "session_record \<Rightarrow> auth_db \<Rightarrow> auth_db option" where
  "insert_session s db =
     (if \<exists>x \<in> set (db_sessions db). sn_session_id x = sn_session_id s then None
      else Some (db\<lparr>db_sessions := db_sessions db @ [s]\<rparr>))"

definition insert_access :: "access_row \<Rightarrow> auth_db \<Rightarrow> auth_db option" where
  "insert_access r db =
     (if \<exists>x \<in> set (db_access db). ac_token_hash x = ac_token_hash r then None
      else Some (db\<lparr>db_access := db_access db @ [r]\<rparr>))"

definition insert_refresh :: "refresh_row \<Rightarrow> auth_db \<Rightarrow> auth_db option" where
  "insert_refresh r db =
     (if \<exists>x \<in> set (db_refresh db). rf_token_id x = rf_token_id r \<or> rf_token_hash x = rf_token_hash r then None
      else Some (db\<lparr>db_refresh := db_refresh db @ [r]\<rparr>))"

definition revoke_refresh :: "string \<Rightarrow> string \<Rightarrow> auth_db \<Rightarrow> auth_db" where
  "revoke_refresh token_id now db =
     db\<lparr>db_refresh := map (\<lambda>r. if rf_token_id r = token_id then r\<lparr>rf_revoked_at := Some now\<rparr> else r) (db_refresh db)\<rparr>"

definition touch_last_seen :: "string \<Rightarrow> string \<Rightarrow> auth_db \<Rightarrow> auth_db" where
  "touch_last_seen i now db =
     db\<lparr>db_sessions := map (\<lambda>s. if sn_session_id s = i then s\<lparr>sn_last_seen_at := now\<rparr> else s) (db_sessions db)\<rparr>"

definition coalesce :: "string option \<Rightarrow> string \<Rightarrow> string option" where
  "coalesce x now = (case x of None \<Rightarrow> Some now | Some t \<Rightarrow> Some t)"

section \<open>Operations\<close>

record create_params =
  cp_scope :: auth_scope
  cp_device_name :: "string option"
  cp_platform :: "string option"
  cp_user_agent :: "string option"
  cp_access_hash :: string
  cp_access_ttl :: int
  cp_refresh_hash :: string
  cp_refresh_ttl :: int

text \<open>The fresh identifiers of an operation: of the session, the device and the refresh token.\<close>

record fresh_ids =
  fr_session :: string
  fr_device :: string
  fr_token :: string

definition new_session_row :: "auth_clock \<Rightarrow> fresh_ids \<Rightarrow> create_params \<Rightarrow> session_record" where
  "new_session_row c ids p =
     \<lparr>sn_session_id = ''authsess_'' @ fr_session ids, sn_device_id = ''dev_'' @ fr_device ids, sn_scope = scope_as_str (cp_scope p),
      sn_device_name = cp_device_name p, sn_platform = cp_platform p, sn_user_agent = cp_user_agent p,
      sn_status = session_status_as_str ActiveSession, sn_created_at = stamp c, sn_last_seen_at = stamp c, sn_revoked_at = None\<rparr>"

definition new_access_row :: "auth_clock \<Rightarrow> string \<Rightarrow> string \<Rightarrow> int \<Rightarrow> access_row" where
  "new_access_row c h i ttl =
     \<lparr>ac_token_hash = h, ac_session_id = i, ac_expires_at = ck_rfc3339 c (later (ck_now c) ttl), ac_created_at = stamp c,
      ac_revoked_at = None\<rparr>"

definition new_refresh_row :: "auth_clock \<Rightarrow> string \<Rightarrow> string \<Rightarrow> string \<Rightarrow> string option \<Rightarrow> int \<Rightarrow> refresh_row" where
  "new_refresh_row c token h i rotated_from ttl =
     \<lparr>rf_token_id = ''rtid_'' @ token, rf_session_id = i, rf_token_hash = h, rf_rotated_from = rotated_from,
      rf_expires_at = ck_rfc3339 c (later (ck_now c) ttl), rf_created_at = stamp c, rf_revoked_at = None\<rparr>"

definition create_session_tx :: "auth_clock \<Rightarrow> fresh_ids \<Rightarrow> create_params \<Rightarrow> auth_db \<Rightarrow> auth_db option" where
  "create_session_tx c ids p db =
     (let i = ''authsess_'' @ fr_session ids
      in Option.bind (insert_session (new_session_row c ids p) db) (\<lambda>db.
         Option.bind (insert_access (new_access_row c (cp_access_hash p) i (cp_access_ttl p)) db)
           (insert_refresh (new_refresh_row c (fr_token ids) (cp_refresh_hash p) i None (cp_refresh_ttl p)))))"

definition create_session_and_tokens ::
    "auth_clock \<Rightarrow> db_fault \<Rightarrow> fresh_ids \<Rightarrow> create_params \<Rightarrow> auth_db \<Rightarrow> (string + session_record \<times> int) \<times> auth_db" where
  "create_session_and_tokens c fault ids p db =
     (case (if fault = FailsInside then None else create_session_tx c ids p db) of
        None \<Rightarrow> (Inl ''create auth tx'', db)
      | Some db \<Rightarrow>
          (case (if fault = FailsAfter then None else find_session (''authsess_'' @ fr_session ids) db) of
             None \<Rightarrow> (Inl ''session must exist after create'', db)
           | Some s \<Rightarrow> (Inr (s, max 0 (cp_access_ttl p)), db)))"

definition store_validate_access_token :: "auth_clock \<Rightarrow> db_fault \<Rightarrow> string \<Rightarrow> auth_db \<Rightarrow> string + session_record option" where
  "store_validate_access_token c fault h db =
     (if fault = FailsInside then Inl ''query access token''
      else case find_access h (stamp c) db of
             None \<Rightarrow> Inr None
           | Some r \<Rightarrow> if fault = FailsAfter then Inl ''query session by id'' else Inr (find_session (ac_session_id r) db))"

datatype token_rotation = RotateMissing | RotateReuse | Rotated session_record int

text \<open>The writes of a rotation of the refresh token \<open>r\<close>.\<close>

definition rotate_tx ::
    "auth_clock \<Rightarrow> string \<Rightarrow> refresh_row \<Rightarrow> string \<Rightarrow> string \<Rightarrow> int \<Rightarrow> int \<Rightarrow> auth_db \<Rightarrow> auth_db option" where
  "rotate_tx c token r next_refresh next_access access_ttl refresh_ttl db =
     Option.bind (insert_refresh (new_refresh_row c token next_refresh (rf_session_id r) (Some (rf_token_id r)) refresh_ttl)
         (revoke_refresh (rf_token_id r) (stamp c) db)) (\<lambda>db.
       map_option (touch_last_seen (rf_session_id r) (stamp c))
         (insert_access (new_access_row c next_access (rf_session_id r) access_ttl) db))"

text \<open>When the token has expired it is revoked as far as the database allows.\<close>

definition rotate_refresh_token ::
    "auth_clock \<Rightarrow> db_fault \<Rightarrow> string \<Rightarrow> string \<Rightarrow> string \<Rightarrow> string \<Rightarrow> int \<Rightarrow> int \<Rightarrow> auth_db \<Rightarrow> (string + token_rotation) \<times> auth_db" where
  "rotate_refresh_token c fault token h next_refresh next_access access_ttl refresh_ttl db =
     (case find_refresh h db of
        None \<Rightarrow> (if fault = FailsInside then Inl ''query refresh token'' else Inr RotateMissing, db)
      | Some r \<Rightarrow>
          if rf_revoked_at r \<noteq> None then (if fault = FailsInside then Inl ''query refresh token'' else Inr RotateReuse, db)
          else if rf_expires_at r \<le> stamp c then
            (Inr RotateMissing, if fault = FailsInside then db else revoke_refresh (rf_token_id r) (stamp c) db)
          else if map_option sn_status (find_session (rf_session_id r) db) \<noteq> Some (session_status_as_str ActiveSession) then
            (if fault = FailsInside then Inl ''query session status'' else Inr RotateMissing, db)
          else
            (case (if fault = FailsInside then None else rotate_tx c token r next_refresh next_access access_ttl refresh_ttl db) of
               None \<Rightarrow> (Inl ''refresh tx'', db)
             | Some db \<Rightarrow>
                 (case (if fault = FailsAfter then None else find_session (rf_session_id r) db) of
                    None \<Rightarrow> (Inl ''session must exist after refresh'', db)
                  | Some s \<Rightarrow> (Inr (Rotated s (max 0 access_ttl)), db))))"

text \<open>Which active sessions a revocation is about.\<close>

definition revocation_targets :: "string option \<Rightarrow> string option \<Rightarrow> bool \<Rightarrow> session_record \<Rightarrow> bool" where
  "revocation_targets session_id device_id revoke_all s \<longleftrightarrow>
     sn_status s = ''active''
     \<and> (revoke_all
        \<or> (case (session_id, device_id) of
             (Some sid, Some did) \<Rightarrow> sn_session_id s = sid \<and> sn_device_id s = did
           | (Some sid, None) \<Rightarrow> sn_session_id s = sid
           | (None, Some did) \<Rightarrow> sn_device_id s = did
           | (None, None) \<Rightarrow> False))"

definition revoke_one :: "auth_session_status \<Rightarrow> string \<Rightarrow> string \<Rightarrow> auth_db \<Rightarrow> auth_db" where
  "revoke_one status now sid db =
     \<lparr>db_sessions = map (\<lambda>s. if sn_session_id s = sid
          then s\<lparr>sn_status := session_status_as_str status, sn_revoked_at := Some now\<rparr> else s) (db_sessions db),
      db_access = map (\<lambda>r. if ac_session_id r = sid then r\<lparr>ac_revoked_at := coalesce (ac_revoked_at r) now\<rparr> else r) (db_access db),
      db_refresh = map (\<lambda>r. if rf_session_id r = sid then r\<lparr>rf_revoked_at := coalesce (rf_revoked_at r) now\<rparr> else r) (db_refresh db)\<rparr>"

definition revoke_sessions ::
    "auth_clock \<Rightarrow> db_fault \<Rightarrow> string option \<Rightarrow> string option \<Rightarrow> bool \<Rightarrow> auth_session_status \<Rightarrow> auth_db \<Rightarrow>
     (string + nat) \<times> auth_db" where
  "revoke_sessions c fault session_id device_id revoke_all status db =
     (let ids = map sn_session_id (filter (revocation_targets session_id device_id revoke_all) (db_sessions db))
      in if fault = FailsInside then (Inl ''revoke tx'', db)
         else (Inr (length ids), fold (revoke_one status (stamp c)) ids db))"

text \<open>\<open>ORDER BY created_at DESC\<close>.\<close>

definition store_list_sessions :: "db_fault \<Rightarrow> auth_db \<Rightarrow> string + session_record list" where
  "store_list_sessions fault db =
     (if fault = FailsInside then Inl ''query list sessions''
      else Inr (rev (sort_key sn_created_at (rev (filter (\<lambda>s. sn_status s = ''active'') (db_sessions db))))))"

text \<open>Two statements, each on its own; \<open>FailsAfter\<close> is a failure of the second.\<close>

definition store_cleanup_expired :: "auth_clock \<Rightarrow> db_fault \<Rightarrow> auth_db \<Rightarrow> (string + unit) \<times> auth_db" where
  "store_cleanup_expired c fault db =
     (if fault = FailsInside then (Inl ''cleanup access tokens'', db)
      else
        (let db = db\<lparr>db_access := filter (\<lambda>r. \<not> ac_expires_at r \<le> stamp c) (db_access db)\<rparr>
         in if fault = FailsAfter then (Inl ''cleanup refresh tokens'', db)
            else (Inr (), db\<lparr>db_refresh := filter (\<lambda>r. \<not> (rf_expires_at r \<le> stamp c \<and> rf_revoked_at r \<noteq> None)) (db_refresh db)\<rparr>)))"

section \<open>Revoked sessions\<close>

text \<open>A session the store knows; one that is no longer active.\<close>

definition known_session :: "auth_db \<Rightarrow> string \<Rightarrow> bool" where
  "known_session db i \<longleftrightarrow> (\<exists>s \<in> set (db_sessions db). sn_session_id s = i)"

definition inactive :: "auth_db \<Rightarrow> string \<Rightarrow> bool" where
  "inactive db i \<longleftrightarrow> (\<exists>s \<in> set (db_sessions db). sn_session_id s = i \<and> sn_status s \<noteq> ''active'')"

text \<open>Every token belongs to a session, and the tokens of an inactive session are revoked.\<close>

definition token_ok :: "auth_db \<Rightarrow> string \<Rightarrow> string option \<Rightarrow> bool" where
  "token_ok db i revoked \<longleftrightarrow> known_session db i \<and> (inactive db i \<longrightarrow> revoked \<noteq> None)"

definition db_ok :: "auth_db \<Rightarrow> bool" where
  "db_ok db \<longleftrightarrow> distinct (map sn_session_id (db_sessions db))
     \<and> (\<forall>r \<in> set (db_access db). token_ok db (ac_session_id r) (ac_revoked_at r))
     \<and> (\<forall>r \<in> set (db_refresh db). token_ok db (rf_session_id r) (rf_revoked_at r))"

text \<open>A refresh token that cannot be used: no row that carries it is live.\<close>

definition spent :: "auth_db \<Rightarrow> string \<Rightarrow> bool" where
  "spent db h \<longleftrightarrow> (\<forall>r \<in> set (db_refresh db). rf_token_hash r = h \<longrightarrow> rf_revoked_at r \<noteq> None)"

lemmas auth_table_defs = known_session_def inactive_def token_ok_def db_ok_def spent_def

lemma active_text [simp]: "session_status_as_str ActiveSession = ''active''"
  by (simp add: session_status_as_str_def)

lemma inactive_known: "inactive db i \<Longrightarrow> known_session db i"
  by (auto simp: auth_table_defs)

text \<open>How each statement changes what is known, inactive and spent.\<close>

lemma insert_session_SomeD:
  assumes "insert_session s db = Some db'"
  shows "db' = db\<lparr>db_sessions := db_sessions db @ [s]\<rparr> \<and> \<not> known_session db (sn_session_id s)"
  using assms by (auto simp: insert_session_def known_session_def split: if_split_asm)

lemma insert_access_SomeD: "insert_access r db = Some db' \<Longrightarrow> db' = db\<lparr>db_access := db_access db @ [r]\<rparr>"
  by (simp add: insert_access_def split: if_split_asm)

lemma insert_refresh_SomeD: "insert_refresh r db = Some db' \<Longrightarrow> db' = db\<lparr>db_refresh := db_refresh db @ [r]\<rparr>"
  by (simp add: insert_refresh_def split: if_split_asm)

lemma new_row_simps [simp]:
  "sn_session_id (new_session_row c ids p) = ''authsess_'' @ fr_session ids" "sn_status (new_session_row c ids p) = ''active''"
  "ac_session_id (new_access_row c h i ttl) = i" "ac_token_hash (new_access_row c h i ttl) = h"
  "ac_expires_at (new_access_row c h i ttl) = ck_rfc3339 c (later (ck_now c) ttl)"
  "rf_session_id (new_refresh_row c token h i from ttl) = i" "rf_token_hash (new_refresh_row c token h i from ttl) = h"
  by (simp_all add: new_session_row_def new_access_row_def new_refresh_row_def)

lemma create_session_tx_SomeD:
  assumes "create_session_tx c ids p db = Some db'"
  defines "i \<equiv> ''authsess_'' @ fr_session ids"
  shows "db_sessions db' = db_sessions db @ [new_session_row c ids p]"
    "db_access db' = db_access db @ [new_access_row c (cp_access_hash p) i (cp_access_ttl p)]"
    "db_refresh db' = db_refresh db @ [new_refresh_row c (fr_token ids) (cp_refresh_hash p) i None (cp_refresh_ttl p)]"
    "\<not> known_session db i"
  using assms(1) unfolding create_session_tx_def Let_def bind_eq_Some_conv i_def
  by (auto dest!: insert_session_SomeD insert_access_SomeD insert_refresh_SomeD)

lemma rotate_tx_SomeD:
  assumes "rotate_tx c token r next_refresh next_access att rtt db = Some db'"
  shows "db_sessions db' = db_sessions (touch_last_seen (rf_session_id r) (stamp c) db)"
    "db_access db' = db_access db @ [new_access_row c next_access (rf_session_id r) att]"
    "db_refresh db' = db_refresh (revoke_refresh (rf_token_id r) (stamp c) db)
       @ [new_refresh_row c token next_refresh (rf_session_id r) (Some (rf_token_id r)) rtt]"
  using assms unfolding rotate_tx_def bind_eq_Some_conv
  by (auto simp: touch_last_seen_def revoke_refresh_def dest!: insert_access_SomeD insert_refresh_SomeD)

lemma bex_map: "(\<exists>x \<in> set (map f xs). P x) \<longleftrightarrow> (\<exists>x \<in> set xs. P (f x))"
  by simp

lemma ball_map: "(\<forall>x \<in> set (map f xs). P x) \<longleftrightarrow> (\<forall>x \<in> set xs. P (f x))"
  by simp

lemma touch_last_seen_sessions:
  "db_sessions (touch_last_seen i t db) = map (\<lambda>s. if sn_session_id s = i then s\<lparr>sn_last_seen_at := t\<rparr> else s) (db_sessions db)"
  by (simp add: touch_last_seen_def)

lemma revoke_refresh_tokens:
  "db_refresh (revoke_refresh t now db) = map (\<lambda>r. if rf_token_id r = t then r\<lparr>rf_revoked_at := Some now\<rparr> else r) (db_refresh db)"
  by (simp add: revoke_refresh_def)

lemma touch_last_seen_facts [simp]:
  "known_session (touch_last_seen i t db) j \<longleftrightarrow> known_session db j"
  "inactive (touch_last_seen i t db) j \<longleftrightarrow> inactive db j"
  "map sn_session_id (db_sessions (touch_last_seen i t db)) = map sn_session_id (db_sessions db)"
  "db_access (touch_last_seen i t db) = db_access db" "db_refresh (touch_last_seen i t db) = db_refresh db"
  unfolding known_session_def inactive_def touch_last_seen_sessions bex_map by (auto simp: touch_last_seen_def)

lemma revoke_refresh_facts [simp]:
  "db_sessions (revoke_refresh t now db) = db_sessions db" "db_access (revoke_refresh t now db) = db_access db"
  by (simp_all add: revoke_refresh_def)

lemma sessions_decide:
  assumes "db_sessions db' = db_sessions db"
  shows "known_session db' = known_session db" and "inactive db' = inactive db"
  using assms by (simp_all add: fun_eq_iff known_session_def inactive_def)

lemma revoke_refresh_ok:
  assumes "db_ok db" shows "db_ok (revoke_refresh t now db)"
proof -
  note same = sessions_decide [of "revoke_refresh t now db" db, OF revoke_refresh_facts(1)]
  have "\<forall>r \<in> set (db_refresh (revoke_refresh t now db)). token_ok db (rf_session_id r) (rf_revoked_at r)"
    using assms unfolding revoke_refresh_tokens ball_map db_ok_def token_ok_def by auto
  then show ?thesis using assms unfolding db_ok_def token_ok_def same by simp
qed

lemma revoke_refresh_spent: "spent db h \<Longrightarrow> spent (revoke_refresh t now db) h"
  unfolding spent_def revoke_refresh_tokens ball_map by auto

lemma create_keeps:
  assumes "create_session_tx c ids p db = Some db'" and ok: "db_ok db"
  shows "db_ok db'" "known_session db i \<Longrightarrow> known_session db' i" "inactive db i \<Longrightarrow> inactive db' i"
    "known_session db' i \<Longrightarrow> known_session db i \<or> i = ''authsess_'' @ fr_session ids"
    "spent db h \<Longrightarrow> h \<noteq> cp_refresh_hash p \<Longrightarrow> spent db' h"
proof -
  note db' = create_session_tx_SomeD [OF assms(1)]
  have k: "known_session db' j \<longleftrightarrow> known_session db j \<or> j = ''authsess_'' @ fr_session ids" for j
    by (auto simp: db'(1) known_session_def)
  have n: "inactive db' j \<longleftrightarrow> inactive db j" for j by (auto simp: db'(1) inactive_def)
  have fresh: "\<not> inactive db (''authsess_'' @ fr_session ids)" using db'(4) inactive_known by blast
  have "token_ok db' (ac_session_id x) (ac_revoked_at x)" if "x \<in> set (db_access db')" for x
    using that ok fresh by (auto simp: db'(2) db_ok_def token_ok_def k n)
  moreover have "token_ok db' (rf_session_id x) (rf_revoked_at x)" if "x \<in> set (db_refresh db')" for x
    using that ok fresh by (auto simp: db'(3) db_ok_def token_ok_def k n)
  moreover have "distinct (map sn_session_id (db_sessions db'))"
    using ok db'(4) by (auto simp: db'(1) db_ok_def known_session_def)
  ultimately show "db_ok db'" by (simp add: db_ok_def)
  show "known_session db i \<Longrightarrow> known_session db' i" "inactive db i \<Longrightarrow> inactive db' i"
    "known_session db' i \<Longrightarrow> known_session db i \<or> i = ''authsess_'' @ fr_session ids" using k n by auto
  show "spent db h \<Longrightarrow> h \<noteq> cp_refresh_hash p \<Longrightarrow> spent db' h" by (auto simp: db'(3) spent_def)
qed

lemma rotation_keeps:
  assumes "rotate_tx c token r next_refresh next_access att rtt db = Some db'" and ok: "db_ok db"
    and live: "known_session db (rf_session_id r)" "\<not> inactive db (rf_session_id r)"
  shows "db_ok db'" "known_session db' i \<longleftrightarrow> known_session db i" "inactive db' i \<longleftrightarrow> inactive db i"
    "spent db h \<Longrightarrow> h \<noteq> next_refresh \<Longrightarrow> spent db' h"
proof -
  let ?mid = "revoke_refresh (rf_token_id r) (stamp c) db"
  note db' = rotate_tx_SomeD [OF assms(1)]
  have k: "known_session db' = known_session db" and n: "inactive db' = inactive db"
    using sessions_decide [OF db'(1)] by (simp_all add: fun_eq_iff)
  then show "known_session db' i \<longleftrightarrow> known_session db i" "inactive db' i \<longleftrightarrow> inactive db i" by simp_all
  have mid: "db_ok ?mid" using ok by (rule revoke_refresh_ok)
  have "token_ok db' (ac_session_id x) (ac_revoked_at x)" if "x \<in> set (db_access db')" for x
    using that ok live by (auto simp: db' db_ok_def token_ok_def k n)
  moreover have "token_ok db' (rf_session_id x) (rf_revoked_at x)" if "x \<in> set (db_refresh db')" for x
    using that mid live by (auto simp: db' db_ok_def token_ok_def k n sessions_decide [of ?mid db])
  moreover have "distinct (map sn_session_id (db_sessions db'))" using ok by (simp add: db' db_ok_def)
  ultimately show "db_ok db'" by (simp add: db_ok_def)
  show "spent db h \<Longrightarrow> h \<noteq> next_refresh \<Longrightarrow> spent db' h"
    using revoke_refresh_spent [of db h "rf_token_id r" "stamp c"] by (auto simp: db' spent_def)
qed

lemma find_session_active:
  assumes "db_ok db" and "map_option sn_status (find_session i db) = Some ''active''"
  shows "known_session db i \<and> \<not> inactive db i"
proof -
  obtain s where s: "s \<in> set (db_sessions db)" "sn_session_id s = i" "sn_status s = ''active''"
    using assms(2) by (auto simp: find_session_def find_Some_iff) (metis nth_mem)
  have "inj_on sn_session_id (set (db_sessions db))" using assms(1) by (simp add: db_ok_def distinct_map)
  then show ?thesis using s unfolding known_session_def inactive_def by (metis inj_onD)
qed

text \<open>Revoking a list of sessions.\<close>

lemma revoke_one_keeps:
  assumes st: "status \<noteq> ActiveSession" and ok: "db_ok db"
  shows "db_ok (revoke_one status now i db)" "known_session (revoke_one status now i db) j \<longleftrightarrow> known_session db j"
    "inactive (revoke_one status now i db) j \<longleftrightarrow> inactive db j \<or> (j = i \<and> known_session db i)"
    "spent db h \<Longrightarrow> spent (revoke_one status now i db) h"
proof -
  let ?db = "revoke_one status now i db"
  have no: "session_status_as_str status \<noteq> ''active''" using st by (cases status) (simp_all add: session_status_as_str_def)
  have k: "known_session ?db j \<longleftrightarrow> known_session db j" for j
    unfolding revoke_one_def known_session_def auth_db.simps bex_map by (auto split: if_split)
  have n: "inactive ?db j \<longleftrightarrow> inactive db j \<or> (j = i \<and> known_session db i)" for j
    using no unfolding revoke_one_def known_session_def inactive_def auth_db.simps bex_map by (auto split: if_split)
  show "known_session ?db j \<longleftrightarrow> known_session db j" "inactive ?db j \<longleftrightarrow> inactive db j \<or> (j = i \<and> known_session db i)"
    using k n by simp_all
  have ids: "map sn_session_id (db_sessions ?db) = map sn_session_id (db_sessions db)" by (simp add: revoke_one_def)
  have "\<forall>r \<in> set (db_access ?db). token_ok ?db (ac_session_id r) (ac_revoked_at r)"
    using ok unfolding token_ok_def k n unfolding revoke_one_def auth_db.simps ball_map db_ok_def token_ok_def coalesce_def
    by (auto split: option.split)
  moreover have "\<forall>r \<in> set (db_refresh ?db). token_ok ?db (rf_session_id r) (rf_revoked_at r)"
    using ok unfolding token_ok_def k n unfolding revoke_one_def auth_db.simps ball_map db_ok_def token_ok_def coalesce_def
    by (auto split: option.split)
  ultimately show "db_ok ?db" using ok ids unfolding db_ok_def by simp
  show "spent db h \<Longrightarrow> spent ?db h"
    unfolding revoke_one_def spent_def auth_db.simps ball_map coalesce_def by (auto split: option.split)
qed

lemma revoke_all_keeps:
  assumes st: "status \<noteq> ActiveSession" and ok: "db_ok db"
  shows "db_ok (fold (revoke_one status now) is db) \<and> (known_session (fold (revoke_one status now) is db) j \<longleftrightarrow> known_session db j)
    \<and> (inactive (fold (revoke_one status now) is db) j \<longleftrightarrow> inactive db j \<or> (j \<in> set is \<and> known_session db j))
    \<and> (spent db h \<longrightarrow> spent (fold (revoke_one status now) is db) h)"
  using ok
proof (induction "is" arbitrary: db)
  case (Cons i "is")
  note one = revoke_one_keeps [OF st Cons.prems]
  show ?case using Cons.IH [OF one(1)] one(2-4) by (auto simp del: fold_simps simp: fold_Cons comp_def)
qed simp

text \<open>What each operation keeps.\<close>

definition db_step :: "auth_db \<Rightarrow> auth_db \<Rightarrow> bool" where
  "db_step db db' \<longleftrightarrow> db_ok db' \<and> (\<forall>i. known_session db i \<longrightarrow> known_session db' i) \<and> (\<forall>i. inactive db i \<longrightarrow> inactive db' i)"

lemma db_step_refl: "db_ok db \<Longrightarrow> db_step db db"
  by (simp add: db_step_def)

lemma db_step_trans: "db_step a b \<Longrightarrow> db_step b c \<Longrightarrow> db_step a c"
  by (simp add: db_step_def)

lemma db_ok_init: "db_ok init_schema" "\<not> known_session init_schema i"
  by (simp_all add: init_schema_def auth_table_defs)

lemma cleanup_keeps:
  assumes "db_ok db"
  shows "db_step db (snd (store_cleanup_expired c fault db))"
    "known_session (snd (store_cleanup_expired c fault db)) i \<longleftrightarrow> known_session db i"
    "spent db h \<Longrightarrow> spent (snd (store_cleanup_expired c fault db)) h"
proof -
  let ?db = "snd (store_cleanup_expired c fault db)"
  have s: "db_sessions ?db = db_sessions db" "set (db_access ?db) \<subseteq> set (db_access db)" "set (db_refresh ?db) \<subseteq> set (db_refresh db)"
    by (auto simp: store_cleanup_expired_def Let_def)
  note same = sessions_decide [OF s(1)]
  show "known_session ?db i \<longleftrightarrow> known_session db i" using same by simp
  show "db_step db ?db" using assms s unfolding db_step_def db_ok_def token_ok_def same by (simp add: subset_iff)
  show "spent db h \<Longrightarrow> spent ?db h" using s(3) by (auto simp: spent_def)
qed

lemma create_session_keeps:
  assumes c: "create_session_and_tokens c fault ids p db = (res, db')" and ok: "db_ok db"
  shows "db_step db db'" "known_session db' i \<Longrightarrow> known_session db i \<or> i = ''authsess_'' @ fr_session ids"
    "spent db h \<Longrightarrow> h \<noteq> cp_refresh_hash p \<Longrightarrow> spent db' h"
    "res = Inr (s, n) \<Longrightarrow> known_session db' (sn_session_id s) \<and> \<not> known_session db (sn_session_id s)
       \<and> sn_session_id s = ''authsess_'' @ fr_session ids"
proof -
  have cases: "db' = db \<and> (\<exists>e. res = Inl e) \<or> create_session_tx c ids p db = Some db'"
    using c by (auto simp: create_session_and_tokens_def split: option.splits if_splits)
  then show "db_step db db'" "known_session db' i \<Longrightarrow> known_session db i \<or> i = ''authsess_'' @ fr_session ids"
    "spent db h \<Longrightarrow> h \<noteq> cp_refresh_hash p \<Longrightarrow> spent db' h"
    using ok db_step_refl [OF ok] create_keeps(1-3) [OF _ ok] create_keeps(4) [OF _ ok, of c ids p db' i]
      create_keeps(5) [OF _ ok, of c ids p db' h] unfolding db_step_def by metis+
  assume res: "res = Inr (s, n)"
  then have tx: "create_session_tx c ids p db = Some db'" using cases by auto
  have "find_session (''authsess_'' @ fr_session ids) db' = Some s"
    using c res tx by (auto simp: create_session_and_tokens_def split: option.splits if_splits)
  then have "s \<in> set (db_sessions db')" "sn_session_id s = ''authsess_'' @ fr_session ids"
    by (auto simp: find_session_def find_Some_iff)
  then show "known_session db' (sn_session_id s) \<and> \<not> known_session db (sn_session_id s)
      \<and> sn_session_id s = ''authsess_'' @ fr_session ids"
    using create_session_tx_SomeD(4) [OF tx] by (auto simp: known_session_def)
qed

text \<open>A rotation that succeeds is of a live token of an active session, and spends it.\<close>

abbreviation rotated_res :: "string + token_rotation \<Rightarrow> bool" where "rotated_res res \<equiv> \<exists>s n. res = Inr (Rotated s n)"

lemma rotate_refresh_cases:
  assumes r: "rotate_refresh_token c fault token h next_refresh next_access att rtt db = (res, db')"
  shows "\<not> rotated_res res \<and> (db' = db \<or> (\<exists>t. db' = revoke_refresh t (stamp c) db))
    \<or> (\<exists>r. find_refresh h db = Some r \<and> rf_revoked_at r = None
        \<and> map_option sn_status (find_session (rf_session_id r) db) = Some ''active''
        \<and> rotate_tx c token r next_refresh next_access att rtt db = Some db'
        \<and> (\<forall>s n. res = Inr (Rotated s n) \<longrightarrow> find_session (rf_session_id r) db' = Some s))"
proof (cases "find_refresh h db")
  case None
  then show ?thesis using r by (auto simp: rotate_refresh_token_def split: if_split_asm)
next
  case (Some x)
  let ?live = "map_option sn_status (find_session (rf_session_id x) db) = Some ''active''"
  show ?thesis
  proof (cases "rf_revoked_at x = None \<and> \<not> rf_expires_at x \<le> stamp c \<and> ?live")
    case False
    then show ?thesis using r Some by (auto simp: rotate_refresh_token_def split: if_split_asm)
  next
    case True
    then have res: "(res, db') = (case (if fault = FailsInside then None else rotate_tx c token x next_refresh next_access att rtt db) of
               None \<Rightarrow> (Inl ''refresh tx'', db)
             | Some db \<Rightarrow>
                 (case (if fault = FailsAfter then None else find_session (rf_session_id x) db) of
                    None \<Rightarrow> (Inl ''session must exist after refresh'', db)
                  | Some s \<Rightarrow> (Inr (Rotated s (max 0 att)), db)))"
      using r Some by (simp add: rotate_refresh_token_def)
    show ?thesis
    proof (cases "if fault = FailsInside then None else rotate_tx c token x next_refresh next_access att rtt db")
      case None
      then show ?thesis using res by simp
    next
      case tx: (Some db1)
      then have "rotate_tx c token x next_refresh next_access att rtt db = Some db1" by (simp split: if_split_asm)
      then show ?thesis using True Some res tx
        by (cases "if fault = FailsAfter then None else find_session (rf_session_id x) db1") (auto split: if_split_asm)
    qed
  qed
qed

lemma rotate_refresh_keeps:
  assumes r: "rotate_refresh_token c fault token h next_refresh next_access att rtt db = (res, db')" and ok: "db_ok db"
  shows "db_step db db'" "known_session db' i \<longleftrightarrow> known_session db i"
    "spent db g \<Longrightarrow> g \<noteq> next_refresh \<Longrightarrow> spent db' g"
    "res = Inr (Rotated s n) \<Longrightarrow> known_session db (sn_session_id s) \<and> \<not> inactive db (sn_session_id s)"
    "res = Inr (Rotated s n) \<Longrightarrow> \<not> spent db h"
proof -
  have "db_step db db' \<and> (known_session db' i \<longleftrightarrow> known_session db i) \<and> (spent db g \<longrightarrow> g \<noteq> next_refresh \<longrightarrow> spent db' g)
     \<and> (res = Inr (Rotated s n) \<longrightarrow> known_session db (sn_session_id s) \<and> \<not> inactive db (sn_session_id s) \<and> \<not> spent db h)"
    using rotate_refresh_cases [OF r]
  proof (elim disjE conjE exE)
    assume "\<not> rotated_res res" "db' = db"
    then show ?thesis using ok db_step_refl by auto
  next
    fix t assume no: "\<not> rotated_res res" "db' = revoke_refresh t (stamp c) db"
    note same = sessions_decide [of "revoke_refresh t (stamp c) db" db, OF revoke_refresh_facts(1)]
    show ?thesis using no same revoke_refresh_ok [OF ok] revoke_refresh_spent by (auto simp: db_step_def)
  next
    fix r assume f: "find_refresh h db = Some r" "rf_revoked_at r = None"
      and a: "map_option sn_status (find_session (rf_session_id r) db) = Some ''active''"
      and tx: "rotate_tx c token r next_refresh next_access att rtt db = Some db'"
      and s: "\<forall>s n. res = Inr (Rotated s n) \<longrightarrow> find_session (rf_session_id r) db' = Some s"
    have live: "known_session db (rf_session_id r)" "\<not> inactive db (rf_session_id r)"
      using find_session_active [OF ok a] by simp_all
    have "r \<in> set (db_refresh db)" "rf_token_hash r = h" using f(1) by (auto simp: find_refresh_def find_Some_iff)
    then have ns: "\<not> spent db h" using f(2) by (auto simp: spent_def)
    have "sn_session_id s = rf_session_id r" if "res = Inr (Rotated s n)"
      using s that by (auto simp: find_session_def find_Some_iff)
    then show ?thesis using rotation_keeps [OF tx ok live] live ns by (auto simp: db_step_def)
  qed
  then show "db_step db db'" "known_session db' i \<longleftrightarrow> known_session db i"
    "spent db g \<Longrightarrow> g \<noteq> next_refresh \<Longrightarrow> spent db' g"
    "res = Inr (Rotated s n) \<Longrightarrow> known_session db (sn_session_id s) \<and> \<not> inactive db (sn_session_id s)"
    "res = Inr (Rotated s n) \<Longrightarrow> \<not> spent db h" by blast+
qed

lemma rotated_spends:
  assumes r: "rotate_refresh_token c fault token h next_refresh next_access att rtt db = (Inr (Rotated s n), db')"
    and unique: "distinct (map rf_token_hash (db_refresh db))" and fresh: "h \<noteq> next_refresh"
  shows "spent db' h"
proof -
  obtain r where f: "find_refresh h db = Some r" and tx: "rotate_tx c token r next_refresh next_access att rtt db = Some db'"
    using rotate_refresh_cases [OF r] by blast
  have h: "rf_token_hash r = h" and "r \<in> set (db_refresh db)" using f by (auto simp: find_refresh_def find_Some_iff)
  then obtain xs ys where split: "db_refresh db = xs @ r # ys" by (meson split_list)
  have "distinct (map rf_token_hash xs @ h # map rf_token_hash ys)" using unique h by (simp add: split)
  then have "h \<notin> rf_token_hash ` set xs" "h \<notin> rf_token_hash ` set ys" by simp_all
  then have others: "\<forall>x \<in> set xs \<union> set ys. rf_token_hash x \<noteq> h" by (metis UnE imageI)
  have old: "\<forall>x \<in> set (db_refresh (revoke_refresh (rf_token_id r) (stamp c) db)). rf_token_hash x = h \<longrightarrow> rf_revoked_at x \<noteq> None"
    unfolding revoke_refresh_tokens ball_map split using others by simp
  show ?thesis unfolding spent_def rotate_tx_SomeD(3) [OF tx] set_append ball_Un using old fresh by simp
qed

lemma revoke_sessions_keeps:
  assumes r: "revoke_sessions c fault sid did all status db = (res, db')" and st: "status \<noteq> ActiveSession" and ok: "db_ok db"
  shows "db_step db db'" "known_session db' i \<longleftrightarrow> known_session db i" "spent db h \<Longrightarrow> spent db' h"
    "fault \<noteq> FailsInside \<Longrightarrow> known_session db i \<Longrightarrow> sid = Some i \<Longrightarrow> did = None \<Longrightarrow> inactive db' i"
proof -
  let ?ids = "map sn_session_id (filter (revocation_targets sid did all) (db_sessions db))"
  have db': "db' = (if fault = FailsInside then db else fold (revoke_one status (stamp c)) ?ids db)"
    using r by (auto simp: revoke_sessions_def Let_def split: if_split_asm)
  note fold = revoke_all_keeps [OF st ok, of "stamp c" ?ids]
  show "db_step db db'" "known_session db' i \<longleftrightarrow> known_session db i" "spent db h \<Longrightarrow> spent db' h"
    using fold ok db_step_refl unfolding db' db_step_def by auto
  assume f: "fault \<noteq> FailsInside" and k: "known_session db i" and "sid = Some i" "did = None"
  then obtain s where s: "s \<in> set (db_sessions db)" "sn_session_id s = i" by (auto simp: known_session_def)
  show "inactive db' i"
  proof (cases "sn_status s = ''active''")
    case True
    then have "i \<in> set ?ids" using s \<open>sid = Some i\<close> \<open>did = None\<close> by (auto simp: revocation_targets_def)
    then show ?thesis using fold [of i] f k unfolding db' by simp
  next
    case False
    then have "inactive db i" using s by (auto simp: inactive_def)
    then show ?thesis using fold [of i] f unfolding db' by simp
  qed
qed

text \<open>An access token opens the session it belongs to, and only while that is active.\<close>

lemma validate_active:
  assumes "store_validate_access_token c fault h db = Inr (Some s)" and ok: "db_ok db"
  shows "known_session db (sn_session_id s) \<and> \<not> inactive db (sn_session_id s)"
proof -
  obtain r where r: "find_access h (stamp c) db = Some r" "find_session (ac_session_id r) db = Some s"
    using assms(1) by (auto simp: store_validate_access_token_def split: if_splits option.splits)
  have "r \<in> set (db_access db)" "ac_revoked_at r = None" using r(1) by (auto simp: find_access_def find_Some_iff)
  moreover have "sn_session_id s = ac_session_id r" using r(2) by (auto simp: find_session_def find_Some_iff)
  ultimately show ?thesis using ok by (auto simp: db_ok_def token_ok_def)
qed

text \<open>No two refresh tokens share a hash.\<close>

definition unique_refresh :: "auth_db \<Rightarrow> bool" where
  "unique_refresh db \<longleftrightarrow> distinct (map rf_token_hash (db_refresh db))"

lemma insert_refresh_unique: "insert_refresh r db = Some db' \<Longrightarrow> unique_refresh db \<Longrightarrow> unique_refresh db'"
  by (force simp: insert_refresh_def unique_refresh_def split: if_split_asm)

lemma unique_refresh_cong: "map rf_token_hash (db_refresh db') = map rf_token_hash (db_refresh db) \<Longrightarrow> unique_refresh db' = unique_refresh db"
  by (simp add: unique_refresh_def)

lemma revoke_refresh_unique [simp]: "unique_refresh (revoke_refresh t now db) = unique_refresh db"
  by (rule unique_refresh_cong) (simp add: revoke_refresh_tokens)

lemma revoke_one_unique [simp]: "unique_refresh (revoke_one status now i db) = unique_refresh db"
  by (rule unique_refresh_cong) (simp add: revoke_one_def)

lemma fold_revoke_unique [simp]: "unique_refresh (fold (revoke_one status now) is db) = unique_refresh db"
  by (induction "is" arbitrary: db) simp_all

lemma create_session_unique:
  assumes c: "create_session_and_tokens c fault ids p db = (res, db')" and u: "unique_refresh db"
  shows "unique_refresh db'"
proof -
  have "db' = db \<or> create_session_tx c ids p db = Some db'"
    using c by (auto simp: create_session_and_tokens_def split: option.splits if_splits)
  then show ?thesis
  proof
    assume "create_session_tx c ids p db = Some db'"
    then obtain d1 d2 r where d: "insert_session (new_session_row c ids p) db = Some d1" "insert_refresh r d2 = Some db'"
      and "db_refresh d2 = db_refresh d1"
      unfolding create_session_tx_def Let_def bind_eq_Some_conv by (auto dest!: insert_access_SomeD)
    then show ?thesis using u insert_session_SomeD [OF d(1)] insert_refresh_unique [OF d(2)] unique_refresh_cong [of d2 db] by simp
  qed (use u in simp)
qed

lemma rotate_tx_unique:
  assumes "rotate_tx c token r next_refresh next_access att rtt db = Some db'" and "unique_refresh db"
  shows "unique_refresh db'"
proof -
  obtain d where d: "insert_refresh (new_refresh_row c token next_refresh (rf_session_id r) (Some (rf_token_id r)) rtt)
      (revoke_refresh (rf_token_id r) (stamp c) db) = Some d" and "db_refresh db' = db_refresh d"
    using assms(1) unfolding rotate_tx_def bind_eq_Some_conv by (auto dest!: insert_access_SomeD)
  then show ?thesis using insert_refresh_unique [OF d] assms(2) unique_refresh_cong [of db' d] by simp
qed

lemma rotate_refresh_unique:
  "rotate_refresh_token c fault token h next_refresh next_access att rtt db = (res, db') \<Longrightarrow> unique_refresh db \<Longrightarrow> unique_refresh db'"
  by (drule rotate_refresh_cases) (auto intro: rotate_tx_unique)

lemma cleanup_unique: "unique_refresh db \<Longrightarrow> unique_refresh (snd (store_cleanup_expired c fault db))"
  by (auto simp: store_cleanup_expired_def Let_def unique_refresh_def distinct_map inj_on_def)

lemma revoke_sessions_unique:
  "revoke_sessions c fault sid did all status db = (res, db') \<Longrightarrow> unique_refresh db \<Longrightarrow> unique_refresh db'"
  by (auto simp: revoke_sessions_def Let_def split: if_split_asm)

end
