(* ===== verification/Auth.thy ===== *)
theory Auth
  imports AuthStore
begin

text \<open>
  Authentication of the gateway: the rate limiter (\<open>openjax-gateway/src/auth/rate_limit.rs\<close>), tokens,
  cookies, API keys and the service over the store (\<open>auth/token.rs\<close>, \<open>auth/cookie.rs\<close>, \<open>auth/mod.rs\<close>,
  \<open>auth/service.rs\<close>), the handlers with the middleware in front of them (\<open>auth_handlers.rs\<close>,
  \<open>middleware.rs\<close>). One request is one step: a handler takes no lock over another's operation, but
  each operation on the store is one transaction. Random bytes, identifiers, clock readings and faults
  of the database come with the request; the hash function and the text of a time are arguments.
\<close>

section \<open>Rate limiter\<close>

record rate_limiter =
  rl_limit :: nat
  rl_window :: int
  rl_buckets :: "string \<Rightarrow> int list option"

definition limiter_new :: "nat \<Rightarrow> int \<Rightarrow> rate_limiter" where
  "limiter_new limit window = \<lparr>rl_limit = limit, rl_window = window, rl_buckets = (\<lambda>_. None)\<rparr>"

text \<open>An \<open>Instant\<close> is a number of nanoseconds; \<open>duration_since\<close> saturates at zero.\<close>

definition allow :: "int \<Rightarrow> string \<Rightarrow> rate_limiter \<Rightarrow> bool \<times> rate_limiter" where
  "allow now key l =
     (let bucket = (case rl_buckets l key of None \<Rightarrow> [] | Some b \<Rightarrow> b);
          bucket = dropWhile (\<lambda>ts. \<not> max 0 (now - ts) \<le> rl_window l) bucket
      in if rl_limit l \<le> length bucket then (False, l\<lparr>rl_buckets := (rl_buckets l)(key \<mapsto> bucket)\<rparr>)
         else (True, l\<lparr>rl_buckets := (rl_buckets l)(key \<mapsto> bucket @ [now])\<rparr>))"

section \<open>Tokens, keys, cookies\<close>

definition hex_encode :: "8 word list \<Rightarrow> string" where
  "hex_encode bs = concat (map (\<lambda>b. [hex_digit (unat b div 16), hex_digit (unat b mod 16)]) bs)"

text \<open>\<open>bytes\<close> are the 32 random bytes drawn.\<close>

definition generate_token :: "string \<Rightarrow> 8 word list \<Rightarrow> string" where
  "generate_token p bytes = p @ ''_'' @ hex_encode bytes"

definition hash_token :: "(string \<Rightarrow> string) \<Rightarrow> string \<Rightarrow> string \<Rightarrow> string" where
  "hash_token sha token pepper = sha (token @ pepper)"

definition parse_bearer_token :: "string \<Rightarrow> string option" where
  "parse_bearer_token v =
     (case strip_prefix (trim v) ''Bearer '' of
        None \<Rightarrow> None
      | Some t \<Rightarrow> let token = trim t in if token = [] then None else Some token)"

datatype api_key_source = GatewayEnv | CompatEnv | Generated

record api_key_config =
  ak_keys :: "string set"
  ak_source :: api_key_source
  ak_generated_key :: "string option"

definition parse_api_keys :: "string \<Rightarrow> string set" where
  "parse_api_keys raw = set (filter (\<lambda>k. k \<noteq> []) (map trim (split_char (CHR '','') raw)))"

text \<open>\<open>uuid\<close> is the text of a new UUID.\<close>

definition resolve_api_keys :: "string \<Rightarrow> string option \<Rightarrow> string option \<Rightarrow> api_key_config" where
  "resolve_api_keys uuid gateway_env compat_env =
     (let from = (\<lambda>env. case env of Some raw \<Rightarrow> (let keys = parse_api_keys raw in if keys = {} then None else Some keys) | None \<Rightarrow> None)
      in case from gateway_env of
           Some keys \<Rightarrow> \<lparr>ak_keys = keys, ak_source = GatewayEnv, ak_generated_key = None\<rparr>
         | None \<Rightarrow>
             (case from compat_env of
                Some keys \<Rightarrow> \<lparr>ak_keys = keys, ak_source = CompatEnv, ak_generated_key = None\<rparr>
              | None \<Rightarrow> \<lparr>ak_keys = {''ojx_'' @ uuid}, ak_source = Generated, ak_generated_key = Some (''ojx_'' @ uuid)\<rparr>))"

definition load_api_keys :: "string \<Rightarrow> environment \<Rightarrow> api_key_config" where
  "load_api_keys uuid env = resolve_api_keys uuid (env ''OPENJAX_GATEWAY_API_KEYS'') (env ''OPENJAX_API_KEYS'')"

definition REFRESH_COOKIE_NAME :: string where "REFRESH_COOKIE_NAME = ''ojx_refresh_token''"

fun find_cookie :: "string \<Rightarrow> string list \<Rightarrow> string option" where
  "find_cookie name [] = None"
| "find_cookie name (pair # pairs) =
     (case split_once pair ''='' of
        None \<Rightarrow> find_cookie name pairs
      | Some (k, v) \<Rightarrow> if trim k = name then Some (trim v) else find_cookie name pairs)"

definition parse_cookie_value :: "string \<Rightarrow> string \<Rightarrow> string option" where
  "parse_cookie_value header name = find_cookie name (map trim (split_char (CHR '';'') header))"

definition build_refresh_set_cookie :: "string \<Rightarrow> bool \<Rightarrow> int \<Rightarrow> string" where
  "build_refresh_set_cookie token secure max_age =
     join ''; '' ([REFRESH_COOKIE_NAME @ ''='' @ token, ''Path=/api/v1/auth'', ''Max-Age='' @ dec_of_int max_age, ''HttpOnly'', ''SameSite=Lax'']
       @ (if secure then [''Secure''] else []))"

definition build_refresh_clear_cookie :: "bool \<Rightarrow> string" where
  "build_refresh_clear_cookie secure =
     join ''; '' ([REFRESH_COOKIE_NAME @ ''='', ''Path=/api/v1/auth'', ''Max-Age=0'', ''HttpOnly'', ''SameSite=Lax'']
       @ (if secure then [''Secure''] else []))"

section \<open>The service\<close>

record auth_config =
  cg_access_ttl_minutes :: int
  cg_refresh_ttl_days :: int
  cg_cookie_secure :: bool
  cg_login_rate_limit_per_min :: nat
  cg_refresh_rate_limit_per_min :: nat
  cg_token_pepper :: string

text \<open>A positive number that fits the type; \<open>bound\<close> is the first that does not.\<close>

definition env_positive :: "environment \<Rightarrow> string \<Rightarrow> int \<Rightarrow> int \<Rightarrow> int" where
  "env_positive env k bound fallback =
     (case Option.bind (env k) parse_u64 of
        Some n \<Rightarrow> if 0 < n \<and> int n < bound then int n else fallback | None \<Rightarrow> fallback)"

definition config_from_env :: "environment \<Rightarrow> auth_config" where
  "config_from_env env =
     \<lparr>cg_access_ttl_minutes = env_positive env ''OPENJAX_GATEWAY_ACCESS_TTL_MINUTES'' (2 ^ 63) 15,
      cg_refresh_ttl_days = env_positive env ''OPENJAX_GATEWAY_REFRESH_TTL_DAYS'' (2 ^ 63) 30,
      cg_cookie_secure = (case env ''OPENJAX_GATEWAY_COOKIE_SECURE'' of
         Some v \<Rightarrow> v \<in> {''1'', ''true'', ''TRUE'', ''yes'', ''on''} | None \<Rightarrow> True),
      cg_login_rate_limit_per_min = nat (env_positive env ''OPENJAX_GATEWAY_AUTH_RATE_LIMIT_LOGIN_PER_MIN'' (2 ^ 64) 30),
      cg_refresh_rate_limit_per_min = nat (env_positive env ''OPENJAX_GATEWAY_AUTH_RATE_LIMIT_REFRESH_PER_MIN'' (2 ^ 64) 120),
      cg_token_pepper = (case env_text env ''OPENJAX_GATEWAY_AUTH_TOKEN_PEPPER'' of
         Some v \<Rightarrow> v | None \<Rightarrow> ''openjax-local-dev-pepper'')\<rparr>"

definition access_ttl :: "auth_config \<Rightarrow> int" where "access_ttl g = cg_access_ttl_minutes g * 60"
definition refresh_ttl :: "auth_config \<Rightarrow> int" where "refresh_ttl g = cg_refresh_ttl_days g * 86400"

record auth_service =
  au_config :: auth_config
  au_db :: auth_db
  au_login_limiter :: rate_limiter
  au_refresh_limiter :: rate_limiter

definition MINUTE :: int where "MINUTE = 60 * 1000000000"

definition service_new :: "auth_config \<Rightarrow> auth_service" where
  "service_new g = \<lparr>au_config = g, au_db = init_schema,
     au_login_limiter = limiter_new (cg_login_rate_limit_per_min g) MINUTE,
     au_refresh_limiter = limiter_new (cg_refresh_rate_limit_per_min g) MINUTE\<rparr>"

text \<open>What is fixed outside, and what a request meets: the clocks, the faults of the clean-up and of the
  operation, fresh identifiers and random bytes.\<close>

record auth_env =
  ne_sha :: "string \<Rightarrow> string"
  ne_rfc3339 :: "time \<Rightarrow> string"
  ne_keys :: "string set"

record auth_input =
  in_now :: time
  in_stamp :: time
  in_instant :: int
  in_cleanup_fault :: db_fault
  in_fault :: db_fault
  in_ids :: fresh_ids
  in_access_bytes :: "8 word list"
  in_refresh_bytes :: "8 word list"

definition clock_of :: "auth_env \<Rightarrow> auth_input \<Rightarrow> auth_clock" where
  "clock_of env x = \<lparr>ck_now = in_now x, ck_stamp = in_stamp x, ck_rfc3339 = ne_rfc3339 env\<rparr>"

record new_session_input =
  ni_device_name :: "string option"
  ni_platform :: "string option"
  ni_user_agent :: "string option"

record token_result =
  tr_access_token :: string
  tr_access_expires_in :: int
  tr_refresh_token :: string
  tr_session :: session_record

abbreviation token_hash :: "auth_env \<Rightarrow> auth_service \<Rightarrow> string \<Rightarrow> string" where
  "token_hash env svc t \<equiv> hash_token (ne_sha env) t (cg_token_pepper (au_config svc))"

abbreviation cleaned :: "auth_env \<Rightarrow> auth_input \<Rightarrow> auth_service \<Rightarrow> auth_db" where
  "cleaned env x svc \<equiv> snd (store_cleanup_expired (clock_of env x) (in_cleanup_fault x) (au_db svc))"

definition service_login ::
    "auth_env \<Rightarrow> auth_input \<Rightarrow> new_session_input \<Rightarrow> auth_service \<Rightarrow> (string + token_result) \<times> auth_service" where
  "service_login env x inp svc =
     (let access = generate_token ''atk'' (in_access_bytes x); refresh = generate_token ''rtk'' (in_refresh_bytes x);
          (r, db) = create_session_and_tokens (clock_of env x) (in_fault x) (in_ids x)
            \<lparr>cp_scope = Owner, cp_device_name = ni_device_name inp, cp_platform = ni_platform inp, cp_user_agent = ni_user_agent inp,
             cp_access_hash = token_hash env svc access, cp_access_ttl = access_ttl (au_config svc),
             cp_refresh_hash = token_hash env svc refresh, cp_refresh_ttl = refresh_ttl (au_config svc)\<rparr> (cleaned env x svc);
          svc = svc\<lparr>au_db := db\<rparr>
      in case r of
           Inl e \<Rightarrow> (Inl e, svc)
         | Inr (s, expires) \<Rightarrow>
             (Inr \<lparr>tr_access_token = access, tr_access_expires_in = expires, tr_refresh_token = refresh, tr_session = s\<rparr>, svc))"

datatype refresh_error = RefreshMissing | ReuseDetected

definition service_refresh ::
    "auth_env \<Rightarrow> auth_input \<Rightarrow> string \<Rightarrow> auth_service \<Rightarrow> (refresh_error + token_result) \<times> auth_service" where
  "service_refresh env x token svc =
     (let refresh = generate_token ''rtk'' (in_refresh_bytes x); access = generate_token ''atk'' (in_access_bytes x);
          (r, db) = rotate_refresh_token (clock_of env x) (in_fault x) (fr_token (in_ids x)) (token_hash env svc token)
            (token_hash env svc refresh) (token_hash env svc access) (access_ttl (au_config svc)) (refresh_ttl (au_config svc))
            (cleaned env x svc);
          svc = svc\<lparr>au_db := db\<rparr>
      in case r of
           Inr RotateMissing \<Rightarrow> (Inl RefreshMissing, svc)
         | Inr RotateReuse \<Rightarrow> (Inl ReuseDetected, svc)
         | Inr (Rotated s expires) \<Rightarrow>
             (Inr \<lparr>tr_access_token = access, tr_access_expires_in = expires, tr_refresh_token = refresh, tr_session = s\<rparr>, svc)
         | Inl _ \<Rightarrow> (Inl RefreshMissing, svc))"

definition service_validate :: "auth_env \<Rightarrow> auth_input \<Rightarrow> db_fault \<Rightarrow> string \<Rightarrow> auth_service \<Rightarrow> session_record option" where
  "service_validate env x fault token svc =
     (case store_validate_access_token (clock_of env x) fault (token_hash env svc token) (au_db svc) of
        Inl _ \<Rightarrow> None | Inr r \<Rightarrow> r)"

definition service_revoke ::
    "auth_env \<Rightarrow> auth_input \<Rightarrow> string option \<Rightarrow> string option \<Rightarrow> bool \<Rightarrow> auth_session_status \<Rightarrow> auth_service \<Rightarrow> (string + nat) \<times> auth_service" where
  "service_revoke env x sid did revoke_all status svc =
     (let (r, db) = revoke_sessions (clock_of env x) (in_fault x) sid did revoke_all status (au_db svc) in (r, svc\<lparr>au_db := db\<rparr>))"

section \<open>Handlers\<close>

definition api_unauthenticated :: "string \<Rightarrow> api_error" where
  "api_unauthenticated message =
     \<lparr>ap_status = 401, ap_code = ''UNAUTHENTICATED'', ap_message = message, ap_retryable = False, ap_details = json_obj []\<rparr>"

definition rate_limited :: "string \<Rightarrow> api_error" where
  "rate_limited action =
     \<lparr>ap_status = 429, ap_code = ''RATE_LIMITED'', ap_message = action @ '' rate limited'', ap_retryable = True,
      ap_details = json_obj [(''action'', JString action)]\<rparr>"

text \<open>Requests: to the routes of this component, with the header they are authenticated by, and
  \<open>OtherRequest\<close> for every other route behind the access token. \<open>in_guard\<close> of a protected request is what the
  database does to the check of its token.\<close>

datatype auth_request =
    LoginRequest "string option" new_session_input
  | RefreshRequest "string option"
  | LogoutRequest "string option" db_fault "string option"
  | RevokeRequest "string option" db_fault "string option" "string option" "bool option"
  | ListSessionsRequest "string option" db_fault
  | OtherRequest "string option" db_fault

datatype auth_reply =
    ErrorReply api_error
  | TokensReply string int string string string
  | LoggedOutReply string
  | RevokedReply nat
  | SessionsReply "session_record list"
  | PassedReply

definition owner_key_middleware :: "auth_env \<Rightarrow> string option \<Rightarrow> api_error + string" where
  "owner_key_middleware env hdr = (case hdr of
     None \<Rightarrow> Inl (api_unauthenticated ''missing Authorization header'')
   | Some v \<Rightarrow>
       (case parse_bearer_token v of
          None \<Rightarrow> Inl (api_unauthenticated ''invalid bearer token'')
        | Some token \<Rightarrow>
            if token \<in> ne_keys env then Inr (''api_key:'' @ take 6 token)
            else Inl (api_unauthenticated ''api key is not allowed'')))"

definition access_token_middleware ::
    "auth_env \<Rightarrow> auth_input \<Rightarrow> db_fault \<Rightarrow> string option \<Rightarrow> auth_service \<Rightarrow> api_error + string" where
  "access_token_middleware env x fault hdr svc = (case hdr of
     None \<Rightarrow> Inl (api_unauthenticated ''missing Authorization header'')
   | Some v \<Rightarrow>
       (case parse_bearer_token v of
          None \<Rightarrow> Inl (api_unauthenticated ''invalid bearer token'')
        | Some token \<Rightarrow>
            (case service_validate env x fault token svc of
               None \<Rightarrow> Inl (api_unauthenticated ''access token is invalid or expired'')
             | Some s \<Rightarrow> Inr (''auth_session:'' @ sn_session_id s))))"

text \<open>The reply of a login or a refresh: access token, its lifetime, the identifier and scope of the
  session, the cookie.\<close>

definition tokens_reply :: "auth_service \<Rightarrow> token_result \<Rightarrow> auth_reply" where
  "tokens_reply svc r = TokensReply (tr_access_token r) (tr_access_expires_in r) (sn_session_id (tr_session r)) (sn_scope (tr_session r))
     (build_refresh_set_cookie (tr_refresh_token r) (cg_cookie_secure (au_config svc)) (refresh_ttl (au_config svc)))"

definition handle_login ::
    "auth_env \<Rightarrow> auth_input \<Rightarrow> string option \<Rightarrow> new_session_input \<Rightarrow> auth_service \<Rightarrow> auth_reply \<times> auth_service" where
  "handle_login env x hdr inp svc = (case hdr of
     None \<Rightarrow> (ErrorReply (api_unauthenticated ''missing owner Authorization header''), svc)
   | Some v \<Rightarrow>
       (case parse_bearer_token v of
          None \<Rightarrow> (ErrorReply (api_unauthenticated ''invalid owner bearer token''), svc)
        | Some key \<Rightarrow>
            (let (ok, l) = allow (in_instant x) key (au_login_limiter svc); svc = svc\<lparr>au_login_limiter := l\<rparr>
             in if \<not> ok then (ErrorReply (rate_limited ''login''), svc)
                else case service_login env x inp svc of
                       (Inl _, svc) \<Rightarrow> (ErrorReply (api_internal ''failed to create auth session''), svc)
                     | (Inr r, svc) \<Rightarrow> (tokens_reply svc r, svc))))"

definition extract_refresh_token :: "string option \<Rightarrow> string option" where
  "extract_refresh_token cookie = Option.bind cookie (\<lambda>v. parse_cookie_value v REFRESH_COOKIE_NAME)"

definition handle_refresh :: "auth_env \<Rightarrow> auth_input \<Rightarrow> string option \<Rightarrow> auth_service \<Rightarrow> auth_reply \<times> auth_service" where
  "handle_refresh env x cookie svc = (case extract_refresh_token cookie of
     None \<Rightarrow> (ErrorReply (api_unauthenticated ''missing refresh token''), svc)
   | Some token \<Rightarrow>
       (let (ok, l) = allow (in_instant x) (take 12 token) (au_refresh_limiter svc); svc = svc\<lparr>au_refresh_limiter := l\<rparr>
        in if \<not> ok then (ErrorReply (rate_limited ''refresh''), svc)
           else case service_refresh env x token svc of
                  (Inl RefreshMissing, svc) \<Rightarrow> (ErrorReply (api_unauthenticated ''refresh token is invalid or expired''), svc)
                | (Inl ReuseDetected, svc) \<Rightarrow>
                    (ErrorReply (api_conflict ''refresh token reuse detected'' (json_obj [(''action'', JString ''refresh'')])), svc)
                | (Inr r, svc) \<Rightarrow> (tokens_reply svc r, svc)))"

definition handle_logout :: "auth_env \<Rightarrow> auth_input \<Rightarrow> string option \<Rightarrow> auth_service \<Rightarrow> auth_reply \<times> auth_service" where
  "handle_logout env x sid svc = (case sid of
     None \<Rightarrow> (ErrorReply (api_invalid_argument ''session_id is required'' (json_obj [(''field'', JString ''session_id'')])), svc)
   | Some i \<Rightarrow>
       (LoggedOutReply (build_refresh_clear_cookie (cg_cookie_secure (au_config svc))),
        snd (service_revoke env x (Some i) None False LoggedOut svc)))"

definition handle_revoke ::
    "auth_env \<Rightarrow> auth_input \<Rightarrow> string option \<Rightarrow> string option \<Rightarrow> bool option \<Rightarrow> auth_service \<Rightarrow> auth_reply \<times> auth_service" where
  "handle_revoke env x sid did revoke_all svc =
     (case service_revoke env x sid did (case revoke_all of Some b \<Rightarrow> b | None \<Rightarrow> False) RevokedSession svc of
        (Inl _, svc) \<Rightarrow> (ErrorReply (api_internal ''failed to revoke sessions''), svc)
      | (Inr n, svc) \<Rightarrow> (RevokedReply n, svc))"

definition handle_list_sessions :: "auth_input \<Rightarrow> auth_service \<Rightarrow> auth_reply" where
  "handle_list_sessions x svc = (case store_list_sessions (in_fault x) (au_db svc) of
     Inl _ \<Rightarrow> ErrorReply (api_internal ''failed to list auth sessions'') | Inr ss \<Rightarrow> SessionsReply ss)"

text \<open>A request goes through the middleware of its route and, when that lets it pass, to its handler.
  The actor is the one the middleware found; \<open>anonymous\<close> on the public route.\<close>

definition protected ::
    "auth_env \<Rightarrow> auth_input \<Rightarrow> db_fault \<Rightarrow> string option \<Rightarrow> (auth_service \<Rightarrow> auth_reply \<times> auth_service) \<Rightarrow> auth_service \<Rightarrow>
     (string \<times> auth_reply) \<times> auth_service" where
  "protected env x fault hdr handler svc = (case access_token_middleware env x fault hdr svc of
     Inl e \<Rightarrow> ((''anonymous'', ErrorReply e), svc)
   | Inr actor \<Rightarrow> (let (reply, svc) = handler svc in ((actor, reply), svc)))"

fun auth_step :: "auth_env \<Rightarrow> auth_input \<Rightarrow> auth_request \<Rightarrow> auth_service \<Rightarrow> (string \<times> auth_reply) \<times> auth_service" where
  "auth_step env x (LoginRequest hdr inp) svc = (case owner_key_middleware env hdr of
     Inl e \<Rightarrow> ((''anonymous'', ErrorReply e), svc)
   | Inr actor \<Rightarrow> (let (reply, svc) = handle_login env x hdr inp svc in ((actor, reply), svc)))"
| "auth_step env x (RefreshRequest cookie) svc =
     (let (reply, svc) = handle_refresh env x cookie svc in ((''anonymous'', reply), svc))"
| "auth_step env x (LogoutRequest hdr g sid) svc = protected env x g hdr (handle_logout env x sid) svc"
| "auth_step env x (RevokeRequest hdr g sid did revoke_all) svc = protected env x g hdr (handle_revoke env x sid did revoke_all) svc"
| "auth_step env x (ListSessionsRequest hdr g) svc = protected env x g hdr (\<lambda>svc. (handle_list_sessions x svc, svc)) svc"
| "auth_step env x (OtherRequest hdr g) svc = protected env x g hdr (\<lambda>svc. (PassedReply, svc)) svc"

fun auth_run :: "auth_env \<Rightarrow> (auth_input \<times> auth_request) list \<Rightarrow> auth_service \<Rightarrow> (string \<times> auth_reply) list \<times> auth_service" where
  "auth_run env [] svc = ([], svc)"
| "auth_run env ((x, rq) # rqs) svc =
     (let (reply, svc) = auth_step env x rq svc; (replies, svc) = auth_run env rqs svc in (reply # replies, svc))"

section \<open>What a request does\<close>

text \<open>The store is well formed.\<close>

definition service_ok :: "auth_service \<Rightarrow> bool" where
  "service_ok svc \<longleftrightarrow> db_ok (au_db svc) \<and> unique_refresh (au_db svc)"

lemma service_new_ok: "service_ok (service_new g)"
  using db_ok_init by (simp add: service_ok_def service_new_def init_schema_def unique_refresh_def)

text \<open>A reply that lets its receiver act for the session \<open>i\<close>, and a login by an owner key that creates it.\<close>

definition grants :: "string \<Rightarrow> string \<times> auth_reply \<Rightarrow> bool" where
  "grants i r \<longleftrightarrow> fst r = ''auth_session:'' @ i \<or> (case snd r of TokensReply _ _ j _ _ \<Rightarrow> j = i | _ \<Rightarrow> False)"

definition owner_login :: "auth_env \<Rightarrow> string \<Rightarrow> auth_input \<times> auth_request \<Rightarrow> bool" where
  "owner_login env i step \<longleftrightarrow>
     (case step of (x, LoginRequest (Some hdr) _) \<Rightarrow>
        (\<exists>key \<in> ne_keys env. parse_bearer_token hdr = Some key) \<and> i = ''authsess_'' @ fr_session (in_ids x) | _ \<Rightarrow> False)"

abbreviation new_refresh_hash :: "auth_env \<Rightarrow> auth_service \<Rightarrow> auth_input \<Rightarrow> string" where
  "new_refresh_hash env svc x \<equiv> token_hash env svc (generate_token ''rtk'' (in_refresh_bytes x))"

text \<open>How a request takes the service from one state to the next, as far as sessions and refresh tokens go.\<close>

definition service_step :: "auth_env \<Rightarrow> auth_input \<Rightarrow> (string \<Rightarrow> bool) \<Rightarrow> auth_service \<Rightarrow> auth_service \<Rightarrow> bool" where
  "service_step env x new svc svc' \<longleftrightarrow> service_ok svc' \<and> au_config svc' = au_config svc \<and> db_step (au_db svc) (au_db svc')
     \<and> (\<forall>i. known_session (au_db svc') i \<longrightarrow> known_session (au_db svc) i \<or> new i)
     \<and> (\<forall>h. spent (au_db svc) h \<longrightarrow> h \<noteq> new_refresh_hash env svc x \<longrightarrow> spent (au_db svc') h)"

lemma service_step_same:
  "service_ok svc \<Longrightarrow> au_config svc' = au_config svc \<Longrightarrow> au_db svc' = au_db svc \<Longrightarrow> service_step env x new svc svc'"
  by (simp add: service_step_def service_ok_def db_step_refl)

lemma service_login_step:
  assumes r: "service_login env x inp svc = (res, svc')" and ok: "service_ok svc"
  shows "service_step env x (\<lambda>i. i = ''authsess_'' @ fr_session (in_ids x)) svc svc'"
    "res = Inr t \<Longrightarrow> known_session (au_db svc') (sn_session_id (tr_session t)) \<and> \<not> inactive (au_db svc) (sn_session_id (tr_session t))"
proof -
  let ?p = "\<lparr>cp_scope = Owner, cp_device_name = ni_device_name inp, cp_platform = ni_platform inp, cp_user_agent = ni_user_agent inp,
      cp_access_hash = token_hash env svc (generate_token ''atk'' (in_access_bytes x)), cp_access_ttl = access_ttl (au_config svc),
      cp_refresh_hash = new_refresh_hash env svc x, cp_refresh_ttl = refresh_ttl (au_config svc)\<rparr>"
  let ?mid = "cleaned env x svc"
  obtain cres db where c: "create_session_and_tokens (clock_of env x) (in_fault x) (in_ids x) ?p ?mid = (cres, db)" by fastforce
  have svc': "svc' = svc\<lparr>au_db := db\<rparr>" and res: "res = Inr t \<Longrightarrow> \<exists>n. cres = Inr (tr_session t, n)" for t
    using r c by (auto simp: service_login_def Let_def split: sum.splits prod.splits)
  have mid: "db_ok ?mid" "unique_refresh ?mid" "db_step (au_db svc) ?mid"
    using ok cleanup_keeps(1) cleanup_unique by (auto simp: service_ok_def db_step_def)
  note keep = create_session_keeps [OF c mid(1)]
  show "service_step env x (\<lambda>i. i = ''authsess_'' @ fr_session (in_ids x)) svc svc'"
    unfolding service_step_def service_ok_def svc'
    using keep(1,2,3) create_session_unique [OF c mid(2)] db_step_trans [OF mid(3) keep(1)] ok
      cleanup_keeps(2,3) [where db = "au_db svc" and c = "clock_of env x" and fault = "in_cleanup_fault x"]
    by (auto simp: service_ok_def db_step_def)
  show "res = Inr t \<Longrightarrow> known_session (au_db svc') (sn_session_id (tr_session t)) \<and> \<not> inactive (au_db svc) (sn_session_id (tr_session t))"
    using keep(4) res mid(3) inactive_known unfolding svc' db_step_def by fastforce
qed

lemma service_refresh_step:
  assumes r: "service_refresh env x token svc = (res, svc')" and ok: "service_ok svc"
  shows "service_step env x (\<lambda>i. False) svc svc'"
    "res = Inr t \<Longrightarrow> known_session (au_db svc') (sn_session_id (tr_session t)) \<and> \<not> inactive (au_db svc) (sn_session_id (tr_session t))"
    "res = Inr t \<Longrightarrow> \<not> spent (au_db svc) (token_hash env svc token)"
    "res = Inr t \<Longrightarrow> token_hash env svc token \<noteq> new_refresh_hash env svc x \<Longrightarrow> spent (au_db svc') (token_hash env svc token)"
proof -
  let ?mid = "cleaned env x svc" and ?h = "token_hash env svc token"
  obtain rres db where c: "rotate_refresh_token (clock_of env x) (in_fault x) (fr_token (in_ids x)) ?h (new_refresh_hash env svc x)
      (token_hash env svc (generate_token ''atk'' (in_access_bytes x))) (access_ttl (au_config svc)) (refresh_ttl (au_config svc)) ?mid = (rres, db)"
    by fastforce
  have svc': "svc' = svc\<lparr>au_db := db\<rparr>" and res: "res = Inr t \<Longrightarrow> \<exists>n. rres = Inr (Rotated (tr_session t) n)" for t
    using r c by (auto simp: service_refresh_def Let_def split: sum.splits prod.splits token_rotation.splits)
  have mid: "db_ok ?mid" "unique_refresh ?mid" "db_step (au_db svc) ?mid"
    using ok cleanup_keeps(1) cleanup_unique by (auto simp: service_ok_def db_step_def)
  have ok': "db_ok (au_db svc)" using ok by (simp add: service_ok_def)
  note cl = cleanup_keeps(2,3) [OF ok', where c = "clock_of env x" and fault = "in_cleanup_fault x"]
  note keep = rotate_refresh_keeps [OF c mid(1)]
  show "service_step env x (\<lambda>i. False) svc svc'"
    unfolding service_step_def service_ok_def svc'
    using keep(1-3) rotate_refresh_unique [OF c mid(2)] db_step_trans [OF mid(3) keep(1)] cl by (auto simp: db_step_def)
  show "res = Inr t \<Longrightarrow> known_session (au_db svc') (sn_session_id (tr_session t)) \<and> \<not> inactive (au_db svc) (sn_session_id (tr_session t))"
    using keep(1,4) res mid(3) unfolding svc' db_step_def by fastforce
  show "res = Inr t \<Longrightarrow> \<not> spent (au_db svc) ?h" using keep(5) res cl(2) by blast
  assume "res = Inr t" and new: "?h \<noteq> new_refresh_hash env svc x"
  then obtain n where "rres = Inr (Rotated (tr_session t) n)" using res by blast
  with c have "rotate_refresh_token (clock_of env x) (in_fault x) (fr_token (in_ids x)) ?h (new_refresh_hash env svc x)
      (token_hash env svc (generate_token ''atk'' (in_access_bytes x))) (access_ttl (au_config svc)) (refresh_ttl (au_config svc)) ?mid
      = (Inr (Rotated (tr_session t) n), db)" by simp
  from rotated_spends [OF this] show "spent (au_db svc') ?h" using mid(2) new unfolding svc' unique_refresh_def by simp
qed

lemma service_revoke_step:
  assumes r: "service_revoke env x sid did all status svc = (res, svc')" and st: "status \<noteq> ActiveSession" and ok: "service_ok svc"
  shows "service_step env x (\<lambda>i. False) svc svc'"
    "in_fault x \<noteq> FailsInside \<Longrightarrow> known_session (au_db svc) i \<Longrightarrow> sid = Some i \<Longrightarrow> did = None \<Longrightarrow> inactive (au_db svc') i"
proof -
  obtain db where c: "revoke_sessions (clock_of env x) (in_fault x) sid did all status (au_db svc) = (res, db)"
    and svc': "svc' = svc\<lparr>au_db := db\<rparr>"
    using r by (auto simp: service_revoke_def split: prod.splits)
  have ok': "db_ok (au_db svc)" "unique_refresh (au_db svc)" using ok by (simp_all add: service_ok_def)
  note keep = revoke_sessions_keeps [OF c st ok'(1)]
  show "service_step env x (\<lambda>i. False) svc svc'"
    unfolding service_step_def service_ok_def svc'
    using keep(1-3) revoke_sessions_unique [OF c ok'(2)] by (auto simp: db_step_def)
  show "in_fault x \<noteq> FailsInside \<Longrightarrow> known_session (au_db svc) i \<Longrightarrow> sid = Some i \<Longrightarrow> did = None \<Longrightarrow> inactive (au_db svc') i"
    using keep(4) unfolding svc' by simp
qed

lemma service_step_limiter:
  assumes "service_step env x new (svc\<lparr>au_login_limiter := l, au_refresh_limiter := l'\<rparr>) svc'"
  shows "service_step env x new svc svc'"
  using assms by (simp add: service_step_def)

lemma limiter_ok: "service_ok (svc\<lparr>au_login_limiter := l, au_refresh_limiter := l'\<rparr>) = service_ok svc"
  by (simp add: service_ok_def)

lemma handle_login_step:
  assumes h: "handle_login env x hdr inp svc = (reply, svc')" and ok: "service_ok svc"
  shows "service_step env x (\<lambda>i. i = ''authsess_'' @ fr_session (in_ids x)) svc svc'
     \<and> (\<forall>a n i sc ck. reply = TokensReply a n i sc ck \<longrightarrow> known_session (au_db svc') i \<and> \<not> inactive (au_db svc) i)"
proof (cases "Option.bind hdr parse_bearer_token")
  case None
  then have "svc' = svc" "\<exists>e. reply = ErrorReply e" using h by (auto simp: handle_login_def split: option.splits)
  then show ?thesis using service_step_same [OF ok] by auto
next
  case (Some key)
  obtain b l where a: "allow (in_instant x) key (au_login_limiter svc) = (b, l)" by fastforce
  let ?svc = "svc\<lparr>au_login_limiter := l, au_refresh_limiter := au_refresh_limiter svc\<rparr>"
  obtain res svc1 where l: "service_login env x inp ?svc = (res, svc1)" by fastforce
  have ok1: "service_ok ?svc" using ok by (simp only: limiter_ok)
  show ?thesis
  proof (cases b)
    case False
    then have "svc' = ?svc" "\<exists>e. reply = ErrorReply e" using h Some a by (auto simp: handle_login_def split: option.splits)
    then show ?thesis using service_step_same [OF ok] by auto
  next
    case True
    then have "svc' = svc1" and reply: "reply = (case res of Inl _ \<Rightarrow> ErrorReply (api_internal ''failed to create auth session'') | Inr r \<Rightarrow> tokens_reply svc1 r)"
      using h Some a l by (auto simp: handle_login_def split: option.splits sum.splits)
    then show ?thesis using service_step_limiter [OF service_login_step(1) [OF l ok1]] service_login_step(2) [OF l ok1]
      by (cases res) (auto simp: tokens_reply_def)
  qed
qed

lemma handle_refresh_step:
  assumes h: "handle_refresh env x cookie svc = (reply, svc')" and ok: "service_ok svc"
  shows "service_step env x (\<lambda>i. False) svc svc'
     \<and> (\<forall>a n i sc ck. reply = TokensReply a n i sc ck \<longrightarrow> known_session (au_db svc') i \<and> \<not> inactive (au_db svc) i
          \<and> (\<exists>token. extract_refresh_token cookie = Some token \<and> \<not> spent (au_db svc) (token_hash env svc token)
               \<and> (token_hash env svc token \<noteq> new_refresh_hash env svc x \<longrightarrow> spent (au_db svc') (token_hash env svc token))))"
proof (cases "extract_refresh_token cookie")
  case None
  then have "svc' = svc" "\<exists>e. reply = ErrorReply e" using h by (auto simp: handle_refresh_def)
  then show ?thesis using service_step_same [OF ok] by auto
next
  case (Some token)
  obtain b l where a: "allow (in_instant x) (take 12 token) (au_refresh_limiter svc) = (b, l)" by fastforce
  let ?svc = "svc\<lparr>au_login_limiter := au_login_limiter svc, au_refresh_limiter := l\<rparr>"
  obtain res svc1 where l: "service_refresh env x token ?svc = (res, svc1)" by fastforce
  have ok1: "service_ok ?svc" using ok by (simp only: limiter_ok)
  show ?thesis
  proof (cases b)
    case False
    then have "svc' = ?svc" "\<exists>e. reply = ErrorReply e" using h Some a by (auto simp: handle_refresh_def)
    then show ?thesis using service_step_same [OF ok] by auto
  next
    case True
    then have svc': "svc' = svc1" and reply: "\<And>a n i sc ck. reply = TokensReply a n i sc ck \<Longrightarrow> \<exists>r. res = Inr r \<and> reply = tokens_reply svc1 r"
      using h Some a l by (auto simp: handle_refresh_def split: sum.splits refresh_error.splits)
    note step = service_refresh_step [OF l ok1]
    show ?thesis using service_step_limiter [OF step(1)] step(2-4) reply Some unfolding svc' by (fastforce simp: tokens_reply_def)
  qed
qed

lemma handle_logout_step:
  assumes "handle_logout env x sid svc = (reply, svc')" and ok: "service_ok svc"
  shows "service_step env x (\<lambda>i. False) svc svc' \<and> (\<forall>a n i sc ck. reply \<noteq> TokensReply a n i sc ck)
    \<and> (in_fault x \<noteq> FailsInside \<longrightarrow> (\<forall>i. sid = Some i \<longrightarrow> known_session (au_db svc) i \<longrightarrow> inactive (au_db svc') i))"
proof (cases sid)
  case None
  then show ?thesis using assms service_step_same [OF ok] by (auto simp: handle_logout_def)
next
  case (Some i)
  obtain res where "service_revoke env x (Some i) None False LoggedOut svc = (res, svc')" and "\<exists>c. reply = LoggedOutReply c"
    using assms(1) Some by (cases "service_revoke env x (Some i) None False LoggedOut svc") (auto simp: handle_logout_def)
  then show ?thesis using service_revoke_step [OF _ _ ok, of env x "Some i" None False LoggedOut res svc'] Some by auto
qed

lemma handle_revoke_step:
  assumes "handle_revoke env x sid did all svc = (reply, svc')" and ok: "service_ok svc"
  shows "service_step env x (\<lambda>i. False) svc svc' \<and> (\<forall>a n i sc ck. reply \<noteq> TokensReply a n i sc ck)"
proof -
  let ?all = "case all of Some b \<Rightarrow> b | None \<Rightarrow> False"
  obtain res where "service_revoke env x sid did ?all RevokedSession svc = (res, svc')" and "\<forall>a n i sc ck. reply \<noteq> TokensReply a n i sc ck"
    using assms(1) by (auto simp: handle_revoke_def split: sum.splits prod.splits)
  then show ?thesis using service_revoke_step(1) [OF _ _ ok] by blast
qed

text \<open>A request behind the access token is handled for a session that is known and active.\<close>

lemma access_token_session:
  assumes "access_token_middleware env x g hdr svc = Inr actor" and "service_ok svc"
  shows "\<exists>i. actor = ''auth_session:'' @ i \<and> known_session (au_db svc) i \<and> \<not> inactive (au_db svc) i"
  using assms validate_active [of "clock_of env x" g _ "au_db svc"]
  by (auto simp: access_token_middleware_def service_validate_def service_ok_def split: option.splits sum.splits)

lemma protected_step:
  assumes p: "protected env x g hdr handler svc = (r, svc')" and ok: "service_ok svc"
    and h: "\<And>reply svc'. handler svc = (reply, svc') \<Longrightarrow>
      service_step env x (\<lambda>i. False) svc svc' \<and> (\<forall>a n i sc ck. reply \<noteq> TokensReply a n i sc ck)"
  shows "service_step env x (\<lambda>i. False) svc svc' \<and> (\<forall>i. grants i r \<longrightarrow> known_session (au_db svc') i \<and> \<not> inactive (au_db svc) i)"
proof (cases "access_token_middleware env x g hdr svc")
  case (Inl e)
  then show ?thesis using p service_step_same [OF ok] by (auto simp: protected_def grants_def)
next
  case (Inr actor)
  obtain reply where handled: "handler svc = (reply, svc')" and r: "r = (actor, reply)"
    using p Inr by (auto simp: protected_def split: prod.splits)
  obtain i where "actor = ''auth_session:'' @ i" "known_session (au_db svc) i" "\<not> inactive (au_db svc) i"
    using access_token_session [OF Inr ok] by blast
  then show ?thesis using h [OF handled] unfolding r grants_def service_step_def db_step_def
    by (auto split: auth_reply.splits)
qed

lemma auth_step_effect:
  assumes s: "auth_step env x rq svc = (r, svc')" and ok: "service_ok svc"
  shows "service_step env x (\<lambda>i. owner_login env i (x, rq)) svc svc'
     \<and> (\<forall>i. grants i r \<longrightarrow> known_session (au_db svc') i \<and> \<not> inactive (au_db svc) i)"
proof -
  have weaken: "service_step env x (\<lambda>i. False) svc svc' \<Longrightarrow> service_step env x (\<lambda>i. owner_login env i (x, rq)) svc svc'"
    by (auto simp: service_step_def)
  show ?thesis
  proof (cases rq)
    case (LoginRequest hdr inp)
    show ?thesis
    proof (cases "owner_key_middleware env hdr")
      case (Inl e)
      then show ?thesis using s LoginRequest service_step_same [OF ok] by (auto simp: grants_def)
    next
      case (Inr actor)
      obtain v key where key: "hdr = Some v" "parse_bearer_token v = Some key" "key \<in> ne_keys env" "actor = ''api_key:'' @ take 6 key"
        using Inr by (auto simp: owner_key_middleware_def split: option.splits if_splits)
      obtain reply where h: "handle_login env x hdr inp svc = (reply, svc')" and r: "r = (actor, reply)"
        using s LoginRequest Inr by (auto split: prod.splits)
      have "owner_login env (''authsess_'' @ fr_session (in_ids x)) (x, rq)" using key LoginRequest by (auto simp: owner_login_def)
      then show ?thesis using handle_login_step [OF h ok] key(4) unfolding r
        by (auto simp: grants_def service_step_def split: auth_reply.splits)
    qed
  next
    case (RefreshRequest cookie)
    then obtain reply where h: "handle_refresh env x cookie svc = (reply, svc')" and r: "r = (''anonymous'', reply)"
      using s by (auto split: prod.splits)
    then show ?thesis using handle_refresh_step [OF h ok] weaken by (auto simp: grants_def split: auth_reply.splits)
  next
    case (LogoutRequest hdr g sid)
    then have "protected env x g hdr (handle_logout env x sid) svc = (r, svc')" using s by simp
    from protected_step [OF this ok] show ?thesis using handle_logout_step [OF _ ok] weaken by blast
  next
    case (RevokeRequest hdr g sid did all)
    then have "protected env x g hdr (handle_revoke env x sid did all) svc = (r, svc')" using s by simp
    from protected_step [OF this ok] show ?thesis using handle_revoke_step [OF _ ok] weaken by blast
  next
    case (ListSessionsRequest hdr g)
    then have "protected env x g hdr (\<lambda>svc. (handle_list_sessions x svc, svc)) svc = (r, svc')" using s by simp
    from protected_step [OF this ok] show ?thesis using service_step_same [OF ok] weaken
      by (auto simp: handle_list_sessions_def split: sum.splits)
  next
    case (OtherRequest hdr g)
    then have "protected env x g hdr (\<lambda>svc. (PassedReply, svc)) svc = (r, svc')" using s by simp
    from protected_step [OF this ok] show ?thesis using service_step_same [OF ok] weaken by auto
  qed
qed

section \<open>What holds over a series of requests\<close>

text \<open>An invariant of the service that requests of a kind keep, and what it says of their replies.\<close>

locale auth_invariant =
  fixes env :: auth_env
    and admitted :: "auth_input \<times> auth_request \<Rightarrow> bool"
    and I :: "auth_service \<Rightarrow> bool"
    and Q :: "auth_input \<times> auth_request \<Rightarrow> string \<times> auth_reply \<Rightarrow> bool"
  assumes keeps: "I svc \<Longrightarrow> admitted (x, rq) \<Longrightarrow> auth_step env x rq svc = (r, svc') \<Longrightarrow> I svc'"
    and replies: "I svc \<Longrightarrow> admitted (x, rq) \<Longrightarrow> auth_step env x rq svc = (r, svc') \<Longrightarrow> Q (x, rq) r"
begin

lemma run_keeps:
  "I svc \<Longrightarrow> list_all admitted rqs \<Longrightarrow> auth_run env rqs svc = (rs, svc') \<Longrightarrow> I svc' \<and> list_all2 Q rqs rs"
proof (induction rqs arbitrary: svc rs)
  case (Cons s rqs)
  obtain x rq where s: "s = (x, rq)" by (cases s)
  obtain r svc1 rs1 where step: "auth_step env x rq svc = (r, svc1)" and run: "auth_run env rqs svc1 = (rs1, svc')"
    and rs: "rs = r # rs1" using Cons.prems(3) by (auto simp: s split: prod.splits)
  show ?case using Cons.IH [OF keeps [OF _ _ step] _ run] replies [OF _ _ step] Cons.prems(1,2) by (simp add: s rs)
qed simp

end

lemma auth_run_append:
  "auth_run env (as @ bs) svc = (let (rs, svc) = auth_run env as svc; (rs', svc) = auth_run env bs svc in (rs @ rs', svc))"
  by (induction as arbitrary: svc) (auto simp: Let_def split: prod.splits)

lemma length_auth_run [simp]: "length (fst (auth_run env rqs svc)) = length rqs"
  by (induction rqs arbitrary: svc) (auto simp: case_prod_unfold Let_def)

lemma auth_run_split:
  assumes "auth_run env (as @ bs) svc = (rs, svc')"
  obtains rs1 svc1 rs2 where "auth_run env as svc = (rs1, svc1)" "auth_run env bs svc1 = (rs2, svc')" "rs = rs1 @ rs2" "length rs1 = length as"
proof -
  obtain rs1 svc1 where a: "auth_run env as svc = (rs1, svc1)" by fastforce
  moreover obtain rs2 svc2 where "auth_run env bs svc1 = (rs2, svc2)" by fastforce
  ultimately show ?thesis using assms that length_auth_run [of env as svc] by (simp add: auth_run_append)
qed

text \<open>The store stays well formed; what is granted is known.\<close>

interpretation well_formed: auth_invariant env "\<lambda>_. True" service_ok "\<lambda>_ _. True" for env
  by unfold_locales (use auth_step_effect service_step_def in blast)+

interpretation configured: auth_invariant env "\<lambda>_. True" "\<lambda>svc. service_ok svc \<and> au_config svc = cfg" "\<lambda>_ _. True" for env cfg
  by unfold_locales (use auth_step_effect service_step_def in metis)+

interpretation remembered: auth_invariant env "\<lambda>_. True" "\<lambda>svc. service_ok svc \<and> known_session (au_db svc) i" "\<lambda>_ _. True" for env i
  by unfold_locales (use auth_step_effect service_step_def db_step_def in metis)+

interpretation locked: auth_invariant env "\<lambda>_. True" "\<lambda>svc. service_ok svc \<and> inactive (au_db svc) i" "\<lambda>_ r. \<not> grants i r" for env i
proof
  fix svc x rq r svc'
  assume I: "service_ok svc \<and> inactive (au_db svc) i" and s: "auth_step env x rq svc = (r, svc')"
  then show "service_ok svc' \<and> inactive (au_db svc') i" "\<not> grants i r"
    using auth_step_effect [OF s] by (auto simp: service_step_def db_step_def)
qed

interpretation unknown: auth_invariant env "\<lambda>s. \<not> owner_login env i s" "\<lambda>svc. service_ok svc \<and> \<not> known_session (au_db svc) i"
    "\<lambda>_ r. \<not> grants i r" for env i
proof
  fix svc x rq r svc'
  assume I: "service_ok svc \<and> \<not> known_session (au_db svc) i" and a: "\<not> owner_login env i (x, rq)"
    and s: "auth_step env x rq svc = (r, svc')"
  have e: "service_step env x (\<lambda>i. owner_login env i (x, rq)) svc svc'"
      "\<forall>i. grants i r \<longrightarrow> known_session (au_db svc') i \<and> \<not> inactive (au_db svc) i"
    using auth_step_effect [OF s] I by blast+
  then show "service_ok svc' \<and> \<not> known_session (au_db svc') i" using I a by (auto simp: service_step_def)
  then show "\<not> grants i r" using e(2) by blast
qed

text \<open>The requests that draw other bytes for a refresh token than those of one in use.\<close>

definition draws_other :: "auth_env \<Rightarrow> string \<Rightarrow> string \<Rightarrow> auth_input \<times> auth_request \<Rightarrow> bool" where
  "draws_other env pepper h s \<longleftrightarrow> hash_token (ne_sha env) (generate_token ''rtk'' (in_refresh_bytes (fst s))) pepper \<noteq> h"

text \<open>Whether a request trades in the refresh token \<open>token\<close> for new tokens.\<close>

definition trades_in :: "string \<Rightarrow> auth_input \<times> auth_request \<Rightarrow> string \<times> auth_reply \<Rightarrow> bool" where
  "trades_in token s r \<longleftrightarrow> (\<exists>cookie. snd s = RefreshRequest cookie \<and> extract_refresh_token cookie = Some token)
     \<and> (\<exists>a n i sc ck. snd r = TokensReply a n i sc ck)"

lemma refresh_step_trades:
  assumes s: "auth_step env x rq svc = (r, svc')" and t: "trades_in token (x, rq) r" and ok: "service_ok svc"
  shows "\<not> spent (au_db svc) (token_hash env svc token)"
    "token_hash env svc token \<noteq> new_refresh_hash env svc x \<Longrightarrow> spent (au_db svc') (token_hash env svc token)"
proof -
  obtain cookie where rq: "rq = RefreshRequest cookie" "extract_refresh_token cookie = Some token" using t by (auto simp: trades_in_def)
  obtain reply where h: "handle_refresh env x cookie svc = (reply, svc')" and r: "r = (''anonymous'', reply)"
    using s rq by (auto split: prod.splits)
  show "\<not> spent (au_db svc) (token_hash env svc token)"
    "token_hash env svc token \<noteq> new_refresh_hash env svc x \<Longrightarrow> spent (au_db svc') (token_hash env svc token)"
    using handle_refresh_step [OF h ok] t rq(2) unfolding trades_in_def r by fastforce+
qed

interpretation used: auth_invariant env "draws_other env pepper (hash_token (ne_sha env) token pepper)"
    "\<lambda>svc. service_ok svc \<and> cg_token_pepper (au_config svc) = pepper \<and> spent (au_db svc) (hash_token (ne_sha env) token pepper)"
    "\<lambda>s r. \<not> trades_in token s r" for env pepper token
proof
  fix svc x rq r svc'
  let ?h = "hash_token (ne_sha env) token pepper"
  assume I: "service_ok svc \<and> cg_token_pepper (au_config svc) = pepper \<and> spent (au_db svc) ?h"
    and a: "draws_other env pepper ?h (x, rq)" and s: "auth_step env x rq svc = (r, svc')"
  then show "service_ok svc' \<and> cg_token_pepper (au_config svc') = pepper \<and> spent (au_db svc') ?h"
    using auth_step_effect [OF s] by (auto simp: service_step_def draws_other_def)
  show "\<not> trades_in token (x, rq) r" using refresh_step_trades(1) [OF s] I by blast
qed

section \<open>Guarantees\<close>

lemma granted_known:
  assumes r1: "auth_run env rqs (service_new cfg) = (rs, svc)" and k: "k < length rqs" "grants i (rs ! k)"
  shows "known_session (au_db svc) i"
proof -
  obtain ra sa rb where ra: "auth_run env (take (Suc k) rqs) (service_new cfg) = (ra, sa)"
    and rb: "auth_run env (drop (Suc k) rqs) sa = (rb, svc)" and rab: "rs = ra @ rb" "length ra = length (take (Suc k) rqs)"
    by (rule auth_run_split [of env "take (Suc k) rqs" "drop (Suc k) rqs" "service_new cfg" rs svc])
      (simp only: append_take_drop_id r1)
  obtain rc sc rd where rc: "auth_run env (take k rqs) (service_new cfg) = (rc, sc)"
    and rd: "auth_run env [rqs ! k] sc = (rd, sa)" and rcd: "ra = rc @ rd" "length rc = length (take k rqs)"
    by (rule auth_run_split [of env "take k rqs" "[rqs ! k]" "service_new cfg" ra sa])
      (simp only: take_Suc_conv_app_nth [OF k(1), symmetric] ra)
  have okc: "service_ok sc" using well_formed.run_keeps [OF service_new_ok _ rc] by (simp add: list_all_iff)
  obtain y q where yq: "rqs ! k = (y, q)" by (cases "rqs ! k")
  then have "auth_step env y q sc = (rs ! k, sa)" using rd rcd rab k(1) by (auto simp: nth_append split: prod.splits)
  from auth_step_effect [OF this okc] have "known_session (au_db sa) i" "service_ok sa" using k(2) by (auto simp: service_step_def)
  then show ?thesis using remembered.run_keeps [OF _ _ rb] by (simp add: list_all_iff)
qed

text \<open>C35: logging out works and lasts. Whatever requests came before and come after, with whatever faults of
  the database: when a session that some reply had granted is logged out, and the database does not fail
  during that very request, no later reply lets anyone act for the session, neither by an access token
  issued before nor by a refresh token.\<close>

theorem logged_out_session_locked:
  assumes run: "auth_run env (before @ (x, LogoutRequest hdr g (Some i)) # after) (service_new cfg) = (rs, svc)"
    and known: "\<exists>r \<in> set (take (length before) rs). grants i r"
    and answer: "snd (rs ! length before) = LoggedOutReply ck" and healthy: "in_fault x \<noteq> FailsInside"
  shows "\<forall>r \<in> set (drop (Suc (length before)) rs). \<not> grants i r"
proof -
  obtain rs1 svc1 rs2 where r1: "auth_run env before (service_new cfg) = (rs1, svc1)"
    and r2: "auth_run env ((x, LogoutRequest hdr g (Some i)) # after) svc1 = (rs2, svc)" and rs: "rs = rs1 @ rs2" "length rs1 = length before"
    using run by (rule auth_run_split)
  obtain r svc2 rs3 where step: "auth_step env x (LogoutRequest hdr g (Some i)) svc1 = (r, svc2)"
    and r3: "auth_run env after svc2 = (rs3, svc)" and rs2: "rs2 = r # rs3"
    using r2 by (auto split: prod.splits)
  have ok1: "service_ok svc1" using well_formed.run_keeps [OF service_new_ok _ r1] by (simp add: list_all_iff)
  obtain k where "k < length before" "grants i (rs1 ! k)" using known rs by (auto simp: in_set_conv_nth)
  then have k1: "known_session (au_db svc1) i" by (rule granted_known [OF r1])
  have "\<exists>reply. handle_logout env x (Some i) svc1 = (reply, svc2)"
    using step answer rs rs2 by (auto simp: protected_def nth_append split: sum.splits prod.splits)
  then have "service_ok svc2" "inactive (au_db svc2) i"
    using handle_logout_step [OF _ ok1] k1 healthy unfolding service_step_def by blast+
  then have "list_all2 (\<lambda>_ r. \<not> grants i r) after rs3" using locked.run_keeps [OF _ _ r3] by (simp add: list_all_iff)
  moreover have "drop (Suc (length before)) rs = rs3" using rs rs2 by simp
  ultimately show ?thesis by (metis in_set_conv_nth list_all2_conv_all_nth)
qed

text \<open>C36: a refresh token is traded in once. After a reply that traded it for new tokens, no request that
  presents it again is given tokens, whatever happens in between and however old the store's rows get, as
  long as the gateway does not draw the bytes of that very token again.\<close>

theorem refresh_token_single_use:
  assumes run: "auth_run env (before @ (x, RefreshRequest cookie) # after) (service_new cfg) = (rs, svc)"
    and traded: "trades_in token (x, RefreshRequest cookie) (rs ! length before)"
    and draws: "list_all (draws_other env (cg_token_pepper cfg) (hash_token (ne_sha env) token (cg_token_pepper cfg)))
      ((x, RefreshRequest cookie) # after)"
  shows "list_all2 (\<lambda>s r. \<not> trades_in token s r) after (drop (Suc (length before)) rs)"
proof -
  obtain rs1 svc1 rs2 where r1: "auth_run env before (service_new cfg) = (rs1, svc1)"
    and r2: "auth_run env ((x, RefreshRequest cookie) # after) svc1 = (rs2, svc)" and rs: "rs = rs1 @ rs2" "length rs1 = length before"
    using run by (rule auth_run_split)
  obtain r svc2 rs3 where step: "auth_step env x (RefreshRequest cookie) svc1 = (r, svc2)"
    and r3: "auth_run env after svc2 = (rs3, svc)" and rs2: "rs2 = r # rs3"
    using r2 by (auto simp del: auth_step.simps split: prod.splits)
  have "service_ok svc1 \<and> au_config svc1 = cfg"
    using configured.run_keeps [OF _ _ r1] service_new_ok [of cfg] by (simp add: list_all_iff service_new_def)
  then have ok1: "service_ok svc1" and cfg: "au_config svc1 = cfg" by simp_all
  let ?h = "hash_token (ne_sha env) token (cg_token_pepper cfg)"
  have r: "rs ! length before = r" using rs rs2 by (simp add: nth_append)
  have "?h \<noteq> hash_token (ne_sha env) (generate_token ''rtk'' (in_refresh_bytes x)) (cg_token_pepper cfg)"
    using draws by (auto simp: draws_other_def)
  then have "spent (au_db svc2) ?h" using refresh_step_trades(2) [OF step _ ok1] traded unfolding r cfg by blast
  moreover have "service_ok svc2 \<and> au_config svc2 = cfg" using auth_step_effect [OF step ok1] cfg by (simp add: service_step_def)
  ultimately have "list_all2 (\<lambda>s r. \<not> trades_in token s r) after rs3"
    using used.run_keeps [of svc2 "cg_token_pepper cfg" env token after rs3 svc] r3 draws by simp
  then show ?thesis using rs rs2 by simp
qed

text \<open>C37: nobody gets in without an owner key. Whatever requests are sent, with whatever tokens, to a gateway
  that started with an empty store: a reply that lets its receiver act for a session comes after a login
  that presented one of the configured API keys and created that session.\<close>

theorem sessions_need_owner_key:
  assumes run: "auth_run env rqs (service_new cfg) = (rs, svc)" and k: "k < length rs" and g: "grants i (rs ! k)"
  shows "\<exists>j \<le> k. owner_login env i (rqs ! j)"
proof (rule ccontr)
  assume no: "\<not> ?thesis"
  have len: "length rs = length rqs" using length_auth_run [of env rqs "service_new cfg"] run by simp
  obtain ra sa rb where ra: "auth_run env (take (Suc k) rqs) (service_new cfg) = (ra, sa)" and rs: "rs = ra @ rb"
    and la: "length ra = length (take (Suc k) rqs)"
    by (rule auth_run_split [of env "take (Suc k) rqs" "drop (Suc k) rqs" "service_new cfg" rs svc])
      (simp only: append_take_drop_id run)
  have "list_all (\<lambda>s. \<not> owner_login env i s) (take (Suc k) rqs)"
    using no k len by (auto simp: list_all_length)
  then have "list_all2 (\<lambda>_ r. \<not> grants i r) (take (Suc k) rqs) ra"
    using unknown.run_keeps [OF _ _ ra] service_new_ok db_ok_init(2) by (simp add: service_new_def)
  then show False using g k len la rs by (auto simp: list_all2_conv_all_nth nth_append)
qed

section \<open>The rate limiter counts\<close>

text \<open>The calls let through, each with its time and key.\<close>

fun admitted :: "(int \<times> string) list \<Rightarrow> rate_limiter \<Rightarrow> (int \<times> string) list \<times> rate_limiter" where
  "admitted [] l = ([], l)"
| "admitted ((now, key) # calls) l =
     (let (ok, l) = allow now key l; (rest, l) = admitted calls l in ((if ok then [(now, key)] else []) @ rest, l))"

definition times_of :: "string \<Rightarrow> (int \<times> string) list \<Rightarrow> int list" where
  "times_of key calls = map fst (filter (\<lambda>c. snd c = key) calls)"

definition bucket_of :: "rate_limiter \<Rightarrow> string \<Rightarrow> int list" where
  "bucket_of l key = (case rl_buckets l key of None \<Rightarrow> [] | Some b \<Rightarrow> b)"

text \<open>Never more than the limit in a window, wherever it starts.\<close>

definition within_limit :: "nat \<Rightarrow> int \<Rightarrow> int list \<Rightarrow> bool" where
  "within_limit limit window ts \<longleftrightarrow> (\<forall>t. length (filter (\<lambda>s. t \<le> s \<and> s \<le> t + window) ts) \<le> limit)"

text \<open>Between calls: what was let through for a key is what has been dropped, too old by now, and the bucket.\<close>

definition limiter_inv :: "nat \<Rightarrow> int \<Rightarrow> (string \<Rightarrow> int list) \<Rightarrow> int \<Rightarrow> rate_limiter \<Rightarrow> bool" where
  "limiter_inv limit window past now l \<longleftrightarrow> rl_limit l = limit \<and> rl_window l = window
     \<and> (\<forall>key. within_limit limit window (past key)
          \<and> (\<exists>old. past key = old @ bucket_of l key \<and> (\<forall>t \<in> set old. window < now - t)))"

lemma within_limit_snoc:
  assumes w: "within_limit limit window (old @ bucket)" and old: "\<forall>t \<in> set old. window < now - t" and b: "length bucket < limit"
  shows "within_limit limit window ((old @ bucket) @ [now])"
  unfolding within_limit_def
proof
  fix t
  let ?in = "\<lambda>s. t \<le> s \<and> s \<le> t + window"
  show "length (filter ?in ((old @ bucket) @ [now])) \<le> limit"
  proof (cases "?in now")
    case True
    then have "filter ?in old = []" using old by (auto simp: filter_empty_conv)
    moreover have "length (filter ?in bucket) < limit" using le_less_trans [OF length_filter_le b] .
    ultimately show ?thesis by simp
  next
    case False
    then show ?thesis using w by (auto simp: within_limit_def)
  qed
qed

lemma allow_step:
  assumes inv: "limiter_inv limit window past before l" and le: "before \<le> now" and pos: "0 \<le> window"
    and a: "allow now key l = (ok, l')"
  shows "limiter_inv limit window (\<lambda>k. past k @ (if ok \<and> k = key then [now] else [])) now l'"
proof -
  let ?stale = "\<lambda>ts. \<not> max 0 (now - ts) \<le> window" and ?b = "bucket_of l key"
  have l: "rl_limit l = limit" "rl_window l = window" using inv by (simp_all add: limiter_inv_def)
  obtain old where old: "past key = old @ ?b" "\<forall>t \<in> set old. window < before - t" and w: "within_limit limit window (past key)"
    using inv unfolding limiter_inv_def by blast
  have gone: "\<forall>t \<in> set (old @ takeWhile ?stale ?b). window < now - t" using old(2) le pos by (auto dest!: set_takeWhileD)
  have split: "past key = (old @ takeWhile ?stale ?b) @ dropWhile ?stale ?b" using old(1) by simp
  have ok: "ok \<longleftrightarrow> length (dropWhile ?stale ?b) < limit"
    and l': "rl_limit l' = limit" "rl_window l' = window"
      "bucket_of l' k = (if k = key then dropWhile ?stale ?b @ (if ok then [now] else []) else bucket_of l k)" for k
    using a l by (auto simp: allow_def Let_def bucket_of_def split: if_splits)
  show ?thesis unfolding limiter_inv_def
  proof (intro conjI allI)
    fix k
    show "within_limit limit window (past k @ (if ok \<and> k = key then [now] else []))"
    proof (cases "ok \<and> k = key")
      case True
      then show ?thesis using within_limit_snoc [OF w [unfolded split] gone] ok split by (simp only: simp_thms if_True)
    next
      case False
      then show ?thesis using inv by (auto simp: limiter_inv_def)
    qed
    show "\<exists>old. past k @ (if ok \<and> k = key then [now] else []) = old @ bucket_of l' k \<and> (\<forall>t \<in> set old. window < now - t)"
    proof (cases "k = key")
      case True
      then show ?thesis using split gone l'(3) by (intro exI [where x = "old @ takeWhile ?stale ?b"]) auto
    next
      case False
      then obtain o' where "past k = o' @ bucket_of l k" "\<forall>t \<in> set o'. window < before - t"
        using inv unfolding limiter_inv_def by blast
      then show ?thesis using False l'(3) le by (intro exI [where x = o']) fastforce
    qed
  qed (use l' in simp_all)
qed

lemma admitted_within_limit:
  assumes "limiter_inv limit window past before l" and "0 \<le> window" and "sorted (map fst calls)" and "\<forall>c \<in> set calls. before \<le> fst c"
  shows "within_limit limit window (past key @ times_of key (fst (admitted calls l)))"
  using assms
proof (induction calls arbitrary: past before l)
  case Nil
  then show ?case by (simp add: limiter_inv_def times_of_def)
next
  case (Cons c calls)
  obtain now k where c: "c = (now, k)" by (cases c)
  obtain ok l1 where a: "allow now k l = (ok, l1)" by fastforce
  have "before \<le> now" using Cons.prems(4) by (simp add: c)
  from Cons.IH [OF allow_step [OF Cons.prems(1) this Cons.prems(2) a] Cons.prems(2)] Cons.prems(3)
  show ?case by (auto simp: c a case_prod_unfold Let_def times_of_def)
qed

text \<open>C38: the limiter keeps its promise over any stretch of time, not only over the minute it looks at. Calls
  with a clock that does not run backwards: for every key and every closed interval as long as the
  window, at most \<open>limit\<close> of the calls in the interval are let through.\<close>

theorem rate_limit_per_window:
  assumes "sorted (map fst calls)" and "0 \<le> window"
  shows "length (filter (\<lambda>s. t \<le> s \<and> s \<le> t + window) (times_of key (fst (admitted calls (limiter_new limit window))))) \<le> limit"
proof (cases calls)
  case (Cons c cs)
  have "limiter_inv limit window (\<lambda>_. []) (fst c) (limiter_new limit window)"
    by (simp add: limiter_inv_def limiter_new_def bucket_of_def within_limit_def)
  from admitted_within_limit [OF this assms(2,1)] assms(1) show ?thesis by (simp add: Cons within_limit_def)
qed (simp add: times_of_def)

theorem rate_limit_per_window_witness:
  "length (filter (\<lambda>s. 1 \<le> s \<and> s \<le> 1 + 10)
     (times_of ''k'' (fst (admitted [(0, ''k''), (1, ''k''), (5, ''k''), (11, ''k''), (12, ''k'')] (limiter_new 2 10))))) \<le> 2"
  by (rule rate_limit_per_window) simp_all

section \<open>Examples\<close>

definition sample_auth_env :: auth_env where
  "sample_auth_env = \<lparr>ne_sha = (\<lambda>s. s), ne_rfc3339 = (\<lambda>t. if snd t = 0 then ''a'' else ''b''), ne_keys = {''key''}\<rparr>"

definition sample_auth_input :: "8 word \<Rightarrow> auth_input" where
  "sample_auth_input b = \<lparr>in_now = (0, 1), in_stamp = (0, 0), in_instant = 0, in_cleanup_fault = Healthy, in_fault = Healthy,
     in_ids = \<lparr>fr_session = ''s'', fr_device = ''d'', fr_token = hex_encode [b]\<rparr>, in_access_bytes = [b], in_refresh_bytes = [b]\<rparr>"

definition sample_auth_config :: auth_config where
  "sample_auth_config = \<lparr>cg_access_ttl_minutes = 15, cg_refresh_ttl_days = 0, cg_cookie_secure = True,
     cg_login_rate_limit_per_min = 3, cg_refresh_rate_limit_per_min = 3, cg_token_pepper = ''p''\<rparr>"

definition sample_login :: "auth_input \<times> auth_request" where
  "sample_login = (sample_auth_input 1,
     LoginRequest (Some ''Bearer key'') \<lparr>ni_device_name = None, ni_platform = None, ni_user_agent = None\<rparr>)"

definition sample_refresh :: "8 word \<Rightarrow> auth_input \<times> auth_request" where
  "sample_refresh b = (sample_auth_input b, RefreshRequest (Some ''x=1; ojx_refresh_token=rtk_01''))"

abbreviation granted_in :: "string \<Rightarrow> (auth_input \<times> auth_request) list \<Rightarrow> bool list" where
  "granted_in i rqs \<equiv> map (grants i) (fst (auth_run sample_auth_env rqs (service_new sample_auth_config)))"

lemma sample_granted: "granted_in ''authsess_s'' [sample_login, sample_refresh 2, sample_refresh 3] = [True, True, False]"
  by code_simp

abbreviation sample_run :: "(auth_input \<times> auth_request) list \<Rightarrow> (string \<times> auth_reply) list \<times> auth_service" where
  "sample_run rqs \<equiv> auth_run sample_auth_env rqs (service_new sample_auth_config)"

definition sample_logout :: "auth_input \<times> auth_request" where
  "sample_logout = (sample_auth_input 4, LogoutRequest (Some ''Bearer atk_01'') Healthy (Some ''authsess_s''))"

definition sample_other :: "auth_input \<times> auth_request" where
  "sample_other = (sample_auth_input 5, OtherRequest (Some ''Bearer atk_01'') Healthy)"

theorem logged_out_session_locked_witness:
  "list_all (\<lambda>r. \<not> grants ''authsess_s'' r)
     (drop 3 (fst (sample_run [sample_login, sample_other, sample_logout, sample_other, sample_refresh 2])))"
proof -
  obtain rs svc where run: "sample_run ([sample_login, sample_other] @ sample_logout # [sample_other, sample_refresh 2]) = (rs, svc)" by fastforce
  have facts: "map (grants ''authsess_s'') (take 2 rs) = [True, True]" "\<exists>ck. snd (rs ! 2) = LoggedOutReply ck"
  proof -
    have "map (grants ''authsess_s'') (take 2 (fst (sample_run [sample_login, sample_other, sample_logout, sample_other, sample_refresh 2]))) = [True, True]"
      by code_simp
    moreover have "case snd (fst (sample_run [sample_login, sample_other, sample_logout, sample_other, sample_refresh 2]) ! 2) of
        LoggedOutReply _ \<Rightarrow> True | _ \<Rightarrow> False" by code_simp
    ultimately show "map (grants ''authsess_s'') (take 2 rs) = [True, True]" "\<exists>ck. snd (rs ! 2) = LoggedOutReply ck"
      using run by (auto split: auth_reply.splits)
  qed
  then have k: "\<exists>r \<in> set (take 2 rs). grants ''authsess_s'' r" by (cases "take 2 rs") auto
  obtain ck where ck: "snd (rs ! 2) = LoggedOutReply ck" using facts(2) by blast
  show ?thesis
    using logged_out_session_locked [OF run [unfolded sample_logout_def] _ _ , of ck] k ck run
    by (simp add: sample_auth_input_def numeral_2_eq_2 numeral_3_eq_3 list_all_iff)
qed

theorem refresh_token_single_use_witness:
  "list_all2 (\<lambda>s r. \<not> trades_in ''rtk_01'' s r) [sample_refresh 3] (drop 2 (fst (sample_run [sample_login, sample_refresh 2, sample_refresh 3])))"
proof -
  obtain rs svc where run: "sample_run ([sample_login] @ sample_refresh 2 # [sample_refresh 3]) = (rs, svc)" by fastforce
  have "case snd (fst (sample_run [sample_login, sample_refresh 2, sample_refresh 3]) ! 1) of TokensReply _ _ _ _ _ \<Rightarrow> True | _ \<Rightarrow> False"
    by code_simp
  then have "\<exists>a n i sc ck. snd (rs ! 1) = TokensReply a n i sc ck" using run by (auto split: auth_reply.splits)
  moreover have "extract_refresh_token (Some ''x=1; ojx_refresh_token=rtk_01'') = Some ''rtk_01''" by code_simp
  ultimately have t: "trades_in ''rtk_01'' (sample_refresh 2) (rs ! 1)" by (simp add: trades_in_def sample_refresh_def)
  have d: "list_all (draws_other sample_auth_env ''p'' ''rtk_01p'') [sample_refresh 2, sample_refresh 3]" by code_simp
  show ?thesis
    using refresh_token_single_use [OF run [unfolded sample_refresh_def], of "''rtk_01''"] t d run
    by (simp add: sample_refresh_def sample_auth_config_def sample_auth_env_def hash_token_def numeral_2_eq_2)
qed

theorem sessions_need_owner_key_witness:
  "\<exists>j \<le> 1. owner_login sample_auth_env ''authsess_s'' ([sample_login, sample_other] ! j)"
proof -
  obtain rs svc where run: "sample_run [sample_login, sample_other] = (rs, svc)" by fastforce
  have "map (grants ''authsess_s'') (fst (sample_run [sample_login, sample_other])) = [True, True]" by code_simp
  then have "length rs = 2" "grants ''authsess_s'' (rs ! 1)" using run by (cases rs; cases "tl rs"; force)+
  then show ?thesis using sessions_need_owner_key [OF run, of 1 "''authsess_s''"] by simp
qed

end
