(* ===== verification/PolicyAdmin.thy ===== *)
theory PolicyAdmin
  imports SessionList TurnDispatch
begin

text \<open>
  The administration of the policy centre in the gateway
  (\<open>openjax-gateway/src/handlers/policy.rs\<close>, \<open>state/config.rs\<close>): drafting rules, publishing them,
  overlays and levels of sessions, and the policy a turn then runs under
  (\<open>state/turn_orchestrator.rs\<close>). The lock of the policy state makes each of its operations one
  step; a request body that does not parse is the text of its rejection.
\<close>

section \<open>Rules on the wire\<close>

datatype api_decision_kind = ApiAllow | ApiAsk | ApiEscalate | ApiDeny

definition into_domain :: "api_decision_kind \<Rightarrow> decision_kind" where
  "into_domain k = (case k of ApiAllow \<Rightarrow> Allow | ApiAsk \<Rightarrow> Ask | ApiEscalate \<Rightarrow> Escalate | ApiDeny \<Rightarrow> Deny)"

definition api_kind_from :: "decision_kind \<Rightarrow> api_decision_kind" where
  "api_kind_from k = (case k of Allow \<Rightarrow> ApiAllow | Ask \<Rightarrow> ApiAsk | Escalate \<Rightarrow> ApiEscalate | Deny \<Rightarrow> ApiDeny)"

text \<open>The body of a request about a rule: all of it but the identifier.\<close>

record rule_body =
  rb_decision :: api_decision_kind
  rb_priority :: int
  rb_tool_name :: "string option"
  rb_action :: "string option"
  rb_session_id :: "string option"
  rb_actor :: "string option"
  rb_resource :: "string option"
  rb_capabilities_all :: "string list"
  rb_risk_tags_all :: "string list"
  rb_reason :: string

definition normalize_optional :: "string option \<Rightarrow> string option" where
  "normalize_optional value = Option.bind value (\<lambda>t. if trim t = [] then None else Some (trim t))"

definition normalize_vec :: "string list \<Rightarrow> string list" where
  "normalize_vec items = filter (\<lambda>t. t \<noteq> []) (map trim items)"

definition into_domain_with_id :: "rule_body \<Rightarrow> string \<Rightarrow> api_error + policy_rule" where
  "into_domain_with_id b i =
     (if trim i = [] then Inl (api_invalid_argument ''rule id must not be empty'' (json_obj []))
      else if trim (rb_reason b) = [] then Inl (api_invalid_argument ''rule reason must not be empty'' (json_obj []))
      else Inr \<lparr>rule_id = trim i, rule_decision = into_domain (rb_decision b), rule_priority = rb_priority b,
        rule_tool_name = normalize_optional (rb_tool_name b), rule_action = normalize_optional (rb_action b),
        rule_session_id = normalize_optional (rb_session_id b), rule_actor = normalize_optional (rb_actor b),
        rule_resource = normalize_optional (rb_resource b), rule_capabilities_all = normalize_vec (rb_capabilities_all b),
        rule_risk_tags_all = normalize_vec (rb_risk_tags_all b), rule_reason = trim (rb_reason b)\<rparr>)"

text \<open>\<open>ApiPolicyRule::from_domain\<close>: identifier and body.\<close>

definition rule_from_domain :: "policy_rule \<Rightarrow> string \<times> rule_body" where
  "rule_from_domain r = (rule_id r,
     \<lparr>rb_decision = api_kind_from (rule_decision r), rb_priority = rule_priority r, rb_tool_name = rule_tool_name r,
      rb_action = rule_action r, rb_session_id = rule_session_id r, rb_actor = rule_actor r, rb_resource = rule_resource r,
      rb_capabilities_all = rule_capabilities_all r, rb_risk_tags_all = rule_risk_tags_all r, rb_reason = rule_reason r\<rparr>)"

definition create_into_domain :: "string \<times> rule_body \<Rightarrow> api_error + policy_rule" where
  "create_into_domain rq = into_domain_with_id (snd rq) (trim (fst rq))"

definition parse_json_body :: "string + 'b \<Rightarrow> api_error + 'b" where
  "parse_json_body payload = (case payload of
     Inr v \<Rightarrow> Inr v
   | Inl reason \<Rightarrow> Inl (api_invalid_argument ''invalid request body'' (json_obj [(''reason'', JString reason)])))"

section \<open>State\<close>

record gateway_policy_state =
  py_draft_rules :: "policy_rule list"
  py_default_decision :: decision_kind
  py_runtime :: policy_snapshot

definition policy_state_new :: gateway_policy_state where
  "policy_state_new = \<lparr>py_draft_rules = [], py_default_decision = Ask, py_runtime = runtime_new (store_new Ask [])\<rparr>"

record 'ag policy_app =
  pa_policy :: gateway_policy_state
  pa_service :: "'ag session_runtime session_service"

definition rule_note :: "string \<Rightarrow> json" where
  "rule_note i = json_obj [(''rule_id'', JString i)]"

section \<open>Drafting and publishing\<close>

text \<open>Handlers return the version they report and what else their reply carries.\<close>

definition list_policy_rules :: "gateway_policy_state \<Rightarrow> u64 \<times> (string \<times> rule_body) list" where
  "list_policy_rules p = (snap_version (py_runtime p), map rule_from_domain (py_draft_rules p))"

definition create_policy_rule ::
    "string + string \<times> rule_body \<Rightarrow> gateway_policy_state \<Rightarrow> (api_error + u64 \<times> string \<times> rule_body) \<times> gateway_policy_state" where
  "create_policy_rule payload p = (case parse_json_body payload of
     Inl e \<Rightarrow> (Inl e, p)
   | Inr rq \<Rightarrow>
       (case create_into_domain rq of
          Inl e \<Rightarrow> (Inl e, p)
        | Inr r \<Rightarrow>
            if \<exists>x \<in> set (py_draft_rules p). rule_id x = rule_id r
            then (Inl (api_conflict ''rule already exists'' (rule_note (rule_id r))), p)
            else (Inr (snap_version (py_runtime p), rule_from_domain r), p\<lparr>py_draft_rules := py_draft_rules p @ [r]\<rparr>)))"

fun position :: "('a \<Rightarrow> bool) \<Rightarrow> 'a list \<Rightarrow> nat option" where
  "position P [] = None"
| "position P (x # xs) = (if P x then Some 0 else map_option Suc (position P xs))"

definition update_policy_rule ::
    "string \<Rightarrow> string + rule_body \<Rightarrow> gateway_policy_state \<Rightarrow> (api_error + u64 \<times> string \<times> rule_body) \<times> gateway_policy_state" where
  "update_policy_rule i payload p = (case parse_json_body payload of
     Inl e \<Rightarrow> (Inl e, p)
   | Inr b \<Rightarrow>
       if trim i = [] then (Inl (api_invalid_argument ''rule id must not be empty'' (json_obj [])), p)
       else (case into_domain_with_id b (trim i) of
               Inl e \<Rightarrow> (Inl e, p)
             | Inr r \<Rightarrow>
                 (case position (\<lambda>x. rule_id x = trim i) (py_draft_rules p) of
                    None \<Rightarrow> (Inl (api_not_found ''rule not found'' (rule_note (trim i))), p)
                  | Some n \<Rightarrow> (Inr (snap_version (py_runtime p), rule_from_domain r),
                       p\<lparr>py_draft_rules := (py_draft_rules p)[n := r]\<rparr>))))"

definition delete_policy_rule :: "string \<Rightarrow> gateway_policy_state \<Rightarrow> (api_error + u64 \<times> string) \<times> gateway_policy_state" where
  "delete_policy_rule i p =
     (if trim i = [] then (Inl (api_invalid_argument ''rule id must not be empty'' (json_obj [])), p)
      else (case position (\<lambda>x. rule_id x = trim i) (py_draft_rules p) of
              None \<Rightarrow> (Inl (api_not_found ''rule not found'' (rule_note (trim i))), p)
            | Some n \<Rightarrow> (Inr (snap_version (py_runtime p), trim i),
                 p\<lparr>py_draft_rules := take n (py_draft_rules p) @ drop (Suc n) (py_draft_rules p)\<rparr>)))"

definition publish_policy :: "gateway_policy_state \<Rightarrow> (u64 \<times> nat) \<times> gateway_policy_state" where
  "publish_policy p =
     (let (v, rt) = publish (store_new (py_default_decision p) (py_draft_rules p)) (py_runtime p)
      in ((v, length (py_draft_rules p)), p\<lparr>py_runtime := rt\<rparr>))"

section \<open>Sessions\<close>

definition set_overlay_rules :: "string \<Rightarrow> policy_rule list \<Rightarrow> 'ag session_runtime session_service \<Rightarrow> 'ag session_runtime session_service" where
  "set_overlay_rules sid rules s =
     s\<lparr>ss_loaded := map (\<lambda>(i, r). (i, if i = sid then r\<lparr>sr_policy_overlay_rules := rules\<rparr> else r)) (ss_loaded s)\<rparr>"

text \<open>The rules of an overlay, or the error of the first that is not one.\<close>

fun overlay_into_domain :: "(string \<times> rule_body) list \<Rightarrow> api_error + policy_rule list" where
  "overlay_into_domain [] = Inr []"
| "overlay_into_domain (rq # rqs) = (case create_into_domain rq of
     Inl e \<Rightarrow> Inl e | Inr r \<Rightarrow> map_sum id ((#) r) (overlay_into_domain rqs))"

definition set_session_policy_overlay ::
    "(string \<Rightarrow> string + 'ag session_runtime) \<Rightarrow> string \<Rightarrow> string + (string \<times> rule_body) list \<Rightarrow> 'ag policy_app \<Rightarrow>
     (api_error + u64 \<times> nat) \<times> 'ag policy_app" where
  "set_session_policy_overlay build sid payload a = (case parse_json_body payload of
     Inl e \<Rightarrow> (Inl e, a)
   | Inr rqs \<Rightarrow>
       (case app_get_session build sid (pa_service a) of
          (Inl e, s) \<Rightarrow> (Inl e, a\<lparr>pa_service := s\<rparr>)
        | (Inr _, s) \<Rightarrow>
            (case overlay_into_domain rqs of
               Inl e \<Rightarrow> (Inl e, a\<lparr>pa_service := s\<rparr>)
             | Inr rules \<Rightarrow>
                 (let (v, rt) = set_session_overlay sid (overlay_new rules) (py_runtime (pa_policy a))
                  in (Inr (v, length rules),
                      a\<lparr>pa_policy := (pa_policy a)\<lparr>py_runtime := rt\<rparr>, pa_service := set_overlay_rules sid rules s\<rparr>)))))"

definition clear_session_policy_overlay ::
    "(string \<Rightarrow> string + 'ag session_runtime) \<Rightarrow> string \<Rightarrow> 'ag policy_app \<Rightarrow> (api_error + u64 \<times> nat) \<times> 'ag policy_app" where
  "clear_session_policy_overlay build sid a = (case app_get_session build sid (pa_service a) of
     (Inl e, s) \<Rightarrow> (Inl e, a\<lparr>pa_service := s\<rparr>)
   | (Inr _, s) \<Rightarrow>
       (let (v, rt) = clear_session_overlay sid (py_runtime (pa_policy a))
        in (Inr (v, 0), a\<lparr>pa_policy := (pa_policy a)\<lparr>py_runtime := rt\<rparr>, pa_service := set_overlay_rules sid [] s\<rparr>)))"

definition get_policy_level ::
    "(string \<Rightarrow> string + 'ag session_runtime) \<Rightarrow> string \<Rightarrow> 'ag policy_app \<Rightarrow> (api_error + string) \<times> 'ag policy_app" where
  "get_policy_level build sid a =
     (let (r, s) = app_get_session build sid (pa_service a)
      in (map_sum id (\<lambda>rt. case sr_policy_level_override rt of Some d \<Rightarrow> kind_as_str d | None \<Rightarrow> ''ask'') r, a\<lparr>pa_service := s\<rparr>))"

definition handle_set_policy_level ::
    "(string \<Rightarrow> string + 'ag session_runtime) \<Rightarrow> string \<Rightarrow> string \<Rightarrow> 'ag policy_app \<Rightarrow> (api_error + string) \<times> 'ag policy_app" where
  "handle_set_policy_level build sid level a = (case policy_level_from_str level of
     Inl _ \<Rightarrow> (Inl (api_invalid_argument (CHR 0x27 # level @ CHR 0x27 # '' is not a valid policy level; use allow, ask, or deny'')
                 (json_obj [(''level'', JString level)])), a)
   | Inr l \<Rightarrow>
       (case app_get_session build sid (pa_service a) of
          (Inl e, s) \<Rightarrow> (Inl e, a\<lparr>pa_service := s\<rparr>)
        | (Inr _, s) \<Rightarrow>
            (Inr (policy_level_as_str l),
             a\<lparr>pa_service := s\<lparr>ss_loaded := map (\<lambda>(i, r).
                 (i, if i = sid then r\<lparr>sr_policy_level_override := Some (to_decision_kind l)\<rparr> else r)) (ss_loaded s)\<rparr>\<rparr>)))"

text \<open>Clearing a session resets its runtime; deleting one also clears its overlay in the policy centre.\<close>

definition clear_session_runtime :: "'ag \<Rightarrow> string \<Rightarrow> 'ag policy_app \<Rightarrow> 'ag policy_app" where
  "clear_session_runtime agent sid a =
     a\<lparr>pa_service := (pa_service a)\<lparr>ss_loaded := map (\<lambda>(i, r). (i, if i = sid then clear_context_with_config agent r else r))
         (ss_loaded (pa_service a))\<rparr>\<rparr>"

definition delete_session_policy :: "string \<Rightarrow> 'ag policy_app \<Rightarrow> 'ag policy_app" where
  "delete_session_policy sid a =
     a\<lparr>pa_policy := (pa_policy a)\<lparr>py_runtime := snd (clear_session_overlay sid (py_runtime (pa_policy a)))\<rparr>,
       pa_service := (pa_service a)\<lparr>ss_loaded := AList.delete sid (ss_loaded (pa_service a))\<rparr>\<rparr>"

section \<open>The policy of a turn\<close>

text \<open>A level set for the session gets a runtime of its own; otherwise the turn shares the gateway's.\<close>

definition turn_policy_runtime :: "string \<Rightarrow> 'ag session_runtime \<Rightarrow> gateway_policy_state \<Rightarrow> policy_snapshot" where
  "turn_policy_runtime sid r p = (case sr_policy_level_override r of
     None \<Rightarrow> py_runtime p
   | Some d \<Rightarrow>
       (let fresh = runtime_new (store_new d [])
        in if sr_policy_overlay_rules r = [] then fresh
           else snd (set_session_overlay sid (overlay_new (sr_policy_overlay_rules r)) fresh)))"

text \<open>What a call of a turn of the session is decided.\<close>

definition turn_decision :: "string \<Rightarrow> 'ag session_runtime \<Rightarrow> gateway_policy_state \<Rightarrow> policy_input \<Rightarrow> policy_decision" where
  "turn_decision sid r p i = handle_decide (runtime_handle (turn_policy_runtime sid r p)) (i\<lparr>in_session_id := Some sid\<rparr>)"

section \<open>Any series of requests\<close>

datatype policy_request =
    ListRules
  | CreateRule "string + string \<times> rule_body"
  | UpdateRule string "string + rule_body"
  | DeleteRule string
  | PublishRules
  | PutOverlay string "string + (string \<times> rule_body) list"
  | DeleteOverlay string
  | GetLevel string
  | PutLevel string string
  | ClearSession string
  | DeleteSession string

abbreviation on_policy :: "(gateway_policy_state \<Rightarrow> 'r \<times> gateway_policy_state) \<Rightarrow> 'ag policy_app \<Rightarrow> 'ag policy_app" where
  "on_policy f a \<equiv> a\<lparr>pa_policy := snd (f (pa_policy a))\<rparr>"

fun policy_request_step :: "(string \<Rightarrow> string + 'ag session_runtime) \<Rightarrow> 'ag \<Rightarrow> policy_request \<Rightarrow> 'ag policy_app \<Rightarrow> 'ag policy_app" where
  "policy_request_step build agent ListRules a = a"
| "policy_request_step build agent (CreateRule payload) a = on_policy (create_policy_rule payload) a"
| "policy_request_step build agent (UpdateRule i payload) a = on_policy (update_policy_rule i payload) a"
| "policy_request_step build agent (DeleteRule i) a = on_policy (delete_policy_rule i) a"
| "policy_request_step build agent PublishRules a = on_policy publish_policy a"
| "policy_request_step build agent (PutOverlay sid payload) a = snd (set_session_policy_overlay build sid payload a)"
| "policy_request_step build agent (DeleteOverlay sid) a = snd (clear_session_policy_overlay build sid a)"
| "policy_request_step build agent (GetLevel sid) a = snd (get_policy_level build sid a)"
| "policy_request_step build agent (PutLevel sid level) a = snd (handle_set_policy_level build sid level a)"
| "policy_request_step build agent (ClearSession sid) a = clear_session_runtime agent sid a"
| "policy_request_step build agent (DeleteSession sid) a = delete_session_policy sid a"

definition policy_request_run :: "(string \<Rightarrow> string + 'ag session_runtime) \<Rightarrow> 'ag \<Rightarrow> policy_request list \<Rightarrow> 'ag policy_app \<Rightarrow> 'ag policy_app" where
  "policy_request_run build agent rqs a = fold (policy_request_step build agent) rqs a"

section \<open>What requests mean\<close>

text \<open>The abstract policy: drafted rules and the rules last published by their identifier, overlays by
  session. A request is accepted or it changes nothing.\<close>

record policy_spec =
  sp_draft :: "string \<rightharpoonup> policy_rule"
  sp_published :: "string \<rightharpoonup> policy_rule"
  sp_overlay :: "string \<rightharpoonup> policy_rule list"

definition spec_new :: policy_spec where
  "spec_new = \<lparr>sp_draft = Map.empty, sp_published = Map.empty, sp_overlay = Map.empty\<rparr>"

definition session_found :: "(string \<Rightarrow> string + 'ag session_runtime) \<Rightarrow> string \<Rightarrow> 'ag policy_app \<Rightarrow> bool" where
  "session_found build sid a \<longleftrightarrow> (\<exists>r. fst (app_get_session build sid (pa_service a)) = Inr r)"

fun policy_spec_step :: "(string \<Rightarrow> bool) \<Rightarrow> policy_request \<Rightarrow> policy_spec \<Rightarrow> policy_spec" where
  "policy_spec_step found (CreateRule (Inr rq)) s =
     (case create_into_domain rq of
        Inr r \<Rightarrow> if rule_id r \<in> dom (sp_draft s) then s else s\<lparr>sp_draft := (sp_draft s)(rule_id r \<mapsto> r)\<rparr>
      | Inl _ \<Rightarrow> s)"
| "policy_spec_step found (UpdateRule i (Inr b)) s =
     (case into_domain_with_id b i of
        Inr r \<Rightarrow> if rule_id r \<in> dom (sp_draft s) then s\<lparr>sp_draft := (sp_draft s)(rule_id r \<mapsto> r)\<rparr> else s
      | Inl _ \<Rightarrow> s)"
| "policy_spec_step found (DeleteRule i) s = (if trim i = [] then s else s\<lparr>sp_draft := (sp_draft s)(trim i := None)\<rparr>)"
| "policy_spec_step found PublishRules s = s\<lparr>sp_published := sp_draft s\<rparr>"
| "policy_spec_step found (PutOverlay sid (Inr rqs)) s =
     (case overlay_into_domain rqs of
        Inr rules \<Rightarrow> if found sid then s\<lparr>sp_overlay := (sp_overlay s)(sid \<mapsto> rules)\<rparr> else s
      | Inl _ \<Rightarrow> s)"
| "policy_spec_step found (DeleteOverlay sid) s = (if found sid then s\<lparr>sp_overlay := (sp_overlay s)(sid := None)\<rparr> else s)"
| "policy_spec_step found (DeleteSession sid) s = s\<lparr>sp_overlay := (sp_overlay s)(sid := None)\<rparr>"
| "policy_spec_step found _ s = s"

text \<open>A series of requests served by the gateway and by the specification side by side; only whether a
  session is found is taken from the gateway.\<close>

fun policy_runs :: "(string \<Rightarrow> string + 'ag session_runtime) \<Rightarrow> 'ag \<Rightarrow> policy_request list \<Rightarrow> 'ag policy_app \<times> policy_spec \<Rightarrow> 'ag policy_app \<times> policy_spec" where
  "policy_runs build agent [] (a, s) = (a, s)"
| "policy_runs build agent (rq # rqs) (a, s) =
     policy_runs build agent rqs (policy_request_step build agent rq a, policy_spec_step (\<lambda>sid. session_found build sid a) rq s)"

lemma fst_policy_runs: "fst (policy_runs build agent rqs (a, s)) = policy_request_run build agent rqs a"
  by (induction rqs arbitrary: a s) (simp_all add: policy_request_run_def)

text \<open>The decision the specification asks for: the overlay of the session first, then the published rules
  with the built-in one; \<open>rules\<close> is any listing of the rules published.\<close>

definition spec_decision :: "policy_rule list \<Rightarrow> policy_rule list option \<Rightarrow> string \<Rightarrow> policy_input \<Rightarrow> decision_kind \<times> string option" where
  "spec_decision rules overlay sid i =
     (let i = i\<lparr>in_session_id := Some sid\<rparr>;
          outcome = (\<lambda>rs. let d = decide i rs Ask in (dec_kind d, dec_matched_rule_id d))
      in case overlay of
           Some ov \<Rightarrow> if \<exists>r \<in> set ov. rule_matches r i then outcome ov else outcome (system_destructive # rules)
         | None \<Rightarrow> outcome (system_destructive # rules))"

section \<open>The gateway implements it\<close>

abbreviation by_id :: "policy_rule list \<Rightarrow> string \<rightharpoonup> policy_rule" where
  "by_id rules \<equiv> map_of (map (\<lambda>r. (rule_id r, r)) rules)"

definition policy_rel :: "gateway_policy_state \<Rightarrow> policy_spec \<Rightarrow> bool" where
  "policy_rel p s \<longleftrightarrow> py_default_decision p = Ask
     \<and> distinct (map rule_id (py_draft_rules p)) \<and> by_id (py_draft_rules p) = sp_draft s
     \<and> (\<exists>pub. snap_store (py_runtime p) = store_new Ask pub \<and> set pub = ran (sp_published s))
     \<and> (\<forall>sid. map_option overlay_rules (snap_overlays (py_runtime p) sid) = sp_overlay s sid)"

lemma policy_rel_new: "policy_rel policy_state_new spec_new"
  by (simp add: policy_rel_def policy_state_new_def spec_new_def runtime_new_def)

lemma trim_trim [simp]: "trim (trim s) = trim s"
proof -
  have e: "trim_end (trim_end t) = trim_end t" for t by (simp add: trim_end_def dropWhile_idem)
  have s: "trim_start (trim_end (trim_start t)) = trim_end (trim_start t)" for t
  proof (cases "trim_start t")
    case (Cons c cs)
    then have c: "\<not> is_ws c" unfolding trim_start_def by (metis dropWhile_eq_Cons_conv)
    have "trim_end (c # cs) = c # trim_end cs"
      using c by (simp add: trim_end_def dropWhile_append)
    then show ?thesis using Cons c by (simp add: trim_start_def)
  next
    case Nil
    show ?thesis unfolding Nil by (simp add: trim_end_def trim_start_def)
  qed
  show ?thesis by (simp add: trim_def e s)
qed

lemma position_Some: "position P xs = Some n \<Longrightarrow> n < length xs \<and> P (xs ! n)"
  by (induction xs arbitrary: n) (auto split: if_split_asm)

lemma position_None: "position P xs = None \<longleftrightarrow> (\<forall>x \<in> set xs. \<not> P x)"
  by (induction xs) auto

lemma by_id_dom: "i \<in> dom (by_id rules) \<longleftrightarrow> (\<exists>r \<in> set rules. rule_id r = i)"
  by (induction rules) auto

lemma into_domain_id: "into_domain_with_id b i = Inr r \<Longrightarrow> rule_id r = trim i \<and> trim i \<noteq> []"
  by (auto simp: into_domain_with_id_def split: if_split_asm)

lemma by_id_split:
  assumes "distinct (map rule_id rules)" and "n < length rules"
  shows "rules = take n rules @ rules ! n # drop (Suc n) rules"
    and "rule_id (rules ! n) \<notin> dom (by_id (take n rules))" and "rule_id (rules ! n) \<notin> dom (by_id (drop (Suc n) rules))"
proof -
  show split: "rules = take n rules @ rules ! n # drop (Suc n) rules" using assms(2) by (rule id_take_nth_drop)
  have "distinct (map rule_id (take n rules) @ rule_id (rules ! n) # map rule_id (drop (Suc n) rules))"
    using assms(1) by (subst (asm) split) (simp only: map_append list.map)
  then show "rule_id (rules ! n) \<notin> dom (by_id (take n rules))" and "rule_id (rules ! n) \<notin> dom (by_id (drop (Suc n) rules))"
    unfolding by_id_dom by (simp_all add: image_iff) metis+
qed

lemma by_id_append: "by_id (xs @ ys) = by_id ys ++ by_id xs"
  by simp

lemma by_id_update:
  assumes d: "distinct (map rule_id rules)" and n: "n < length rules" and r: "rule_id r = rule_id (rules ! n)"
  shows "by_id (rules[n := r]) = (by_id rules)(rule_id r \<mapsto> r)" and "map rule_id (rules[n := r]) = map rule_id rules"
proof -
  show "map rule_id (rules[n := r]) = map rule_id rules" using n r by (simp add: map_update list_update_same_conv)
  note s = by_id_split [OF d n]
  have "rules[n := r] = take n rules @ r # drop (Suc n) rules" using n by (rule upd_conv_take_nth_drop)
  then have new: "by_id (rules[n := r]) = (by_id (drop (Suc n) rules))(rule_id r \<mapsto> r) ++ by_id (take n rules)"
    by (simp only: by_id_append list.map map_of.simps prod.sel)
  have "by_id rules = (by_id (drop (Suc n) rules))(rule_id r \<mapsto> rules ! n) ++ by_id (take n rules)"
    by (subst s(1)) (simp only: by_id_append list.map map_of.simps prod.sel r)
  then show "by_id (rules[n := r]) = (by_id rules)(rule_id r \<mapsto> r)"
    unfolding new using s(2) [folded r] by (auto simp: fun_eq_iff map_add_def domIff split: option.split)
qed

lemma by_id_delete:
  assumes d: "distinct (map rule_id rules)" and n: "n < length rules"
  shows "by_id (take n rules @ drop (Suc n) rules) = (by_id rules)(rule_id (rules ! n) := None)"
    and "distinct (map rule_id (take n rules @ drop (Suc n) rules))"
proof -
  note s = by_id_split [OF d n]
  have "by_id rules = (by_id (drop (Suc n) rules))(rule_id (rules ! n) \<mapsto> rules ! n) ++ by_id (take n rules)"
    by (subst s(1)) (simp only: by_id_append list.map map_of.simps prod.sel)
  then show "by_id (take n rules @ drop (Suc n) rules) = (by_id rules)(rule_id (rules ! n) := None)"
    unfolding by_id_append using s(2,3) by (auto simp: fun_eq_iff map_add_def domIff split: option.split)
  have "distinct (map rule_id (take n rules) @ rule_id (rules ! n) # map rule_id (drop (Suc n) rules))"
    using d by (subst (asm) s(1)) (simp only: map_append list.map)
  then show "distinct (map rule_id (take n rules @ drop (Suc n) rules))" by simp
qed

lemma ran_by_id: "distinct (map rule_id rules) \<Longrightarrow> ran (by_id rules) = set rules"
  by (subst ran_distinct) (simp_all add: comp_def image_image)

lemma policy_rel_cong:
  "policy_rel p s \<Longrightarrow> p' = p \<Longrightarrow> s' = s \<Longrightarrow> policy_rel p' s'"
  by simp

lemma overlay_rel:
  assumes "policy_rel p s"
  shows "policy_rel (p\<lparr>py_runtime := snd (set_session_overlay sid (overlay_new rules) (py_runtime p))\<rparr>)
      (s\<lparr>sp_overlay := (sp_overlay s)(sid \<mapsto> rules)\<rparr>)"
    and "policy_rel (p\<lparr>py_runtime := snd (clear_session_overlay sid (py_runtime p))\<rparr>) (s\<lparr>sp_overlay := (sp_overlay s)(sid := None)\<rparr>)"
  using assms by (auto simp: policy_rel_def runtime_op_defs swap_snapshot_def overlay_new_def)

lemma create_rule_rel:
  assumes R: "policy_rel p s"
  shows "policy_rel (snd (create_policy_rule payload p)) (policy_spec_step found (CreateRule payload) s)"
proof (cases payload)
  case (Inl e)
  then show ?thesis using R by (simp add: create_policy_rule_def parse_json_body_def)
next
  case (Inr rq)
  show ?thesis
  proof (cases "create_into_domain rq")
    case (Inl e)
    then show ?thesis using R Inr by (simp add: create_policy_rule_def parse_json_body_def)
  next
    case r: (Inr r)
    have dom: "rule_id r \<in> dom (sp_draft s) \<longleftrightarrow> (\<exists>x \<in> set (py_draft_rules p). rule_id x = rule_id r)"
      using R by_id_dom [of "rule_id r" "py_draft_rules p"] by (simp add: policy_rel_def)
    have "by_id (py_draft_rules p @ [r]) = (by_id (py_draft_rules p))(rule_id r \<mapsto> r)" if "rule_id r \<notin> dom (sp_draft s)"
      using that R by (auto simp: policy_rel_def map_add_def fun_eq_iff domIff split: option.split)
    moreover have "distinct (map rule_id (py_draft_rules p @ [r]))" if "rule_id r \<notin> dom (sp_draft s)"
      using that R dom by (auto simp: policy_rel_def)
    ultimately show ?thesis using R dom unfolding Inr
      by (auto simp: create_policy_rule_def parse_json_body_def r policy_rel_def simp del: map_append)
  qed
qed

lemma update_rule_rel:
  assumes R: "policy_rel p s"
  shows "policy_rel (snd (update_policy_rule i payload p)) (policy_spec_step found (UpdateRule i payload) s)"
proof (cases payload)
  case (Inl e)
  then show ?thesis using R by (simp add: update_policy_rule_def parse_json_body_def)
next
  case (Inr b)
  have same: "into_domain_with_id b (trim i) = into_domain_with_id b i" by (simp add: into_domain_with_id_def)
  show ?thesis
  proof (cases "into_domain_with_id b i")
    case (Inl e)
    then show ?thesis using R Inr same by (simp add: update_policy_rule_def parse_json_body_def)
  next
    case r: (Inr r)
    note id = into_domain_id [OF r]
    show ?thesis
    proof (cases "position (\<lambda>x. rule_id x = trim i) (py_draft_rules p)")
      case None
      then have "rule_id r \<notin> dom (sp_draft s)" using R id by_id_dom [of "rule_id r" "py_draft_rules p"]
        by (simp add: policy_rel_def position_None)
      then show ?thesis using R Inr None id by (simp add: update_policy_rule_def parse_json_body_def same r)
    next
      case (Some n)
      note n = position_Some [OF Some]
      have "by_id (py_draft_rules p) = sp_draft s" using R by (simp add: policy_rel_def)
      then have "rule_id r \<in> dom (sp_draft s)" using id n by_id_dom [of "rule_id r" "py_draft_rules p"] nth_mem [of n "py_draft_rules p"]
        by auto
      moreover have "by_id ((py_draft_rules p)[n := r]) = (by_id (py_draft_rules p))(rule_id r \<mapsto> r)"
        "map rule_id ((py_draft_rules p)[n := r]) = map rule_id (py_draft_rules p)"
        using by_id_update [of "py_draft_rules p" n r] R n id by (simp_all add: policy_rel_def)
      ultimately show ?thesis using R Inr Some id by (auto simp: update_policy_rule_def parse_json_body_def same r policy_rel_def)
    qed
  qed
qed

lemma delete_rule_rel:
  assumes R: "policy_rel p s"
  shows "policy_rel (snd (delete_policy_rule i p)) (policy_spec_step found (DeleteRule i) s)"
proof (cases "position (\<lambda>x. rule_id x = trim i) (py_draft_rules p)")
  case None
  then have "trim i \<notin> dom (sp_draft s)" using R by_id_dom [of "trim i" "py_draft_rules p"]
    by (simp add: policy_rel_def position_None)
  then have "(sp_draft s)(trim i := None) = sp_draft s" by (simp add: fun_eq_iff domIff)
  then show ?thesis using R None by (simp add: delete_policy_rule_def)
next
  case (Some n)
  note n = position_Some [OF Some]
  have d: "distinct (map rule_id (py_draft_rules p))" using R by (simp add: policy_rel_def)
  show ?thesis using R Some n by_id_delete [OF d, of n]
    by (auto simp: delete_policy_rule_def policy_rel_def simp del: map_append)
qed

lemma publish_rel:
  assumes R: "policy_rel p s"
  shows "policy_rel (snd (publish_policy p)) (policy_spec_step found PublishRules s)"
  using R ran_by_id [of "py_draft_rules p"]
  by (auto simp: publish_policy_def policy_rel_def runtime_op_defs swap_snapshot_def Let_def)

lemma policy_step_rel:
  assumes R: "policy_rel (pa_policy a) s"
  shows "policy_rel (pa_policy (policy_request_step build agent rq a)) (policy_spec_step (\<lambda>sid. session_found build sid a) rq s)"
proof (cases rq)
  case (CreateRule x)
  then show ?thesis using create_rule_rel [OF R] by simp
next
  case (UpdateRule i x)
  then show ?thesis using update_rule_rel [OF R] by simp
next
  case (DeleteRule i)
  then show ?thesis using delete_rule_rel [OF R] by simp
next
  case PublishRules
  then show ?thesis using publish_rel [OF R] by simp
next
  case (PutOverlay sid x)
  show ?thesis
  proof (cases x)
    case (Inl e)
    then show ?thesis using R PutOverlay by (simp add: set_session_policy_overlay_def parse_json_body_def)
  next
    case (Inr rqs)
    then show ?thesis using R PutOverlay overlay_rel(1) [OF R, of sid]
      by (auto simp: set_session_policy_overlay_def parse_json_body_def session_found_def case_prod_unfold Let_def split: sum.split prod.split)
  qed
next
  case (DeleteOverlay sid)
  then show ?thesis using R overlay_rel(2) [OF R, of sid]
    by (auto simp: clear_session_policy_overlay_def session_found_def case_prod_unfold Let_def split: sum.split prod.split)
next
  case (DeleteSession sid)
  then show ?thesis using overlay_rel(2) [OF R, of sid] by (simp add: delete_session_policy_def)
qed (use R in \<open>auto simp: get_policy_level_def handle_set_policy_level_def clear_session_runtime_def Let_def
    split: sum.split prod.split\<close>)

lemma policy_runs_rel: "policy_rel (pa_policy a) s \<Longrightarrow> policy_runs build agent rqs (a, s) = (a', s') \<Longrightarrow> policy_rel (pa_policy a') s'"
  by (induction rqs arbitrary: a s) (auto dest: policy_step_rel)

text \<open>C39: the policy centre of the gateway implements the policy its requests describe. After any requests,
  accepted or refused, from a fresh start: a call of a session with no level of its own gets the kind
  and the rule that the specification gives it. So drafted rules count only from the moment they are
  published, refused requests change nothing, the overlay of a session speaks before the published
  rules and for that session only, and in which order rules were drafted never matters.\<close>

theorem policy_requests_in_force:
  assumes run: "policy_runs build agent rqs (\<lparr>pa_policy = policy_state_new, pa_service = svc\<rparr>, spec_new) = (a, s)"
    and level: "sr_policy_level_override r = None" and rules: "set rules = ran (sp_published s)"
  shows "(dec_kind (turn_decision sid r (pa_policy a) i), dec_matched_rule_id (turn_decision sid r (pa_policy a) i))
    = spec_decision rules (sp_overlay s sid) sid i"
proof -
  let ?rt = "py_runtime (pa_policy a)" and ?i = "i\<lparr>in_session_id := Some sid\<rparr>"
  have R: "policy_rel (pa_policy a) s" using policy_runs_rel [OF _ run] policy_rel_new by simp
  then obtain pub where st: "snap_store ?rt = store_new Ask pub" and pub: "set pub = ran (sp_published s)"
    and ov: "map_option overlay_rules (snap_overlays ?rt sid) = sp_overlay s sid" unfolding policy_rel_def by blast
  have base: "dec_kind (decide ?i (pub @ [system_destructive]) Ask) = dec_kind (decide ?i (system_destructive # rules) Ask)
      \<and> dec_matched_rule_id (decide ?i (pub @ [system_destructive]) Ask) = dec_matched_rule_id (decide ?i (system_destructive # rules) Ask)"
    using decide_order_independent [of "pub @ [system_destructive]" "system_destructive # rules" ?i Ask] pub rules by simp
  show ?thesis
  proof (cases "snap_overlays ?rt sid")
    case None
    then show ?thesis using ov base st level
      by (simp add: turn_decision_def turn_policy_runtime_def runtime_handle_def handle_decide_simps spec_decision_def store_new_def Let_def)
  next
    case (Some o')
    then have "sp_overlay s sid = Some (overlay_rules o')" using ov by simp
    then show ?thesis using Some base st level
      by (simp add: turn_decision_def turn_policy_runtime_def runtime_handle_def handle_decide_simps spec_decision_def store_new_def Let_def)
  qed
qed


section \<open>Requests on a small gateway\<close>

definition sample_body :: rule_body where
  "sample_body = \<lparr>rb_decision = ApiDeny, rb_priority = 5, rb_tool_name = Some '' shell '', rb_action = None, rb_session_id = None,
     rb_actor = None, rb_resource = Some '' '', rb_capabilities_all = [], rb_risk_tags_all = ['' ''], rb_reason = ''no''\<rparr>"

definition sample_requests :: "policy_request list" where
  "sample_requests = [CreateRule (Inr ('' a '', sample_body)), CreateRule (Inr (''a'', sample_body)), PublishRules, DeleteRule ''a'']"

definition sample_rule :: policy_rule where
  "sample_rule = \<lparr>rule_id = ''a'', rule_decision = Deny, rule_priority = 5, rule_tool_name = Some ''shell'', rule_action = None,
     rule_session_id = None, rule_actor = None, rule_resource = None, rule_capabilities_all = [], rule_risk_tags_all = [],
     rule_reason = ''no''\<rparr>"

definition sample_session_service :: "unit session_runtime session_service" where
  "sample_session_service = \<lparr>ss_index = empty_store, ss_loaded = [(''s'', session_runtime_new () 8)]\<rparr>"

definition sample_policy_app :: "unit policy_app" where
  "sample_policy_app = \<lparr>pa_policy = policy_state_new, pa_service = sample_session_service\<rparr>"

definition sample_call :: policy_input where
  "sample_call = \<lparr>in_tool_name = ''shell'', in_action = ''exec'', in_session_id = None, in_actor = None, in_resource = None,
     in_capabilities = [], in_risk_tags = [], in_policy_version = 0\<rparr>"

lemma sample_create: "create_into_domain ('' a '', sample_body) = Inr sample_rule" "create_into_domain (''a'', sample_body) = Inr sample_rule"
  by code_simp+

theorem policy_requests_in_force_witness:
  "(let (a, s) = policy_runs (\<lambda>_. Inl ''none'') () sample_requests (sample_policy_app, spec_new);
        d = turn_decision ''s'' (session_runtime_new () 8) (pa_policy a) sample_call
    in sp_draft s = Map.empty \<and> (dec_kind d, dec_matched_rule_id d) = (Deny, Some ''a''))"
proof -
  obtain a s where run: "policy_runs (\<lambda>_. Inl ''none'') () sample_requests (sample_policy_app, spec_new) = (a, s)" by fastforce
  have i: "rule_id sample_rule = ''a''" "trim ''a'' = ''a''" by code_simp+
  have s: "sp_published s = [''a'' \<mapsto> sample_rule]" "sp_draft s = Map.empty" "sp_overlay s = Map.empty"
    using run by (auto simp: sample_requests_def spec_new_def sample_create i simp del: trim_trim)
  have "(dec_kind (turn_decision ''s'' (session_runtime_new () 8) (pa_policy a) sample_call),
      dec_matched_rule_id (turn_decision ''s'' (session_runtime_new () 8) (pa_policy a) sample_call))
    = spec_decision [sample_rule] (sp_overlay s ''s'') ''s'' sample_call"
    by (rule policy_requests_in_force [OF run [unfolded sample_policy_app_def]]) (simp_all add: session_runtime_new_def s)
  moreover have "spec_decision [sample_rule] None ''s'' sample_call = (Deny, Some ''a'')" by code_simp
  ultimately show ?thesis using s by (simp add: run)
qed

text \<open>A level set for a session replaces the runtime of the gateway for its turns: the published rule that denies
  the call is not consulted, and neither are overlays of the centre, only those stored with the session.\<close>

lemma level_hides_published_rules:
  "(let a = policy_request_run (\<lambda>_. Inl ''none'') () [CreateRule (Inr (''a'', sample_body)), PublishRules, PutLevel ''s'' ''allow''] sample_policy_app
    in map (\<lambda>(i, r). (dec_kind (turn_decision i r (pa_policy a) sample_call), dec_kind (turn_decision i (session_runtime_new () 8) (pa_policy a) sample_call)))
         (ss_loaded (pa_service a))) = [(Allow, Deny)]"
  by code_simp

text \<open>Clearing a session forgets the rules stored with it but not its overlay in the centre, which its next turns
  still consult; deleting it clears both.\<close>

lemma cleared_session_keeps_overlay:
  "(let a = policy_request_run (\<lambda>_. Inl ''none'') () [PutOverlay ''s'' (Inr [(''a'', sample_body)]), ClearSession ''s''] sample_policy_app
    in map (\<lambda>(i, r). (sr_policy_overlay_rules r, dec_kind (turn_decision i r (pa_policy a) sample_call))) (ss_loaded (pa_service a))) = [([], Deny)]"
  by code_simp

end
