(* ===== verification/SessionStore.thy ===== *)
theory SessionStore
  imports Prelude
begin

text \<open>
  The database of the gateway (\<open>openjax-store/src/sqlite.rs\<close>): its tables and their migration, and the
  operations on sessions, messages and events. A table is the list of its rows in the order they were
  inserted; a statement refuses what a primary key, a unique index or a foreign key forbids, and deletes
  what a cascade deletes. Any statement may fail for a reason of its own: the faults of an operation give
  the reason by the position of the statement. An error is the chain of its contexts, outermost first.
\<close>

section \<open>Rows and tables\<close>

record biz_session =
  bs_session_id :: string
  bs_title :: "string option"
  bs_created_at :: string
  bs_updated_at :: string

record biz_message =
  bm_message_id :: string
  bm_session_id :: string
  bm_turn_id :: "string option"
  bm_role :: string
  bm_content :: string
  bm_sequence :: int
  bm_created_at :: string

text \<open>The sequence numbers of an event are stored as signed integers.\<close>

record biz_event =
  be_id :: int
  be_session_id :: string
  be_event_seq :: int
  be_turn_seq :: int
  be_turn_id :: "string option"
  be_event_type :: string
  be_payload_json :: string
  be_timestamp :: string
  be_stream_source :: string
  be_created_at :: string

record provider_record =
  pv_provider_id :: string
  pv_provider_name :: string
  pv_base_url :: string
  pv_model_name :: string
  pv_api_key :: string
  pv_provider_type :: string
  pv_protocol :: string
  pv_context_window_size :: nat
  pv_created_at :: string
  pv_updated_at :: string

record runtime_setting =
  rs_setting_key :: string
  rs_provider_id :: "string option"
  rs_model_name :: "string option"
  rs_context_window_size :: nat
  rs_updated_at :: string

text \<open>\<open>st_last_event_id\<close> is the counter behind \<open>AUTOINCREMENT\<close>.\<close>

record store_db =
  st_sessions :: "biz_session list"
  st_messages :: "biz_message list"
  st_events :: "biz_event list"
  st_last_event_id :: int
  st_providers :: "provider_record list"
  st_settings :: "runtime_setting list"

definition store_empty :: store_db where
  "store_empty = \<lparr>st_sessions = [], st_messages = [], st_events = [], st_last_event_id = 0, st_providers = [], st_settings = []\<rparr>"

section \<open>Schema\<close>

text \<open>The columns of the two tables that have grown; a table that exists is left as it is.\<close>

record store_schema =
  sm_providers :: "string list option"
  sm_settings :: "string list option"

definition store_init_schema :: "store_schema \<Rightarrow> store_schema" where
  "store_init_schema s =
     \<lparr>sm_providers = Some (case sm_providers s of Some cs \<Rightarrow> cs
        | None \<Rightarrow> [''provider_id'', ''provider_name'', ''base_url'', ''model_name'', ''api_key'', ''protocol'', ''request_profile'',
             ''created_at'', ''updated_at'']),
      sm_settings = Some (case sm_settings s of Some cs \<Rightarrow> cs
        | None \<Rightarrow> [''setting_key'', ''provider_id'', ''model_name'', ''updated_at''])\<rparr>"

text \<open>\<open>ALTER TABLE\<close> refuses a table that does not exist.\<close>

definition add_column :: "string \<Rightarrow> string list option \<Rightarrow> string list option" where
  "add_column c table = (case table of None \<Rightarrow> None | Some cs \<Rightarrow> Some (if c \<in> set cs then cs else cs @ [c]))"

definition migrate_schema :: "store_schema \<Rightarrow> store_schema" where
  "migrate_schema s =
     \<lparr>sm_providers = fold add_column [''provider_type'', ''context_window_size'', ''request_profile'', ''protocol''] (sm_providers s),
      sm_settings = add_column ''context_window_size'' (sm_settings s)\<rparr>"

definition open_schema :: "store_schema \<Rightarrow> store_schema" where
  "open_schema s = migrate_schema (store_init_schema s)"

section \<open>Statements\<close>

type_synonym db_error = "string list"
type_synonym faults = "nat \<Rightarrow> string option"

definition statement :: "faults \<Rightarrow> nat \<Rightarrow> string \<Rightarrow> string + 'a \<Rightarrow> db_error + 'a" where
  "statement faults n context r = (case faults n of
     Some reason \<Rightarrow> Inl [context, reason]
   | None \<Rightarrow> map_sum (\<lambda>reason. [context, reason]) id r)"

text \<open>The rest of an operation after a statement that succeeded; what a statement wrote before one that
  fails stays written unless they are in a transaction.\<close>

definition and_then :: "'e + 'a \<Rightarrow> ('a \<Rightarrow> 'e + 'b) \<Rightarrow> 'e + 'b" where
  "and_then r f = (case r of Inl e \<Rightarrow> Inl e | Inr x \<Rightarrow> f x)"

definition unique_failed :: "string \<Rightarrow> string" where
  "unique_failed column = ''UNIQUE constraint failed: '' @ column"

definition foreign_key_failed :: string where
  "foreign_key_failed = ''FOREIGN KEY constraint failed''"

definition session_exists :: "string \<Rightarrow> store_db \<Rightarrow> bool" where
  "session_exists i db \<longleftrightarrow> (\<exists>s \<in> set (st_sessions db). bs_session_id s = i)"

definition insert_biz_session :: "biz_session \<Rightarrow> store_db \<Rightarrow> string + store_db" where
  "insert_biz_session s db =
     (if session_exists (bs_session_id s) db then Inl (unique_failed ''biz_sessions.session_id'')
      else Inr (db\<lparr>st_sessions := st_sessions db @ [s]\<rparr>))"

definition touch_biz_session :: "string \<Rightarrow> string \<Rightarrow> store_db \<Rightarrow> store_db" where
  "touch_biz_session now i db =
     db\<lparr>st_sessions := map (\<lambda>s. if bs_session_id s = i then s\<lparr>bs_updated_at := now\<rparr> else s) (st_sessions db)\<rparr>"

definition delete_biz_session :: "string \<Rightarrow> store_db \<Rightarrow> store_db" where
  "delete_biz_session i db =
     db\<lparr>st_sessions := filter (\<lambda>s. bs_session_id s \<noteq> i) (st_sessions db),
        st_messages := filter (\<lambda>m. bm_session_id m \<noteq> i) (st_messages db),
        st_events := filter (\<lambda>e. be_session_id e \<noteq> i) (st_events db)\<rparr>"

definition insert_biz_message :: "biz_message \<Rightarrow> store_db \<Rightarrow> string + store_db" where
  "insert_biz_message m db =
     (if \<exists>x \<in> set (st_messages db). bm_message_id x = bm_message_id m then Inl (unique_failed ''biz_messages.message_id'')
      else if \<exists>x \<in> set (st_messages db). bm_session_id x = bm_session_id m \<and> bm_sequence x = bm_sequence m
      then Inl (unique_failed ''biz_messages.session_id, biz_messages.sequence'')
      else if \<not> session_exists (bm_session_id m) db then Inl foreign_key_failed
      else Inr (db\<lparr>st_messages := st_messages db @ [m]\<rparr>))"

definition insert_biz_event :: "biz_event \<Rightarrow> store_db \<Rightarrow> string + store_db" where
  "insert_biz_event e db =
     (if \<exists>x \<in> set (st_events db). be_session_id x = be_session_id e \<and> be_event_seq x = be_event_seq e
      then Inl (unique_failed ''biz_events.session_id, biz_events.event_seq'')
      else if \<not> session_exists (be_session_id e) db then Inl foreign_key_failed
      else Inr (db\<lparr>st_events := st_events db @ [e], st_last_event_id := be_id e\<rparr>))"

text \<open>\<open>SELECT MAX\<close>: nothing of no rows.\<close>

definition max_of :: "int list \<Rightarrow> int option" where
  "max_of xs = (case xs of [] \<Rightarrow> None | x # xs' \<Rightarrow> Some (fold max xs' x))"

section \<open>Sessions\<close>

definition sql_get_session :: "faults \<Rightarrow> nat \<Rightarrow> string \<Rightarrow> store_db \<Rightarrow> db_error + biz_session option" where
  "sql_get_session faults n i db =
     statement faults n ''query session by id'' (Inr (find (\<lambda>s. bs_session_id s = i) (st_sessions db)))"

definition sql_create_session :: "faults \<Rightarrow> string \<Rightarrow> string \<Rightarrow> string option \<Rightarrow> store_db \<Rightarrow> (db_error + biz_session) \<times> store_db" where
  "sql_create_session faults now i title db =
     (case and_then (statement faults 0 ''begin create session tx'' (Inr ())) (\<lambda>_.
           and_then (statement faults 1 (''insert session '' @ i)
             (insert_biz_session \<lparr>bs_session_id = i, bs_title = title, bs_created_at = now, bs_updated_at = now\<rparr> db)) (\<lambda>db'.
           statement faults 2 ''commit create session tx'' (Inr db'))) of
        Inl e \<Rightarrow> (Inl e, db)
      | Inr db' \<Rightarrow>
          (and_then (sql_get_session faults 3 i db') (\<lambda>s.
             case s of None \<Rightarrow> Inl [''session must exist after create''] | Some s \<Rightarrow> Inr s), db'))"

text \<open>\<open>ORDER BY updated_at DESC\<close>; how rows of one time are ordered is left to the database, and here is
  the order of their insertion.\<close>

definition desc_by :: "('a \<Rightarrow> string) \<Rightarrow> 'a list \<Rightarrow> 'a list" where
  "desc_by key rows = rev (sort_key key (rev rows))"

definition sql_list_sessions :: "faults \<Rightarrow> store_db \<Rightarrow> db_error + biz_session list" where
  "sql_list_sessions faults db =
     and_then (statement faults 0 ''prepare list sessions'' (Inr ())) (\<lambda>_.
       and_then (statement faults 1 ''query list sessions'' (Inr ())) (\<lambda>_.
       statement faults 2 ''read session row'' (Inr (desc_by bs_updated_at (st_sessions db)))))"

definition sql_touch_session :: "faults \<Rightarrow> string \<Rightarrow> string \<Rightarrow> store_db \<Rightarrow> (db_error + bool) \<times> store_db" where
  "sql_touch_session faults now i db =
     (case statement faults 0 (''touch session '' @ i) (Inr (touch_biz_session now i db)) of
        Inl e \<Rightarrow> (Inl e, db) | Inr db' \<Rightarrow> (Inr (session_exists i db), db'))"

definition sql_delete_session :: "faults \<Rightarrow> string \<Rightarrow> store_db \<Rightarrow> (db_error + bool) \<times> store_db" where
  "sql_delete_session faults i db =
     (case statement faults 0 ''delete session'' (Inr (delete_biz_session i db)) of
        Inl e \<Rightarrow> (Inl e, db) | Inr db' \<Rightarrow> (Inr (session_exists i db), db'))"

section \<open>Messages\<close>

definition next_message_sequence :: "string \<Rightarrow> store_db \<Rightarrow> int" where
  "next_message_sequence i db =
     (case max_of (map bm_sequence (filter (\<lambda>m. bm_session_id m = i) (st_messages db))) of None \<Rightarrow> 1 | Some k \<Rightarrow> k + 1)"

definition sql_append_message ::
    "faults \<Rightarrow> string \<Rightarrow> string \<Rightarrow> string \<Rightarrow> string option \<Rightarrow> string \<Rightarrow> string \<Rightarrow> store_db \<Rightarrow> (db_error + biz_message) \<times> store_db" where
  "sql_append_message faults now uuid i turn role content db =
     (case and_then (statement faults 0 ''begin append message tx'' (Inr ())) (\<lambda>_.
           and_then (statement faults 1 ''query current max message sequence'' (Inr (next_message_sequence i db))) (\<lambda>seq.
           let m = \<lparr>bm_message_id = ''msg_'' @ uuid, bm_session_id = i, bm_turn_id = turn, bm_role = role, bm_content = content,
                    bm_sequence = seq, bm_created_at = now\<rparr>
           in and_then (statement faults 2 (''insert message for session '' @ i) (insert_biz_message m db)) (\<lambda>db'.
           and_then (statement faults 3 (''touch session '' @ i) (Inr (touch_biz_session now i db'))) (\<lambda>db'.
           statement faults 4 ''commit append message tx'' (Inr (m, db')))))) of
        Inl e \<Rightarrow> (Inl e, db)
      | Inr (m, db') \<Rightarrow> (Inr m, db'))"

definition sql_list_messages :: "faults \<Rightarrow> string \<Rightarrow> store_db \<Rightarrow> db_error + biz_message list" where
  "sql_list_messages faults i db =
     and_then (statement faults 0 (''prepare list messages for session '' @ i) (Inr ())) (\<lambda>_.
       and_then (statement faults 1 (''query list messages for session '' @ i) (Inr ())) (\<lambda>_.
       statement faults 2 ''read message row'' (Inr (sort_key bm_sequence (filter (\<lambda>m. bm_session_id m = i) (st_messages db))))))"

section \<open>Events\<close>

text \<open>\<open>as i64\<close> and \<open>as u64\<close>.\<close>

definition as_i64 :: "u64 \<Rightarrow> int" where
  "as_i64 w = sint w"

definition from_i64 :: "int \<Rightarrow> u64" where
  "from_i64 k = word_of_int k"

record event_params =
  ep_event_seq :: u64
  ep_turn_seq :: u64
  ep_turn_id :: "string option"
  ep_event_type :: string
  ep_payload_json :: string
  ep_timestamp :: string
  ep_stream_source :: string

text \<open>The record reported: identifier, session, what was given, time of creation.\<close>

type_synonym event_row = "int \<times> string \<times> event_params \<times> string"

definition event_of_row :: "biz_event \<Rightarrow> event_row" where
  "event_of_row e = (be_id e, be_session_id e,
     \<lparr>ep_event_seq = from_i64 (be_event_seq e), ep_turn_seq = from_i64 (be_turn_seq e), ep_turn_id = be_turn_id e,
      ep_event_type = be_event_type e, ep_payload_json = be_payload_json e, ep_timestamp = be_timestamp e,
      ep_stream_source = be_stream_source e\<rparr>, be_created_at e)"

definition sql_append_event :: "faults \<Rightarrow> string \<Rightarrow> string \<Rightarrow> event_params \<Rightarrow> store_db \<Rightarrow> (db_error + event_row) \<times> store_db" where
  "sql_append_event faults now i p db =
     (case and_then (statement faults 0 ''begin append event tx'' (Inr ())) (\<lambda>_.
           let e = \<lparr>be_id = st_last_event_id db + 1, be_session_id = i, be_event_seq = as_i64 (ep_event_seq p),
                    be_turn_seq = as_i64 (ep_turn_seq p), be_turn_id = ep_turn_id p, be_event_type = ep_event_type p,
                    be_payload_json = ep_payload_json p, be_timestamp = ep_timestamp p, be_stream_source = ep_stream_source p,
                    be_created_at = now\<rparr>
           in and_then (statement faults 1 (''insert event for session '' @ i) (insert_biz_event e db)) (\<lambda>db'.
           and_then (statement faults 2 (''touch session '' @ i) (Inr (touch_biz_session now i db'))) (\<lambda>db'.
           statement faults 3 ''commit append event tx'' (Inr (be_id e, db'))))) of
        Inl e \<Rightarrow> (Inl e, db)
      | Inr (k, db') \<Rightarrow> (Inr (k, i, p, now), db'))"

definition sql_list_events :: "faults \<Rightarrow> string \<Rightarrow> u64 option \<Rightarrow> store_db \<Rightarrow> db_error + event_row list" where
  "sql_list_events faults i after db =
     and_then (statement faults 0 (''prepare list events for session '' @ i) (Inr ())) (\<lambda>_.
       and_then (statement faults 1 (''query list events for session '' @ i) (Inr ())) (\<lambda>_.
       statement faults 2 ''read event row'' (Inr (map event_of_row (sort_key be_event_seq (filter (\<lambda>e. be_session_id e = i
         \<and> (case after of None \<Rightarrow> True | Some a \<Rightarrow> as_i64 a < be_event_seq e)) (st_events db)))))))"

definition sql_last_event_seq :: "faults \<Rightarrow> string \<Rightarrow> store_db \<Rightarrow> db_error + u64 option" where
  "sql_last_event_seq faults i db = statement faults 0 ''query last event seq''
     (Inr (map_option from_i64 (max_of (map be_event_seq (filter (\<lambda>e. be_session_id e = i) (st_events db))))))"

text \<open>\<open>GROUP BY turn_id\<close>: the groups in the order their turns appear.\<close>

definition sql_last_turn_seq_by_turn :: "faults \<Rightarrow> string \<Rightarrow> store_db \<Rightarrow> db_error + (string \<times> u64) list" where
  "sql_last_turn_seq_by_turn faults i db =
     and_then (statement faults 0 (''prepare turn seq query for session '' @ i) (Inr ())) (\<lambda>_.
       and_then (statement faults 1 (''query turn seq for session '' @ i) (Inr ())) (\<lambda>_.
       let rows = filter (\<lambda>e. be_session_id e = i \<and> be_turn_id e \<noteq> None) (st_events db)
       in statement faults 2 ''read turn seq row'' (Inr (map (\<lambda>t.
            (t, from_i64 (the (max_of (map be_turn_seq (filter (\<lambda>e. be_turn_id e = Some t) rows))))))
            (remdups (map (\<lambda>e. the (be_turn_id e)) rows))))))"


section \<open>Any series of operations\<close>

datatype store_op =
    StCreate string "string option"
  | StTouch string
  | StDelete string
  | StMessage string string "string option" string string
  | StEvent string event_params

definition accepted :: "(db_error + 'a) \<times> store_db \<Rightarrow> bool \<times> store_db" where
  "accepted r = (case r of (Inl _, db) \<Rightarrow> (False, db) | (Inr _, db) \<Rightarrow> (True, db))"

fun store_step :: "faults \<Rightarrow> string \<Rightarrow> store_op \<Rightarrow> store_db \<Rightarrow> bool \<times> store_db" where
  "store_step faults now (StCreate i title) db = accepted (sql_create_session faults now i title db)"
| "store_step faults now (StTouch i) db = accepted (sql_touch_session faults now i db)"
| "store_step faults now (StDelete i) db = accepted (sql_delete_session faults i db)"
| "store_step faults now (StMessage uuid i turn role content) db =
     accepted (sql_append_message faults now uuid i turn role content db)"
| "store_step faults now (StEvent i p) db = accepted (sql_append_event faults now i p db)"

text \<open>The specification: what was accepted for a session since it was last deleted.\<close>

record store_log =
  lg_messages :: "string \<Rightarrow> (string option \<times> string \<times> string) list"
  lg_events :: "string \<Rightarrow> event_params list"

definition log_empty :: store_log where
  "log_empty = \<lparr>lg_messages = (\<lambda>_. []), lg_events = (\<lambda>_. [])\<rparr>"

fun log_step :: "store_op \<Rightarrow> store_log \<Rightarrow> store_log" where
  "log_step (StMessage uuid i turn role content) lg =
     lg\<lparr>lg_messages := (lg_messages lg)(i := lg_messages lg i @ [(turn, role, content)])\<rparr>"
| "log_step (StEvent i p) lg = lg\<lparr>lg_events := (lg_events lg)(i := lg_events lg i @ [p])\<rparr>"
| "log_step (StDelete i) lg = lg\<lparr>lg_messages := (lg_messages lg)(i := []), lg_events := (lg_events lg)(i := [])\<rparr>"
| "log_step _ lg = lg"

text \<open>Operations of the database and of the specification side by side: an operation counts when it reports success.\<close>

fun store_runs :: "(faults \<times> string \<times> store_op) list \<Rightarrow> store_db \<times> store_log \<Rightarrow> store_db \<times> store_log" where
  "store_runs [] (db, lg) = (db, lg)"
| "store_runs ((faults, now, op) # ops) (db, lg) =
     (let (ok, db') = store_step faults now op db in store_runs ops (db', if ok then log_step op lg else lg))"

section \<open>The store keeps the log\<close>

lemma from_as_i64 [simp]: "from_i64 (as_i64 w) = w"
  by (simp add: from_i64_def as_i64_def)

lemma as_i64_small: "w < 2 ^ 63 \<Longrightarrow> as_i64 w = uint w"
  using order.trans [OF _ uint_ge_0 [of w], of "- 9223372036854775808"]
  by (simp add: as_i64_def word_less_def sint_uint signed_take_bit_int_eq_self_iff)

lemma statement_Inr: "statement faults n c r = Inr x \<longleftrightarrow> faults n = None \<and> r = Inr x"
  by (auto simp: statement_def split: option.split sum.split) (cases r; simp)+

lemma and_then_Inr: "and_then r f = Inr y \<longleftrightarrow> (\<exists>x. r = Inr x \<and> f x = Inr y)"
  by (simp add: and_then_def split: sum.split)

lemma max_of_Max: "xs \<noteq> [] \<Longrightarrow> max_of xs = Some (Max (set xs))"
  by (cases xs) (simp_all only: max_of_def list.case Max.set_eq_fold)

text \<open>The numbers of the first \<open>n\<close> rows.\<close>

definition first_numbers :: "nat \<Rightarrow> int list" where
  "first_numbers n = map int [1..<Suc n]"

lemma first_numbers_simps [simp]:
  "first_numbers 0 = []" "first_numbers (Suc n) = first_numbers n @ [int (Suc n)]" "length (first_numbers n) = n"
  by (simp_all add: first_numbers_def)

lemma sorted_first_numbers: "sorted (first_numbers n)"
  by (induction n) (auto simp: sorted_append first_numbers_def)

lemma max_of_first_numbers: "max_of (first_numbers n) = (if n = 0 then None else Some (int n))"
proof (cases n)
  case (Suc k)
  have "Max (set (first_numbers n)) = int n" using Suc by (intro Max_eqI) (auto simp: first_numbers_def)
  moreover have "first_numbers n \<noteq> []" using Suc by simp
  ultimately have "max_of (first_numbers n) = Some (int n)" using max_of_Max [of "first_numbers n"] unfolding Suc by argo
  then show ?thesis using Suc by simp
qed (simp add: max_of_def)

abbreviation messages_of :: "string \<Rightarrow> store_db \<Rightarrow> biz_message list" where
  "messages_of i db \<equiv> filter (\<lambda>m. bm_session_id m = i) (st_messages db)"

abbreviation events_of :: "string \<Rightarrow> store_db \<Rightarrow> biz_event list" where
  "events_of i db \<equiv> filter (\<lambda>e. be_session_id e = i) (st_events db)"

abbreviation said :: "biz_message \<Rightarrow> string option \<times> string \<times> string" where
  "said m \<equiv> (bm_turn_id m, bm_role m, bm_content m)"

abbreviation params_of :: "biz_event \<Rightarrow> event_params" where
  "params_of e \<equiv> fst (snd (snd (event_of_row e)))"

definition store_rel :: "store_db \<Rightarrow> store_log \<Rightarrow> bool" where
  "store_rel db lg \<longleftrightarrow> (\<forall>i. map said (messages_of i db) = lg_messages lg i
     \<and> map bm_sequence (messages_of i db) = first_numbers (length (lg_messages lg i))
     \<and> map params_of (events_of i db) = lg_events lg i
     \<and> list_all (\<lambda>e. be_event_seq e = as_i64 (ep_event_seq (params_of e))) (events_of i db))"

lemma store_rel_new: "store_rel store_empty log_empty"
  by (simp add: store_rel_def store_empty_def log_empty_def)

lemma append_message_SomeD:
  assumes "sql_append_message faults now uuid i turn role content db = (Inr m, db')"
  shows "db' = touch_biz_session now i (db\<lparr>st_messages := st_messages db @ [m]\<rparr>)"
    and "bm_session_id m = i \<and> said m = (turn, role, content) \<and> bm_sequence m = next_message_sequence i db"
  using assms
  by (auto simp: sql_append_message_def statement_Inr and_then_Inr insert_biz_message_def Let_def split: sum.splits if_split_asm)

lemma append_message_NoneD: "sql_append_message faults now uuid i turn role content db = (Inl e, db') \<Longrightarrow> db' = db"
  by (auto simp: sql_append_message_def split: sum.split_asm prod.split_asm)

lemma append_event_SomeD:
  assumes "sql_append_event faults now i p db = (Inr row, db')"
  shows "\<exists>e. st_messages db' = st_messages db \<and> st_events db' = st_events db @ [e] \<and> be_session_id e = i
    \<and> params_of e = p \<and> be_event_seq e = as_i64 (ep_event_seq p)"
  using assms
  by (auto simp: sql_append_event_def statement_Inr and_then_Inr insert_biz_event_def Let_def touch_biz_session_def event_of_row_def
      split: sum.splits if_split_asm)

lemma append_event_NoneD: "sql_append_event faults now i p db = (Inl e, db') \<Longrightarrow> db' = db"
  by (auto simp: sql_append_event_def split: sum.split_asm prod.split_asm)


lemma store_rel_message:
  assumes R: "store_rel db lg" and a: "sql_append_message faults now uuid i turn role content db = (Inr m, db')"
  shows "store_rel db' (log_step (StMessage uuid i turn role content) lg)"
proof -
  note d = append_message_SomeD [OF a]
  have seq: "map bm_sequence (messages_of i db) = first_numbers (length (lg_messages lg i))" using R by (simp add: store_rel_def)
  have "bm_sequence m = int (Suc (length (lg_messages lg i)))"
    using d(2) by (simp add: next_message_sequence_def seq max_of_first_numbers)
  then show ?thesis using R d by (auto simp: store_rel_def touch_biz_session_def)
qed

lemma store_rel_event:
  assumes R: "store_rel db lg" and a: "sql_append_event faults now i p db = (Inr row, db')"
  shows "store_rel db' (log_step (StEvent i p) lg)"
  using append_event_SomeD [OF a] R by (auto simp: store_rel_def)

lemma rows_of_delete:
  "messages_of j (delete_biz_session i db) = (if j = i then [] else messages_of j db)"
  "events_of j (delete_biz_session i db) = (if j = i then [] else events_of j db)"
  by (auto simp: delete_biz_session_def intro: filter_cong)

lemma store_step_rel:
  assumes R: "store_rel db lg" and s: "store_step faults now op db = (ok, db')"
  shows "store_rel db' (if ok then log_step op lg else lg)"
proof (cases op)
  case (StCreate i title)
  have "store_rel (snd (sql_create_session faults now i title db)) lg"
    using R by (auto simp: sql_create_session_def store_rel_def and_then_Inr statement_Inr insert_biz_session_def
        split: sum.split if_split_asm)
  then show ?thesis using s StCreate by (auto simp: accepted_def split: sum.split_asm prod.split_asm)
next
  case (StTouch i)
  have "store_rel (snd (sql_touch_session faults now i db)) lg"
    using R by (auto simp: sql_touch_session_def statement_def store_rel_def touch_biz_session_def split: option.split)
  then show ?thesis using s StTouch by (auto simp: accepted_def split: sum.split_asm prod.split_asm)
next
  case (StDelete i)
  show ?thesis
  proof (cases "faults 0")
    case None
    then have "db' = delete_biz_session i db" and ok using s StDelete by (auto simp: sql_delete_session_def statement_def accepted_def)
    then show ?thesis using R StDelete by (auto simp: store_rel_def rows_of_delete)
  next
    case (Some r)
    then have "db' = db" and "\<not> ok" using s StDelete by (auto simp: sql_delete_session_def statement_def accepted_def)
    then show ?thesis using R by simp
  qed
next
  case (StMessage uuid i turn role content)
  obtain r d where a: "sql_append_message faults now uuid i turn role content db = (r, d)" by fastforce
  show ?thesis
  proof (cases r)
    case (Inl e)
    then show ?thesis using s R StMessage a append_message_NoneD [of faults now uuid i turn role content db e d] by (simp add: accepted_def)
  next
    case (Inr m)
    then show ?thesis using s StMessage a store_rel_message [OF R] by (auto simp: accepted_def)
  qed
next
  case (StEvent i p)
  obtain r d where a: "sql_append_event faults now i p db = (r, d)" by fastforce
  show ?thesis
  proof (cases r)
    case (Inl e)
    then show ?thesis using s R StEvent a append_event_NoneD [of faults now i p db e d] by (simp add: accepted_def)
  next
    case (Inr row)
    then show ?thesis using s StEvent a store_rel_event [OF R] by (auto simp: accepted_def)
  qed
qed

lemma store_runs_rel: "store_rel db lg \<Longrightarrow> store_runs ops (db, lg) = (db', lg') \<Longrightarrow> store_rel db' lg'"
proof (induction ops arbitrary: db lg)
  case (Cons o' ops)
  obtain faults now op where o: "o' = (faults, now, op)" by (metis prod_cases3)
  obtain ok d where s: "store_step faults now op db = (ok, d)" by fastforce
  show ?case using Cons.prems(2) Cons.IH [OF store_step_rel [OF Cons.prems(1) s]] by (simp add: o s)
qed simp

text \<open>Sorting does not change rows that are sorted already, and sorts events by what they are given.\<close>

lemma sort_key_sorted: "sorted (map f xs) \<Longrightarrow> sort_key f xs = xs"
  by (rule sort_key_id_if_sorted)

lemma sort_key_map: "map f (sort_key (\<lambda>x. k (f x)) xs) = sort_key k (map f xs)"
proof -
  have i: "map f (insort_key (\<lambda>x. k (f x)) x xs) = insort_key k (f x) (map f xs)" for x xs by (induction xs) auto
  show ?thesis by (induction xs) (simp_all add: i)
qed

lemma sort_key_same: "(\<And>x. x \<in> set xs \<Longrightarrow> f x = g x) \<Longrightarrow> sort_key f xs = sort_key g xs"
proof (induction xs)
  case (Cons x xs)
  have "insort_key f x ys = insort_key g x ys" if "\<forall>y \<in> set ys. f y = g y" for ys
    using that Cons.prems [of x] by (induction ys) auto
  then show ?case using Cons by simp
qed simp

text \<open>C27: The messages of a session are stored as a log. Whatever operations are tried, on this session and on others,
  and whichever of their statements the database refuses, reading the messages of a session, when it succeeds,
  gives those whose storing was reported as a success since the session was last deleted, in the order they came,
  with the turn, role and content they came with, numbered 1, 2, 3 and so on.\<close>

theorem messages_are_a_log:
  assumes run: "store_runs ops (store_empty, log_empty) = (db, lg)" and rows: "sql_list_messages faults i db = Inr rows"
  shows "map (\<lambda>m. (bm_sequence m, said m)) rows = zip (first_numbers (length (lg_messages lg i))) (lg_messages lg i)"
proof -
  have R: "store_rel db lg" by (rule store_runs_rel [OF store_rel_new run])
  then have m: "map bm_sequence (messages_of i db) = first_numbers (length (lg_messages lg i))"
    "map said (messages_of i db) = lg_messages lg i" by (simp_all add: store_rel_def)
  have "sorted (map bm_sequence (messages_of i db))" unfolding m(1) by (rule sorted_first_numbers)
  then have "rows = messages_of i db" using rows by (auto simp: sql_list_messages_def and_then_Inr statement_Inr sort_key_sorted)
  moreover have "map (\<lambda>m. (bm_sequence m, said m)) ms = zip (map bm_sequence ms) (map said ms)" for ms by (induction ms) simp_all
  ultimately show ?thesis by (simp only: m)
qed

text \<open>Three messages of one session, the second refused at its insertion, and one of another session.\<close>

definition refuses_at :: "nat \<Rightarrow> faults" where
  "refuses_at k n = (if n = k then Some ''disk full'' else None)"

definition sample_store_ops :: "(faults \<times> string \<times> store_op) list" where
  "sample_store_ops =
     [(\<lambda>_. None, ''t0'', StCreate ''s'' None), (\<lambda>_. None, ''t0'', StCreate ''r'' None),
      (\<lambda>_. None, ''t1'', StMessage ''1'' ''s'' None ''user'' ''hi''),
      (refuses_at 2, ''t2'', StMessage ''2'' ''s'' None ''user'' ''lost''),
      (\<lambda>_. None, ''t3'', StMessage ''3'' ''r'' None ''user'' ''other''),
      (\<lambda>_. None, ''t4'', StMessage ''4'' ''s'' (Some ''turn_1'') ''assistant'' ''hello'')]"

theorem messages_are_a_log_witness:
  "map_sum (\<lambda>_. ()) (map (\<lambda>m. (bm_sequence m, said m)))
     (sql_list_messages (\<lambda>_. None) ''s'' (fst (store_runs sample_store_ops (store_empty, log_empty))))
   = Inr [(1, None, ''user'', ''hi''), (2, Some ''turn_1'', ''assistant'', ''hello'')]"
proof -
  let ?r = "store_runs sample_store_ops (store_empty, log_empty)"
  have "sql_list_messages (\<lambda>_. None) ''s'' (fst ?r) = Inr (sort_key bm_sequence (messages_of ''s'' (fst ?r)))"
    by (simp add: sql_list_messages_def and_then_def statement_def)
  moreover have "map (\<lambda>m. (bm_sequence m, said m)) rows
      = zip (first_numbers (length (lg_messages (snd ?r) ''s''))) (lg_messages (snd ?r) ''s'')"
    if "sql_list_messages (\<lambda>_. None) ''s'' (fst ?r) = Inr rows" for rows
    by (rule messages_are_a_log [of sample_store_ops "fst ?r" "snd ?r"]) (use that in simp_all)
  moreover have "lg_messages (snd ?r) ''s'' = [(None, ''user'', ''hi''), (Some ''turn_1'', ''assistant'', ''hello'')]"
    by code_simp
  ultimately show ?thesis by (simp add: numeral_2_eq_2)
qed

text \<open>Events come back by their number, from the number asked for on, as long as numbers are below \<open>2^63\<close>;
  above, they are stored as negative numbers.\<close>

lemma events_come_back:
  assumes run: "store_runs ops (store_empty, log_empty) = (db, lg)" and rows: "sql_list_events faults i after db = Inr rows"
    and small: "\<forall>p \<in> set (lg_events lg i). ep_event_seq p < 2 ^ 63" "\<forall>a. after = Some a \<longrightarrow> a < 2 ^ 63"
  shows "map (\<lambda>(_, _, p, _). p) rows = sort_key (\<lambda>p. uint (ep_event_seq p))
    (filter (\<lambda>p. case after of None \<Rightarrow> True | Some a \<Rightarrow> a < ep_event_seq p) (lg_events lg i))"
proof -
  have R: "store_rel db lg" by (rule store_runs_rel [OF store_rel_new run])
  let ?es = "events_of i db"
  have p: "map params_of ?es = lg_events lg i" and q: "\<forall>e \<in> set ?es. be_event_seq e = as_i64 (ep_event_seq (params_of e))"
    using R by (auto simp: store_rel_def list_all_iff)
  have n: "be_event_seq e = uint (ep_event_seq (params_of e))" if "e \<in> set ?es" for e
    using q that small(1) unfolding p [symmetric] by (simp add: as_i64_small)
  have f: "(case after of None \<Rightarrow> True | Some a \<Rightarrow> as_i64 a < be_event_seq e)
      = (case after of None \<Rightarrow> True | Some a \<Rightarrow> a < ep_event_seq (params_of e))" if "e \<in> set ?es" for e
    using n [OF that] small(2) by (cases after) (simp_all add: as_i64_small word_less_def)
  have "rows = map event_of_row (sort_key be_event_seq (filter (\<lambda>e. case after of None \<Rightarrow> True | Some a \<Rightarrow> as_i64 a < be_event_seq e) ?es))"
    using rows by (simp add: sql_list_events_def and_then_Inr statement_Inr)
  also have "\<dots> = map event_of_row (sort_key (\<lambda>e. uint (ep_event_seq (params_of e)))
      (filter (\<lambda>e. case after of None \<Rightarrow> True | Some a \<Rightarrow> a < ep_event_seq (params_of e)) ?es))"
    by (intro arg_cong [where f = "map event_of_row"] trans [OF arg_cong [where f = "sort_key be_event_seq", OF filter_cong [OF refl f]]]
        sort_key_same n) simp_all
  finally have "map (\<lambda>(_, _, p, _). p) rows = map params_of (sort_key (\<lambda>e. uint (ep_event_seq (params_of e)))
      (filter (\<lambda>e. case after of None \<Rightarrow> True | Some a \<Rightarrow> a < ep_event_seq (params_of e)) ?es))"
    by (simp add: comp_def case_prod_unfold)
  also have "\<dots> = sort_key (\<lambda>p. uint (ep_event_seq p)) (map params_of (filter (\<lambda>e. case after of None \<Rightarrow> True | Some a \<Rightarrow> a < ep_event_seq (params_of e)) ?es))"
    by (rule sort_key_map)
  also have "\<dots> = sort_key (\<lambda>p. uint (ep_event_seq p)) (filter (\<lambda>p. case after of None \<Rightarrow> True | Some a \<Rightarrow> a < ep_event_seq p) (lg_events lg i))"
    by (simp add: filter_map comp_def flip: p)
  finally show ?thesis .
qed

section \<open>The schema after every start\<close>

text \<open>Whatever tables an earlier version left, after opening the database both have the columns that
  every statement names, and opening it again changes nothing.\<close>

lemma fold_add_column: "\<exists>t'. fold add_column cs (Some t) = Some t' \<and> set t' = set t \<union> set cs"
proof (induction cs arbitrary: t)
  case (Cons c cs)
  obtain u where u: "add_column c (Some t) = Some u" "set u = insert c (set t)" by (simp add: add_column_def insert_absorb)
  then show ?case using Cons [of u] by auto
qed simp

lemma fold_add_column_id: "set cs \<subseteq> set t \<Longrightarrow> fold add_column cs (Some t) = Some t"
  by (induction cs) (simp_all add: add_column_def)

lemma migrated_tables:
  obtains ps ss where "open_schema s = \<lparr>sm_providers = Some ps, sm_settings = Some ss\<rparr>"
    "set [''provider_type'', ''context_window_size'', ''request_profile'', ''protocol''] \<subseteq> set ps" "set [''context_window_size''] \<subseteq> set ss"
proof -
  obtain ps0 ss0 where init: "store_init_schema s = \<lparr>sm_providers = Some ps0, sm_settings = Some ss0\<rparr>" by (simp add: store_init_schema_def)
  obtain ps where ps: "fold add_column [''provider_type'', ''context_window_size'', ''request_profile'', ''protocol''] (Some ps0) = Some ps"
    "set [''provider_type'', ''context_window_size'', ''request_profile'', ''protocol''] \<subseteq> set ps"
    using fold_add_column [of "[''provider_type'', ''context_window_size'', ''request_profile'', ''protocol'']" ps0] by blast
  obtain ss where ss: "fold add_column [''context_window_size''] (Some ss0) = Some ss" "set [''context_window_size''] \<subseteq> set ss"
    using fold_add_column [of "[''context_window_size'']" ss0] by blast
  from ss(1) have ss1: "add_column ''context_window_size'' (Some ss0) = Some ss" by simp
  show ?thesis by (rule that [OF _ ps(2) ss(2)]) (simp only: open_schema_def migrate_schema_def init store_schema.simps ps(1) ss1)
qed

lemma open_schema_idempotent: "open_schema (open_schema s) = open_schema s"
proof -
  obtain ps ss where o: "open_schema s = \<lparr>sm_providers = Some ps, sm_settings = Some ss\<rparr>"
    and ps: "set [''provider_type'', ''context_window_size'', ''request_profile'', ''protocol''] \<subseteq> set ps"
    and ss: "set [''context_window_size''] \<subseteq> set ss" by (rule migrated_tables)
  from fold_add_column_id [OF ss] have ss': "add_column ''context_window_size'' (Some ss) = Some ss" by simp
  show ?thesis unfolding o
    by (simp only: open_schema_def [of "\<lparr>sm_providers = Some ps, sm_settings = Some ss\<rparr>"] migrate_schema_def store_init_schema_def
        store_schema.simps option.case fold_add_column_id [OF ps] ss')
qed

end
