(* ===== verification/ModelClients.thy ===== *)
theory ModelClients
  imports Conversation
begin

text \<open>
  The two clients of model services (\<open>openjax-core/src/model/anthropic_messages.rs\<close> and
  \<open>model/chat_completions.rs\<close>): what they send for a conversation, how they read an answer and how
  they follow a stream of server-sent events (\<open>streaming/parser\<close>). The connection is an argument:
  the chunks of bytes that arrive and how the stream ends. Parsing JSON and decoding UTF-8 are
  parameters. The lemmas: the way a stream is cut into chunks does not matter, and what the deltas
  tell a listener is exactly the response the turn goes on with.
\<close>

section \<open>Server-sent events\<close>

type_synonym byte = "8 word"

definition strip_return :: "byte list \<Rightarrow> byte list" where
  "strip_return l = (if l \<noteq> [] \<and> last l = 13 then butlast l else l)"

text \<open>\<open>take_complete_lines\<close>: the lines that have ended, and what is left over; \<open>utf8\<close> decodes a line,
  replacing what is not UTF-8.\<close>

fun take_lines_from :: "(byte list \<Rightarrow> string) \<Rightarrow> byte list \<Rightarrow> byte list \<Rightarrow> string list \<times> byte list" where
  "take_lines_from utf8 acc [] = ([], acc)"
| "take_lines_from utf8 acc (b # bs) =
     (if b = 10 then (let (ls, rest) = take_lines_from utf8 [] bs in (utf8 (strip_return acc) # ls, rest))
      else take_lines_from utf8 (acc @ [b]) bs)"

definition parse_sse_data_line :: "string \<Rightarrow> string option" where
  "parse_sse_data_line line = map_option trim (strip_prefix (trim line) ''data:'')"

record sse_parser =
  sp_pending :: "byte list"
  sp_saw_done :: bool

definition sse_parser_new :: sse_parser where
  "sse_parser_new = \<lparr>sp_pending = [], sp_saw_done = False\<rparr>"

definition done_marker :: string where "done_marker = ''[DONE]''"

definition data_frames :: "string list \<Rightarrow> string list" where
  "data_frames ls = filter (\<lambda>d. d \<noteq> done_marker) (List.map_filter parse_sse_data_line ls)"

definition names_done :: "string list \<Rightarrow> bool" where
  "names_done ls \<longleftrightarrow> list_ex (\<lambda>l. parse_sse_data_line l = Some done_marker) ls"

definition push_chunk :: "(byte list \<Rightarrow> string) \<Rightarrow> byte list \<Rightarrow> sse_parser \<Rightarrow> string list \<times> sse_parser" where
  "push_chunk utf8 chunk p =
     (let (ls, rest) = take_lines_from utf8 [] (sp_pending p @ chunk)
      in (data_frames ls, p\<lparr>sp_pending := rest, sp_saw_done := sp_saw_done p \<or> names_done ls\<rparr>))"

definition sse_finish :: "(byte list \<Rightarrow> string) \<Rightarrow> sse_parser \<Rightarrow> string list \<times> sse_parser" where
  "sse_finish utf8 p =
     (if sp_pending p = [] then ([], p)
      else (let l = utf8 (sp_pending p)
            in (data_frames [l], p\<lparr>sp_pending := [], sp_saw_done := sp_saw_done p \<or> names_done [l]\<rparr>)))"

section \<open>Requests\<close>

record tool_spec =
  tp_name :: string
  tp_description :: string
  tp_input_schema :: json

record model_request =
  rq_messages :: "message list"
  rq_system_prompt :: "string option"
  rq_tools :: "tool_spec list"
  rq_max_output_tokens :: "nat option"
  rq_thinking_budget_tokens :: "nat option"

text \<open>The Anthropic wire format.\<close>

datatype anthropic_block =
    ThinkingBlock string | TextBlock string | ToolUseBlock string string json | ToolResultBlock string string bool

record anthropic_message =
  am_role :: string
  am_content :: "anthropic_block list"

record anthropic_request =
  ar_model :: string
  ar_system :: string
  ar_messages :: "anthropic_message list"
  ar_tools :: "tool_spec list"
  ar_max_tokens :: nat
  ar_stream :: bool
  ar_thinking :: "nat option"

fun anthropic_user_block :: "user_block \<Rightarrow> anthropic_block" where
  "anthropic_user_block (UText s) = TextBlock s"
| "anthropic_user_block (UToolResult i c e) = ToolResultBlock i c e"

fun anthropic_assistant_block :: "assistant_block \<Rightarrow> anthropic_block" where
  "anthropic_assistant_block (AReasoning s) = ThinkingBlock s"
| "anthropic_assistant_block (AText s) = TextBlock s"
| "anthropic_assistant_block (AToolUse i n v) = ToolUseBlock i n v"

fun anthropic_message_of :: "message \<Rightarrow> anthropic_message" where
  "anthropic_message_of (User bs) = \<lparr>am_role = ''user'', am_content = map anthropic_user_block bs\<rparr>"
| "anthropic_message_of (Assistant bs) = \<lparr>am_role = ''assistant'', am_content = map anthropic_assistant_block bs\<rparr>"

text \<open>\<open>model\<close> is the model's name, \<open>default_prompt\<close> the built-in system prompt, \<open>thinking\<close> the budget
  the client was configured with.\<close>

definition anthropic_build_request ::
    "string \<Rightarrow> string \<Rightarrow> model_request \<Rightarrow> bool \<Rightarrow> nat option \<Rightarrow> anthropic_request" where
  "anthropic_build_request model default_prompt rq stream thinking =
     \<lparr>ar_model = model, ar_system = (case rq_system_prompt rq of Some p \<Rightarrow> p | None \<Rightarrow> default_prompt),
      ar_messages = map anthropic_message_of (rq_messages rq), ar_tools = rq_tools rq,
      ar_max_tokens = (case rq_max_output_tokens rq of Some n \<Rightarrow> n | None \<Rightarrow> 32000),
      ar_stream = stream, ar_thinking = thinking\<rparr>"

definition thinking_budget :: "nat option \<Rightarrow> model_request \<Rightarrow> nat option" where
  "thinking_budget configured rq = (case rq_thinking_budget_tokens rq of Some n \<Rightarrow> Some n | None \<Rightarrow> configured)"

text \<open>The chat completions wire format: one message per tool result, text and tool calls of the
  assistant apart.\<close>

record chat_tool_call =
  ct_id :: string
  ct_name :: string
  ct_arguments :: string

record chat_message =
  cm_role :: string
  cm_text :: "string option"
  cm_tool_calls :: "chat_tool_call list option"
  cm_tool_call_id :: "string option"

datatype chat_profile = DefaultProfile | KimiCodingV1

definition KIMI_DEFAULT_MAX_TOKENS :: nat where "KIMI_DEFAULT_MAX_TOKENS = 200000"

definition chat_profile_parse :: "string option \<Rightarrow> string + chat_profile" where
  "chat_profile_parse raw =
     (let s = trim (case raw of None \<Rightarrow> ''default'' | Some r \<Rightarrow> r)
      in if s = [] \<or> s = ''default'' then Inr DefaultProfile
         else if s = ''kimi_coding_v1'' then Inr KimiCodingV1
         else Inl (''unknown chat_completions request_profile '' @ [CHR 0x27] @ s @ [CHR 0x27]
                   @ ''; supported profiles: default, kimi_coding_v1''))"

definition anthropic_profile_parse :: "string option \<Rightarrow> string + unit" where
  "anthropic_profile_parse raw =
     (let s = trim (case raw of None \<Rightarrow> ''default'' | Some r \<Rightarrow> r)
      in if s = [] \<or> s = ''default'' \<or> s = ''anthropic_default'' then Inr ()
         else Inl (''unknown anthropic_messages request_profile '' @ [CHR 0x27] @ s @ [CHR 0x27]
                   @ ''; supported profiles: default, anthropic_default''))"

definition resolve_max_tokens :: "chat_profile \<Rightarrow> model_request \<Rightarrow> nat option" where
  "resolve_max_tokens profile rq = (case profile of
     DefaultProfile \<Rightarrow> rq_max_output_tokens rq
   | KimiCodingV1 \<Rightarrow> (case rq_max_output_tokens rq of Some n \<Rightarrow> Some n | None \<Rightarrow> Some KIMI_DEFAULT_MAX_TOKENS))"

definition include_stream_options :: "chat_profile \<Rightarrow> bool" where
  "include_stream_options profile = (profile \<noteq> KimiCodingV1)"

record chat_request =
  cr_model :: string
  cr_messages :: "chat_message list"
  cr_tools :: "tool_spec list"
  cr_max_tokens :: "nat option"
  cr_stream :: bool
  cr_include_usage :: bool

fun text_parts :: "user_block list \<Rightarrow> string list" where
  "text_parts [] = []"
| "text_parts (UText s # bs) = s # text_parts bs"
| "text_parts (UToolResult _ _ _ # bs) = text_parts bs"

fun tool_messages :: "user_block list \<Rightarrow> chat_message list" where
  "tool_messages [] = []"
| "tool_messages (UText _ # bs) = tool_messages bs"
| "tool_messages (UToolResult i c _ # bs) =
     \<lparr>cm_role = ''tool'', cm_text = Some c, cm_tool_calls = None, cm_tool_call_id = Some i\<rparr> # tool_messages bs"

definition chat_text :: "string \<Rightarrow> string \<Rightarrow> chat_message" where
  "chat_text role s = \<lparr>cm_role = role, cm_text = Some s, cm_tool_calls = None, cm_tool_call_id = None\<rparr>"

text \<open>\<open>print\<close> is the JSON text of a value.\<close>

definition chat_calls :: "(json \<Rightarrow> string) \<Rightarrow> assistant_block list \<Rightarrow> chat_tool_call list" where
  "chat_calls print bs = map (\<lambda>(i, n, v). \<lparr>ct_id = i, ct_name = n, ct_arguments = print v\<rparr>) (tool_uses bs)"

fun chat_messages_of :: "(json \<Rightarrow> string) \<Rightarrow> message \<Rightarrow> chat_message list" where
  "chat_messages_of print (User bs) =
     (if text_parts bs = [] then [] else [chat_text ''user'' (join newline (text_parts bs))]) @ tool_messages bs"
| "chat_messages_of print (Assistant bs) =
     (let text = concat (map (\<lambda>b. case b of AText s \<Rightarrow> s | _ \<Rightarrow> []) bs); calls = chat_calls print bs
      in [\<lparr>cm_role = ''assistant'', cm_text = (if text = [] then None else Some text),
           cm_tool_calls = (if calls = [] then None else Some calls), cm_tool_call_id = None\<rparr>])"

definition chat_build_request ::
    "(json \<Rightarrow> string) \<Rightarrow> string \<Rightarrow> string \<Rightarrow> chat_profile \<Rightarrow> model_request \<Rightarrow> bool \<Rightarrow> chat_request" where
  "chat_build_request print model default_prompt profile rq stream =
     \<lparr>cr_model = model,
      cr_messages = chat_text ''system'' (case rq_system_prompt rq of Some p \<Rightarrow> p | None \<Rightarrow> default_prompt)
        # concat (map (chat_messages_of print) (rq_messages rq)),
      cr_tools = rq_tools rq,
      cr_max_tokens = (case resolve_max_tokens profile rq of Some n \<Rightarrow> Some n | None \<Rightarrow> Some 32000),
      cr_stream = stream, cr_include_usage = (stream \<and> include_stream_options profile)\<rparr>"


section \<open>Answers in one piece\<close>

fun json_path :: "string list \<Rightarrow> json \<Rightarrow> json option" where
  "json_path [] v = Some v"
| "json_path (k # ks) v = (case json_get v k of None \<Rightarrow> None | Some v' \<Rightarrow> json_path ks v')"

definition str_at :: "string list \<Rightarrow> json \<Rightarrow> string option" where
  "str_at ks v = Option.bind (json_path ks v) as_str"

definition as_array :: "json \<Rightarrow> json list option" where
  "as_array v = (case v of JArray vs \<Rightarrow> Some vs | _ \<Rightarrow> None)"

definition or_default :: "'a \<Rightarrow> 'a option \<Rightarrow> 'a" where
  "or_default d x = (case x of None \<Rightarrow> d | Some y \<Rightarrow> y)"

definition nonempty :: "string option \<Rightarrow> string option" where
  "nonempty x = (case x of Some s \<Rightarrow> if s = [] then None else Some s | None \<Rightarrow> None)"

definition empty_object :: json where "empty_object = JObject []"

definition anthropic_body_block :: "json \<Rightarrow> assistant_block option" where
  "anthropic_body_block b =
     (if str_at [''type''] b = Some ''text'' then map_option AText (nonempty (str_at [''text''] b))
      else if str_at [''type''] b = Some ''tool_use'' then
        (case (str_at [''id''] b, str_at [''name''] b) of
           (Some i, Some n) \<Rightarrow> Some (AToolUse i n (or_default empty_object (json_get b ''input'')))
         | _ \<Rightarrow> None)
      else None)"

definition body_array :: "json \<Rightarrow> json list" where
  "body_array body = or_default [] (Option.bind (json_get body ''content'') as_array)"

definition anthropic_content_of_body :: "json \<Rightarrow> assistant_block list" where
  "anthropic_content_of_body body = List.map_filter anthropic_body_block (body_array body)"

fun merge_thinking :: "string \<Rightarrow> json list \<Rightarrow> string" where
  "merge_thinking merged [] = merged"
| "merge_thinking merged (b # bs) =
     merge_thinking
       (if str_at [''type''] b = Some ''thinking'' then
          (case str_at [''thinking''] b of Some t \<Rightarrow> (if merged = [] then [] else merged @ newline) @ t | None \<Rightarrow> merged)
        else merged) bs"

definition extract_thinking_from_body :: "json \<Rightarrow> string option" where
  "extract_thinking_from_body body = nonempty (Some (merge_thinking [] (body_array body)))"

text \<open>What comes back of a request: nothing, or a status with a body that may not be readable.\<close>

datatype http_reply = NotSent | HttpReply bool "string option"

datatype client_error =
    SendFailed | BodyUnreadable | BadJson string | StatusError string | MissingContent string
  | StreamTimedOut | StreamBroken | StreamUnfinished

definition response_snippet :: "string \<Rightarrow> string" where
  "response_snippet body = (if length body \<le> 400 then body else take 400 body @ ellipsis)"

definition read_reply :: "(string \<Rightarrow> json option) \<Rightarrow> http_reply \<Rightarrow> client_error + json \<times> string" where
  "read_reply parse reply = (case reply of
     NotSent \<Rightarrow> Inl SendFailed
   | HttpReply ok None \<Rightarrow> Inl BodyUnreadable
   | HttpReply ok (Some body) \<Rightarrow>
       (case parse body of
          None \<Rightarrow> Inl (BadJson (response_snippet body))
        | Some v \<Rightarrow> if ok then Inr (v, body) else Inl (StatusError (response_snippet body))))"

definition anthropic_complete :: "(string \<Rightarrow> json option) \<Rightarrow> http_reply \<Rightarrow> client_error + model_response" where
  "anthropic_complete parse reply = (case read_reply parse reply of
     Inl e \<Rightarrow> Inl e
   | Inr (v, body) \<Rightarrow>
       (let content = anthropic_content_of_body v
        in if content = [] then Inl (MissingContent (response_snippet body))
           else Inr \<lparr>mr_content = content, mr_reasoning = extract_thinking_from_body v,
                     mr_usage = map_option (\<lambda>u. \<lparr>mu_input_tokens = Option.bind (json_get u ''input_tokens'') as_u64,
                        mu_output_tokens = Option.bind (json_get u ''output_tokens'') as_u64,
                        mu_total_tokens = Option.bind (json_get u ''total_tokens'') as_u64\<rparr>) (json_get v ''usage''),
                     mr_stop_reason = map_option from_api_str (str_at [''stop_reason''] v)\<rparr>))"

text \<open>The first choice of a chat completion.\<close>

definition first_choice :: "json \<Rightarrow> json option" where
  "first_choice body = (case Option.bind (json_get body ''choices'') as_array of Some (c # _) \<Rightarrow> Some c | _ \<Rightarrow> None)"

text \<open>The loop that merges the text blocks of a whole message puts a line break before a text only
  when something is there already.\<close>

fun merge_message_texts :: "string \<Rightarrow> json list \<Rightarrow> string" where
  "merge_message_texts merged [] = merged"
| "merge_message_texts merged (b # bs) =
     merge_message_texts
       (case str_at [''text''] b of Some t \<Rightarrow> (if merged = [] then [] else merged @ newline) @ t | None \<Rightarrow> merged) bs"

definition chat_body_call :: "(string \<Rightarrow> json option) \<Rightarrow> json \<Rightarrow> assistant_block" where
  "chat_body_call parse tc =
     AToolUse (or_default [] (str_at [''id''] tc)) (or_default [] (str_at [''function'', ''name''] tc))
       (or_default empty_object (parse (or_default ''{}'' (str_at [''function'', ''arguments''] tc))))"

definition chat_content_of_body :: "(string \<Rightarrow> json option) \<Rightarrow> json \<Rightarrow> assistant_block list" where
  "chat_content_of_body parse body =
     (case Option.bind (first_choice body) (\<lambda>c. json_get c ''message'') of
        None \<Rightarrow> []
      | Some m \<Rightarrow>
          (let text = (case Option.bind (json_get m ''content'') as_str of
                         Some t \<Rightarrow> t
                       | None \<Rightarrow> merge_message_texts [] (or_default [] (Option.bind (json_get m ''content'') as_array)))
           in (if text = [] then [] else [AText text])
              @ map (chat_body_call parse) (or_default [] (Option.bind (json_get m ''tool_calls'') as_array))))"

definition extract_finish_reason :: "json \<Rightarrow> string option" where
  "extract_finish_reason body = Option.bind (first_choice body) (str_at [''finish_reason''])"

definition first_some :: "'a option \<Rightarrow> 'a option \<Rightarrow> 'a option" where
  "first_some x y = (case x of Some v \<Rightarrow> Some v | None \<Rightarrow> y)"

definition extract_usage_from_payload :: "json \<Rightarrow> model_usage option" where
  "extract_usage_from_payload v = map_option (\<lambda>u.
     \<lparr>mu_input_tokens = first_some (Option.bind (json_get u ''prompt_tokens'') as_u64) (Option.bind (json_get u ''input_tokens'') as_u64),
      mu_output_tokens = first_some (Option.bind (json_get u ''completion_tokens'') as_u64) (Option.bind (json_get u ''output_tokens'') as_u64),
      mu_total_tokens = Option.bind (json_get u ''total_tokens'') as_u64\<rparr>) (json_get v ''usage'')"

definition chat_complete :: "(string \<Rightarrow> json option) \<Rightarrow> http_reply \<Rightarrow> client_error + model_response" where
  "chat_complete parse reply = (case read_reply parse reply of
     Inl e \<Rightarrow> Inl e
   | Inr (v, body) \<Rightarrow>
       (let content = chat_content_of_body parse v
        in if content = [] then Inl (MissingContent (response_snippet body))
           else Inr \<lparr>mr_content = content, mr_reasoning = None, mr_usage = extract_usage_from_payload v,
                     mr_stop_reason = map_option from_api_str (extract_finish_reason v)\<rparr>))"


section \<open>Streams\<close>

datatype stream_end = Eof | IdleTimeout | ReadError

text \<open>The frames of a stream one after the other; a frame that is not JSON ends it.\<close>

fun run_frames ::
    "(string \<Rightarrow> json option) \<Rightarrow> (json \<Rightarrow> 's \<Rightarrow> stream_delta list \<times> 's) \<Rightarrow> string list \<Rightarrow> 's \<Rightarrow>
     stream_delta list \<times> string option \<times> 's" where
  "run_frames parse step [] s = ([], None, s)"
| "run_frames parse step (f # fs) s =
     (case parse f of
        None \<Rightarrow> ([], Some f, s)
      | Some v \<Rightarrow>
          (let (ds, s1) = step v s; (ds', bad, s2) = run_frames parse step fs s1
           in (ds @ ds', bad, s2)))"

fun run_chunks ::
    "(byte list \<Rightarrow> string) \<Rightarrow> (string \<Rightarrow> json option) \<Rightarrow> (json \<Rightarrow> 's \<Rightarrow> stream_delta list \<times> 's) \<Rightarrow> byte list list \<Rightarrow>
     sse_parser \<Rightarrow> 's \<Rightarrow> stream_delta list \<times> string option \<times> sse_parser \<times> 's" where
  "run_chunks utf8 parse step [] p s = ([], None, p, s)"
| "run_chunks utf8 parse step (c # cs) p s =
     (let (fs, p1) = push_chunk utf8 c p; (ds, bad, s1) = run_frames parse step fs s
      in case bad of
           Some f \<Rightarrow> (ds, Some f, p1, s1)
         | None \<Rightarrow>
             (let (ds', bad', p2, s2) = run_chunks utf8 parse step cs p1 s1
              in (ds @ ds', bad', p2, s2)))"

text \<open>The whole loop over a stream, with what follows the last line end handled by \<open>tail\<close>; it
  returns whether \<open>[DONE]\<close> was seen.\<close>

definition follow_stream ::
    "(byte list \<Rightarrow> string) \<Rightarrow> (string \<Rightarrow> json option) \<Rightarrow> (json \<Rightarrow> 's \<Rightarrow> stream_delta list \<times> 's) \<Rightarrow>
     (json \<Rightarrow> 's \<Rightarrow> stream_delta list \<times> 's) \<Rightarrow> byte list list \<Rightarrow> stream_end \<Rightarrow> 's \<Rightarrow>
     stream_delta list \<times> (client_error + bool \<times> 's)" where
  "follow_stream utf8 parse step tail chunks ending s =
     (let (ds, bad, p, s) = run_chunks utf8 parse step chunks sse_parser_new s
      in case bad of
           Some f \<Rightarrow> (ds, Inl (BadJson (response_snippet f)))
         | None \<Rightarrow>
             (case ending of
                IdleTimeout \<Rightarrow> (ds, Inl StreamTimedOut)
              | ReadError \<Rightarrow> (ds, Inl StreamBroken)
              | Eof \<Rightarrow>
                  (let (fs, p) = sse_finish utf8 p; (ds', bad, s) = run_frames parse tail fs s
                   in case bad of
                        Some f \<Rightarrow> (ds @ ds', Inl (BadJson (response_snippet f)))
                      | None \<Rightarrow> (ds @ ds', Inr (sp_saw_done p, s)))))"

text \<open>The reply to a streaming request.\<close>

datatype stream_reply = StreamNotSent | StreamRefused "string option" | Streaming "byte list list" stream_end

definition open_stream :: "stream_reply \<Rightarrow> client_error + byte list list \<times> stream_end" where
  "open_stream reply = (case reply of
     StreamNotSent \<Rightarrow> Inl SendFailed
   | StreamRefused None \<Rightarrow> Inl BodyUnreadable
   | StreamRefused (Some body) \<Rightarrow> Inl (StatusError (response_snippet body))
   | Streaming chunks ending \<Rightarrow> Inr (chunks, ending))"

subsection \<open>Anthropic messages\<close>

record anthropic_stream =
  as_assembled :: string
  as_thinking :: string
  as_blocks :: "assistant_block list"
  as_block_type :: "string option"
  as_tool_id :: string
  as_tool_name :: string
  as_tool_args :: string
  as_stop_reason :: "stop_reason option"
  as_message_stop :: bool

definition anthropic_stream_new :: anthropic_stream where
  "anthropic_stream_new = \<lparr>as_assembled = [], as_thinking = [], as_blocks = [], as_block_type = None, as_tool_id = [],
     as_tool_name = [], as_tool_args = [], as_stop_reason = None, as_message_stop = False\<rparr>"

definition extract_delta_content :: "json \<Rightarrow> string option" where
  "extract_delta_content v =
     (case nonempty (str_at [''delta'', ''text''] v) of
        Some t \<Rightarrow> Some t
      | None \<Rightarrow>
          if str_at [''type''] v = Some ''content_block_start'' then nonempty (str_at [''content_block'', ''text''] v) else None)"

definition extract_delta_thinking :: "json \<Rightarrow> string option" where
  "extract_delta_thinking v =
     (case nonempty (str_at [''delta'', ''thinking''] v) of
        Some t \<Rightarrow> Some t
      | None \<Rightarrow>
          if str_at [''type''] v = Some ''content_block_start'' \<and> str_at [''content_block'', ''type''] v = Some ''thinking''
          then nonempty (str_at [''content_block'', ''thinking''] v) else None)"

definition parsed_args :: "(string \<Rightarrow> json option) \<Rightarrow> string \<Rightarrow> json" where
  "parsed_args parse args = or_default empty_object (parse args)"

definition process_tool_use_frame ::
    "(string \<Rightarrow> json option) \<Rightarrow> json \<Rightarrow> anthropic_stream \<Rightarrow> stream_delta list \<times> anthropic_stream" where
  "process_tool_use_frame parse v s =
     (let ty = str_at [''type''] v
      in if ty = Some ''content_block_start'' then
           (case json_get v ''content_block'' of
              None \<Rightarrow> ([], s)
            | Some b \<Rightarrow>
                (let s = s\<lparr>as_block_type := str_at [''type''] b\<rparr>
                 in if str_at [''type''] b = Some ''tool_use'' then
                      (let i = or_default [] (str_at [''id''] b); n = or_default [] (str_at [''name''] b)
                       in ([DToolUseStart i n], s\<lparr>as_tool_id := i, as_tool_name := n, as_tool_args := []\<rparr>))
                    else ([], s)))
         else if ty = Some ''content_block_delta'' then
           (if as_block_type s = Some ''tool_use'' then
              (case str_at [''delta'', ''partial_json''] v of
                 Some j \<Rightarrow> ([DToolArgsDelta (as_tool_id s) j], s\<lparr>as_tool_args := as_tool_args s @ j\<rparr>)
               | None \<Rightarrow> ([], s))
            else ([], s))
         else if ty = Some ''content_block_stop'' then
           (if as_block_type s = Some ''tool_use'' then
              ([DToolUseEnd (as_tool_id s)],
               s\<lparr>as_blocks := as_blocks s @ [AToolUse (as_tool_id s) (as_tool_name s) (parsed_args parse (as_tool_args s))],
                 as_block_type := None\<rparr>)
            else ([], s\<lparr>as_block_type := None\<rparr>))
         else if ty = Some ''message_delta'' then
           (case str_at [''delta'', ''stop_reason''] v of
              Some r \<Rightarrow> ([], s\<lparr>as_stop_reason := Some (from_api_str r)\<rparr>)
            | None \<Rightarrow> ([], s))
         else ([], s))"

definition anthropic_frame ::
    "(string \<Rightarrow> json option) \<Rightarrow> json \<Rightarrow> anthropic_stream \<Rightarrow> stream_delta list \<times> anthropic_stream" where
  "anthropic_frame parse v s =
     (let s = (if str_at [''type''] v = Some ''message_stop'' then s\<lparr>as_message_stop := True\<rparr> else s);
          (text, s) = (case extract_delta_content v of
             Some t \<Rightarrow> ([DText t], s\<lparr>as_assembled := as_assembled s @ t\<rparr>) | None \<Rightarrow> ([], s));
          (thinking, s) = (case extract_delta_thinking v of
             Some t \<Rightarrow> ([DReasoning t], s\<lparr>as_thinking := as_thinking s @ t\<rparr>) | None \<Rightarrow> ([], s));
          (tool, s) = process_tool_use_frame parse v s
      in (text @ thinking @ tool, s))"

definition anthropic_complete_stream ::
    "(byte list \<Rightarrow> string) \<Rightarrow> (string \<Rightarrow> json option) \<Rightarrow> stream_reply \<Rightarrow> stream_delta list \<times> (client_error + model_response)" where
  "anthropic_complete_stream utf8 parse reply = (case open_stream reply of
     Inl e \<Rightarrow> ([], Inl e)
   | Inr (chunks, ending) \<Rightarrow>
       (case follow_stream utf8 parse (anthropic_frame parse) (anthropic_frame parse) chunks ending anthropic_stream_new of
          (ds, Inl e) \<Rightarrow> (ds, Inl e)
        | (ds, Inr (saw_done, s)) \<Rightarrow>
            (let content = (if as_assembled s = [] then [] else [AText (as_assembled s)]) @ as_blocks s
             in if \<not> saw_done \<and> \<not> as_message_stop s then (ds, Inl StreamUnfinished)
                else if content = [] then (ds, Inl (MissingContent []))
                else (ds, Inr \<lparr>mr_content = content, mr_reasoning = nonempty (Some (as_thinking s)), mr_usage = None,
                               mr_stop_reason = as_stop_reason s\<rparr>))))"

subsection \<open>Chat completions\<close>

record pending_call =
  pc_id :: string
  pc_name :: string
  pc_args :: string

record chat_stream =
  cs_assembled :: string
  cs_pending :: "pending_call list"
  cs_stop_reason :: "stop_reason option"
  cs_usage :: "model_usage option"

definition chat_stream_new :: chat_stream where
  "chat_stream_new = \<lparr>cs_assembled = [], cs_pending = [], cs_stop_reason = None, cs_usage = None\<rparr>"

record tool_call_delta =
  td_index :: nat
  td_id :: "string option"
  td_name :: "string option"
  td_args :: "string option"

definition chat_delta :: "json \<Rightarrow> json option" where
  "chat_delta v = Option.bind (first_choice v) (\<lambda>c. json_get c ''delta'')"

definition chat_delta_content :: "json \<Rightarrow> string option" where
  "chat_delta_content v = (case Option.bind (chat_delta v) (\<lambda>d. json_get d ''content'') of
     None \<Rightarrow> None
   | Some (JString t) \<Rightarrow> Some t
   | Some (JArray bs) \<Rightarrow> nonempty (Some (concat (List.map_filter (str_at [''text'']) bs)))
   | Some _ \<Rightarrow> None)"

definition chat_delta_reasoning :: "json \<Rightarrow> string option" where
  "chat_delta_reasoning v = Option.bind (chat_delta v) (str_at [''reasoning_content''])"

definition extract_tool_call_deltas :: "json \<Rightarrow> tool_call_delta list" where
  "extract_tool_call_deltas v =
     List.map_filter (\<lambda>tc. map_option (\<lambda>i.
         \<lparr>td_index = i, td_id = str_at [''id''] tc, td_name = str_at [''function'', ''name''] tc,
          td_args = str_at [''function'', ''arguments''] tc\<rparr>) (Option.bind (json_get tc ''index'') as_u64))
       (or_default [] (Option.bind (Option.bind (chat_delta v) (\<lambda>d. json_get d ''tool_calls'')) as_array))"

text \<open>A delta for an index not seen yet opens calls up to it, all with the delta's id and name.\<close>

definition grow_calls :: "tool_call_delta \<Rightarrow> pending_call list \<Rightarrow> pending_call list" where
  "grow_calls t ps =
     replicate (Suc (td_index t) - length ps)
       \<lparr>pc_id = or_default [] (td_id t), pc_name = or_default [] (td_name t), pc_args = []\<rparr>"

definition chat_tool_delta :: "tool_call_delta \<Rightarrow> pending_call list \<Rightarrow> stream_delta list \<times> pending_call list" where
  "chat_tool_delta t ps =
     (let new = grow_calls t ps; ps = ps @ new; starts = map (\<lambda>c. DToolUseStart (pc_id c) (pc_name c)) new
      in case nonempty (td_args t) of
           None \<Rightarrow> (starts, ps)
         | Some a \<Rightarrow>
             (let c = ps ! td_index t
              in (starts @ [DToolArgsDelta (pc_id c) a], ps[td_index t := c\<lparr>pc_args := pc_args c @ a\<rparr>])))"

fun chat_tool_deltas :: "tool_call_delta list \<Rightarrow> pending_call list \<Rightarrow> stream_delta list \<times> pending_call list" where
  "chat_tool_deltas [] ps = ([], ps)"
| "chat_tool_deltas (t # ts) ps =
     (let (ds, ps) = chat_tool_delta t ps; (ds', ps) = chat_tool_deltas ts ps in (ds @ ds', ps))"

definition chat_text_frame :: "json \<Rightarrow> chat_stream \<Rightarrow> stream_delta list \<times> chat_stream" where
  "chat_text_frame v s =
     (let (text, s) = (case nonempty (chat_delta_content v) of
             Some t \<Rightarrow> ([DText t], s\<lparr>cs_assembled := cs_assembled s @ t\<rparr>) | None \<Rightarrow> ([], s));
          reasoning = (case nonempty (chat_delta_reasoning v) of Some t \<Rightarrow> [DReasoning t] | None \<Rightarrow> [])
      in (text @ reasoning, s))"

definition chat_usage_frame :: "json \<Rightarrow> chat_stream \<Rightarrow> chat_stream" where
  "chat_usage_frame v s = s\<lparr>cs_usage := first_some (extract_usage_from_payload v) (cs_usage s)\<rparr>"

definition chat_frame :: "json \<Rightarrow> chat_stream \<Rightarrow> stream_delta list \<times> chat_stream" where
  "chat_frame v s =
     (let (text, s) = chat_text_frame v s;
          (tools, ps) = chat_tool_deltas (extract_tool_call_deltas v) (cs_pending s);
          s = s\<lparr>cs_pending := ps, cs_stop_reason := first_some (map_option from_api_str (extract_finish_reason v)) (cs_stop_reason s)\<rparr>
      in (text @ tools, chat_usage_frame v s))"

text \<open>What follows the last line end is read for text and usage only.\<close>

definition chat_trailing_frame :: "json \<Rightarrow> chat_stream \<Rightarrow> stream_delta list \<times> chat_stream" where
  "chat_trailing_frame v s = (let (text, s) = chat_text_frame v s in (text, chat_usage_frame v s))"

definition chat_complete_stream ::
    "(byte list \<Rightarrow> string) \<Rightarrow> (string \<Rightarrow> json option) \<Rightarrow> stream_reply \<Rightarrow> stream_delta list \<times> (client_error + model_response)" where
  "chat_complete_stream utf8 parse reply = (case open_stream reply of
     Inl e \<Rightarrow> ([], Inl e)
   | Inr (chunks, ending) \<Rightarrow>
       (case follow_stream utf8 parse chat_frame chat_trailing_frame chunks ending chat_stream_new of
          (ds, Inl e) \<Rightarrow> (ds, Inl e)
        | (ds, Inr (saw_done, s)) \<Rightarrow>
            if \<not> saw_done then (ds, Inl StreamUnfinished)
            else
              (let content = (if cs_assembled s = [] then [] else [AText (cs_assembled s)])
                     @ map (\<lambda>c. AToolUse (pc_id c) (pc_name c) (parsed_args parse (pc_args c))) (cs_pending s);
                   ends = map (\<lambda>c. DToolUseEnd (pc_id c)) (cs_pending s)
               in if content = [] then (ds @ ends, Inl (MissingContent []))
                  else (ds @ ends, Inr \<lparr>mr_content = content, mr_reasoning = None, mr_usage = cs_usage s,
                                        mr_stop_reason = cs_stop_reason s\<rparr>))))"


section \<open>The way a stream is cut does not matter\<close>

lemma take_lines_append:
  "take_lines_from utf8 acc (a @ b) =
     (let (l1, r1) = take_lines_from utf8 acc a; (l2, r2) = take_lines_from utf8 r1 b in (l1 @ l2, r2))"
  by (induction utf8 acc a rule: take_lines_from.induct) (auto simp: case_prod_beta Let_def)

lemma take_lines_line: "10 \<notin> set bs \<Longrightarrow> take_lines_from utf8 acc bs = ([], acc @ bs)"
  by (induction bs arbitrary: acc) auto

lemma take_lines_rest: "10 \<notin> set acc \<Longrightarrow> 10 \<notin> set (snd (take_lines_from utf8 acc bs))"
  by (induction utf8 acc bs rule: take_lines_from.induct) (auto simp: case_prod_beta Let_def)

lemma map_filter_append: "List.map_filter f (xs @ ys) = List.map_filter f xs @ List.map_filter f ys"
  by (simp add: map_filter_def)

lemma data_frames_append [simp]: "data_frames (a @ b) = data_frames a @ data_frames b"
  by (simp add: data_frames_def map_filter_append)

lemma names_done_append [simp]: "names_done (a @ b) \<longleftrightarrow> names_done a \<or> names_done b"
  by (simp add: names_done_def)

definition parser_ok :: "sse_parser \<Rightarrow> bool" where
  "parser_ok p \<longleftrightarrow> 10 \<notin> set (sp_pending p)"

lemma push_chunk_ok: "parser_ok p \<Longrightarrow> parser_ok (snd (push_chunk utf8 c p))"
  using take_lines_rest [of "[]" utf8 "sp_pending p @ c"]
  by (auto simp: push_chunk_def parser_ok_def case_prod_beta Let_def prod_eq_iff)

lemma push_chunk_empty: "parser_ok p \<Longrightarrow> push_chunk utf8 [] p = ([], p)"
  by (simp add: push_chunk_def parser_ok_def take_lines_line data_frames_def names_done_def map_filter_def)

lemma push_chunk_append:
  assumes "parser_ok p"
  shows "push_chunk utf8 (a @ b) p =
    (let (f1, p1) = push_chunk utf8 a p; (f2, p2) = push_chunk utf8 b p1 in (f1 @ f2, p2))"
proof -
  obtain l1 r1 where 1: "take_lines_from utf8 [] (sp_pending p @ a) = (l1, r1)" by (cases "take_lines_from utf8 [] (sp_pending p @ a)")
  obtain l2 r2 where 2: "take_lines_from utf8 r1 b = (l2, r2)" by (cases "take_lines_from utf8 r1 b")
  have "10 \<notin> set r1" using take_lines_rest [of "[]" utf8 "sp_pending p @ a"] 1 by simp
  then have "take_lines_from utf8 [] (r1 @ b) = (l2, r2)" using take_lines_append [of utf8 "[]" r1 b] take_lines_line [of r1 utf8 "[]"] 2 by simp
  moreover have "take_lines_from utf8 [] (sp_pending p @ a @ b) = (l1 @ l2, r2)"
    using take_lines_append [of utf8 "[]" "sp_pending p @ a" b] 1 2 by simp
  ultimately show ?thesis using 1 by (auto simp: push_chunk_def)
qed

lemma run_frames_append:
  "run_frames parse step (fs @ gs) s =
     (let (ds, bad, s1) = run_frames parse step fs s
      in if bad = None then (let (ds', bad', s2) = run_frames parse step gs s1 in (ds @ ds', bad', s2)) else (ds, bad, s1))"
  by (induction fs arbitrary: s) (auto simp: case_prod_beta Let_def split: option.splits)

lemma run_chunks_concat:
  assumes "parser_ok p" "run_chunks utf8 parse step cs p s = (ds, bad, p', s')"
  shows "run_frames parse step (fst (push_chunk utf8 (concat cs) p)) s = (ds, bad, s')
    \<and> (bad = None \<longrightarrow> p' = snd (push_chunk utf8 (concat cs) p))"
  using assms
proof (induction cs arbitrary: p s ds bad p' s')
  case Nil
  then show ?case by (simp add: push_chunk_empty)
next
  case (Cons c cs)
  obtain fs p1 where 1: "push_chunk utf8 c p = (fs, p1)" by (cases "push_chunk utf8 c p")
  obtain d1 b1 s1 where 2: "run_frames parse step fs s = (d1, b1, s1)" by (cases "run_frames parse step fs s")
  have p1: "parser_ok p1" using push_chunk_ok [OF Cons.prems(1), of utf8 c] 1 by simp
  obtain gs p2 where 3: "push_chunk utf8 (concat cs) p1 = (gs, p2)" by (cases "push_chunk utf8 (concat cs) p1")
  have whole: "push_chunk utf8 (concat (c # cs)) p = (fs @ gs, p2)"
    using push_chunk_append [OF Cons.prems(1)] 1 3 by simp
  show ?case
  proof (cases b1)
    case (Some f)
    then show ?thesis using Cons.prems(2) 1 2 whole by (auto simp: run_frames_append)
  next
    case None
    obtain d2 b2 p3 s2 where 4: "run_chunks utf8 parse step cs p1 s1 = (d2, b2, p3, s2)" by (cases "run_chunks utf8 parse step cs p1 s1")
    from Cons.IH [OF p1 4] have "run_frames parse step gs s1 = (d2, b2, s2)" "b2 = None \<longrightarrow> p3 = p2" using 3 by simp_all
    then show ?thesis using Cons.prems(2) 1 2 4 None whole by (auto simp: run_frames_append)
  qed
qed

lemma parser_ok_new: "parser_ok sse_parser_new"
  by (simp add: parser_ok_def sse_parser_new_def)

lemma follow_stream_concat:
  "follow_stream utf8 parse step tail chunks ending s = follow_stream utf8 parse step tail [concat chunks] ending s"
proof -
  obtain d1 b1 p1 s1 where 1: "run_chunks utf8 parse step chunks sse_parser_new s = (d1, b1, p1, s1)"
    by (cases "run_chunks utf8 parse step chunks sse_parser_new s")
  obtain d2 b2 p2 s2 where 2: "run_chunks utf8 parse step [concat chunks] sse_parser_new s = (d2, b2, p2, s2)"
    by (cases "run_chunks utf8 parse step [concat chunks] sse_parser_new s")
  have "d1 = d2" "b1 = b2" "s1 = s2" "b1 = None \<longrightarrow> p1 = p2"
    using run_chunks_concat [OF parser_ok_new 1] run_chunks_concat [OF parser_ok_new 2] by auto
  then show ?thesis using 1 2 by (cases b1) (auto simp: follow_stream_def simp del: run_chunks.simps)
qed

text \<open>C32: However the network cuts the bytes of an answer into chunks, in the middle of a line, of a
  character or of the \<open>[DONE]\<close> marker, both clients send the same deltas and return the same response or error as for
  the same bytes in one piece.\<close>

theorem stream_chunking_irrelevant:
  fixes utf8 :: "byte list \<Rightarrow> string"
  shows "anthropic_complete_stream utf8 parse (Streaming chunks ending) = anthropic_complete_stream utf8 parse (Streaming [concat chunks] ending)
    \<and> chat_complete_stream utf8 parse (Streaming chunks ending) = chat_complete_stream utf8 parse (Streaming [concat chunks] ending)"
  unfolding anthropic_complete_stream_def chat_complete_stream_def open_stream_def stream_reply.case sum.case prod.case
  using follow_stream_concat [of utf8 parse "anthropic_frame parse" "anthropic_frame parse" chunks ending anthropic_stream_new]
    follow_stream_concat [of utf8 parse chat_frame chat_trailing_frame chunks ending chat_stream_new] by simp


section \<open>What the deltas tell a listener\<close>

text \<open>A listener that sees only the deltas: the text and the reasoning so far, the tool calls that are
  open, the last one first, and the finished ones.\<close>

record delta_view =
  dv_text :: string
  dv_reasoning :: string
  dv_open :: "pending_call list"
  dv_closed :: "assistant_block list"

definition delta_view_new :: delta_view where
  "delta_view_new = \<lparr>dv_text = [], dv_reasoning = [], dv_open = [], dv_closed = []\<rparr>"

fun extend_args :: "string \<Rightarrow> string \<Rightarrow> pending_call list \<Rightarrow> pending_call list" where
  "extend_args i a [] = []"
| "extend_args i a (c # cs) = (if pc_id c = i then c\<lparr>pc_args := pc_args c @ a\<rparr> # cs else c # extend_args i a cs)"

fun take_call :: "string \<Rightarrow> pending_call list \<Rightarrow> pending_call option \<times> pending_call list" where
  "take_call i [] = (None, [])"
| "take_call i (c # cs) = (if pc_id c = i then (Some c, cs) else (let (x, cs') = take_call i cs in (x, c # cs')))"

fun listen :: "(string \<Rightarrow> json option) \<Rightarrow> stream_delta \<Rightarrow> delta_view \<Rightarrow> delta_view" where
  "listen parse (DText t) w = w\<lparr>dv_text := dv_text w @ t\<rparr>"
| "listen parse (DReasoning t) w = w\<lparr>dv_reasoning := dv_reasoning w @ t\<rparr>"
| "listen parse (DToolUseStart i n) w = w\<lparr>dv_open := \<lparr>pc_id = i, pc_name = n, pc_args = []\<rparr> # dv_open w\<rparr>"
| "listen parse (DToolArgsDelta i a) w = w\<lparr>dv_open := extend_args i a (dv_open w)\<rparr>"
| "listen parse (DToolUseEnd i) w =
     (case take_call i (dv_open w) of
        (Some c, cs) \<Rightarrow> w\<lparr>dv_open := cs, dv_closed := dv_closed w @ [AToolUse (pc_id c) (pc_name c) (parsed_args parse (pc_args c))]\<rparr>
      | (None, _) \<Rightarrow> w)"

definition heard :: "(string \<Rightarrow> json option) \<Rightarrow> stream_delta list \<Rightarrow> delta_view" where
  "heard parse ds = fold (listen parse) ds delta_view_new"

definition heard_content :: "delta_view \<Rightarrow> assistant_block list" where
  "heard_content w = (if dv_text w = [] then [] else [AText (dv_text w)]) @ dv_closed w"

text \<open>A client whose frames keep a listener in step with its state.\<close>

locale frame_client =
  fixes parse :: "string \<Rightarrow> json option"
    and step :: "json \<Rightarrow> 's \<Rightarrow> stream_delta list \<times> 's"
    and tells :: "delta_view \<Rightarrow> 's \<Rightarrow> bool"
  assumes step_tells: "tells w s \<Longrightarrow> step v s = (ds, s') \<Longrightarrow> tells (fold (listen parse) ds w) s'"
begin

lemma frames_tell: "run_frames parse step fs s = (ds, bad, s') \<Longrightarrow> tells w s \<Longrightarrow> tells (fold (listen parse) ds w) s'"
proof (induction fs arbitrary: s w ds)
  case (Cons f fs)
  show ?case
  proof (cases "parse f")
    case (Some v)
    obtain d1 s1 where 1: "step v s = (d1, s1)" by (cases "step v s")
    obtain d2 b2 s2 where 2: "run_frames parse step fs s1 = (d2, b2, s2)" by (cases "run_frames parse step fs s1")
    have eq: "ds = d1 @ d2" "b2 = bad" "s2 = s'" using Cons.prems(1) Some 1 2 by simp_all
    have "tells (fold (listen parse) d1 w) s1" using step_tells [OF Cons.prems(2) 1] .
    then show ?thesis using Cons.IH [of s1 d2 "fold (listen parse) d1 w"] 2 eq by simp
  qed (use Cons.prems in simp)
qed simp

lemma chunks_tell: "run_chunks utf8 parse step cs p s = (ds, bad, p', s') \<Longrightarrow> tells w s \<Longrightarrow> tells (fold (listen parse) ds w) s'"
proof (induction cs arbitrary: p s w ds)
  case (Cons c cs)
  obtain fs p1 where 1: "push_chunk utf8 c p = (fs, p1)" by (cases "push_chunk utf8 c p")
  obtain d1 b1 s1 where 2: "run_frames parse step fs s = (d1, b1, s1)" by (cases "run_frames parse step fs s")
  have t: "tells (fold (listen parse) d1 w) s1" using frames_tell [OF 2 Cons.prems(2)] .
  show ?case
  proof (cases b1)
    case None
    obtain d2 b2 p2 s2 where 3: "run_chunks utf8 parse step cs p1 s1 = (d2, b2, p2, s2)"
      by (cases "run_chunks utf8 parse step cs p1 s1")
    have "ds = d1 @ d2" "b2 = bad" "p2 = p'" "s2 = s'" using Cons.prems(1) 1 2 3 None by simp_all
    then show ?thesis using Cons.IH [of p1 s1 d2 "fold (listen parse) d1 w"] 3 t by simp
  qed (use Cons.prems(1) 1 2 t in auto)
qed simp

end

text \<open>A client with its frames and the frames after the last line end.\<close>

locale stream_client = frame_client parse step tells + trailing: frame_client parse tail tells
  for parse :: "string \<Rightarrow> json option" and step tail :: "json \<Rightarrow> 's \<Rightarrow> stream_delta list \<times> 's" and tells +
  fixes start :: 's
  assumes start_tells: "tells delta_view_new start"
begin

lemma stream_tells:
  assumes "follow_stream utf8 parse step tail chunks ending start = (ds, Inr (seen, s))"
  shows "tells (heard parse ds) s"
proof -
  obtain d1 b1 p1 s1 where 1: "run_chunks utf8 parse step chunks sse_parser_new start = (d1, b1, p1, s1)"
    by (cases "run_chunks utf8 parse step chunks sse_parser_new start")
  obtain fs p2 where 2: "sse_finish utf8 p1 = (fs, p2)" by (cases "sse_finish utf8 p1")
  obtain d2 b2 s2 where 3: "run_frames parse tail fs s1 = (d2, b2, s2)" by (cases "run_frames parse tail fs s1")
  have "ds = d1 @ d2" "s2 = s"
    using assms 1 2 3 by (auto simp: follow_stream_def split: option.splits stream_end.splits)
  then show ?thesis using trailing.frames_tell [OF 3] chunks_tell [OF 1 start_tells] by (simp add: heard_def)
qed

end

definition anthropic_tells :: "delta_view \<Rightarrow> anthropic_stream \<Rightarrow> bool" where
  "anthropic_tells w s \<longleftrightarrow> dv_text w = as_assembled s \<and> dv_reasoning w = as_thinking s \<and> dv_closed w = as_blocks s
     \<and> (as_block_type s = Some ''tool_use'' \<longrightarrow>
          (\<exists>cs. dv_open w = \<lparr>pc_id = as_tool_id s, pc_name = as_tool_name s, pc_args = as_tool_args s\<rparr> # cs))"

interpretation anthropic: stream_client parse "anthropic_frame parse" "anthropic_frame parse" anthropic_tells anthropic_stream_new
  for parse
proof unfold_locales
  have tool: "anthropic_tells w s \<Longrightarrow> process_tool_use_frame parse v s = (ds, s') \<Longrightarrow> anthropic_tells (fold (listen parse) ds w) s'" for w s v ds s'
    by (auto simp: process_tool_use_frame_def anthropic_tells_def Let_def split: option.splits if_splits)
  show "anthropic_tells w s \<Longrightarrow> anthropic_frame parse v s = (ds, s') \<Longrightarrow> anthropic_tells (fold (listen parse) ds w) s'" for w s v ds s'
  proof -
    assume t: "anthropic_tells w s" and f: "anthropic_frame parse v s = (ds, s')"
    define s0 where "s0 = (if str_at [''type''] v = Some ''message_stop'' then s\<lparr>as_message_stop := True\<rparr> else s)"
    define s1 where "s1 = (case extract_delta_content v of Some t \<Rightarrow> s0\<lparr>as_assembled := as_assembled s0 @ t\<rparr> | None \<Rightarrow> s0)"
    define s2 where "s2 = (case extract_delta_thinking v of Some t \<Rightarrow> s1\<lparr>as_thinking := as_thinking s1 @ t\<rparr> | None \<Rightarrow> s1)"
    define d1 where "d1 = (case extract_delta_content v of Some t \<Rightarrow> [DText t] | None \<Rightarrow> [])"
    define d2 where "d2 = (case extract_delta_thinking v of Some t \<Rightarrow> [DReasoning t] | None \<Rightarrow> [])"
    obtain d3 s3 where p: "process_tool_use_frame parse v s2 = (d3, s3)" by (cases "process_tool_use_frame parse v s2")
    have eq: "ds = d1 @ d2 @ d3" "s' = s3"
      using f p by (auto simp: anthropic_frame_def s0_def s1_def s2_def d1_def d2_def Let_def split: option.splits if_splits)
    have "anthropic_tells w s0" using t by (simp add: s0_def anthropic_tells_def)
    then have "anthropic_tells (fold (listen parse) d1 w) s1" by (auto simp: s1_def d1_def anthropic_tells_def split: option.splits)
    then have "anthropic_tells (fold (listen parse) d2 (fold (listen parse) d1 w)) s2"
      by (auto simp: s2_def d2_def anthropic_tells_def split: option.splits)
    then show ?thesis using tool [OF _ p] eq by simp
  qed
  show "anthropic_tells delta_view_new anthropic_stream_new"
    by (simp add: anthropic_tells_def delta_view_new_def anthropic_stream_new_def)
qed


text \<open>Chat completions: the calls are told by their ids, so the listener follows as long as the ids
  differ.\<close>

abbreviation call_ids :: "pending_call list \<Rightarrow> string list" where
  "call_ids cs \<equiv> map pc_id cs"

definition chat_tells :: "delta_view \<Rightarrow> chat_stream \<Rightarrow> bool" where
  "chat_tells w s \<longleftrightarrow> dv_text w = cs_assembled s \<and> dv_closed w = []
     \<and> (distinct (call_ids (cs_pending s)) \<longrightarrow> dv_open w = rev (cs_pending s))"

lemma extend_args_distinct:
  "distinct (call_ids cs) \<Longrightarrow>
   extend_args i a cs = map (\<lambda>c. if pc_id c = i then c\<lparr>pc_args := pc_args c @ a\<rparr> else c) cs"
  by (induction cs) (auto simp: image_iff intro!: map_idI [symmetric])

lemma extend_args_nth:
  assumes "distinct (call_ids cs)" "k < length cs"
  shows "extend_args (pc_id (cs ! k)) a (rev cs) = rev (cs[k := (cs ! k)\<lparr>pc_args := pc_args (cs ! k) @ a\<rparr>])"
proof -
  let ?u = "\<lambda>c. if pc_id c = pc_id (cs ! k) then c\<lparr>pc_args := pc_args c @ a\<rparr> else c"
  have "distinct (call_ids (rev cs))" using assms(1) by (simp flip: rev_map)
  then have "extend_args (pc_id (cs ! k)) a (rev cs) = rev (map ?u cs)" by (simp add: extend_args_distinct rev_map)
  moreover have "map ?u cs = cs[k := (cs ! k)\<lparr>pc_args := pc_args (cs ! k) @ a\<rparr>]"
  proof (rule nth_equalityI)
    fix j assume j: "j < length (map ?u cs)"
    have "pc_id (cs ! j) = pc_id (cs ! k) \<longleftrightarrow> j = k"
      using assms j nth_eq_iff_index_eq [of "call_ids cs" j k] by simp
    then show "map ?u cs ! j = cs[k := (cs ! k)\<lparr>pc_args := pc_args (cs ! k) @ a\<rparr>] ! j"
      using j assms(2) by (simp add: nth_list_update)
  qed simp
  ultimately show ?thesis by simp
qed

lemma call_ids_update: "call_ids (cs[k := (cs ! k)\<lparr>pc_args := x\<rparr>]) = call_ids cs"
  by (cases "k < length cs") (simp_all add: map_update list_update_same_conv list_update_beyond not_less)

lemma replicate_one: "distinct (replicate n x) \<Longrightarrow> n = 0 \<or> n = 1"
  by (cases n) (auto split: if_splits)

lemma chat_tool_delta_step:
  assumes "chat_tool_delta t ps = (ds, ps')" "distinct (call_ids ps')" "dv_open w = rev ps"
  shows "fold (listen parse) ds w = w\<lparr>dv_open := rev ps'\<rparr>" and "distinct (call_ids ps)"
proof -
  let ?new = "grow_calls t ps"
  have ids: "call_ids ps' = call_ids (ps @ ?new)"
    using assms(1) call_ids_update [of "ps @ ?new" "td_index t"]
    by (auto simp: chat_tool_delta_def Let_def split: option.splits)
  then have d: "distinct (call_ids (ps @ ?new))" using assms(2) by simp
  then show "distinct (call_ids ps)" by simp
  have "?new = [] \<or> ?new = [\<lparr>pc_id = or_default [] (td_id t), pc_name = or_default [] (td_name t), pc_args = []\<rparr>]"
    using d replicate_one [of "Suc (td_index t) - length ps" "or_default [] (td_id t)"] by (auto simp: grow_calls_def)
  then have opened: "fold (listen parse) (map (\<lambda>c. DToolUseStart (pc_id c) (pc_name c)) ?new) w = w\<lparr>dv_open := rev (ps @ ?new)\<rparr>"
    using assms(3) by (cases w) auto
  have "td_index t < length (ps @ ?new)" by (simp add: grow_calls_def)
  from extend_args_nth [OF d this]
  show "fold (listen parse) ds w = w\<lparr>dv_open := rev ps'\<rparr>"
    using assms(1) opened by (auto simp: chat_tool_delta_def Let_def split: option.splits)
qed

lemma chat_tool_deltas_step:
  "chat_tool_deltas ts ps = (ds, ps') \<Longrightarrow> distinct (call_ids ps') \<Longrightarrow>
   distinct (call_ids ps) \<and> (dv_open w = rev ps \<longrightarrow> fold (listen parse) ds w = w\<lparr>dv_open := rev ps'\<rparr>)"
proof (induction ts arbitrary: ps ds w)
  case Nil
  then show ?case by (cases w) auto
next
  case (Cons t ts)
  obtain d1 ps1 where 1: "chat_tool_delta t ps = (d1, ps1)" by (cases "chat_tool_delta t ps")
  obtain d2 where 2: "chat_tool_deltas ts ps1 = (d2, ps')" "ds = d1 @ d2"
    using Cons.prems(1) 1 by (auto simp: case_prod_beta Let_def prod_eq_iff)
  have d: "distinct (call_ids ps1)" using Cons.IH [OF 2(1) Cons.prems(2)] by blast
  show ?case
  proof (intro conjI impI)
    show "distinct (call_ids ps)" using chat_tool_delta_step(2) [OF 1 d, of "\<lparr>dv_text = [], dv_reasoning = [], dv_open = rev ps, dv_closed = []\<rparr>"] by simp
    assume "dv_open w = rev ps"
    from chat_tool_delta_step(1) [OF 1 d this] have "fold (listen parse) d1 w = w\<lparr>dv_open := rev ps1\<rparr>" .
    then show "fold (listen parse) ds w = w\<lparr>dv_open := rev ps'\<rparr>"
      using Cons.IH [OF 2(1) Cons.prems(2), of "w\<lparr>dv_open := rev ps1\<rparr>"] 2(2) by simp
  qed
qed

lemma listen_tools_keep:
  "\<forall>d \<in> set ds. case d of DToolUseStart _ _ \<Rightarrow> True | DToolArgsDelta _ _ \<Rightarrow> True | _ \<Rightarrow> False \<Longrightarrow>
   dv_text (fold (listen parse) ds w) = dv_text w \<and> dv_closed (fold (listen parse) ds w) = dv_closed w"
  by (induction ds arbitrary: w) (auto split: stream_delta.splits)

lemma chat_tool_deltas_kind:
  "chat_tool_deltas ts ps = (ds, ps') \<Longrightarrow> \<forall>d \<in> set ds. case d of DToolUseStart _ _ \<Rightarrow> True | DToolArgsDelta _ _ \<Rightarrow> True | _ \<Rightarrow> False"
proof (induction ts arbitrary: ps ds)
  case (Cons t ts)
  obtain d1 ps1 where 1: "chat_tool_delta t ps = (d1, ps1)" by (cases "chat_tool_delta t ps")
  have "\<forall>d \<in> set d1. case d of DToolUseStart _ _ \<Rightarrow> True | DToolArgsDelta _ _ \<Rightarrow> True | _ \<Rightarrow> False"
    using 1 by (auto simp: chat_tool_delta_def Let_def split: option.splits)
  then show ?case using Cons 1 by (fastforce simp: case_prod_beta Let_def prod_eq_iff)
qed simp

interpretation chat: stream_client parse chat_frame chat_trailing_frame chat_tells chat_stream_new for parse
proof unfold_locales
  have texts: "chat_tells w s \<Longrightarrow> chat_text_frame v s = (ds, s') \<Longrightarrow> chat_tells (fold (listen parse) ds w) s' \<and> cs_pending s' = cs_pending s" for w s v ds s'
    by (auto simp: chat_text_frame_def chat_tells_def Let_def split: option.splits)
  have usage: "chat_tells w (chat_usage_frame v s) = chat_tells w s" for w v s
    by (simp add: chat_tells_def chat_usage_frame_def)
  show "chat_tells w s \<Longrightarrow> chat_trailing_frame v s = (ds, s') \<Longrightarrow> chat_tells (fold (listen parse) ds w) s'" for w s v ds s'
    using texts usage by (auto simp: chat_trailing_frame_def Let_def split: prod.splits)
  show "chat_tells w s \<Longrightarrow> chat_frame v s = (ds, s') \<Longrightarrow> chat_tells (fold (listen parse) ds w) s'" for w s v ds s'
  proof -
    assume t: "chat_tells w s" and f: "chat_frame v s = (ds, s')"
    obtain d1 s1 where 1: "chat_text_frame v s = (d1, s1)" by (cases "chat_text_frame v s")
    obtain d2 ps where 2: "chat_tool_deltas (extract_tool_call_deltas v) (cs_pending s1) = (d2, ps)"
      by (cases "chat_tool_deltas (extract_tool_call_deltas v) (cs_pending s1)")
    let ?w = "fold (listen parse) d1 w"
    have t1: "chat_tells ?w s1" using texts [OF t 1] by simp
    have eq: "ds = d1 @ d2" "cs_pending s' = ps" "cs_assembled s' = cs_assembled s1"
      using f 1 2 by (auto simp: chat_frame_def chat_usage_frame_def Let_def)
    have "dv_text (fold (listen parse) d2 ?w) = cs_assembled s1" "dv_closed (fold (listen parse) d2 ?w) = []"
      using listen_tools_keep [OF chat_tool_deltas_kind [OF 2], of parse ?w] t1 by (simp_all add: chat_tells_def)
    moreover have "dv_open (fold (listen parse) d2 ?w) = rev ps" if "distinct (call_ids ps)"
      using chat_tool_deltas_step [OF 2 that, of ?w parse] t1 by (auto simp: chat_tells_def)
    ultimately show ?thesis by (simp add: chat_tells_def eq)
  qed
  show "chat_tells delta_view_new chat_stream_new"
    by (simp add: chat_tells_def delta_view_new_def chat_stream_new_def)
qed


lemma take_call_last: "pc_id c \<notin> set (call_ids cs) \<Longrightarrow> take_call (pc_id c) (cs @ [c]) = (Some c, cs)"
  by (induction cs) auto

abbreviation finished_call :: "(string \<Rightarrow> json option) \<Rightarrow> pending_call \<Rightarrow> assistant_block" where
  "finished_call parse c \<equiv> AToolUse (pc_id c) (pc_name c) (parsed_args parse (pc_args c))"

lemma listen_ends:
  "distinct (call_ids ps) \<Longrightarrow> dv_open w = rev ps \<Longrightarrow>
   fold (listen parse) (map (\<lambda>c. DToolUseEnd (pc_id c)) ps) w
     = w\<lparr>dv_open := [], dv_closed := dv_closed w @ map (finished_call parse) ps\<rparr>"
proof (induction ps arbitrary: w)
  case (Cons p ps)
  have "take_call (pc_id p) (rev ps @ [p]) = (Some p, rev ps)" using Cons.prems(1) by (intro take_call_last) auto
  then have "listen parse (DToolUseEnd (pc_id p)) w = w\<lparr>dv_open := rev ps, dv_closed := dv_closed w @ [finished_call parse p]\<rparr>"
    using Cons.prems(2) by simp
  then show ?case using Cons.IH [of "w\<lparr>dv_open := rev ps, dv_closed := dv_closed w @ [finished_call parse p]\<rparr>"] Cons.prems(1)
    by simp
qed simp

lemma tool_uses_finished: "map fst (tool_uses (map (finished_call parse) ps)) = call_ids ps"
  by (induction ps) auto

text \<open>C33: Whoever listens to the deltas of an Anthropic answer and puts text, reasoning, tool call names and
  argument fragments together has, when the answer succeeds, exactly the blocks and the reasoning the turn goes on with.\<close>

theorem anthropic_deltas_tell_response:
  assumes "anthropic_complete_stream utf8 parse reply = (ds, Inr r)"
  shows "heard_content (heard parse ds) = mr_content r \<and> nonempty (Some (dv_reasoning (heard parse ds))) = mr_reasoning r"
proof -
  obtain chunks ending seen s where
    f: "follow_stream utf8 parse (anthropic_frame parse) (anthropic_frame parse) chunks ending anthropic_stream_new = (ds, Inr (seen, s))"
    and r: "mr_content r = (if as_assembled s = [] then [] else [AText (as_assembled s)]) @ as_blocks s"
      "mr_reasoning r = nonempty (Some (as_thinking s))"
    using assms by (auto simp: anthropic_complete_stream_def Let_def split: sum.splits prod.splits if_splits)
  have "anthropic_tells (heard parse ds) s" using anthropic.stream_tells [OF f] .
  then show ?thesis by (simp add: r heard_content_def anthropic_tells_def)
qed

text \<open>C34: The same of a chat completion in which no two tool calls have the same id.\<close>

theorem chat_deltas_tell_response:
  assumes "chat_complete_stream utf8 parse reply = (ds, Inr r)" and "distinct (map fst (tool_uses (mr_content r)))"
  shows "heard_content (heard parse ds) = mr_content r"
proof -
  obtain chunks ending d0 s where
    f: "follow_stream utf8 parse chat_frame chat_trailing_frame chunks ending chat_stream_new = (d0, Inr (True, s))"
    and r: "mr_content r = (if cs_assembled s = [] then [] else [AText (cs_assembled s)]) @ map (finished_call parse) (cs_pending s)"
    and ds: "ds = d0 @ map (\<lambda>c. DToolUseEnd (pc_id c)) (cs_pending s)"
    using assms(1) by (auto simp: chat_complete_stream_def Let_def split: sum.splits prod.splits if_splits)
  have t: "chat_tells (heard parse d0) s" using chat.stream_tells [OF f] .
  have d: "distinct (call_ids (cs_pending s))"
    using assms(2) tool_uses_finished [of parse "cs_pending s"] by (auto simp: r split: if_splits)
  have "heard parse ds = (heard parse d0)\<lparr>dv_open := [], dv_closed := dv_closed (heard parse d0) @ map (finished_call parse) (cs_pending s)\<rparr>"
    using listen_ends [OF d, of "heard parse d0" parse] t d by (simp add: ds heard_def chat_tells_def)
  then show ?thesis using t by (simp add: r heard_content_def chat_tells_def)
qed

section \<open>Sample streams\<close>

text \<open>Frames named by one letter, so that a stream is short: \<open>parse\<close> looks the letter up.\<close>

definition ascii :: "byte list \<Rightarrow> string" where
  "ascii bs = map (\<lambda>b. char_of (unat b)) bs"

definition bytes :: "string \<Rightarrow> byte list" where
  "bytes s = map of_char s"

definition frame_line :: "string \<Rightarrow> byte list" where
  "frame_line s = bytes (''data:'' @ s @ newline)"

definition typed :: "string \<Rightarrow> (string \<times> json) list \<Rightarrow> json" where
  "typed ty kvs = JObject ((''type'', JString ty) # kvs)"

definition anthropic_frames :: "string \<Rightarrow> json option" where
  "anthropic_frames = map_of
     [(''t'', typed ''content_block_delta'' [(''delta'', JObject [(''text'', JString ''hi'')])]),
      (''s'', typed ''content_block_start'' [(''content_block'', JObject [(''type'', JString ''tool_use''), (''id'', JString ''c1''), (''name'', JString ''Read'')])]),
      (''a'', typed ''content_block_delta'' [(''delta'', JObject [(''partial_json'', JString ''{'')])]),
      (''b'', typed ''content_block_delta'' [(''delta'', JObject [(''partial_json'', JString ''}'')])]),
      (''e'', typed ''content_block_stop'' []), (''m'', typed ''message_stop'' []), (''{}'', JObject [])]"

definition chat_choice :: "(string \<times> json) list \<Rightarrow> json" where
  "chat_choice kvs = JObject [(''choices'', JArray [JObject [(''delta'', JObject kvs)]])]"

definition chat_call_delta :: "nat \<Rightarrow> string \<Rightarrow> string \<Rightarrow> json" where
  "chat_call_delta k i a = chat_choice [(''tool_calls'', JArray [JObject
     [(''index'', JNumber (PosInt k)), (''id'', JString i), (''function'', JObject [(''name'', JString ''Read''), (''arguments'', JString a)])]])]"

definition chat_frames :: "string \<Rightarrow> json option" where
  "chat_frames = map_of
     [(''t'', chat_choice [(''content'', JString ''hi'')]), (''a'', chat_call_delta 0 ''c1'' ''{''), (''b'', chat_call_delta 0 ''c1'' ''}''),
      (''g'', chat_call_delta 1 ''c2'' ''{}''), (''{}'', JObject [])]"

definition sample_stream :: "string list \<Rightarrow> stream_reply" where
  "sample_stream fs = Streaming (map frame_line fs) Eof"

theorem anthropic_deltas_tell_response_witness:
  "(case anthropic_complete_stream ascii anthropic_frames (sample_stream [''t'', ''s'', ''a'', ''b'', ''e'', ''m'']) of
      (ds, Inr r) \<Rightarrow> heard_content (heard anthropic_frames ds) = [AText ''hi'', AToolUse ''c1'' ''Read'' (JObject [])]
    | _ \<Rightarrow> False)"
proof -
  let ?run = "anthropic_complete_stream ascii anthropic_frames (sample_stream [''t'', ''s'', ''a'', ''b'', ''e'', ''m''])"
  have "map_sum id mr_content (snd ?run) = Inr [AText ''hi'', AToolUse ''c1'' ''Read'' (JObject [])]" by code_simp
  then obtain ds r where run: "?run = (ds, Inr r)" "mr_content r = [AText ''hi'', AToolUse ''c1'' ''Read'' (JObject [])]"
    by (cases ?run; cases "snd ?run") auto
  then show ?thesis using anthropic_deltas_tell_response [OF run(1)] by simp
qed

theorem chat_deltas_tell_response_witness:
  "(case chat_complete_stream ascii chat_frames (sample_stream [''t'', ''a'', ''b'', ''[DONE]'']) of
      (ds, Inr r) \<Rightarrow> heard_content (heard chat_frames ds) = [AText ''hi'', AToolUse ''c1'' ''Read'' (JObject [])]
    | _ \<Rightarrow> False)"
proof -
  let ?run = "chat_complete_stream ascii chat_frames (sample_stream [''t'', ''a'', ''b'', ''[DONE]''])"
  have "map_sum id mr_content (snd ?run) = Inr [AText ''hi'', AToolUse ''c1'' ''Read'' (JObject [])]" by code_simp
  then obtain ds r where run: "?run = (ds, Inr r)" "mr_content r = [AText ''hi'', AToolUse ''c1'' ''Read'' (JObject [])]"
    by (cases ?run; cases "snd ?run") auto
  then show ?thesis using chat_deltas_tell_response [OF run(1)] by simp
qed

text \<open>A chat completion that counts its calls from 1 gives two calls with one id, the first without
  arguments; and text that follows a tool call of an Anthropic answer ends up in front of it.\<close>

theorem skipped_index_doubles_call:
  "map_sum id mr_content (snd (chat_complete_stream ascii chat_frames (sample_stream [''g'', ''[DONE]''])))
     = Inr [AToolUse ''c2'' ''Read'' (JObject []), AToolUse ''c2'' ''Read'' (JObject [])]"
  by code_simp

theorem later_text_moves_to_front:
  "map_sum id mr_content (snd (anthropic_complete_stream ascii anthropic_frames (sample_stream [''s'', ''a'', ''b'', ''e'', ''t'', ''m''])))
     = Inr [AText ''hi'', AToolUse ''c1'' ''Read'' (JObject [])]"
  by code_simp

end
