(* ===== verification/ModelRouting.thy ===== *)
theory ModelRouting
  imports ModelClients
begin

text \<open>
  Which model serves a request: the registry built from the configuration
  (\<open>openjax-core/src/model/registry.rs\<close>), the client built from it (\<open>model/factory.rs\<close> with the
  constructors of the two service clients), the router over stages (\<open>model/router.rs\<close>) and the
  clients without a service (\<open>model/echo.rs\<close>, \<open>model/missing_config.rs\<close>). A \<open>HashMap\<close> is its list of
  entries in iteration order; environment variables are an argument.
\<close>

section \<open>Configuration\<close>

record capability_flags =
  cf_stream :: bool
  cf_reasoning :: bool
  cf_tool_call :: bool
  cf_json_mode :: bool

record provider_model_config =
  pm_provider :: "string option"
  pm_protocol :: "string option"
  pm_model :: "string option"
  pm_base_url :: "string option"
  pm_api_key :: "string option"
  pm_api_key_env :: "string option"
  pm_request_profile :: "string option"
  pm_anthropic_version :: "string option"
  pm_thinking_budget_tokens :: "nat option"
  pm_supports_stream :: "bool option"
  pm_supports_reasoning :: "bool option"
  pm_supports_tool_call :: "bool option"
  pm_supports_json_mode :: "bool option"
  pm_context_window_size :: "nat option"

record model_routing_config =
  mc_planner :: "string option"
  mc_final_writer :: "string option"
  mc_tool_reasoning :: "string option"

record model_config =
  mo_backend :: "string option"
  mo_api_key :: "string option"
  mo_base_url :: "string option"
  mo_model :: "string option"
  mo_models :: "(string \<times> provider_model_config) list"
  mo_routing :: "model_routing_config option"

section \<open>Registry\<close>

definition DEFAULT_MODEL_ID :: string where "DEFAULT_MODEL_ID = ''default''"

record registered_model =
  rm_id :: string
  rm_provider :: string
  rm_protocol :: string
  rm_model :: string
  rm_request_profile :: "string option"
  rm_base_url :: "string option"
  rm_api_key :: "string option"
  rm_anthropic_version :: "string option"
  rm_thinking_budget_tokens :: "nat option"
  rm_capabilities :: capability_flags

datatype model_stage = PlannerStage | FinalWriter | ToolReasoning

record routing_plan =
  rt_planner :: string
  rt_final_writer :: string
  rt_tool_reasoning :: string

record model_registry =
  mg_models :: "(string \<times> registered_model) list"
  mg_routing :: routing_plan
  mg_used_legacy_bridge :: bool
  mg_has_legacy_fields :: bool

definition infer_protocol :: "string \<Rightarrow> string" where
  "infer_protocol provider =
     (if provider \<in> {''anthropic'', ''glm'', ''kimi'', ''minimax''} then ''anthropic_messages'' else ''chat_completions'')"

definition default_model_name :: "string \<Rightarrow> string" where
  "default_model_name provider =
     (if provider = ''glm'' then ''GLM-4.7'' else if provider = ''anthropic'' then ''claude-sonnet-4-5''
      else if provider = ''minimax'' then ''MiniMax-M2.7'' else ''gpt-4.1-mini'')"

definition default_capabilities :: "string \<Rightarrow> capability_flags" where
  "default_capabilities protocol =
     \<lparr>cf_stream = True, cf_reasoning = (protocol = ''anthropic_messages''), cf_tool_call = False, cf_json_mode = False\<rparr>"

definition infer_request_profile :: "string \<Rightarrow> string \<Rightarrow> string option" where
  "infer_request_profile provider protocol =
     (if protocol = ''anthropic_messages'' \<or> str_contains provider ''anthropic'' then Some ''anthropic_default'' else None)"

definition normalize_model_entry ::
    "environment \<Rightarrow> string \<Rightarrow> provider_model_config \<Rightarrow> string option \<Rightarrow> registered_model" where
  "normalize_model_entry env i e inherited =
     (let provider = to_ascii_lowercase (or_default ''openai'' (pm_provider e));
          protocol = to_ascii_lowercase (or_default (infer_protocol provider) (pm_protocol e));
          env_key = Option.bind (pm_api_key_env e) (env_text env);
          caps = default_capabilities protocol
      in \<lparr>rm_id = i, rm_provider = provider, rm_protocol = protocol,
          rm_model = or_default (default_model_name provider) (pm_model e),
          rm_request_profile = first_some (pm_request_profile e) (infer_request_profile provider protocol),
          rm_base_url = pm_base_url e, rm_api_key = first_some env_key (first_some (pm_api_key e) inherited),
          rm_anthropic_version = pm_anthropic_version e, rm_thinking_budget_tokens = pm_thinking_budget_tokens e,
          rm_capabilities = \<lparr>cf_stream = or_default (cf_stream caps) (pm_supports_stream e),
            cf_reasoning = or_default (cf_reasoning caps) (pm_supports_reasoning e),
            cf_tool_call = or_default (cf_tool_call caps) (pm_supports_tool_call e),
            cf_json_mode = or_default (cf_json_mode caps) (pm_supports_json_mode e)\<rparr>\<rparr>)"

definition route_all :: "string \<Rightarrow> routing_plan" where
  "route_all i = \<lparr>rt_planner = i, rt_final_writer = i, rt_tool_reasoning = i\<rparr>"

definition registry_empty :: model_registry where
  "registry_empty = \<lparr>mg_models = [], mg_routing = route_all DEFAULT_MODEL_ID, mg_used_legacy_bridge = False, mg_has_legacy_fields = False\<rparr>"

definition registry_from_config :: "environment \<Rightarrow> model_config option \<Rightarrow> model_registry" where
  "registry_from_config env config = (case config of
     None \<Rightarrow> registry_empty
   | Some c \<Rightarrow>
       (let legacy = mo_backend c \<noteq> None \<or> mo_api_key c \<noteq> None \<or> mo_base_url c \<noteq> None \<or> mo_model c \<noteq> None
        in if mo_models c \<noteq> [] then
             (let models = map (\<lambda>(i, e). (i, normalize_model_entry env i e (mo_api_key c))) (mo_models c);
                  routing = or_default \<lparr>mc_planner = None, mc_final_writer = None, mc_tool_reasoning = None\<rparr> (mo_routing c);
                  planner = or_default (fst (hd models)) (mc_planner routing)
              in \<lparr>mg_models = models,
                  mg_routing = \<lparr>rt_planner = planner, rt_final_writer = or_default planner (mc_final_writer routing),
                                rt_tool_reasoning = or_default planner (mc_tool_reasoning routing)\<rparr>,
                  mg_used_legacy_bridge = legacy, mg_has_legacy_fields = legacy\<rparr>)
           else if legacy then
             (let backend = or_default ''openai'' (map_option to_ascii_lowercase (mo_backend c)); protocol = infer_protocol backend
              in \<lparr>mg_models = [(DEFAULT_MODEL_ID,
                    \<lparr>rm_id = DEFAULT_MODEL_ID, rm_provider = backend, rm_protocol = protocol,
                     rm_model = or_default (default_model_name backend) (mo_model c), rm_request_profile = None,
                     rm_base_url = mo_base_url c, rm_api_key = mo_api_key c, rm_anthropic_version = None,
                     rm_thinking_budget_tokens = None, rm_capabilities = default_capabilities protocol\<rparr>)],
                  mg_routing = route_all DEFAULT_MODEL_ID, mg_used_legacy_bridge = True, mg_has_legacy_fields = True\<rparr>)
           else registry_empty))"

section \<open>Clients of services\<close>

datatype service_protocol = AnthropicMessages | ChatCompletions chat_profile

record service_client =
  sc_model_id :: string
  sc_provider :: string
  sc_protocol :: service_protocol
  sc_api_key :: string
  sc_model :: string
  sc_endpoint :: string
  sc_anthropic_version :: "string option"
  sc_thinking :: "nat option"
  sc_backend_name :: string
  sc_capabilities :: capability_flags

definition trim_slashes :: "string \<Rightarrow> string" where
  "trim_slashes s = rev (dropWhile (\<lambda>c. c = CHR ''/'') (rev s))"

definition build_messages_endpoint :: "string \<Rightarrow> string" where
  "build_messages_endpoint base_url =
     (let n = trim_slashes base_url in if suffix ''/v1'' n then n @ ''/messages'' else n @ ''/v1/messages'')"

definition chat_endpoint :: "string \<Rightarrow> string" where
  "chat_endpoint base_url = trim_slashes base_url @ ''/chat/completions''"

definition DEFAULT_ANTHROPIC_VERSION :: string where "DEFAULT_ANTHROPIC_VERSION = ''2023-06-01''"

definition missing_key :: "string \<Rightarrow> string" where
  "missing_key provider = ''missing API key for provider '' @ [CHR 0x27] @ provider @ [CHR 0x27]"

definition anthropic_key_variable :: "string \<Rightarrow> string" where
  "anthropic_key_variable provider = (if provider = ''glm'' then ''OPENJAX_GLM_API_KEY'' else ''OPENJAX_ANTHROPIC_API_KEY'')"

definition anthropic_default_base_url :: "string \<Rightarrow> string" where
  "anthropic_default_base_url provider =
     (if provider = ''glm'' then ''https://open.bigmodel.cn/api/anthropic'' else ''https://api.anthropic.com/v1'')"

definition anthropic_from_registered :: "environment \<Rightarrow> registered_model \<Rightarrow> string + service_client" where
  "anthropic_from_registered env m = (case anthropic_profile_parse (rm_request_profile m) of
     Inl e \<Rightarrow> Inl e
   | Inr () \<Rightarrow>
       (case first_some (rm_api_key m) (env_text env (anthropic_key_variable (rm_provider m))) of
          None \<Rightarrow> Inl (missing_key (rm_provider m))
        | Some key \<Rightarrow>
            Inr \<lparr>sc_model_id = rm_id m, sc_provider = rm_provider m, sc_protocol = AnthropicMessages, sc_api_key = key,
                 sc_model = rm_model m,
                 sc_endpoint = build_messages_endpoint (or_default (anthropic_default_base_url (rm_provider m)) (rm_base_url m)),
                 sc_anthropic_version = Some (or_default DEFAULT_ANTHROPIC_VERSION (rm_anthropic_version m)),
                 sc_thinking = rm_thinking_budget_tokens m, sc_backend_name = ''anthropic-messages'',
                 sc_capabilities = rm_capabilities m\<rparr>))"

definition chat_from_registered :: "environment \<Rightarrow> registered_model \<Rightarrow> string + service_client" where
  "chat_from_registered env m = (case chat_profile_parse (rm_request_profile m) of
     Inl e \<Rightarrow> Inl e
   | Inr profile \<Rightarrow>
       (case first_some (rm_api_key m) (env_text env ''OPENAI_API_KEY'') of
          None \<Rightarrow> Inl (missing_key (rm_provider m))
        | Some key \<Rightarrow>
            Inr \<lparr>sc_model_id = rm_id m, sc_provider = rm_provider m, sc_protocol = ChatCompletions profile, sc_api_key = key,
                 sc_model = rm_model m,
                 sc_endpoint = chat_endpoint (or_default ''https://api.openai.com/v1'' (rm_base_url m)),
                 sc_anthropic_version = None, sc_thinking = None, sc_backend_name = ''chat-completions'',
                 sc_capabilities = rm_capabilities m\<rparr>))"

text \<open>\<open>build_adapter_for_registered_model\<close>: no adapter for a protocol it does not know.\<close>

definition build_adapter :: "environment \<Rightarrow> registered_model \<Rightarrow> string + service_client option" where
  "build_adapter env m =
     (if rm_protocol m = ''anthropic_messages'' then map_sum id Some (anthropic_from_registered env m)
      else if rm_protocol m = ''chat_completions'' then map_sum id Some (chat_from_registered env m)
      else Inr None)"

text \<open>Clients built from the environment alone: the names of the variables, the default model and
  address, the name of the backend.\<close>

record provider_defaults =
  pd_key :: string
  pd_model_variable :: string
  pd_url_variable :: string
  pd_model :: string
  pd_url :: string
  pd_backend :: string

definition before_dash :: "string \<Rightarrow> string" where
  "before_dash s = takeWhile (\<lambda>c. c \<noteq> CHR ''-'') s"

definition nonblank :: "string option \<Rightarrow> string option" where
  "nonblank x = (case x of Some v \<Rightarrow> if trim v = [] then None else Some v | None \<Rightarrow> None)"

definition env_thinking :: "environment \<Rightarrow> nat option" where
  "env_thinking env =
     (case Option.bind (env ''OPENJAX_THINKING_BUDGET_TOKENS'') parse_u64 of
        Some n \<Rightarrow> if 0 < n \<and> n < 2 ^ 32 then Some n else None | None \<Rightarrow> None)"

definition anthropic_from_provider :: "environment \<Rightarrow> provider_defaults \<Rightarrow> model_config option \<Rightarrow> service_client option" where
  "anthropic_from_provider env p config =
     map_option (\<lambda>key. \<lparr>sc_model_id = pd_backend p, sc_provider = before_dash (pd_backend p), sc_protocol = AnthropicMessages,
        sc_api_key = key,
        sc_model = or_default (pd_model p) (first_some (env_text env (pd_model_variable p)) (Option.bind config mo_model)),
        sc_endpoint = build_messages_endpoint (or_default (pd_url p)
           (first_some (env_text env (pd_url_variable p)) (nonblank (Option.bind config mo_base_url)))),
        sc_anthropic_version = Some (or_default DEFAULT_ANTHROPIC_VERSION (env_text env ''OPENJAX_ANTHROPIC_VERSION'')),
        sc_thinking = env_thinking env, sc_backend_name = pd_backend p,
        sc_capabilities = \<lparr>cf_stream = True, cf_reasoning = True, cf_tool_call = True, cf_json_mode = False\<rparr>\<rparr>)
       (first_some (env_text env (pd_key p)) (Option.bind config mo_api_key))"

definition chat_from_provider :: "environment \<Rightarrow> provider_defaults \<Rightarrow> model_config option \<Rightarrow> service_client option" where
  "chat_from_provider env p config =
     map_option (\<lambda>key. \<lparr>sc_model_id = pd_backend p, sc_provider = before_dash (pd_backend p), sc_protocol = ChatCompletions DefaultProfile,
        sc_api_key = key,
        sc_model = or_default (pd_model p) (first_some (env_text env (pd_model_variable p)) (Option.bind config mo_model)),
        sc_endpoint = chat_endpoint (or_default (pd_url p)
           (first_some (env_text env (pd_url_variable p)) (Option.bind config mo_base_url))),
        sc_anthropic_version = None, sc_thinking = None, sc_backend_name = pd_backend p,
        sc_capabilities = \<lparr>cf_stream = True, cf_reasoning = False, cf_tool_call = True, cf_json_mode = False\<rparr>\<rparr>)
       (first_some (env_text env (pd_key p)) (Option.bind config mo_api_key))"

definition minimax_defaults :: provider_defaults where
  "minimax_defaults = \<lparr>pd_key = ''OPENJAX_MINIMAX_API_KEY'', pd_model_variable = ''OPENJAX_MINIMAX_MODEL'',
     pd_url_variable = ''OPENJAX_MINIMAX_BASE_URL'', pd_model = ''MiniMax-M2.7'',
     pd_url = ''https://api.minimaxi.com/anthropic/v1'', pd_backend = ''minimax-anthropic-messages''\<rparr>"

definition anthropic_defaults :: provider_defaults where
  "anthropic_defaults = \<lparr>pd_key = ''OPENJAX_ANTHROPIC_API_KEY'', pd_model_variable = ''OPENJAX_ANTHROPIC_MODEL'',
     pd_url_variable = ''OPENJAX_ANTHROPIC_BASE_URL'', pd_model = ''claude-sonnet-4-5'',
     pd_url = ''https://api.anthropic.com/v1'', pd_backend = ''anthropic-messages''\<rparr>"

definition glm_defaults :: provider_defaults where
  "glm_defaults = \<lparr>pd_key = ''OPENJAX_GLM_API_KEY'', pd_model_variable = ''OPENJAX_GLM_MODEL'',
     pd_url_variable = ''OPENJAX_GLM_ANTHROPIC_BASE_URL'', pd_model = ''GLM-4.7'',
     pd_url = ''https://open.bigmodel.cn/api/anthropic'', pd_backend = ''glm-anthropic-messages''\<rparr>"

definition openai_defaults :: provider_defaults where
  "openai_defaults = \<lparr>pd_key = ''OPENAI_API_KEY'', pd_model_variable = ''OPENJAX_MODEL'',
     pd_url_variable = ''OPENAI_BASE_URL'', pd_model = ''gpt-4.1-mini'',
     pd_url = ''https://api.openai.com/v1'', pd_backend = ''openai-chat-completions''\<rparr>"

section \<open>The factory and the router\<close>

datatype model_client =
    EchoClient | MissingConfigClient string | DirectClient service_client
  | RouterClient "(string \<times> service_client) list" routing_plan

text \<open>The loop over the entries: the first that cannot be built ends it.\<close>

fun build_adapters :: "environment \<Rightarrow> registered_model list \<Rightarrow> string + service_client list" where
  "build_adapters env [] = Inr []"
| "build_adapters env (m # ms) =
     (case build_adapter env m of
        Inl e \<Rightarrow> Inl e
      | Inr None \<Rightarrow> build_adapters env ms
      | Inr (Some a) \<Rightarrow> map_sum id ((#) a) (build_adapters env ms))"

definition router_new :: "routing_plan \<Rightarrow> service_client list \<Rightarrow> model_client" where
  "router_new routing adapters = RouterClient (map (\<lambda>a. (sc_model_id a, a)) adapters) routing"

text \<open>\<open>no_credentials\<close> is the message shown when nothing is configured.\<close>

definition build_model_client_with_config :: "environment \<Rightarrow> string \<Rightarrow> model_config option \<Rightarrow> model_client" where
  "build_model_client_with_config env no_credentials config =
     (if (case Option.bind config mo_backend of Some b \<Rightarrow> to_ascii_lowercase b = ''echo'' | None \<Rightarrow> False) then EchoClient
      else
        (let registry = registry_from_config env config
         in case build_adapters env (map snd (mg_models registry)) of
              Inl e \<Rightarrow> MissingConfigClient e
            | Inr [] \<Rightarrow>
                (case first_some (anthropic_from_provider env minimax_defaults config)
                        (first_some (anthropic_from_provider env anthropic_defaults config)
                          (first_some (anthropic_from_provider env glm_defaults config)
                            (chat_from_provider env openai_defaults config))) of
                   Some c \<Rightarrow> DirectClient c
                 | None \<Rightarrow> MissingConfigClient no_credentials)
            | Inr (a # as) \<Rightarrow> router_new (mg_routing registry) (a # as)))"

definition route_for_stage :: "routing_plan \<Rightarrow> model_stage \<Rightarrow> string" where
  "route_for_stage r stage = (case stage of
     PlannerStage \<Rightarrow> rt_planner r | FinalWriter \<Rightarrow> rt_final_writer r | ToolReasoning \<Rightarrow> rt_tool_reasoning r)"

definition stage_as_str :: "model_stage \<Rightarrow> string" where
  "stage_as_str stage = (case stage of
     PlannerStage \<Rightarrow> ''planner'' | FinalWriter \<Rightarrow> ''final_writer'' | ToolReasoning \<Rightarrow> ''tool_reasoning'')"

text \<open>The adapter of the stage's model, or the error of the router; \<open>stream\<close> tells a streaming request.\<close>

definition routed_adapter ::
    "(string \<times> service_client) list \<Rightarrow> routing_plan \<Rightarrow> model_stage \<Rightarrow> bool \<Rightarrow> bool option \<Rightarrow> string + service_client" where
  "routed_adapter adapters routing stage stream require_reasoning =
     (let primary = route_for_stage routing stage
      in case map_of (rev adapters) primary of
           None \<Rightarrow> Inl (''no adapter found for routed model stage='' @ stage_as_str stage @ '' model_id='' @ primary)
         | Some a \<Rightarrow>
             if stream \<and> \<not> cf_stream (sc_capabilities a) then
               Inl (''routed model does not support streaming: stage='' @ stage_as_str stage @ '' model_id='' @ primary)
             else if \<not> stream \<and> require_reasoning = Some True \<and> \<not> cf_reasoning (sc_capabilities a) then
               Inl (''routed model does not support required reasoning capability: stage='' @ stage_as_str stage @ '' model_id='' @ primary)
             else Inr a)"

definition echo_response :: "message list \<Rightarrow> model_response" where
  "echo_response ms =
     \<lparr>mr_content = [AText (''[Echo fallback] '' @ user_text ms)], mr_reasoning = None, mr_usage = None, mr_stop_reason = Some EndTurn\<rparr>"

text \<open>What a request meets outside: decoding, parsing and printing of JSON, the built-in system prompt, the
  services, and the texts of errors.\<close>

datatype wire_request = AnthropicWire anthropic_request | ChatWire chat_request

record model_env =
  me_utf8 :: "byte list \<Rightarrow> string"
  me_parse :: "string \<Rightarrow> json option"
  me_print :: "json \<Rightarrow> string"
  me_default_prompt :: string
  me_stream :: "service_client \<Rightarrow> wire_request \<Rightarrow> stream_reply"
  me_send :: "service_client \<Rightarrow> wire_request \<Rightarrow> http_reply"
  me_error :: "client_error \<Rightarrow> string"

definition wire_request_of :: "model_env \<Rightarrow> service_client \<Rightarrow> model_request \<Rightarrow> bool \<Rightarrow> wire_request" where
  "wire_request_of env a rq stream = (case sc_protocol a of
     AnthropicMessages \<Rightarrow>
       AnthropicWire (anthropic_build_request (sc_model a) (me_default_prompt env) rq stream (thinking_budget (sc_thinking a) rq))
   | ChatCompletions profile \<Rightarrow>
       ChatWire (chat_build_request (me_print env) (sc_model a) (me_default_prompt env) profile rq stream))"

definition service_complete_stream ::
    "model_env \<Rightarrow> service_client \<Rightarrow> model_request \<Rightarrow> stream_delta list \<times> (string + model_response)" where
  "service_complete_stream env a rq =
     (let reply = me_stream env a (wire_request_of env a rq True);
          (ds, r) = (case sc_protocol a of
            AnthropicMessages \<Rightarrow> anthropic_complete_stream (me_utf8 env) (me_parse env) reply
          | ChatCompletions _ \<Rightarrow> chat_complete_stream (me_utf8 env) (me_parse env) reply)
      in (ds, map_sum (me_error env) id r))"

definition service_complete :: "model_env \<Rightarrow> service_client \<Rightarrow> model_request \<Rightarrow> string + model_response" where
  "service_complete env a rq =
     (let reply = me_send env a (wire_request_of env a rq False)
      in map_sum (me_error env) id (case sc_protocol a of
            AnthropicMessages \<Rightarrow> anthropic_complete (me_parse env) reply
          | ChatCompletions _ \<Rightarrow> chat_complete (me_parse env) reply))"

definition client_complete_stream ::
    "model_env \<Rightarrow> model_client \<Rightarrow> model_stage \<Rightarrow> model_request \<Rightarrow> stream_delta list \<times> (string + model_response)" where
  "client_complete_stream env client stage rq = (case client of
     EchoClient \<Rightarrow> ([DText (''[Echo fallback] '' @ user_text (rq_messages rq))], Inr (echo_response (rq_messages rq)))
   | MissingConfigClient reason \<Rightarrow> ([], Inl reason)
   | DirectClient a \<Rightarrow> service_complete_stream env a rq
   | RouterClient adapters routing \<Rightarrow>
       (case routed_adapter adapters routing stage True None of
          Inl e \<Rightarrow> ([], Inl e) | Inr a \<Rightarrow> service_complete_stream env a rq))"

definition client_complete ::
    "model_env \<Rightarrow> model_client \<Rightarrow> model_stage \<Rightarrow> bool option \<Rightarrow> model_request \<Rightarrow> string + model_response" where
  "client_complete env client stage require_reasoning rq = (case client of
     EchoClient \<Rightarrow> Inr (echo_response (rq_messages rq))
   | MissingConfigClient reason \<Rightarrow> Inl reason
   | DirectClient a \<Rightarrow> service_complete env a rq
   | RouterClient adapters routing \<Rightarrow>
       (case routed_adapter adapters routing stage False require_reasoning of
          Inl e \<Rightarrow> Inl e | Inr a \<Rightarrow> service_complete env a rq))"

section \<open>What a configuration leads to\<close>

text \<open>An entry can be used when its protocol is known, its profile is one of that protocol and a key is found for it.\<close>

definition usable :: "environment \<Rightarrow> registered_model \<Rightarrow> bool" where
  "usable env m \<longleftrightarrow> (\<exists>a. build_adapter env m = Inr (Some a))"

definition unknown_protocol :: "registered_model \<Rightarrow> bool" where
  "unknown_protocol m \<longleftrightarrow> rm_protocol m \<noteq> ''anthropic_messages'' \<and> rm_protocol m \<noteq> ''chat_completions''"

lemma anthropic_from_registered_id:
  "anthropic_from_registered env m = Inr a \<Longrightarrow> sc_model_id a = rm_id m \<and> sc_capabilities a = rm_capabilities m"
  by (auto simp: anthropic_from_registered_def split: sum.split_asm option.split_asm unit.split_asm)

lemma chat_from_registered_id:
  "chat_from_registered env m = Inr a \<Longrightarrow> sc_model_id a = rm_id m \<and> sc_capabilities a = rm_capabilities m"
  by (auto simp: chat_from_registered_def split: sum.split_asm option.split_asm)

lemma map_sum_Inr: "map_sum id f r = Inr y \<longleftrightarrow> (\<exists>x. r = Inr x \<and> y = f x)"
  by (cases r) auto

lemma build_adapter_cases:
  "rm_protocol m = ''anthropic_messages'' \<Longrightarrow> build_adapter env m = map_sum id Some (anthropic_from_registered env m)"
  "rm_protocol m = ''chat_completions'' \<Longrightarrow> build_adapter env m = map_sum id Some (chat_from_registered env m)"
  "unknown_protocol m \<Longrightarrow> build_adapter env m = Inr None"
  by (simp_all add: build_adapter_def unknown_protocol_def)

lemma protocol_cases:
  obtains "rm_protocol m = ''anthropic_messages''" | "rm_protocol m = ''chat_completions''" | "unknown_protocol m"
  unfolding unknown_protocol_def by blast

lemma build_adapter_id:
  assumes a: "build_adapter env m = Inr (Some a)"
  shows "sc_model_id a = rm_id m \<and> sc_capabilities a = rm_capabilities m"
proof (cases rule: protocol_cases [of m])
  case 1
  from a [unfolded build_adapter_cases(1) [OF 1] map_sum_Inr] show ?thesis
    using anthropic_from_registered_id by blast
next
  case 2
  from a [unfolded build_adapter_cases(2) [OF 2] map_sum_Inr] show ?thesis
    using chat_from_registered_id by blast
next
  case 3
  then show ?thesis using a build_adapter_cases(3) [OF 3, of env] by (metis option.distinct(1) sum.inject(2))
qed

lemma build_adapter_none: "build_adapter env m = Inr None \<longleftrightarrow> unknown_protocol m"
proof (cases rule: protocol_cases [of m])
  case 1
  show ?thesis unfolding build_adapter_cases(1) [OF 1] map_sum_Inr using 1 unknown_protocol_def by blast
next
  case 2
  show ?thesis unfolding build_adapter_cases(2) [OF 2] map_sum_Inr using 2 unknown_protocol_def by blast
next
  case 3
  then show ?thesis using build_adapter_cases(3) by blast
qed

lemma build_adapters_ok:
  "build_adapters env ms = Inr as \<longleftrightarrow>
     list_all (\<lambda>m. usable env m \<or> unknown_protocol m) ms
     \<and> as = List.map_filter (\<lambda>m. case build_adapter env m of Inr x \<Rightarrow> x | Inl _ \<Rightarrow> None) ms"
proof (induction ms arbitrary: as)
  case (Cons m ms)
  show ?case
  proof (cases "build_adapter env m")
    case (Inl e)
    then show ?thesis using build_adapter_none [of env m] by (simp add: usable_def)
  next
    case (Inr x)
    then show ?thesis
    proof (cases x)
      case None
      then show ?thesis using Inr Cons build_adapter_none [of env m] by (simp add: map_filter_simps)
    next
      case (Some a)
      then have u: "usable env m" using Inr by (simp add: usable_def)
      show ?thesis using Inr Some u Cons by (cases "build_adapters env ms") (auto simp: map_filter_simps)
    qed
  qed
qed (auto simp: map_filter_simps)

text \<open>The adapters of the entries, by the identifier of the entry.\<close>

lemma built_adapters_by_id:
  assumes d: "distinct (map rm_id ms)" and b: "build_adapters env ms = Inr as"
  shows "map_of (rev (map (\<lambda>a. (sc_model_id a, a)) as)) i = Some a
    \<longleftrightarrow> (\<exists>m \<in> set ms. rm_id m = i \<and> build_adapter env m = Inr (Some a))"
proof -
  have mem: "a \<in> set as \<longleftrightarrow> (\<exists>m \<in> set ms. build_adapter env m = Inr (Some a))" for a
  proof -
    have "as = List.map_filter (\<lambda>m. case build_adapter env m of Inr x \<Rightarrow> x | Inl _ \<Rightarrow> None) ms"
      using b by (simp add: build_adapters_ok)
    then have "a \<in> set as \<longleftrightarrow> (\<exists>m \<in> set ms. (case build_adapter env m of Inr x \<Rightarrow> x | Inl _ \<Rightarrow> None) = Some a)"
      by (force simp: map_filter_def)
    also have "\<dots> \<longleftrightarrow> (\<exists>m \<in> set ms. build_adapter env m = Inr (Some a))"
      by (intro bex_cong refl) (simp split: sum.split)
    finally show ?thesis .
  qed
  have "distinct (map sc_model_id as)" using d b
  proof (induction ms arbitrary: as)
    case (Cons m ms)
    then obtain x bs where x: "build_adapter env m = Inr x" and bs: "build_adapters env ms = Inr bs"
      by (cases "build_adapter env m"; cases "build_adapters env ms") (auto split: option.splits)
    have "sc_model_id ` set bs \<subseteq> rm_id ` set ms"
      using bs by (force simp: build_adapters_ok map_filter_def dest: build_adapter_id split: sum.splits)
    then show ?case using Cons x bs build_adapter_id [of env m] by (auto split: option.splits)
  qed simp
  then have "distinct (map fst (rev (map (\<lambda>a. (sc_model_id a, a)) as)))" by (simp add: rev_map comp_def) (simp flip: rev_map)
  then have "map_of (rev (map (\<lambda>a. (sc_model_id a, a)) as)) i = Some a
      \<longleftrightarrow> (i, a) \<in> set (rev (map (\<lambda>a. (sc_model_id a, a)) as))" by (rule map_of_eq_Some_iff)
  also have "\<dots> \<longleftrightarrow> a \<in> set as \<and> sc_model_id a = i" by (simp only: set_rev set_map image_iff prod.inject) blast
  finally have l: "map_of (rev (map (\<lambda>a. (sc_model_id a, a)) as)) i = Some a \<longleftrightarrow> a \<in> set as \<and> sc_model_id a = i" .
  have "sc_model_id a = rm_id m" if "build_adapter env m = Inr (Some a)" for m using build_adapter_id [OF that] by simp
  then show ?thesis unfolding l mem by fastforce
qed

lemma normalize_model_entry_id [simp]: "rm_id (normalize_model_entry env i e k) = i"
  by (simp add: normalize_model_entry_def Let_def)

abbreviation entry_of :: "environment \<Rightarrow> model_config \<Rightarrow> string \<times> provider_model_config \<Rightarrow> registered_model" where
  "entry_of env c \<equiv> \<lambda>(i, e). normalize_model_entry env i e (mo_api_key c)"

lemma registry_models:
  assumes "mo_models c \<noteq> []"
  shows "map snd (mg_models (registry_from_config env (Some c))) = map (entry_of env c) (mo_models c)"
  using assms by (simp add: registry_from_config_def Let_def case_prod_unfold)

abbreviation routing_of :: "environment \<Rightarrow> model_config \<Rightarrow> routing_plan" where
  "routing_of env c \<equiv> mg_routing (registry_from_config env (Some c))"

abbreviation echo_backend :: "model_config \<Rightarrow> bool" where
  "echo_backend c \<equiv> (case mo_backend c of Some b \<Rightarrow> to_ascii_lowercase b = ''echo'' | None \<Rightarrow> False)"

lemma configured_client:
  assumes m: "mo_models c \<noteq> []" and b: "\<not> echo_backend c"
    and known: "\<exists>x \<in> set (mo_models c). \<not> unknown_protocol (entry_of env c x)"
  shows "build_model_client_with_config env nc (Some c) =
     (case build_adapters env (map (entry_of env c) (mo_models c)) of
        Inl e \<Rightarrow> MissingConfigClient e
      | Inr as \<Rightarrow> router_new (routing_of env c) as)"
proof (cases "build_adapters env (map (entry_of env c) (mo_models c))")
  case (Inl e)
  then show ?thesis using b registry_models [OF m, of env]
    by (simp add: build_model_client_with_config_def Let_def)
next
  case (Inr as)
  have "as \<noteq> []"
  proof -
    obtain x where x: "x \<in> set (mo_models c)" and k: "\<not> unknown_protocol (entry_of env c x)" using known by blast
    have "\<forall>y \<in> set (mo_models c). usable env (entry_of env c y) \<or> unknown_protocol (entry_of env c y)"
      using Inr by (simp add: build_adapters_ok list_all_iff)
    then obtain a where "build_adapter env (entry_of env c x) = Inr (Some a)" using x k unfolding usable_def by blast
    then have "a \<in> set as" using Inr x
      by (auto simp: build_adapters_ok map_filter_def intro!: image_eqI [where x = "entry_of env c x"])
    then show ?thesis by auto
  qed
  then show ?thesis using b Inr registry_models [OF m, of env]
    by (cases as) (simp_all add: build_model_client_with_config_def Let_def)
qed

lemma routed_adapter_SomeD:
  assumes "routed_adapter adapters routing stage stream rr = Inr a"
  shows "map_of (rev adapters) (route_for_stage routing stage) = Some a"
    and "stream \<Longrightarrow> cf_stream (sc_capabilities a)"
    and "\<not> stream \<Longrightarrow> rr = Some True \<Longrightarrow> cf_reasoning (sc_capabilities a)"
  using assms by (auto simp: routed_adapter_def Let_def split: option.split_asm if_split_asm)

text \<open>the answer to a request comes from the model the configuration names for its stage. When a
  configuration lists models (under different names, one of them with a protocol the program knows, and
  no echo backend), a streamed answer is the answer of the service built from the very entry the stage
  is routed to, that entry admits streaming, and every other entry of a known protocol could be built
  too. In particular nothing is answered when the stage is routed to a name that is not listed, and no
  other model stands in for it.\<close>

theorem stage_served_by_its_entry:
  assumes m: "mo_models c \<noteq> []" "distinct (map fst (mo_models c))" and b: "\<not> echo_backend c"
    and known: "\<exists>x \<in> set (mo_models c). \<not> unknown_protocol (entry_of env c x)"
    and answer: "client_complete_stream menv (build_model_client_with_config env nc (Some c)) stage rq = (ds, Inr resp)"
  shows "\<exists>e a. (route_for_stage (routing_of env c) stage, e) \<in> set (mo_models c)
      \<and> build_adapter env (entry_of env c (route_for_stage (routing_of env c) stage, e)) = Inr (Some a)
      \<and> cf_stream (sc_capabilities a) \<and> service_complete_stream menv a rq = (ds, Inr resp)
      \<and> list_all (\<lambda>x. usable env (entry_of env c x) \<or> unknown_protocol (entry_of env c x)) (mo_models c)"
proof -
  let ?ms = "map (entry_of env c) (mo_models c)" and ?i = "route_for_stage (routing_of env c) stage"
  note client = configured_client [OF m(1) b known, of nc]
  obtain as where as: "build_adapters env ?ms = Inr as"
    using answer client by (cases "build_adapters env ?ms") (simp_all add: client_complete_stream_def)
  let ?adapters = "map (\<lambda>a. (sc_model_id a, a)) as"
  obtain a where a: "routed_adapter ?adapters (routing_of env c) stage True None = Inr a"
    and s: "service_complete_stream menv a rq = (ds, Inr resp)"
    using answer client as
    by (cases "routed_adapter ?adapters (routing_of env c) stage True None")
      (simp_all add: client_complete_stream_def router_new_def)
  have ids: "map rm_id ?ms = map fst (mo_models c)" by (simp add: case_prod_unfold)
  have "map_of (rev ?adapters) ?i = Some a" using a by (rule routed_adapter_SomeD(1))
  then obtain x where x: "x \<in> set (mo_models c)" "rm_id (entry_of env c x) = ?i"
    "build_adapter env (entry_of env c x) = Inr (Some a)"
    using built_adapters_by_id [of ?ms env as ?i a, unfolded ids] m(2) as by auto
  have x_eq: "x = (?i, snd x)" using x(2) by (simp add: prod_eq_iff case_prod_unfold)
  have "list_all (\<lambda>x. usable env (entry_of env c x) \<or> unknown_protocol (entry_of env c x)) (mo_models c)"
    using as by (simp add: build_adapters_ok list.pred_map comp_def)
  then show ?thesis using x x_eq s routed_adapter_SomeD(2) [OF a] by (metis (no_types, lifting))
qed

section \<open>Examples\<close>

definition no_entry :: provider_model_config where
  "no_entry = \<lparr>pm_provider = None, pm_protocol = None, pm_model = None, pm_base_url = None, pm_api_key = None,
     pm_api_key_env = None, pm_request_profile = None, pm_anthropic_version = None, pm_thinking_budget_tokens = None,
     pm_supports_stream = None, pm_supports_reasoning = None, pm_supports_tool_call = None, pm_supports_json_mode = None,
     pm_context_window_size = None\<rparr>"

definition keyed_entry :: "string \<Rightarrow> provider_model_config" where
  "keyed_entry provider = no_entry\<lparr>pm_provider := Some provider, pm_api_key := Some ''k''\<rparr>"

definition models_config :: "(string \<times> provider_model_config) list \<Rightarrow> model_config" where
  "models_config ms = \<lparr>mo_backend = None, mo_api_key = None, mo_base_url = None, mo_model = None, mo_models = ms,
     mo_routing = Some \<lparr>mc_planner = Some ''main'', mc_final_writer = None, mc_tool_reasoning = None\<rparr>\<rparr>"

definition no_environment :: environment where "no_environment = (\<lambda>_. None)"

definition two_models :: model_config where
  "two_models = models_config [(''aux'', keyed_entry ''openai''), (''main'', keyed_entry ''anthropic'')]"

definition sample_env :: model_env where
  "sample_env = \<lparr>me_utf8 = ascii, me_parse = anthropic_frames, me_print = (\<lambda>_. ''''), me_default_prompt = '''',
     me_stream = (\<lambda>a _. if sc_model a = ''claude-sonnet-4-5'' then sample_stream [''t'', ''m''] else StreamNotSent),
     me_send = (\<lambda>_ _. NotSent), me_error = (\<lambda>_. ''error'')\<rparr>"

definition sample_request :: model_request where
  "sample_request = \<lparr>rq_messages = [], rq_system_prompt = None, rq_tools = [], rq_max_output_tokens = None, rq_thinking_budget_tokens = None\<rparr>"

theorem stage_served_by_its_entry_witness:
  "\<exists>e a. (route_for_stage (routing_of no_environment two_models) FinalWriter, e) \<in> set (mo_models two_models)
     \<and> build_adapter no_environment (entry_of no_environment two_models
          (route_for_stage (routing_of no_environment two_models) FinalWriter, e)) = Inr (Some a)"
proof -
  let ?run = "client_complete_stream sample_env
    (build_model_client_with_config no_environment [] (Some two_models)) FinalWriter sample_request"
  have m: "mo_models two_models \<noteq> []" "distinct (map fst (mo_models two_models))" by code_simp+
  have b: "\<not> echo_backend two_models" by code_simp
  have known: "\<exists>x \<in> set (mo_models two_models). \<not> unknown_protocol (entry_of no_environment two_models x)" by code_simp
  let ?client = "build_model_client_with_config no_environment [] (Some two_models)"
  have "case ?client of RouterClient as r \<Rightarrow>
      (case routed_adapter as r FinalWriter True None of
         Inr a \<Rightarrow> sc_model a = ''claude-sonnet-4-5'' \<and> sc_protocol a = AnthropicMessages | Inl _ \<Rightarrow> False) | _ \<Rightarrow> False"
    by code_simp
  then obtain as r a where client: "?client = RouterClient as r" "routed_adapter as r FinalWriter True None = Inr a"
    and a: "sc_model a = ''claude-sonnet-4-5''" "sc_protocol a = AnthropicMessages"
    by (auto split: model_client.split_asm sum.split_asm)
  let ?answer = "anthropic_complete_stream ascii anthropic_frames (sample_stream [''t'', ''m''])"
  have "map_sum id mr_content (snd ?answer) = Inr [AText ''hi'']" by code_simp
  then obtain ds resp where "?answer = (ds, Inr resp)" by (cases ?answer; cases "snd ?answer") auto
  then have "service_complete_stream sample_env a sample_request = (ds, Inr resp)"
    using a by (simp add: service_complete_stream_def sample_env_def)
  then have "?run = (ds, Inr resp)" using client by (simp add: client_complete_stream_def)
  from stage_served_by_its_entry [OF m b known this] show ?thesis by blast
qed

text \<open>One entry without a key takes the working ones with it.\<close>

lemma missing_key_disables_all:
  "build_model_client_with_config no_environment []
      (Some (models_config [(''main'', keyed_entry ''anthropic''), (''aux'', no_entry)]))
    = MissingConfigClient (missing_key ''openai'')"
  by code_simp

text \<open>The profile inferred for a provider whose name contains \<open>anthropic\<close> is refused by the chat client.\<close>

lemma inferred_profile_refused:
  "case build_model_client_with_config no_environment []
      (Some (models_config [(''main'', (keyed_entry ''anthropic'')\<lparr>pm_protocol := Some ''chat_completions''\<rparr>)])) of
     MissingConfigClient _ \<Rightarrow> True | _ \<Rightarrow> False"
  by code_simp

end
