(* ===== verification/Providers.thy ===== *)
theory Providers
  imports SessionStore Gateway ModelRouting
begin

text \<open>
  The model services a gateway is configured with: their rows in the database
  (\<open>openjax-store/src/sqlite.rs\<close>), the handlers that administer them
  (\<open>openjax-gateway/src/handlers/provider.rs\<close>, \<open>state/events.rs\<close>, \<open>state/config.rs\<close>), and the configuration
  made from them for every session (\<open>openjax-core/src/provider_store.rs\<close>), down to the client that answers
  a request (ModelRouting). A request body that does not parse does not reach a handler.
\<close>

section \<open>Statements on providers\<close>

record create_provider_params =
  cq_provider_name :: string
  cq_base_url :: string
  cq_model_name :: string
  cq_api_key :: string
  cq_provider_type :: string
  cq_protocol :: string
  cq_context_window_size :: nat

record update_provider_params =
  uq_provider_id :: string
  uq_provider_name :: string
  uq_base_url :: string
  uq_model_name :: string
  uq_api_key :: "string option"
  uq_protocol :: string
  uq_context_window_size :: nat

record active_provider =
  av_provider_id :: string
  av_model_name :: string
  av_context_window_size :: nat
  av_updated_at :: string

definition active_key :: string where
  "active_key = ''active_provider''"

definition provider_exists :: "string \<Rightarrow> store_db \<Rightarrow> bool" where
  "provider_exists i db \<longleftrightarrow> (\<exists>p \<in> set (st_providers db). pv_provider_id p = i)"

definition insert_provider :: "provider_record \<Rightarrow> store_db \<Rightarrow> string + store_db" where
  "insert_provider p db =
     (if provider_exists (pv_provider_id p) db then Inl (unique_failed ''llm_providers.provider_id'')
      else if \<exists>x \<in> set (st_providers db). pv_provider_name x = pv_provider_name p
      then Inl (unique_failed ''llm_providers.provider_name'')
      else Inr (db\<lparr>st_providers := st_providers db @ [p]\<rparr>))"

text \<open>The key is kept when none is given, the type always.\<close>

definition updated_row :: "string \<Rightarrow> update_provider_params \<Rightarrow> provider_record \<Rightarrow> provider_record" where
  "updated_row now u p =
     p\<lparr>pv_provider_name := uq_provider_name u, pv_base_url := uq_base_url u, pv_model_name := uq_model_name u,
       pv_api_key := (case uq_api_key u of Some k \<Rightarrow> k | None \<Rightarrow> pv_api_key p), pv_protocol := uq_protocol u,
       pv_context_window_size := uq_context_window_size u, pv_updated_at := now\<rparr>"

definition update_provider_row :: "string \<Rightarrow> update_provider_params \<Rightarrow> store_db \<Rightarrow> string + store_db" where
  "update_provider_row now u db =
     (if provider_exists (uq_provider_id u) db
         \<and> (\<exists>x \<in> set (st_providers db). pv_provider_id x \<noteq> uq_provider_id u \<and> pv_provider_name x = uq_provider_name u)
      then Inl (unique_failed ''llm_providers.provider_name'')
      else Inr (db\<lparr>st_providers := map (\<lambda>p. if pv_provider_id p = uq_provider_id u then updated_row now u p else p) (st_providers db)\<rparr>))"

definition sync_active :: "string \<Rightarrow> update_provider_params \<Rightarrow> store_db \<Rightarrow> store_db" where
  "sync_active now u db =
     db\<lparr>st_settings := map (\<lambda>s. if rs_setting_key s = active_key \<and> rs_provider_id s = Some (uq_provider_id u)
         then s\<lparr>rs_model_name := Some (uq_model_name u), rs_context_window_size := uq_context_window_size u, rs_updated_at := now\<rparr>
         else s) (st_settings db)\<rparr>"

text \<open>Deleting a provider sets references to it to null.\<close>

definition delete_provider_row :: "string \<Rightarrow> store_db \<Rightarrow> store_db" where
  "delete_provider_row i db =
     db\<lparr>st_providers := filter (\<lambda>p. pv_provider_id p \<noteq> i) (st_providers db),
        st_settings := map (\<lambda>s. if rs_provider_id s = Some i then s\<lparr>rs_provider_id := None\<rparr> else s) (st_settings db)\<rparr>"

definition upsert_setting :: "runtime_setting \<Rightarrow> store_db \<Rightarrow> string + store_db" where
  "upsert_setting s db =
     (if \<not> (case rs_provider_id s of None \<Rightarrow> True | Some i \<Rightarrow> provider_exists i db) then Inl foreign_key_failed
      else Inr (db\<lparr>st_settings := (if \<exists>x \<in> set (st_settings db). rs_setting_key x = rs_setting_key s
        then map (\<lambda>x. if rs_setting_key x = rs_setting_key s then s else x) (st_settings db) else st_settings db @ [s])\<rparr>))"

section \<open>Operations on providers\<close>

definition sql_get_provider :: "faults \<Rightarrow> nat \<Rightarrow> string \<Rightarrow> store_db \<Rightarrow> db_error + provider_record option" where
  "sql_get_provider faults n i db =
     statement faults n ''query provider by id'' (Inr (find (\<lambda>p. pv_provider_id p = i) (st_providers db)))"

definition sql_create_provider ::
    "faults \<Rightarrow> string \<Rightarrow> string \<Rightarrow> create_provider_params \<Rightarrow> store_db \<Rightarrow> (db_error + provider_record) \<times> store_db" where
  "sql_create_provider faults now uuid c db =
     (let i = ''provider_'' @ uuid;
          p = \<lparr>pv_provider_id = i, pv_provider_name = cq_provider_name c, pv_base_url = cq_base_url c, pv_model_name = cq_model_name c,
               pv_api_key = cq_api_key c, pv_provider_type = cq_provider_type c, pv_protocol = cq_protocol c,
               pv_context_window_size = cq_context_window_size c, pv_created_at = now, pv_updated_at = now\<rparr>
      in case statement faults 0 (''insert provider '' @ cq_provider_name c) (insert_provider p db) of
           Inl e \<Rightarrow> (Inl e, db)
         | Inr db' \<Rightarrow>
             (and_then (sql_get_provider faults 1 i db') (\<lambda>r.
                case r of None \<Rightarrow> Inl [''provider must exist after create''] | Some p \<Rightarrow> Inr p), db'))"

definition sql_update_provider ::
    "faults \<Rightarrow> string \<Rightarrow> string \<Rightarrow> update_provider_params \<Rightarrow> store_db \<Rightarrow> (db_error + provider_record option) \<times> store_db" where
  "sql_update_provider faults now now' u db =
     (case statement faults 0 (''update provider '' @ uq_provider_id u) (update_provider_row now u db) of
        Inl e \<Rightarrow> (Inl e, db)
      | Inr db1 \<Rightarrow>
          if \<not> provider_exists (uq_provider_id u) db then (Inr None, db1)
          else (case statement faults 1 (''sync active provider snapshot '' @ uq_provider_id u) (Inr (sync_active now' u db1)) of
                  Inl e \<Rightarrow> (Inl e, db1)
                | Inr db2 \<Rightarrow> (sql_get_provider faults 2 (uq_provider_id u) db2, db2)))"

definition sql_delete_provider :: "faults \<Rightarrow> string \<Rightarrow> store_db \<Rightarrow> (db_error + bool) \<times> store_db" where
  "sql_delete_provider faults i db =
     (case statement faults 0 (''delete provider '' @ i) (Inr (delete_provider_row i db)) of
        Inl e \<Rightarrow> (Inl e, db) | Inr db' \<Rightarrow> (Inr (provider_exists i db), db'))"

definition sql_list_providers :: "faults \<Rightarrow> store_db \<Rightarrow> db_error + provider_record list" where
  "sql_list_providers faults db =
     and_then (statement faults 0 ''prepare list providers'' (Inr ())) (\<lambda>_.
       and_then (statement faults 1 ''query list providers'' (Inr ())) (\<lambda>_.
       statement faults 2 ''read provider row'' (Inr (desc_by pv_created_at (st_providers db)))))"

definition active_setting :: "store_db \<Rightarrow> active_provider option" where
  "active_setting db = (case find (\<lambda>s. rs_setting_key s = active_key \<and> rs_provider_id s \<noteq> None \<and> rs_model_name s \<noteq> None) (st_settings db) of
     None \<Rightarrow> None
   | Some s \<Rightarrow> Some \<lparr>av_provider_id = the (rs_provider_id s), av_model_name = the (rs_model_name s),
                    av_context_window_size = rs_context_window_size s, av_updated_at = rs_updated_at s\<rparr>)"

definition sql_get_active_provider :: "faults \<Rightarrow> nat \<Rightarrow> store_db \<Rightarrow> db_error + active_provider option" where
  "sql_get_active_provider faults n db = statement faults n ''query active provider'' (Inr (active_setting db))"

definition sql_set_active_provider ::
    "faults \<Rightarrow> string \<Rightarrow> string \<Rightarrow> store_db \<Rightarrow> (db_error + active_provider option) \<times> store_db" where
  "sql_set_active_provider faults now i db = (case sql_get_provider faults 0 i db of
     Inl e \<Rightarrow> (Inl e, db)
   | Inr None \<Rightarrow> (Inr None, db)
   | Inr (Some p) \<Rightarrow>
       (case statement faults 1 ''set active provider'' (upsert_setting \<lparr>rs_setting_key = active_key,
               rs_provider_id = Some (pv_provider_id p), rs_model_name = Some (pv_model_name p),
               rs_context_window_size = pv_context_window_size p, rs_updated_at = now\<rparr> db) of
          Inl e \<Rightarrow> (Inl e, db)
        | Inr db' \<Rightarrow> (sql_get_active_provider faults 2 db', db')))"

section \<open>Handlers\<close>

text \<open>An error of the store is reported by its outermost context.\<close>

definition store_error :: "db_error \<Rightarrow> api_error" where
  "store_error e = map_store_error (hd e)"

text \<open>A provider as it is shown: without its key.\<close>

record provider_item =
  pi_provider_id :: string
  pi_provider_name :: string
  pi_base_url :: string
  pi_model_name :: string
  pi_api_key_set :: bool
  pi_provider_type :: string
  pi_protocol :: string
  pi_context_window_size :: nat
  pi_created_at :: string
  pi_updated_at :: string

definition to_provider_item :: "provider_record \<Rightarrow> provider_item" where
  "to_provider_item p =
     \<lparr>pi_provider_id = pv_provider_id p, pi_provider_name = pv_provider_name p, pi_base_url = pv_base_url p,
      pi_model_name = pv_model_name p, pi_api_key_set = (trim (pv_api_key p) \<noteq> []), pi_provider_type = pv_provider_type p,
      pi_protocol = pv_protocol p, pi_context_window_size = pv_context_window_size p, pi_created_at = pv_created_at p,
      pi_updated_at = pv_updated_at p\<rparr>"

datatype provider_request =
    ListProviders
  | GetActiveProvider
  | SetActiveProvider string
  | CreateProvider create_provider_params
  | UpdateProvider update_provider_params
  | DeleteProvider string

datatype provider_reply =
    ProviderList "provider_item list"
  | ActiveReply "active_provider option"
  | ProviderReply provider_item
  | ProviderDeleted string

definition provider_not_found :: "string \<Rightarrow> api_error" where
  "provider_not_found i = api_not_found ''provider not found'' (json_obj [(''provider_id'', JString i)])"

definition handle_list_providers :: "faults \<Rightarrow> store_db \<Rightarrow> api_error + provider_reply" where
  "handle_list_providers faults db = map_sum store_error (\<lambda>ps. ProviderList (map to_provider_item ps)) (sql_list_providers faults db)"

definition handle_get_active_provider :: "faults \<Rightarrow> store_db \<Rightarrow> api_error + provider_reply" where
  "handle_get_active_provider faults db = map_sum store_error ActiveReply (sql_get_active_provider faults 0 db)"

definition handle_set_active_provider :: "faults \<Rightarrow> string \<Rightarrow> string \<Rightarrow> store_db \<Rightarrow> (api_error + provider_reply) \<times> store_db" where
  "handle_set_active_provider faults now i db =
     (if trim i = [] then (Inl (api_invalid_argument ''provider_id must not be empty'' (json_obj [])), db)
      else (let (r, db') = sql_set_active_provider faults now (trim i) db
            in (case r of Inl e \<Rightarrow> Inl (store_error e)
                | Inr None \<Rightarrow> Inl (provider_not_found (trim i))
                | Inr (Some a) \<Rightarrow> Inr (ActiveReply (Some a)), db')))"

definition handle_create_provider ::
    "faults \<Rightarrow> string \<Rightarrow> string \<Rightarrow> create_provider_params \<Rightarrow> store_db \<Rightarrow> (api_error + provider_reply) \<times> store_db" where
  "handle_create_provider faults now uuid c db =
     (let c' = c\<lparr>cq_provider_name := trim (cq_provider_name c), cq_base_url := trim (cq_base_url c),
                 cq_model_name := trim (cq_model_name c), cq_api_key := trim (cq_api_key c)\<rparr>
      in if cq_provider_name c' = [] \<or> cq_base_url c' = [] \<or> cq_model_name c' = [] \<or> cq_api_key c' = []
         then (Inl (api_invalid_argument ''provider fields must not be empty'' (json_obj [])), db)
         else (let (r, db') = sql_create_provider faults now uuid c' db
               in (map_sum store_error (\<lambda>p. ProviderReply (to_provider_item p)) r, db')))"

definition handle_update_provider ::
    "faults \<Rightarrow> string \<Rightarrow> string \<Rightarrow> update_provider_params \<Rightarrow> store_db \<Rightarrow> (api_error + provider_reply) \<times> store_db" where
  "handle_update_provider faults now now' u db =
     (let u' = u\<lparr>uq_provider_name := trim (uq_provider_name u), uq_base_url := trim (uq_base_url u),
                 uq_model_name := trim (uq_model_name u),
                 uq_api_key := (case uq_api_key u of None \<Rightarrow> None | Some k \<Rightarrow> if trim k = [] then None else Some (trim k))\<rparr>
      in if uq_provider_name u' = [] \<or> uq_base_url u' = [] \<or> uq_model_name u' = []
         then (Inl (api_invalid_argument ''provider fields must not be empty'' (json_obj [])), db)
         else (let (r, db') = sql_update_provider faults now now' u' db
               in (case r of Inl e \<Rightarrow> Inl (store_error e)
                   | Inr None \<Rightarrow> Inl (provider_not_found (uq_provider_id u'))
                   | Inr (Some p) \<Rightarrow> Inr (ProviderReply (to_provider_item p)), db')))"

definition handle_delete_provider :: "faults \<Rightarrow> string \<Rightarrow> store_db \<Rightarrow> (api_error + provider_reply) \<times> store_db" where
  "handle_delete_provider faults i db =
     (let (r, db') = sql_delete_provider faults i db
      in (case r of Inl e \<Rightarrow> Inl (store_error e)
          | Inr deleted \<Rightarrow> if deleted then Inr (ProviderDeleted i) else Inl (provider_not_found i), db'))"

text \<open>What is around a request: the faults its statements meet, two readings of the clock, fresh random bytes.\<close>

record request_context =
  qc_faults :: faults
  qc_now :: string
  qc_now' :: string
  qc_uuid :: string

fun provider_step :: "request_context \<Rightarrow> provider_request \<Rightarrow> store_db \<Rightarrow> (api_error + provider_reply) \<times> store_db" where
  "provider_step q ListProviders db = (handle_list_providers (qc_faults q) db, db)"
| "provider_step q GetActiveProvider db = (handle_get_active_provider (qc_faults q) db, db)"
| "provider_step q (SetActiveProvider i) db = handle_set_active_provider (qc_faults q) (qc_now q) i db"
| "provider_step q (CreateProvider c) db = handle_create_provider (qc_faults q) (qc_now q) (qc_uuid q) c db"
| "provider_step q (UpdateProvider u) db = handle_update_provider (qc_faults q) (qc_now q) (qc_now' q) u db"
| "provider_step q (DeleteProvider i) db = handle_delete_provider (qc_faults q) i db"

definition provider_run :: "(request_context \<times> provider_request) list \<Rightarrow> store_db \<Rightarrow> store_db" where
  "provider_run rqs db = fold (\<lambda>(q, rq) db. snd (provider_step q rq db)) rqs db"

section \<open>The configuration made from the providers\<close>

definition ascii_alphanumeric :: "char \<Rightarrow> bool" where
  "ascii_alphanumeric c \<longleftrightarrow> (let n = code c in (48 \<le> n \<and> n \<le> 57) \<or> (65 \<le> n \<and> n \<le> 90) \<or> (97 \<le> n \<and> n \<le> 122))"

definition normalize_model_id :: "string \<Rightarrow> string" where
  "normalize_model_id raw =
     (let s = map (\<lambda>c. if ascii_alphanumeric c then ascii_lower c else CHR ''_'') raw;
          bar = (\<lambda>c. c = CHR ''_'')
      in rev (dropWhile bar (rev (dropWhile bar s))))"

definition provider_vendor :: "string \<Rightarrow> string \<Rightarrow> string" where
  "provider_vendor base_url provider_name =
     (let marker = to_ascii_lowercase (base_url @ '' '' @ provider_name)
      in if str_contains marker ''anthropic'' \<or> str_contains marker ''claude'' then ''anthropic''
         else if str_contains marker ''kimi'' then ''kimi''
         else if str_contains marker ''glm'' \<or> str_contains marker ''bigmodel'' then ''glm'' else ''openai'')"

definition provider_request_profile :: "provider_record \<Rightarrow> string option" where
  "provider_request_profile p = (if pv_protocol p = ''anthropic_messages'' then Some ''anthropic_default'' else None)"

definition provider_entry :: "provider_record \<Rightarrow> provider_model_config" where
  "provider_entry p =
     \<lparr>pm_provider = Some (provider_vendor (pv_base_url p) (pv_provider_name p)), pm_protocol = Some (pv_protocol p),
      pm_model = Some (pv_model_name p), pm_base_url = Some (pv_base_url p), pm_api_key = Some (pv_api_key p),
      pm_api_key_env = None, pm_request_profile = provider_request_profile p, pm_anthropic_version = None,
      pm_thinking_budget_tokens = Some 2000, pm_supports_stream = Some True, pm_supports_reasoning = Some True,
      pm_supports_tool_call = Some True, pm_supports_json_mode = Some False,
      pm_context_window_size = Some (pv_context_window_size p)\<rparr>"

text \<open>The loop that looks for a name that is not taken: \<open>name_2\<close>, \<open>name_3\<close> and so on.\<close>

definition numbered_id :: "string \<Rightarrow> nat \<Rightarrow> string" where
  "numbered_id base n = base @ ''_'' @ dec_of_nat n"

lemma numbered_id_inj: "numbered_id base m = numbered_id base n \<longleftrightarrow> m = n"
proof -
  have "dec_of_nat m = dec_of_nat n \<Longrightarrow> m = n" by (drule arg_cong [where f = parse_digits]) simp
  then show ?thesis by (auto simp: numbered_id_def)
qed

function free_id :: "string list \<Rightarrow> string \<Rightarrow> string \<Rightarrow> nat \<Rightarrow> string" where
  "free_id taken base i dedup = (if i \<in> set taken then free_id taken base (numbered_id base (dedup + 1)) (dedup + 1) else i)"
  by auto

termination
proof (relation "measure (\<lambda>(taken, base, i, dedup). card ({i} \<inter> set taken) + card {t \<in> set taken. \<exists>n > dedup. t = numbered_id base n})")
  fix taken :: "string list" and base i :: string and dedup :: nat
  assume "i \<in> set taken"
  let ?later = "\<lambda>d. {t \<in> set taken. \<exists>n > d. t = numbered_id base n}" and ?new = "numbered_id base (dedup + 1)"
  have "card ({?new} \<inter> set taken) + card (?later (dedup + 1)) \<le> card (?later dedup)"
  proof (cases "?new \<in> set taken")
    case True
    have "card (insert ?new (?later (dedup + 1))) \<le> card (?later dedup)"
      using True by (intro card_mono) (auto dest: Suc_lessD)
    moreover have "?new \<notin> ?later (dedup + 1)" by (auto simp: numbered_id_inj)
    ultimately show ?thesis using True by simp
  next
    case False
    have "card (?later (dedup + 1)) \<le> card (?later dedup)" by (intro card_mono) (auto dest: Suc_lessD)
    then show ?thesis using False by simp
  qed
  then show "((taken, base, ?new, dedup + 1), taken, base, i, dedup)
      \<in> measure (\<lambda>(taken, base, i, dedup). card ({i} \<inter> set taken) + card {t \<in> set taken. \<exists>n > dedup. t = numbered_id base n})"
    using \<open>i \<in> set taken\<close> by simp
qed simp

declare free_id.simps [simp del]

definition model_id_for :: "string list \<Rightarrow> provider_record \<Rightarrow> string" where
  "model_id_for taken p =
     (let base = normalize_model_id (pv_provider_name p)
      in free_id taken base (if base = [] then ''provider_'' @ pv_provider_id p else base) 1)"

fun name_entries :: "string list \<Rightarrow> provider_record list \<Rightarrow> (string \<times> provider_record) list" where
  "name_entries taken [] = []"
| "name_entries taken (p # ps) = (let i = model_id_for taken p in (i, p) # name_entries (i # taken) ps)"

definition active_first :: "string option \<Rightarrow> provider_record list \<Rightarrow> provider_record list" where
  "active_first active ps = (case active of
     None \<Rightarrow> ps
   | Some i \<Rightarrow>
       (case find (\<lambda>p. pv_provider_id p = i) ps of
          None \<Rightarrow> ps
        | Some p \<Rightarrow> p # remove1 p ps))"

text \<open>The model section of \<open>build_config_from_providers\<close>; \<open>order\<close> is the order in which the map of
  models is iterated over later. The chains of fallbacks it also lists are left out, for nothing reads them;
  the rest of the configuration comes from a file.\<close>

definition build_config_from_providers ::
    "((string \<times> provider_model_config) list \<Rightarrow> (string \<times> provider_model_config) list) \<Rightarrow>
     provider_record list \<Rightarrow> string option \<Rightarrow> model_config option" where
  "build_config_from_providers order providers active =
     (if providers = [] then None
      else (let named = name_entries [] (active_first active providers); planner = fst (hd named)
            in Some \<lparr>mo_backend = None, mo_api_key = None, mo_base_url = None, mo_model = None,
                 mo_models = order (map (\<lambda>(i, p). (i, provider_entry p)) named),
                 mo_routing = Some \<lparr>mc_planner = Some planner, mc_final_writer = Some planner, mc_tool_reasoning = Some planner\<rparr>\<rparr>))"

text \<open>\<open>AppState::runtime_config\<close>: what cannot be read counts as absent.\<close>

definition store_runtime_config ::
    "((string \<times> provider_model_config) list \<Rightarrow> (string \<times> provider_model_config) list) \<Rightarrow> faults \<Rightarrow> faults \<Rightarrow> store_db \<Rightarrow> model_config option" where
  "store_runtime_config order faults faults' db =
     build_config_from_providers order (case sql_list_providers faults db of Inl _ \<Rightarrow> [] | Inr ps \<Rightarrow> ps)
       (case sql_get_active_provider faults' 0 db of Inl _ \<Rightarrow> None | Inr a \<Rightarrow> map_option av_provider_id a)"

text \<open>The configuration of a session that is built (\<open>AppState::build_session_runtime\<close>): here an active provider
  that cannot be read is an error. A session keeps its configuration until it is cleared, which gives it that of
  \<open>store_runtime_config\<close>.\<close>

definition build_session_config ::
    "((string \<times> provider_model_config) list \<Rightarrow> (string \<times> provider_model_config) list) \<Rightarrow> faults \<Rightarrow> faults \<Rightarrow> store_db
      \<Rightarrow> db_error + model_config option" where
  "build_session_config order faults faults' db =
     (case sql_get_active_provider faults' 0 db of
        Inl e \<Rightarrow> Inl e
      | Inr a \<Rightarrow> Inr (build_config_from_providers order (case sql_list_providers faults db of Inl _ \<Rightarrow> [] | Inr ps \<Rightarrow> ps)
                      (map_option av_provider_id a)))"

text \<open>The context window of an agent (\<open>Agent::with_runtime\<close>): that of the model that plans.\<close>

definition planner_context_window :: "model_config option \<Rightarrow> nat" where
  "planner_context_window config = (case config of
     None \<Rightarrow> 0
   | Some c \<Rightarrow> or_default 0 (Option.bind (Option.bind (mo_routing c) mc_planner) (\<lambda>i.
       Option.bind (map_of (mo_models c) i) pm_context_window_size)))"

section \<open>The first start\<close>

text \<open>Models a configuration file lists are stored as providers when there is none yet; each insertion has
  its own time, random bytes and faults.\<close>

definition migrated_params :: "environment \<Rightarrow> string \<times> provider_model_config \<Rightarrow> create_provider_params option" where
  "migrated_params env entry = (case entry of (i, e) \<Rightarrow>
     (let key = or_default [] (first_some (pm_api_key e) (Option.bind (pm_api_key_env e) env))
      in if trim key = [] then None
         else Some \<lparr>cq_provider_name = i, cq_base_url = or_default ''https://api.openai.com/v1'' (pm_base_url e),
                cq_model_name = or_default i (pm_model e), cq_api_key = key, cq_provider_type = ''custom'',
                cq_protocol = ''chat_completions'', cq_context_window_size = 0\<rparr>))"

definition migrate_providers_from_config_if_needed ::
    "environment \<Rightarrow> faults \<Rightarrow> model_config option \<Rightarrow> (nat \<Rightarrow> request_context) \<Rightarrow> store_db \<Rightarrow> store_db" where
  "migrate_providers_from_config_if_needed env faults config qs db =
     (if (case sql_list_providers faults db of Inl _ \<Rightarrow> [] | Inr ps \<Rightarrow> ps) \<noteq> [] then db
      else (case config of
              None \<Rightarrow> db
            | Some c \<Rightarrow> fold (\<lambda>(k, e) db. case migrated_params env e of
                   None \<Rightarrow> db | Some p \<Rightarrow> snd (sql_create_provider (qc_faults (qs k)) (qc_now (qs k)) (qc_uuid (qs k)) p db))
                (enumerate 0 (mo_models c)) db))"


section \<open>Names of the entries\<close>

lemma free_id_free: "free_id taken base i dedup \<notin> set taken"
proof (induction taken base i dedup rule: free_id.induct)
  case (1 taken base i dedup)
  show ?case
  proof (cases "i \<in> set taken")
    case True
    then have "free_id taken base i dedup = free_id taken base (numbered_id base (dedup + 1)) (dedup + 1)"
      by (subst free_id.simps) simp
    then show ?thesis using 1 [OF True] by simp
  next
    case False
    then have "free_id taken base i dedup = i" by (subst free_id.simps) simp
    then show ?thesis using False by simp
  qed
qed

lemma name_entries_providers [simp]: "map snd (name_entries taken ps) = ps"
  by (induction ps arbitrary: taken) (simp_all add: Let_def)

lemma name_entries_fresh: "set taken \<inter> fst ` set (name_entries taken ps) = {}"
proof (induction ps arbitrary: taken)
  case (Cons p ps)
  have "model_id_for taken p \<notin> set taken" unfolding model_id_for_def Let_def by (rule free_id_free)
  moreover have "set (model_id_for taken p # taken) \<inter> fst ` set (name_entries (model_id_for taken p # taken) ps) = {}" by (rule Cons)
  ultimately show ?case by (auto simp: Let_def)
qed simp

lemma name_entries_distinct: "distinct (map fst (name_entries taken ps))"
proof (induction ps arbitrary: taken)
  case (Cons p ps)
  have "model_id_for taken p \<notin> fst ` set (name_entries (model_id_for taken p # taken) ps)"
    using name_entries_fresh [of "model_id_for taken p # taken" ps] by auto
  then show ?case using Cons by (simp add: Let_def)
qed simp

lemma active_first_mset: "mset (active_first active ps) = mset ps"
proof -
  have "p \<in> set ps" if "find P ps = Some p" for p P using that by (auto simp: find_Some_iff)
  then show ?thesis by (simp add: active_first_def split: option.split)
qed

lemma active_first_hd:
  assumes "p \<in> set ps" "pv_provider_id p = i" and "distinct (map pv_provider_id ps)"
  shows "\<exists>qs. active_first (Some i) ps = p # qs"
proof -
  have "find (\<lambda>p. pv_provider_id p = i) ps = Some p"
    using assms by (induction ps) (auto simp: rev_image_eqI)
  then show ?thesis by (simp add: active_first_def)
qed

section \<open>What every request keeps\<close>

text \<open>Identifiers and names of providers differ; the settings are at most the row of the active provider, which
  refers to a row of the table.\<close>

definition providers_ok :: "store_db \<Rightarrow> bool" where
  "providers_ok db \<longleftrightarrow> distinct (map pv_provider_id (st_providers db)) \<and> distinct (map pv_provider_name (st_providers db))
     \<and> length (st_settings db) \<le> 1
     \<and> list_all (\<lambda>s. rs_setting_key s = active_key
          \<and> (case rs_provider_id s of None \<Rightarrow> True | Some i \<Rightarrow> i \<in> set (map pv_provider_id (st_providers db)))) (st_settings db)"

lemma provider_exists_iff: "provider_exists i db \<longleftrightarrow> i \<in> set (map pv_provider_id (st_providers db))"
  by (auto simp: provider_exists_def)

lemma providers_ok_new: "providers_ok store_empty"
  by (simp add: providers_ok_def store_empty_def)

lemma insert_provider_ok:
  assumes ok: "providers_ok db" and p: "insert_provider p db = Inr db'"
  shows "providers_ok db'"
proof -
  have "pv_provider_id p \<notin> set (map pv_provider_id (st_providers db))" "pv_provider_name p \<notin> set (map pv_provider_name (st_providers db))"
    "db' = db\<lparr>st_providers := st_providers db @ [p]\<rparr>"
    using p by (auto simp: insert_provider_def provider_exists_iff split: if_split_asm)
  then show ?thesis using ok by (auto simp: providers_ok_def list_all_iff split: option.splits)
qed

lemma updated_row_id [simp]: "pv_provider_id (updated_row now u p) = pv_provider_id p" "pv_provider_name (updated_row now u p) = uq_provider_name u"
  by (simp_all add: updated_row_def)

lemma distinct_map_update:
  assumes f: "distinct (map f xs)" and g: "distinct (map g xs)"
    and other: "\<And>x. x \<in> set xs \<Longrightarrow> f x \<noteq> i \<Longrightarrow> g x \<noteq> new" and new: "\<And>x. g (h x) = new"
  shows "distinct (map (\<lambda>x. g (if f x = i then h x else x)) xs)"
proof -
  have "g (if f x = i then h x else x) \<noteq> g (if f y = i then h y else y)" if "x \<in> set xs" "y \<in> set xs" "x \<noteq> y" for x y
  proof -
    have "f x \<noteq> f y" "g x \<noteq> g y" using f g that by (auto simp: distinct_map inj_on_def)
    then show ?thesis using other [OF that(1)] other [OF that(2)] new by (cases "f x = i"; cases "f y = i") auto
  qed
  then show ?thesis using f unfolding distinct_map inj_on_def by blast
qed

lemma update_provider_row_ok:
  assumes ok: "providers_ok db" and u: "update_provider_row now u db = Inr db'"
  shows "providers_ok db'"
proof -
  let ?f = "\<lambda>p. if pv_provider_id p = uq_provider_id u then updated_row now u p else p"
  have db': "db' = db\<lparr>st_providers := map ?f (st_providers db)\<rparr>" using u by (auto simp: update_provider_row_def split: if_split_asm)
  have ids: "map pv_provider_id (map ?f (st_providers db)) = map pv_provider_id (st_providers db)" by auto
  have names: "distinct (map pv_provider_name (map ?f (st_providers db)))"
  proof (cases "provider_exists (uq_provider_id u) db")
    case True
    then have other: "pv_provider_name x \<noteq> uq_provider_name u" if "x \<in> set (st_providers db)" "pv_provider_id x \<noteq> uq_provider_id u" for x
      using u that by (auto simp: update_provider_row_def split: if_split_asm)
    show ?thesis unfolding map_map comp_def
      by (rule distinct_map_update [where new = "uq_provider_name u"]) (use ok other in \<open>simp_all add: providers_ok_def\<close>)
  next
    case False
    then have "map ?f (st_providers db) = st_providers db" by (intro map_idI) (auto simp: provider_exists_def)
    then show ?thesis using ok by (simp add: providers_ok_def)
  qed
  have "st_providers db' = map ?f (st_providers db)" "st_settings db' = st_settings db" by (simp_all add: db')
  then show ?thesis using ok unfolding providers_ok_def by (simp only: ids names)
qed

lemma sync_active_ok: "providers_ok db \<Longrightarrow> providers_ok (sync_active now u db)"
  by (auto simp: providers_ok_def sync_active_def list_all_iff split: option.splits)

lemma delete_provider_row_ok: "providers_ok db \<Longrightarrow> providers_ok (delete_provider_row i db)"
  by (auto simp: providers_ok_def delete_provider_row_def distinct_map_filter list_all_iff split: option.splits)

lemma upsert_setting_ok:
  "providers_ok db \<Longrightarrow> upsert_setting s db = Inr db' \<Longrightarrow> rs_setting_key s = active_key \<Longrightarrow> providers_ok db'"
  by (cases "st_settings db") (auto simp: providers_ok_def upsert_setting_def provider_exists_iff split: if_split_asm option.splits)


lemma statement_cases:
  obtains "statement faults n c r = Inl [c, the (faults n)]" "faults n \<noteq> None"
    | reason where "statement faults n c r = Inl [c, reason]" "faults n = None" "r = Inl reason"
    | x where "statement faults n c r = Inr x" "faults n = None" "r = Inr x"
  by (cases "faults n"; cases r) (auto simp: statement_def)

lemma create_provider_ok: "providers_ok db \<Longrightarrow> providers_ok (snd (sql_create_provider faults now uuid c db))"
  by (auto simp: sql_create_provider_def Let_def statement_Inr intro: insert_provider_ok split: sum.split)

lemma update_provider_ok:
  assumes ok: "providers_ok db"
  shows "providers_ok (snd (sql_update_provider faults now now' u db))"
proof (cases "statement faults 0 (''update provider '' @ uq_provider_id u) (update_provider_row now u db)")
  case (Inl e)
  then show ?thesis using ok by (simp add: sql_update_provider_def)
next
  case (Inr db1)
  then have "update_provider_row now u db = Inr db1" by (simp add: statement_Inr)
  then have ok1: "providers_ok db1" by (rule update_provider_row_ok [OF ok])
  obtain r where r: "statement faults 1 (''sync active provider snapshot '' @ uq_provider_id u) (Inr (sync_active now' u db1)) = r" by blast
  then have "db2 = sync_active now' u db1" if "r = Inr db2" for db2 using that by (simp add: statement_Inr)
  then show ?thesis unfolding sql_update_provider_def Inr sum.case r using ok1 sync_active_ok [OF ok1] by (cases r) simp_all
qed

lemma set_active_provider_ok: "providers_ok db \<Longrightarrow> providers_ok (snd (sql_set_active_provider faults now i db))"
  by (auto simp: sql_set_active_provider_def statement_Inr intro: upsert_setting_ok split: sum.split option.split)

lemma delete_provider_ok: "providers_ok db \<Longrightarrow> providers_ok (snd (sql_delete_provider faults i db))"
  by (auto simp: sql_delete_provider_def statement_Inr intro: delete_provider_row_ok split: sum.split)

lemma provider_step_ok: "providers_ok db \<Longrightarrow> providers_ok (snd (provider_step q rq db))"
  by (cases rq) (simp_all add: handle_set_active_provider_def handle_create_provider_def handle_update_provider_def
      handle_delete_provider_def create_provider_ok update_provider_ok set_active_provider_ok delete_provider_ok
      Let_def case_prod_unfold)

lemma provider_run_ok: "providers_ok db \<Longrightarrow> providers_ok (provider_run rqs db)"
  unfolding provider_run_def by (induction rqs arbitrary: db) (auto simp: provider_step_ok)

lemma migrate_ok: "providers_ok db \<Longrightarrow> providers_ok (migrate_providers_from_config_if_needed env faults config qs db)"
proof -
  have "providers_ok db \<Longrightarrow> providers_ok (fold (\<lambda>(k, e) db. case migrated_params env e of
      None \<Rightarrow> db | Some p \<Rightarrow> snd (sql_create_provider (qc_faults (qs k)) (qc_now (qs k)) (qc_uuid (qs k)) p db)) es db)" for es db
    by (induction es arbitrary: db) (auto simp: create_provider_ok split: option.split)
  then show "providers_ok db \<Longrightarrow> ?thesis" by (simp add: migrate_providers_from_config_if_needed_def split: option.split)
qed

section \<open>The active provider serves\<close>

lemma desc_by_mset [simp]: "mset (desc_by key rows) = mset rows"
  by (simp add: desc_by_def)

lemma distinct_mset_eq: "mset xs = mset ys \<Longrightarrow> distinct (map f ys) \<Longrightarrow> distinct (map f xs)"
  by (metis mset_eq_imp_distinct_iff mset_map)

definition known_protocol :: "provider_record \<Rightarrow> bool" where
  "known_protocol p \<longleftrightarrow> to_ascii_lowercase (pv_protocol p) \<in> {''anthropic_messages'', ''chat_completions''}"

lemma known_protocol_entry: "\<not> unknown_protocol (normalize_model_entry env i (provider_entry p) k) \<longleftrightarrow> known_protocol p"
proof -
  have "rm_protocol (normalize_model_entry env i (provider_entry p) k) = to_ascii_lowercase (pv_protocol p)"
    by (simp add: normalize_model_entry_def provider_entry_def or_default_def Let_def)
  note e = this
  show ?thesis unfolding unknown_protocol_def e known_protocol_def by blast
qed

text \<open>The service built from a provider.\<close>

lemma keyed_client:
  assumes "rm_api_key m = Some k" "rm_base_url m = Some u"
  shows "anthropic_from_registered env m = Inr a \<Longrightarrow> sc_model a = rm_model m \<and> sc_api_key a = k \<and> sc_endpoint a = build_messages_endpoint u"
    and "chat_from_registered env m = Inr a \<Longrightarrow> sc_model a = rm_model m \<and> sc_api_key a = k \<and> sc_endpoint a = chat_endpoint u"
  using assms
  by (auto simp: anthropic_from_registered_def chat_from_registered_def first_some_def or_default_def
      split: sum.split_asm unit.split_asm)

lemma build_adapter_client:
  "build_adapter env m = Inr (Some a) \<Longrightarrow> anthropic_from_registered env m = Inr a \<or> chat_from_registered env m = Inr a"
  unfolding build_adapter_def by (cases "anthropic_from_registered env m"; cases "chat_from_registered env m") (simp_all split: if_split_asm)

lemma provider_adapter:
  assumes "build_adapter env (normalize_model_entry env i (provider_entry p) k) = Inr (Some a)"
  shows "sc_model a = pv_model_name p \<and> sc_api_key a = pv_api_key p
    \<and> sc_endpoint a \<in> {build_messages_endpoint (pv_base_url p), chat_endpoint (pv_base_url p)}"
proof -
  let ?m = "normalize_model_entry env i (provider_entry p) k"
  have m: "rm_model ?m = pv_model_name p" "rm_api_key ?m = Some (pv_api_key p)" "rm_base_url ?m = Some (pv_base_url p)"
    by (simp_all add: normalize_model_entry_def provider_entry_def or_default_def first_some_def Let_def)
  show ?thesis using build_adapter_client [OF assms] keyed_client [OF m(2,3), of env a] unfolding m(1) by blast
qed

text \<open>C40: the provider set active is the one that answers. Whatever requests the handlers served, and
  whichever statements failed on the way, since a first start from a configuration file: take a session that is
  built, or cleared, while the providers and the active one can be read. If the database names an active provider
  at that moment, then every streamed answer of the session's client from then on, at every stage, comes from a
  service with the model, the key and the address that provider's row had at that moment, and the agent compacts
  by its context window. (A later switch changes nothing for the session. A provider of an unknown protocol is no
  service; the theorem asks that some provider is one, otherwise the environment's model answers.)\<close>

theorem active_provider_serves:
  assumes order: "\<And>xs. mset (order xs) = mset xs"
    and run: "db = provider_run rqs (migrate_providers_from_config_if_needed env faults0 file qs store_empty)"
    and list: "sql_list_providers faults db = Inr ps"
    and current: "sql_get_active_provider faults' 0 db = Inr (Some act)"
    and known: "\<exists>p \<in> set (st_providers db). known_protocol p"
    and built: "build_session_config order faults faults' db = Inr config \<or> store_runtime_config order faults faults' db = config"
    and answer: "client_complete_stream menv (build_model_client_with_config env nc config) stage rq = (ds, Inr resp)"
  shows "\<exists>p a. p \<in> set (st_providers db) \<and> pv_provider_id p = av_provider_id act
     \<and> sc_model a = pv_model_name p \<and> sc_api_key a = pv_api_key p
     \<and> sc_endpoint a \<in> {build_messages_endpoint (pv_base_url p), chat_endpoint (pv_base_url p)}
     \<and> service_complete_stream menv a rq = (ds, Inr resp)
     \<and> planner_context_window config = pv_context_window_size p"
proof -
  have active: "active_setting db = Some act" using current by (simp add: sql_get_active_provider_def statement_Inr)
  have config: "config = build_config_from_providers order (desc_by pv_created_at (st_providers db)) (Some (av_provider_id act))"
  proof -
    have "ps = desc_by pv_created_at (st_providers db)"
      using list by (auto simp: sql_list_providers_def and_then_Inr statement_Inr)
    then show ?thesis using built list current by (auto simp: build_session_config_def store_runtime_config_def)
  qed
  have ok: "providers_ok db" unfolding run by (intro provider_run_ok migrate_ok providers_ok_new)
  let ?i = "av_provider_id act" and ?ps = "desc_by pv_created_at (st_providers db)"
  have "?i \<in> set (map pv_provider_id (st_providers db))"
    using active ok by (auto simp: active_setting_def find_Some_iff providers_ok_def list_all_length split: option.split_asm)
  then obtain p where p: "p \<in> set (st_providers db)" "pv_provider_id p = ?i" by auto
  have ids: "distinct (map pv_provider_id ?ps)" by (rule distinct_mset_eq [of _ "st_providers db"]) (use ok in \<open>simp_all add: providers_ok_def\<close>)
  have mem: "set ?ps = set (st_providers db)" by (metis desc_by_mset set_mset_mset)
  then obtain qs' where first: "active_first (Some ?i) ?ps = p # qs'" using active_first_hd [of p ?ps ?i] p ids by auto
  define m where "m = model_id_for [] p"
  define named where "named = name_entries [] (p # qs')"
  have hd: "named = (m, p) # name_entries [m] qs'" by (simp add: named_def m_def Let_def)
  define es where "es = map (\<lambda>(i, p). (i, provider_entry p)) named"
  define c where "c = \<lparr>mo_backend = None, mo_api_key = None, mo_base_url = None, mo_model = None, mo_models = order es,
     mo_routing = Some \<lparr>mc_planner = Some m, mc_final_writer = Some m, mc_tool_reasoning = Some m\<rparr>\<rparr>"
  have "?ps \<noteq> []" using p mem by auto
  then have conf: "config = Some c"
    by (simp add: config build_config_from_providers_def first Let_def hd c_def es_def m_def)
  have "map fst es = map fst named" unfolding es_def map_map by (simp add: comp_def case_prod_unfold)
  then have "distinct (map fst es)" by (simp only: named_def name_entries_distinct)
  then have d: "distinct (map fst (order es))" by (rule distinct_mset_eq [OF order])
  have es_mem: "set (order es) = set es" using order by (metis set_mset_mset)
  have ne: "mo_models c \<noteq> []" using es_mem by (auto simp: c_def es_def hd)
  obtain p' where p': "p' \<in> set (st_providers db)" "known_protocol p'" using known by blast
  have "set (p # qs') = set ?ps" using active_first_mset [of "Some ?i" ?ps] unfolding first by (metis set_mset_mset)
  then have "p' \<in> snd ` set named" using p'(1) mem name_entries_providers [of "[]" "p # qs'"] unfolding named_def by (metis list.set_map)
  then obtain i' where "(i', provider_entry p') \<in> set (mo_models c)" using es_mem by (force simp: c_def es_def)
  then have kn: "\<exists>x \<in> set (mo_models c). \<not> unknown_protocol (entry_of env c x)" using known_protocol_entry p'(2) by (metis case_prod_conv)
  have echo: "\<not> echo_backend c" by (simp add: c_def)
  have dc: "distinct (map fst (mo_models c))" using d by (simp add: c_def)
  have route: "route_for_stage (routing_of env c) stage = m"
  proof -
    have "mo_routing c = Some \<lparr>mc_planner = Some m, mc_final_writer = Some m, mc_tool_reasoning = Some m\<rparr>" by (simp add: c_def)
    then show ?thesis using ne by (cases stage) (simp_all add: route_for_stage_def registry_from_config_def or_default_def Let_def)
  qed
  obtain e a where e: "(m, e) \<in> set (mo_models c)" "build_adapter env (entry_of env c (m, e)) = Inr (Some a)"
    and s: "service_complete_stream menv a rq = (ds, Inr resp)"
    using stage_served_by_its_entry [OF ne dc echo kn answer [unfolded conf]] unfolding route by blast
  have me: "(m, provider_entry p) \<in> set (mo_models c)" using es_mem by (simp add: c_def es_def hd)
  then have "e = provider_entry p" using e(1) dc by (metis eq_key_imp_eq_value)
  then have a: "build_adapter env (normalize_model_entry env m (provider_entry p) (mo_api_key c)) = Inr (Some a)" using e(2) by simp
  have "planner_context_window config = pv_context_window_size p"
    using map_of_is_SomeI [OF dc me] by (simp add: planner_context_window_def conf) (simp add: c_def or_default_def provider_entry_def)
  then show ?thesis using p provider_adapter [OF a] s by blast
qed


section \<open>Requests on a small database\<close>

definition sample_context :: "string \<Rightarrow> request_context" where
  "sample_context uuid = \<lparr>qc_faults = (\<lambda>_. None), qc_now = uuid, qc_now' = uuid, qc_uuid = uuid\<rparr>"

definition sample_provider :: "string \<Rightarrow> string \<Rightarrow> string \<Rightarrow> provider_request" where
  "sample_provider provider_name protocol model = CreateProvider \<lparr>cq_provider_name = provider_name, cq_base_url = ''http://x'',
     cq_model_name = model, cq_api_key = '' k '', cq_provider_type = ''custom'', cq_protocol = protocol, cq_context_window_size = 8\<rparr>"

definition sample_provider_requests :: "(request_context \<times> provider_request) list" where
  "sample_provider_requests =
     [(sample_context ''1'', sample_provider ''My GPT'' ''chat_completions'' ''gpt''),
      (sample_context ''2'', sample_provider ''my-gpt'' ''anthropic_messages'' ''claude-sonnet-4-5''),
      (sample_context ''3'', SetActiveProvider '' provider_2 '')]"

definition sample_provider_db :: store_db where
  "sample_provider_db = provider_run sample_provider_requests
     (migrate_providers_from_config_if_needed no_environment (\<lambda>_. None) None (\<lambda>_. sample_context ''0'') store_empty)"

definition sample_client :: "model_config option \<Rightarrow> model_client" where
  "sample_client config = build_model_client_with_config no_environment [] config"

abbreviation plain_config :: "store_db \<Rightarrow> model_config option" where
  "plain_config db \<equiv> store_runtime_config (\<lambda>xs. xs) (\<lambda>_. None) (\<lambda>_. None) db"

theorem active_provider_serves_witness:
  "\<exists>p. p \<in> set (st_providers sample_provider_db) \<and> pv_provider_id p = ''provider_2''
     \<and> planner_context_window (plain_config sample_provider_db) = pv_context_window_size p"
proof -
  have act: "map_option av_provider_id (active_setting sample_provider_db) = Some ''provider_2''" by code_simp
  have known: "\<exists>p \<in> set (st_providers sample_provider_db). known_protocol p" by code_simp
  obtain act where act: "active_setting sample_provider_db = Some act" "av_provider_id act = ''provider_2''" using act by auto
  have "case sample_client (plain_config sample_provider_db) of RouterClient as r \<Rightarrow>
      (case routed_adapter as r FinalWriter True None of
         Inr a \<Rightarrow> sc_model a = ''claude-sonnet-4-5'' \<and> sc_protocol a = AnthropicMessages | Inl _ \<Rightarrow> False) | _ \<Rightarrow> False"
    by code_simp
  then obtain as r a where client: "sample_client (plain_config sample_provider_db) = RouterClient as r" "routed_adapter as r FinalWriter True None = Inr a"
    and a: "sc_model a = ''claude-sonnet-4-5''" "sc_protocol a = AnthropicMessages"
    by (auto split: model_client.split_asm sum.split_asm)
  let ?answer = "anthropic_complete_stream ascii anthropic_frames (sample_stream [''t'', ''m''])"
  have "map_sum id mr_content (snd ?answer) = Inr [AText ''hi'']" by code_simp
  then obtain ds resp where "?answer = (ds, Inr resp)" by (cases ?answer; cases "snd ?answer") auto
  then have "service_complete_stream sample_env a sample_request = (ds, Inr resp)"
    using a by (simp add: service_complete_stream_def sample_env_def)
  then have answer: "client_complete_stream sample_env (build_model_client_with_config no_environment [] (plain_config sample_provider_db))
      FinalWriter sample_request = (ds, Inr resp)" using client by (simp add: client_complete_stream_def sample_client_def)
  have list: "sql_list_providers (\<lambda>_. None) sample_provider_db = Inr (desc_by pv_created_at (st_providers sample_provider_db))"
    by (simp add: sql_list_providers_def and_then_def statement_def)
  have current: "sql_get_active_provider (\<lambda>_. None) 0 sample_provider_db = Inr (Some act)"
    using act(1) by (simp add: sql_get_active_provider_def statement_def)
  from active_provider_serves [OF refl sample_provider_db_def list current known disjI2 [OF refl] answer] act(2)
  show ?thesis by auto
qed

text \<open>Two names that are normalised alike are numbered apart.\<close>

lemma names_told_apart:
  "map_option (\<lambda>c. map fst (mo_models c)) (plain_config sample_provider_db) = Some [''my_gpt'', ''my_gpt_2'']"
  by code_simp

text \<open>A second provider of one name is refused, but the reason is below the context of the error, where
  \<open>map_store_error\<close> does not look: the client is told of an internal error instead of a conflict.\<close>

lemma duplicate_name_is_internal:
  assumes "pv_provider_name p = trim (cq_provider_name c)" "p \<in> set (st_providers db)"
    and "\<not> provider_exists (''provider_'' @ qc_uuid q) db" "qc_faults q = (\<lambda>_. None)"
    and "trim (cq_provider_name c) \<noteq> []" "trim (cq_base_url c) \<noteq> []" "trim (cq_model_name c) \<noteq> []" "trim (cq_api_key c) \<noteq> []"
    and "\<not> str_contains (''insert provider '' @ trim (cq_provider_name c)) ''UNIQUE constraint failed''"
  shows "provider_step q (CreateProvider c) db = (Inl (api_internal (''insert provider '' @ trim (cq_provider_name c))), db)"
proof -
  let ?name = "trim (cq_provider_name c)"
  have taken: "\<exists>x \<in> set (st_providers db). pv_provider_name x = ?name" using assms(1,2) by blast
  have "insert_provider p' db = Inl (unique_failed ''llm_providers.provider_name'')"
    if "pv_provider_id p' = ''provider_'' @ qc_uuid q" "pv_provider_name p' = ?name" for p'
    unfolding insert_provider_def that using taken assms(3) by (simp only: if_False if_True)
  then have "fst (sql_create_provider (qc_faults q) (qc_now q) (qc_uuid q) c' db)
      = Inl [''insert provider '' @ ?name, unique_failed ''llm_providers.provider_name'']
      \<and> snd (sql_create_provider (qc_faults q) (qc_now q) (qc_uuid q) c' db) = db" if "cq_provider_name c' = ?name" for c'
    using that by (simp add: sql_create_provider_def statement_def assms(4))
  then show ?thesis using assms(5-9)
    by (simp add: handle_create_provider_def Let_def case_prod_unfold store_error_def map_store_error_def del: append.simps)
qed

text \<open>A provider whose name or address mentions \<open>claude\<close>, with the protocol requests default to, is given a
  profile that protocol refuses: no model of the gateway can be used any more, not even the active one.\<close>

definition claude_requests :: "(request_context \<times> provider_request) list" where
  "claude_requests = sample_provider_requests @ [(sample_context ''4'', sample_provider ''Claude proxy'' ''chat_completions'' ''claude'')]"

lemma claude_proxy_disables_all:
  "case sample_client (plain_config (provider_run claude_requests store_empty)) of MissingConfigClient _ \<Rightarrow> True | _ \<Rightarrow> False"
  by code_simp

text \<open>An update that fails after its first statement has changed the provider but not what is recorded of the
  active one.\<close>

lemma failed_update_leaves_snapshot:
  "(let u = UpdateProvider \<lparr>uq_provider_id = ''provider_2'', uq_provider_name = ''n'', uq_base_url = ''u'', uq_model_name = ''new'',
        uq_api_key = None, uq_protocol = ''chat_completions'', uq_context_window_size = 4\<rparr>;
        (r, db) = provider_step ((sample_context ''5'')\<lparr>qc_faults := (\<lambda>n. if n = 1 then Some ''disk'' else None)\<rparr>) u sample_provider_db
    in (case r of Inl _ \<Rightarrow> True | _ \<Rightarrow> False, map pv_model_name (st_providers db), map_option av_model_name (active_setting db)))
   = (True, [''gpt'', ''new''], Some ''claude-sonnet-4-5'')"
  by code_simp

end
