(* ===== verification/Spec2Isabelle.thy ===== *)
theory Spec2Isabelle
  imports Composition Sandbox FileTools EventStream SessionList Auth PolicyAdmin Providers
begin

text \<open>
  A verification library for OpenJax, a coding agent written in Rust. A theory names the files it models
  at its top; paths below are those of \<open>src/\<close>.

  \<^bold>\<open>The program and its parts.\<close> A client submits operations to an agent (\<open>openjax-core\<close>). A user
  turn is a loop of requests to a model: each response is streamed, and is either the final answer or a
  batch of tool calls, which are checked by guards, routed to the tools and answered to the model. Every
  tool call passes the orchestrator, which asks the policy centre (\<open>openjax-policy\<close>) for a decision and
  the user for approval; shell commands run in a sandbox. The gateway (\<open>openjax-gateway\<close>) runs the
  agents of many sessions for clients on the network: it logs each event of a session in a transcript,
  numbers and publishes it, streams it, restores sessions after a restart, keeps the index of all
  sessions, authenticates clients and administers the policy.

  \<^bold>\<open>Theories.\<close>
  \<^item> Prelude: the operations of Rust's \<open>str\<close> the program uses (trimming, splitting, searching,
    decimal numbers, lower case) on \<open>string\<close>, JSON values, \<open>u64\<close>, saturating
    counters; the locale \<open>comparator\<close> (the laws of \<open>Iterator::max_by\<close>) and the locale \<open>bounded_queue\<close>
    (a list that drops its oldest items), interpreted by the policy centre, the history, the loop
    detector.
  \<^item> PolicyCenter (\<open>openjax-policy/src\<close>): rules, \<open>decide\<close>, the store with its built-in rule, session
    overlays, versions. PolicyAdmin (\<open>openjax-gateway/src/handlers/policy.rs\<close>, \<open>state/config.rs\<close>): drafts,
    publishing, levels, and the runtime of a turn, with an abstract policy that the requests refine.
  \<^item> Protocol (\<open>openjax-protocol\<close>): operations and events.
  \<^item> ShellRisk, ShellOutput, Sandbox (\<open>openjax-core/src/sandbox\<close>, \<open>tools/shell.rs\<close>): what is recognised in a
    command, the text its run is reported in and the parser of that text, \<open>execute_shell\<close> with its
    backends, time-outs, degradation and the approval of a run outside the sandbox.
  \<^item> Workspace, FileTools (\<open>tools/common.rs\<close>, \<open>tools/handlers\<close>): paths and their confinement, also on a
    file system of directories, files and symbolic links; \<open>Read\<close>, \<open>Edit\<close>, \<open>write_file\<close>.
  \<^item> ToolContext, Orchestrator, ToolRouter (\<open>openjax-core/src/tools\<close>): a tool call with its payload and output,
    the registry, the approval exchange, the command syntax and \<open>ToolRouter::execute\<close>.
  \<^item> LoopDetector, History, Conversation, ToolCalls, Planner, TurnDispatch (\<open>openjax-core/src/agent\<close>, \<open>lib.rs\<close>):
    repeated calls; the state of an agent with its history, compaction and duplicate calls; messages and
    the response stream; the guards and outcome of one native tool call; the rounds of a turn; \<open>submit\<close>.
  \<^item> Composition: the agent with router and orchestrator as its tools, and the locale \<open>world_invariant\<close> by
    which facts about one operation of the outside become facts about sessions.
  \<^item> ModelClients, ModelRouting (\<open>openjax-core/src/model\<close>, \<open>streaming/parser\<close>): requests, responses and streams
    of the two services, and which configured model serves a request.
  \<^item> SessionStore, Providers (\<open>openjax-store/src\<close>, \<open>openjax-gateway/src/handlers/provider.rs\<close>,
    \<open>openjax-core/src/provider_store.rs\<close>): the database with its statements and their faults; the model
    services it configures, their administration, and the configuration of a session made from them.
  \<^item> Transcript, SessionIndex (\<open>openjax-gateway/src/transcript\<close>): logs on segment files, and the snapshot, log
    and directories of the index, with the faults of the disk as arguments.
  \<^item> EventMapper, SessionRuntime, Gateway, EventStream, SessionList (\<open>openjax-gateway/src\<close>): client events; the
    turns, numbering and replay buffer of a session; append, publish, turn tasks, session actions and
    recovery; the event stream; creation, deletion, titles and the pages of the list of sessions.
  \<^item> AuthStore, Auth (\<open>openjax-gateway/src/auth\<close>, \<open>auth_handlers.rs\<close>, \<open>middleware.rs\<close>): the tables of logins and
    every statement on them, and the service, limiter, cookies, middleware and handlers above.

  \<^bold>\<open>Conventions.\<close> A struct is a \<open>record\<close>, an enum a \<open>datatype\<close>; fields whose type is a lock or a channel
  are the state they guard, passed along. A fallible operation returns a sum, the error on the left, or an
  option. What the code reaches outside the repository is a record of functions (\<open>orch_env\<close>,
  \<open>agent_env\<close>, \<open>gateway_env\<close> and others) on an abstract world \<open>'w\<close>, which they may change: models, tools
  of the registry, users, processes, files. A series of operations is a \<open>fold\<close> over a datatype of
  requests (\<open>session\<close>, \<open>auth_run\<close>, \<open>policy_request_run\<close>, \<open>index_step\<close>); tasks that run beside each
  other (a lagging stream, events sent while a client catches up) are the \<open>inductive\<close> relations \<open>feed\<close>
  and \<open>disk_reached\<close>.

  \<^bold>\<open>What the lemmas show.\<close>
  \<^item> Authority: no call is dispatched without the policy or the user (Orchestrator), a program starts outside
    the sandbox only with approval or when nothing risky is recognised (Sandbox), writes stay in the
    workspace unless their path is itself a dangling link (Workspace), and without approvals a session leaves the world as it was (this theory).
    The decision engine is a maximum of a preorder, so independent of the listing of its rules (PolicyCenter),
    and the requests of its administrators mean what they say (PolicyAdmin).
  \<^item> Turns: budgets and termination of the planner, answers to every tool call, at most one commit, the
    events that bracket a turn, the latest of the answered turns in the history, soundness of the loop detector.
  \<^item> Streams: the text of a response is the sum of its deltas, however the bytes are cut; what a listener
    rebuilds is the response; resumed event streams have no gaps.
  \<^item> Durability: transcripts are numbered without gaps through the faults they survive; a session and the index are
    after a restart what they were, for the operations and faults their theorems name; an event that is not
    logged is not sent. The counterexamples beside them show what the faults left out do.
  \<^item> Authentication: sessions need a key, refresh tokens work once, a logout the database takes locks the session, the
    limiter bounds each window.
  \<^item> Configuration: the store keeps the messages of a session as a numbered log; the title
    cache forgets the oldest first; a session is answered by the provider that was active when it was built, with
    its model, key and address.

  \<^bold>\<open>Bounds and fuel.\<close> The planner recurses on the rounds that \<open>max_planner_rounds\<close> leaves; \<open>turn_budgets\<close>
  shows that it always ends. \<open>all_pages\<close> gets fuel, and \<open>session_pages_cover_index\<close> shows that the length of the index
  is enough. Loops over texts are \<open>function\<close>s that terminate by the length of the rest; the search for a name
  that is not taken (\<open>free_id\<close>) by the number of names left to collide with.

  \<^bold>\<open>Integers.\<close> Policy versions are \<open>u64\<close> words that wrap; the epochs and counters that saturate do so here too;
  sequence numbers of events stop at the greatest \<open>u64\<close>. Lengths, indices and \<open>u32\<close> counters of one turn are
  \<open>nat\<close>: they count items held in memory. The ratio of a compaction is the pair it is computed from.

  \<^bold>\<open>Not modelled.\<close>
  \<^item> Characters are those up to U+00FF. Chinese texts of prompts are parameters, so is the prompt of the
    summariser. Parsing of JSON, UTF-8, RFC 3339 times, base64 and hashes are parameters; so are deserialisers
    that are derived. A file the tools read is decoded text.
  \<^item> Logging, metrics, clocks (the time is an argument), HTTP framing, headers and request identifiers. The
    configuration and its paths are read outside; the terminal prompt for approvals is the parameter \<open>oe_ask\<close>.
  \<^item> \<open>append_event\<close> of the gateway also refreshes the index entry of its session: its failure is logged
    only, and Gateway leaves it out; SessionIndex models the operation it calls. Failures that are forced in debug
    builds are left out.
  \<^item> The stdio transport, the terminal interface, skills, slash commands, the command line, search tools that
    run \<open>ripgrep\<close>, system tools that read \<open>sysinfo\<close>: effects of libraries with little logic of their own.
    The decision parser (\<open>agent/decision.rs\<close>) and the dispatcher serve a JSON protocol that no turn uses
    any more.
  \<^item> In Auth, durations so long that adding them to a time panics.
\<close>

section \<open>Properties of the whole agent\<close>

text \<open>C28: the guarantee the approval exchange is there for. When the policy asks by default and has no
  rules of its own, and the user never answers yes, no operation of any session, whatever the model
  proposes, however it is retried and whatever the tool handlers would do, has an effect: no approval
  is remembered, and whatever the outside keeps of the world (all of it but the tool handlers), the
  session keeps.\<close>

theorem refused_session_untouched:
  assumes r: "refusing ro env host J" and J: "J w"
    and s: "session (routed_host host) (routed_env ro env) ops a ([], w) = (a', evss, ap, w')"
  shows "ap = [] \<and> J w'"
  using world_invariant.session_keeps_world [OF refusing_invariant [OF r] s] J by (simp add: unapproved_def)

theorem refused_session_untouched_witness:
  "snd (snd (session (routed_host still_host) (routed_env counting_router insisting_env)
     [UserTurn ''clean up''] example_agent ([], 0))) = ([], 0)"
proof -
  obtain a' evss ap w' where s: "session (routed_host still_host) (routed_env counting_router insisting_env)
      [UserTurn ''clean up''] example_agent ([], 0) = (a', evss, ap, w')" by (metis prod_cases4)
  show ?thesis using refused_session_untouched [OF counting_refuses refl s] s by simp
qed

end
